(* ===== verification/DQ_Prelude.thy ===== *)
theory DQ_Prelude
  imports Complex_Main "HOL-Library.Word" "HOL-Library.AList" "HOL-Library.Product_Lexorder" "HOL-Library.Log_Nat"
    "HOL-Library.List_Lexorder" "HOL-Library.Char_ord" "HOL-Library.Multiset"
begin

text \<open>
  Shared vocabulary of the development: identifiers, the exceptions of
  \<^verbatim>\<open>django_queue/backends/exceptions.py\<close> together with the built-in ones the code raises,
  fallible state-passing programs, and the ordered dictionaries of Python.

  A Python call that may raise and may change state is a function from the state to a result
  and the state left behind; the state is returned on the error branch too, because Python
  keeps every change made before the exception was raised.
\<close>

section \<open>Identifiers and exceptions\<close>

text \<open>A \<^verbatim>\<open>uuid.UUID\<close> is its 128-bit integer; comparison of UUIDs is comparison of integers.\<close>

type_synonym uuid = "128 word"

text \<open>
  The exception classes. Messages are left out; the queue-specific classes that carry an entry
  id keep it, because callers read it back.
\<close>

datatype pyerror =
    TypeError
  | ValueError
  | OverflowError
  | AttributeError
  | KeyError
  | RuntimeError
  | CancelledError
  | InvalidQueueBackendError
  | QueueFullException
  | QueueEmptyException
  | QueueClaimConflictError uuid
  | QueueEntryExpiredError uuid
  | QueueEntryMissingError uuid
  | QueueEntryNotFoundError uuid
  | QueueEncodingException
  | QueueValueError
  | QueueClockError
  | QueuePersistenceError

section \<open>Fallible programs\<close>

type_synonym 'a result = "pyerror + 'a"
type_synonym ('a, 's) prog = "'s \<Rightarrow> 'a result \<times> 's"

definition ok :: "'a \<Rightarrow> ('a, 's) prog" where
  "ok x s = (Inr x, s)"

definition raise :: "pyerror \<Rightarrow> ('a, 's) prog" where
  "raise e s = (Inl e, s)"

definition bindE :: "('a, 's) prog \<Rightarrow> ('a \<Rightarrow> ('b, 's) prog) \<Rightarrow> ('b, 's) prog" where
  "bindE m f s = (case m s of (Inl e, s') \<Rightarrow> (Inl e, s') | (Inr x, s') \<Rightarrow> f x s')"

definition lift_result :: "'a result \<Rightarrow> ('a, 's) prog" where
  "lift_result r s = (r, s)"

definition bindR :: "'a result \<Rightarrow> ('a \<Rightarrow> 'b result) \<Rightarrow> 'b result" where
  "bindR r f = (case r of Inl e \<Rightarrow> Inl e | Inr x \<Rightarrow> f x)"

text \<open>A \<^verbatim>\<open>for\<close> loop whose body may raise.\<close>

fun foreach :: "('a \<Rightarrow> (unit, 's) prog) \<Rightarrow> 'a list \<Rightarrow> (unit, 's) prog" where
  "foreach f [] s = (Inr (), s)"
| "foreach f (x # xs) s = bindE (f x) (\<lambda>_. foreach f xs) s"

named_theorems prog_simps \<open>equations that run fallible programs\<close>

lemma ok_apply [simp, prog_simps]: "ok x s = (Inr x, s)"
  by (simp add: ok_def)

lemma raise_apply [simp, prog_simps]: "raise e s = (Inl e, s)"
  by (simp add: raise_def)

lemma lift_result_apply [simp, prog_simps]: "lift_result r s = (r, s)"
  by (simp add: lift_result_def)

lemma bindE_Inr [simp, prog_simps]: "m s = (Inr x, s') \<Longrightarrow> bindE m f s = f x s'"
  by (simp add: bindE_def)

lemma bindE_Inl [simp, prog_simps]: "m s = (Inl e, s') \<Longrightarrow> bindE m f s = (Inl e, s')"
  by (simp add: bindE_def)

lemma bindE_lift: "bindE (lift_result r) f s = (case r of Inl err \<Rightarrow> (Inl err, s) | Inr x \<Rightarrow> f x s)"
  by (cases r) (simp_all add: bindE_def)

text \<open>
  \<^verbatim>\<open>try\<close> with a handler: the handler sees the error and the state the body left behind.
  \<^verbatim>\<open>except Exception\<close> lets \<^verbatim>\<open>asyncio.CancelledError\<close> pass, which derives from
  \<^verbatim>\<open>BaseException\<close>.
\<close>

definition tryE :: "('a, 's) prog \<Rightarrow> (pyerror \<Rightarrow> ('a, 's) prog) \<Rightarrow> ('a, 's) prog" where
  "tryE m h s = (case m s of (Inl e, s') \<Rightarrow> h e s' | (Inr x, s') \<Rightarrow> (Inr x, s'))"

definition except_Exception :: "('a, 's) prog \<Rightarrow> (pyerror \<Rightarrow> ('a, 's) prog) \<Rightarrow> ('a, 's) prog" where
  "except_Exception m h = tryE m (\<lambda>e. if e = CancelledError then raise e else h e)"

lemma tryE_simps [simp, prog_simps]:
  "m s = (Inr x, s') \<Longrightarrow> tryE m h s = (Inr x, s')"
  "m s = (Inl e, s') \<Longrightarrow> tryE m h s = h e s'"
  by (simp_all add: tryE_def)

lemma except_Exception_simps [simp, prog_simps]:
  "m s = (Inr x, s') \<Longrightarrow> except_Exception m h s = (Inr x, s')"
  "m s = (Inl e, s') \<Longrightarrow> e \<noteq> CancelledError \<Longrightarrow> except_Exception m h s = h e s'"
  "m s = (Inl CancelledError, s') \<Longrightarrow> except_Exception m h s = (Inl CancelledError, s')"
  by (simp_all add: except_Exception_def)

lemma bindR_simps [simp, prog_simps]:
  "bindR (Inl e) f = Inl e"
  "bindR (Inr x) f = f x"
  by (simp_all add: bindR_def)

lemma bindE_Inr_iff:
  "bindE m f s = (Inr y, t) \<longleftrightarrow> (\<exists>x s'. m s = (Inr x, s') \<and> f x s' = (Inr y, t))"
  by (auto simp: bindE_def split: prod.splits sum.splits)

lemma bindE_Inl_iff:
  "bindE m f s = (Inl e, t) \<longleftrightarrow>
     m s = (Inl e, t) \<or> (\<exists>x s'. m s = (Inr x, s') \<and> f x s' = (Inl e, t))"
  by (auto simp: bindE_def split: prod.splits sum.splits)

lemma bindR_Inr_iff: "bindR r f = Inr y \<longleftrightarrow> (\<exists>x. r = Inr x \<and> f x = Inr y)"
  by (cases r) auto

lemma bindR_Inl_iff: "bindR r f = Inl e \<longleftrightarrow> r = Inl e \<or> (\<exists>x. r = Inr x \<and> f x = Inl e)"
  by (cases r) auto

lemmas prog_elims = bindE_Inr_iff bindE_Inl_iff bindR_Inr_iff bindR_Inl_iff

section \<open>Ordered dictionaries\<close>

text \<open>
  A Python \<^verbatim>\<open>dict\<close> iterates in insertion order; assigning to a present key keeps its
  position. An association list with \<open>AList.update\<close> and \<open>AList.delete\<close> has exactly this
  behaviour.
\<close>

type_synonym ('k, 'v) pydict = "('k \<times> 'v) list"

abbreviation dict_get :: "('k, 'v) pydict \<Rightarrow> 'k \<Rightarrow> 'v option" where
  "dict_get d k \<equiv> map_of d k"

abbreviation dict_set :: "'k \<Rightarrow> 'v \<Rightarrow> ('k, 'v) pydict \<Rightarrow> ('k, 'v) pydict" where
  "dict_set k v d \<equiv> AList.update k v d"

abbreviation dict_pop :: "'k \<Rightarrow> ('k, 'v) pydict \<Rightarrow> ('k, 'v) pydict" where
  "dict_pop k d \<equiv> AList.delete k d"

abbreviation keys :: "('k, 'v) pydict \<Rightarrow> 'k list" where
  "keys d \<equiv> map fst d"

lemma dict_get_set [simp]: "dict_get (dict_set k v d) k' = (if k' = k then Some v else dict_get d k')"
  by (simp add: update_conv')

lemma dict_get_pop [simp]: "dict_get (dict_pop k d) k' = (if k' = k then None else dict_get d k')"
  by (simp add: delete_conv')

lemma keys_pop [simp]: "keys (dict_pop k d) = filter (\<lambda>x. x \<noteq> k) (keys d)"
  by (induction d) auto

lemma distinct_keys_set [simp]: "distinct (keys d) \<Longrightarrow> distinct (keys (dict_set k v d))"
  by (rule distinct_update)

text \<open>The keys as a set: \<^verbatim>\<open>k in d\<close>.\<close>

definition dkeys :: "('k, 'v) pydict \<Rightarrow> 'k set" where
  "dkeys d = fst ` set d"

lemma dkeys_dom: "dkeys d = dom (dict_get d)"
  by (simp add: dkeys_def dom_map_of_conv_image_fst)

lemma dict_get_keys: "k \<in> dkeys d \<longleftrightarrow> dict_get d k \<noteq> None"
  by (simp only: dkeys_dom domIff)

lemma dkeys_simps [simp]:
  "dkeys [] = {}"
  "dkeys (dict_set k v d) = insert k (dkeys d)"
  "dkeys (dict_pop k d) = dkeys d - {k}"
  by (simp_all add: set_eq_iff dict_get_keys)

lemma dict_get_None [simp]: "dict_get d k = None \<longleftrightarrow> k \<notin> dkeys d"
  by (simp only: dict_get_keys not_not)

lemma dict_case_None [simp]: "k \<notin> dkeys d \<Longrightarrow> (case dict_get d k of None \<Rightarrow> a | Some v \<Rightarrow> f v) = a"
  by (simp only: dict_get_keys not_not option.case)

lemma dict_get_keysE: "k \<in> dkeys d \<Longrightarrow> (\<And>v. dict_get d k = Some v \<Longrightarrow> P) \<Longrightarrow> P"
  unfolding dict_get_keys by blast

lemma dict_get_dkeys: "dict_get d k = Some v \<Longrightarrow> k \<in> dkeys d"
  by (simp only: dict_get_keys) simp

lemma set_keys: "set (keys d) = dkeys d"
  by (simp add: dkeys_def)

declare map_of_eq_Some_iff [simp del] map_of_eq_None_iff [simp del]

lemma dict_items_get: "distinct (keys d) \<Longrightarrow> (k, v) \<in> set d \<longleftrightarrow> dict_get d k = Some v"
  by (metis map_of_SomeD map_of_is_SomeI)

section \<open>Lists\<close>

lemma filter_neq_id [simp]: "x \<notin> set xs \<Longrightarrow> filter (\<lambda>y. y \<noteq> x) xs = xs"
  by (induction xs) auto

lemma remove1_distinct_filter: "distinct xs \<Longrightarrow> remove1 x xs = filter (\<lambda>y. y \<noteq> x) xs"
  by (induction xs) auto

lemma count_list_distinct: "distinct xs \<Longrightarrow> count_list xs x = (if x \<in> set xs then 1 else 0)"
  by (induction xs) auto

end
