(* ===== verification/Py_Numbers.thy ===== *)
theory Py_Numbers
  imports DQ_Prelude
begin

text \<open>
  Python's numbers as far as the queue code uses them: unbounded \<^verbatim>\<open>int\<close> and IEEE-754
  double \<^verbatim>\<open>float\<close>. A finite float is its rational value; every float operation is the exact
  rational operation followed by \<open>fl\<close>, rounding to the nearest double with ties to even
  (53 significant bits, least quantum \<open>2 powi -1074\<close>), and becomes an infinity at or above
  \<open>2 ^ 1024\<close>. The two zeros are not told apart. The lemmas bound the error of \<open>fl\<close>; the
  round-trip theorem of the clock rests on them.
\<close>

section \<open>Rounding to an integer, ties to even\<close>

definition rne :: "rat \<Rightarrow> int" where
  "rne x = (let f = \<lfloor>x\<rfloor>; d = x - of_int f in
     if d < 1/2 then f else if 1/2 < d then f + 1 else if even f then f else f + 1)"

lemma rne_error: "\<bar>of_int (rne x) - x\<bar> \<le> 1/2"
proof -
  define d where "d = x - of_int \<lfloor>x\<rfloor>"
  have "0 \<le> d" "d < 1"
    using floor_correct[of x] by (auto simp: d_def algebra_simps)
  moreover have "of_int (rne x) - x = - d \<and> d \<le> 1/2 \<or> of_int (rne x) - x = 1 - d \<and> 1/2 \<le> d"
    unfolding rne_def Let_def d_def[symmetric] by (auto simp: d_def)
  ultimately show ?thesis by (auto simp: abs_if)
qed

lemma rne_unique: "\<bar>x - of_int n\<bar> < 1/2 \<Longrightarrow> rne x = n"
proof -
  assume "\<bar>x - of_int n\<bar> < 1/2"
  with rne_error[of x] have "\<bar>(of_int (rne x) :: rat) - of_int n\<bar> < 1" by linarith
  then have "of_int \<bar>rne x - n\<bar> < (1 :: rat)" by simp
  then show ?thesis by linarith
qed

lemma rne_of_int [simp]: "rne (of_int n) = n"
  by (rule rne_unique) simp

section \<open>Rounding to a double\<close>

text \<open>\<open>expo x\<close> is the binary exponent of a positive rational, read off its two bit lengths.\<close>

definition expo :: "rat \<Rightarrow> int" where
  "expo x = (let (n, d) = quotient_of x; k = bitlen n - bitlen d in
     if 2 powi k \<le> x then k else k - 1)"

definition quantum :: "rat \<Rightarrow> rat" where
  "quantum x = 2 powi (max (expo \<bar>x\<bar> - 52) (-1074))"

definition fl :: "rat \<Rightarrow> rat" where
  "fl x = (if x = 0 then 0 else of_int (rne (x / quantum x)) * quantum x)"

lemma powi_bitlen: "0 < (n::int) \<Longrightarrow> 2 powi (bitlen n - 1) \<le> (of_int n :: rat) \<and> (of_int n :: rat) < 2 powi (bitlen n)"
proof -
  assume n: "0 < n"
  then have b: "0 < bitlen n" by (simp add: bitlen_eq_zero_iff bitlen_nonneg order_less_le)
  have "2 ^ nat (bitlen n - 1) \<le> n" "n < 2 ^ nat (bitlen n)"
    using bitlen_bounds[OF n] by auto
  then have "(of_int (2 ^ nat (bitlen n - 1)) :: rat) \<le> of_int n"
    "(of_int n :: rat) < of_int (2 ^ nat (bitlen n))" by (simp_all only: of_int_le_iff of_int_less_iff)
  with b show ?thesis by (simp add: power_int_def)
qed

lemma expo_bounds:
  assumes "0 < x"
  shows "2 powi (expo x) \<le> x \<and> x < 2 powi (expo x + 1)"
proof -
  obtain n d where q: "quotient_of x = (n, d)" by fastforce
  then have d: "0 < d" and x: "x = of_int n / of_int d"
    using quotient_of_denom_pos quotient_of_div by auto
  with assms have n: "0 < n" by (simp add: zero_less_divide_iff)
  let ?k = "bitlen n - bitlen d"
  have lo: "2 powi (?k - 1) \<le> x"
  proof -
    have "2 powi (bitlen n - 1) / 2 powi (bitlen d) \<le> (of_int n / of_int d :: rat)"
      using powi_bitlen[OF n] powi_bitlen[OF d] d n by (intro frac_le) auto
    moreover have "(2::rat) powi (bitlen n - 1) / 2 powi (bitlen d) = 2 powi (?k - 1)"
      using power_int_diff[of "2::rat" "bitlen n - 1" "bitlen d"] by (simp add: algebra_simps)
    ultimately show ?thesis using x by simp
  qed
  have hi: "x < 2 powi (?k + 1)"
  proof -
    have "(of_int n / of_int d :: rat) < 2 powi (bitlen n) / 2 powi (bitlen d - 1)"
      using powi_bitlen[OF n] powi_bitlen[OF d] n by (intro frac_less) auto
    then show ?thesis using x by (simp add: power_int_diff power_int_add algebra_simps)
  qed
  show ?thesis
    using lo hi q by (simp add: expo_def Let_def)
qed

lemma quantum_pos [simp]: "0 < quantum x"
  by (simp add: quantum_def)

lemma fl_error: "\<bar>fl x - x\<bar> \<le> quantum x / 2"
proof (cases "x = 0")
  case True
  then show ?thesis using quantum_pos[of x] by (simp add: fl_def less_imp_le del: quantum_pos)
next
  case False
  have "fl x - x = (of_int (rne (x / quantum x)) - x / quantum x) * quantum x"
    using False quantum_pos[of x] by (auto simp: fl_def field_simps simp del: quantum_pos)
  then have "\<bar>fl x - x\<bar> = \<bar>of_int (rne (x / quantum x)) - x / quantum x\<bar> * quantum x"
    using quantum_pos[of x] by (simp add: abs_mult del: quantum_pos)
  also have "\<dots> \<le> 1/2 * quantum x"
    using rne_error by (rule mult_right_mono) (simp add: less_imp_le)
  finally show ?thesis by simp
qed

lemma expo_less:
  assumes "0 < x" "x < 2 powi k"
  shows "expo x < k"
proof (rule ccontr)
  assume "\<not> expo x < k"
  then have "(2::rat) powi k \<le> 2 powi (expo x)" by (intro power_int_increasing) auto
  with assms expo_bounds[of x] show False by auto
qed

lemma fl_error_powi:
  assumes "\<bar>x\<bar> < 2 powi k" "-1021 \<le> k"
  shows "\<bar>fl x - x\<bar> \<le> 2 powi (k - 54)"
proof (cases "x = 0")
  case True
  then show ?thesis by (simp add: fl_def)
next
  case False
  then have "expo \<bar>x\<bar> < k" using assms by (intro expo_less) auto
  with assms(2) have "quantum x \<le> 2 powi (k - 53)"
    unfolding quantum_def by (intro power_int_increasing) auto
  also have "\<dots> = 2 * 2 powi (k - 54)"
    using power_int_add_1[of "2::rat" "k - 54"] by (simp add: algebra_simps)
  finally show ?thesis using fl_error[of x] by simp
qed

text \<open>The same bound with ordinary powers, for magnitudes of at least one.\<close>

lemma fl_error_nat:
  assumes "\<bar>x\<bar> < 2 ^ k" "k \<le> 54"
  shows "\<bar>fl x - x\<bar> \<le> 1 / 2 ^ (54 - k)"
proof -
  have "\<bar>fl x - x\<bar> \<le> 2 powi (int k - 54)"
    using assms by (intro fl_error_powi) (auto simp: power_int_def)
  also have "\<dots> = 1 / 2 ^ (54 - k)"
  proof -
    have "int k - 54 = - int (54 - k)" using assms(2) by simp
    then show ?thesis by (simp only: power_int_minus power_int_of_nat inverse_eq_divide)
  qed
  finally show ?thesis .
qed

text \<open>Integers up to \<open>2 ^ 53\<close> are doubles.\<close>

lemma fl_of_int:
  assumes "\<bar>i\<bar> < 2 ^ 53"
  shows "fl (of_int i) = of_int i"
proof (cases "i = 0")
  case True
  then show ?thesis by (simp add: fl_def)
next
  case False
  let ?x = "of_int i :: rat"
  let ?m = "max (expo \<bar>?x\<bar> - 52) (-1074)"
  have "\<bar>?x\<bar> < 2 ^ 53" using assms
    by (metis of_int_abs of_int_less_iff of_int_numeral of_int_power)
  then have "expo \<bar>?x\<bar> < 53" using False by (intro expo_less) (auto simp: power_int_def)
  then have m: "?m \<le> 0" by simp
  then have "?x / quantum ?x = of_int (i * 2 ^ nat (- ?m))"
    unfolding quantum_def by (auto simp: power_int_def field_simps)
  then have "rne (?x / quantum ?x) = i * 2 ^ nat (- ?m)" by (simp only: rne_of_int)
  moreover have "of_int (i * 2 ^ nat (- ?m)) * quantum ?x = ?x"
    using m unfolding quantum_def by (auto simp: power_int_def field_simps)
  ultimately show ?thesis using False by (simp add: fl_def)
qed

lemma fl_numeral: "numeral n < (2 ^ 53 :: int) \<Longrightarrow> fl (numeral n) = numeral n"
  using fl_of_int[of "numeral n"] by simp

section \<open>Floats and numbers\<close>

datatype pyfloat = Fin rat | PosInf | NegInf | NaN

datatype pynum = PyInt int | PyFloat pyfloat

text \<open>The result of a float operation whose exact value is \<open>x\<close>.\<close>

definition to_double :: "rat \<Rightarrow> pyfloat" where
  "to_double x = (let r = fl x in
     if 2 ^ 1024 \<le> r then PosInf else if r \<le> - (2 ^ 1024) then NegInf else Fin r)"

text \<open>\<^verbatim>\<open>float(i)\<close> raises \<^verbatim>\<open>OverflowError\<close> for an integer beyond the double range.\<close>

definition int_to_float :: "int \<Rightarrow> rat result" where
  "int_to_float i = (case to_double (of_int i) of Fin r \<Rightarrow> Inr r | _ \<Rightarrow> Inl OverflowError)"

text \<open>True division of two integers, \<^verbatim>\<open>i / d\<close> with \<open>d > 0\<close>, is correctly rounded.\<close>

definition int_truediv :: "int \<Rightarrow> int \<Rightarrow> rat result" where
  "int_truediv i d = (case to_double (of_int i / of_int d) of Fin r \<Rightarrow> Inr r | _ \<Rightarrow> Inl OverflowError)"

fun math_isfinite :: "pynum \<Rightarrow> bool result" where
  "math_isfinite (PyInt i) = bindR (int_to_float i) (\<lambda>_. Inr True)"
| "math_isfinite (PyFloat (Fin r)) = Inr True"
| "math_isfinite (PyFloat _) = Inr False"

fun num_value :: "pynum \<Rightarrow> rat option" where
  "num_value (PyInt i) = Some (of_int i)"
| "num_value (PyFloat (Fin r)) = Some r"
| "num_value (PyFloat _) = None"

text \<open>\<^verbatim>\<open>a <= b\<close> on numbers: exact, and false as soon as a NaN takes part.\<close>

fun num_le :: "pynum \<Rightarrow> pynum \<Rightarrow> bool" where
  "num_le (PyFloat NaN) b = False"
| "num_le a (PyFloat NaN) = False"
| "num_le (PyFloat NegInf) b = True"
| "num_le a (PyFloat PosInf) = True"
| "num_le (PyFloat PosInf) b = False"
| "num_le a (PyFloat NegInf) = False"
| "num_le a b = (case (num_value a, num_value b) of (Some x, Some y) \<Rightarrow> x \<le> y | _ \<Rightarrow> False)"

fun num_neg :: "pynum \<Rightarrow> pynum" where
  "num_neg (PyInt i) = PyInt (- i)"
| "num_neg (PyFloat (Fin r)) = PyFloat (Fin (- r))"
| "num_neg (PyFloat PosInf) = PyFloat NegInf"
| "num_neg (PyFloat NegInf) = PyFloat PosInf"
| "num_neg (PyFloat NaN) = PyFloat NaN"

text \<open>\<^verbatim>\<open>x * k\<close> for a positive integer \<open>k\<close> that is a double itself.\<close>

fun num_scale :: "pynum \<Rightarrow> int \<Rightarrow> pynum" where
  "num_scale (PyInt i) k = PyInt (i * k)"
| "num_scale (PyFloat (Fin r)) k = PyFloat (to_double (r * of_int k))"
| "num_scale (PyFloat f) k = PyFloat f"

text \<open>\<^verbatim>\<open>round(x)\<close>: ties to even, and no integer for the non-finite floats.\<close>

fun py_round :: "pynum \<Rightarrow> int result" where
  "py_round (PyInt i) = Inr i"
| "py_round (PyFloat (Fin r)) = Inr (rne r)"
| "py_round (PyFloat NaN) = Inl ValueError"
| "py_round (PyFloat _) = Inl OverflowError"

text \<open>\<^verbatim>\<open>a + b\<close>: exact on integers, rounded on floats; an integer joins a float sum as a float.\<close>

fun float_add :: "pyfloat \<Rightarrow> pyfloat \<Rightarrow> pyfloat" where
  "float_add (Fin a) (Fin b) = to_double (a + b)"
| "float_add NaN b = NaN"
| "float_add a NaN = NaN"
| "float_add PosInf NegInf = NaN"
| "float_add NegInf PosInf = NaN"
| "float_add PosInf b = PosInf"
| "float_add NegInf b = NegInf"
| "float_add a b = b"

fun num_add :: "pynum \<Rightarrow> pynum \<Rightarrow> pynum result" where
  "num_add (PyInt a) (PyInt b) = Inr (PyInt (a + b))"
| "num_add (PyInt a) (PyFloat g) = bindR (int_to_float a) (\<lambda>x. Inr (PyFloat (float_add (Fin x) g)))"
| "num_add (PyFloat f) (PyInt b) = bindR (int_to_float b) (\<lambda>y. Inr (PyFloat (float_add f (Fin y))))"
| "num_add (PyFloat f) (PyFloat g) = Inr (PyFloat (float_add f g))"

text \<open>\<^verbatim>\<open>x / d\<close> for a positive integer \<open>d\<close> that is a double itself.\<close>

fun num_truediv :: "pynum \<Rightarrow> int \<Rightarrow> pynum result" where
  "num_truediv (PyInt i) d = bindR (int_truediv i d) (\<lambda>r. Inr (PyFloat (Fin r)))"
| "num_truediv (PyFloat (Fin r)) d = Inr (PyFloat (to_double (r / of_int d)))"
| "num_truediv (PyFloat f) d = Inr (PyFloat f)"

lemma fl_small: "\<bar>x\<bar> < 2 ^ 54 \<Longrightarrow> \<bar>fl x\<bar> < 2 ^ 55"
  using fl_error_nat[of x 54] by (auto simp: abs_if split: if_splits)

lemma to_double_small: "\<bar>x\<bar> < 2 ^ 54 \<Longrightarrow> to_double x = Fin (fl x)"
proof -
  assume "\<bar>x\<bar> < 2 ^ 54"
  then have "\<bar>fl x\<bar> < 2 ^ 55" by (rule fl_small)
  also have "(2::rat) ^ 55 \<le> 2 ^ 1024" by (rule power_increasing) auto
  finally show ?thesis by (auto simp: to_double_def Let_def abs_if not_le split: if_splits)
qed

lemma int_to_float_exact: "\<bar>i\<bar> < 2 ^ 53 \<Longrightarrow> int_to_float i = Inr (of_int i)"
proof -
  assume i: "\<bar>i\<bar> < 2 ^ 53"
  then have "(of_int \<bar>i\<bar> :: rat) < of_int (2 ^ 53)" by (simp only: of_int_less_iff)
  then have "\<bar>of_int i :: rat\<bar> < 2 ^ 54" by simp
  with i show ?thesis by (simp add: int_to_float_def to_double_small fl_of_int)
qed

lemma of_int_abs_less: "\<bar>e\<bar> < 2 ^ k \<Longrightarrow> \<bar>of_int e :: rat\<bar> < 2 ^ k"
  by (metis of_int_abs of_int_less_iff of_int_numeral of_int_power)

lemma micros_small: "\<bar>e\<bar> < 2 ^ 50 \<Longrightarrow> \<bar>of_int e / 1000000 :: rat\<bar> < 2 ^ 31"
  using of_int_abs_less[of e 50] by (simp add: abs_if split: if_splits)

text \<open>
  Dividing a count of microseconds by a million and multiplying it back loses nothing after
  rounding, for spans below \<open>2 ^ 50\<close> microseconds (about 35 years).
\<close>

lemma micros_roundtrip:
  fixes e :: int
  assumes "\<bar>e\<bar> < 2 ^ 50"
  shows "rne (fl (fl (of_int e / 1000000) * 1000000)) = e"
proof -
  let ?x = "of_int e / 1000000 :: rat"
  let ?y = "fl ?x * 1000000"
  have e: "\<bar>of_int e :: rat\<bar> < 2 ^ 50" using assms by (rule of_int_abs_less)
  have "\<bar>fl ?x - ?x\<bar> \<le> 1 / 2 ^ (54 - 31)"
    using micros_small[OF assms] by (rule fl_error_nat) simp
  then have 1: "\<bar>?y - of_int e\<bar> \<le> 1000000 / 2 ^ 23" by (simp add: abs_if split: if_splits)
  with e have "\<bar>?y\<bar> < 2 ^ 51" by (simp add: abs_if split: if_splits)
  then have "\<bar>fl ?y - ?y\<bar> \<le> 1 / 2 ^ (54 - 51)" by (rule fl_error_nat) simp
  with 1 have "\<bar>fl ?y - of_int e\<bar> < 1/2" by (simp add: abs_if split: if_splits)
  then show ?thesis by (rule rne_unique)
qed

end
