(* ===== verification/Py_Values.thy ===== *)
theory Py_Values
  imports Py_Numbers
begin

text \<open>
  The values the queue code passes around: instants (\<^verbatim>\<open>ClockTime\<close> of
  \<^verbatim>\<open>django_queue/clock.py\<close>), lifecycle states (\<^verbatim>\<open>QueueEntryStatus\<close> of
  \<^verbatim>\<open>django_queue/entries.py\<close>) and dynamically typed Python objects, with the two views the
  JSON module gives of them: whether \<^verbatim>\<open>json.dumps\<close> accepts a value, and what
  \<^verbatim>\<open>json.loads\<close> reads back. A string is a list of characters; \<open>PObj\<close> stands for an instance
  of any other class, which \<^verbatim>\<open>json\<close> refuses.
\<close>

section \<open>Instants\<close>

datatype clock_time = ClockTime (seconds: int) (microseconds: int)

instantiation clock_time :: linorder
begin

definition less_eq_clock_time :: "clock_time \<Rightarrow> clock_time \<Rightarrow> bool" where
  "less_eq_clock_time a b \<longleftrightarrow>
     seconds a < seconds b \<or> seconds a = seconds b \<and> microseconds a \<le> microseconds b"

definition less_clock_time :: "clock_time \<Rightarrow> clock_time \<Rightarrow> bool" where
  "less_clock_time a b \<longleftrightarrow>
     seconds a < seconds b \<or> seconds a = seconds b \<and> microseconds a < microseconds b"

instance
  by standard (auto simp: less_eq_clock_time_def less_clock_time_def clock_time.expand)

end

section \<open>Lifecycle states\<close>

datatype QueueEntryStatus = QUEUED | RUNNING | SUCCEEDED | FAILED | CANCELLED | TIMEOUT | TERMINATED

fun status_value :: "QueueEntryStatus \<Rightarrow> string" where
  "status_value QUEUED = ''queued''"
| "status_value RUNNING = ''running''"
| "status_value SUCCEEDED = ''succeeded''"
| "status_value FAILED = ''failed''"
| "status_value CANCELLED = ''cancelled''"
| "status_value TIMEOUT = ''timeout''"
| "status_value TERMINATED = ''terminated''"

text \<open>\<^verbatim>\<open>QueueEntryStatus(value)\<close>: lookup by value, a \<^verbatim>\<open>ValueError\<close> otherwise.\<close>

definition status_of_value :: "string \<Rightarrow> QueueEntryStatus result" where
  "status_of_value v =
     (case find (\<lambda>s. status_value s = v)
            [QUEUED, RUNNING, SUCCEEDED, FAILED, CANCELLED, TIMEOUT, TERMINATED] of
        Some s \<Rightarrow> Inr s | None \<Rightarrow> Inl ValueError)"

lemma status_of_value_roundtrip [simp]: "status_of_value (status_value s) = Inr s"
  by (cases s) (simp_all add: status_of_value_def)

lemma status_value_inj [simp]: "status_value s = status_value t \<longleftrightarrow> s = t"
  by (cases s; cases t) simp_all

section \<open>Python objects\<close>

datatype pyval =
    PNone
  | PBool bool
  | PNum pynum
  | PStr string
  | PList "pyval list"
  | PTuple "pyval list"
  | PDict "(pyval \<times> pyval) list"
  | PUuid uuid
  | PStatus QueueEntryStatus
  | PClock clock_time
  | PObj string

text \<open>
  Decimal rendering of an integer, as \<^verbatim>\<open>str(i)\<close> and as \<^verbatim>\<open>json\<close> renders an integer key.
\<close>

fun nat_digits :: "nat \<Rightarrow> string" where
  "nat_digits n = (if n < 10 then [char_of (48 + n)] else nat_digits (n div 10) @ [char_of (48 + n mod 10)])"

declare nat_digits.simps [simp del]

definition int_str :: "int \<Rightarrow> string" where
  "int_str i = (if i < 0 then CHR ''-'' # nat_digits (nat (- i)) else nat_digits (nat i))"

text \<open>
  \<^verbatim>\<open>json.dumps\<close> accepts \<^verbatim>\<open>None\<close>, booleans, numbers (the non-finite floats too),
  strings, lists and tuples of accepted values, and dictionaries whose keys are
  strings, numbers, booleans or \<^verbatim>\<open>None\<close>. A \<^verbatim>\<open>StrEnum\<close> member is a string.
\<close>

fun json_key_ok :: "pyval \<Rightarrow> bool" where
  "json_key_ok PNone = True"
| "json_key_ok (PBool b) = True"
| "json_key_ok (PNum n) = True"
| "json_key_ok (PStr s) = True"
| "json_key_ok (PStatus s) = True"
| "json_key_ok _ = False"

fun json_ok :: "pyval \<Rightarrow> bool" where
  "json_ok PNone = True"
| "json_ok (PBool b) = True"
| "json_ok (PNum n) = True"
| "json_ok (PStr s) = True"
| "json_ok (PList xs) = (\<forall>x \<in> set xs. json_ok x)"
| "json_ok (PTuple xs) = (\<forall>x \<in> set xs. json_ok x)"
| "json_ok (PDict kvs) = (\<forall>kv \<in> set kvs. json_key_ok (fst kv) \<and> json_ok (snd kv))"
| "json_ok (PStatus s) = True"
| "json_ok (PUuid u) = False"
| "json_ok (PClock t) = False"
| "json_ok (PObj c) = False"

text \<open>
  A JSON document: what \<^verbatim>\<open>json.loads\<close> can return. Objects have string keys.
\<close>

fun is_pystr :: "pyval \<Rightarrow> bool" where
  "is_pystr (PStr s) = True"
| "is_pystr _ = False"

fun json_doc :: "pyval \<Rightarrow> bool" where
  "json_doc PNone = True"
| "json_doc (PBool b) = True"
| "json_doc (PNum n) = True"
| "json_doc (PStr s) = True"
| "json_doc (PList xs) = (\<forall>x \<in> set xs. json_doc x)"
| "json_doc (PDict kvs) =
     ((\<forall>kv \<in> set kvs. is_pystr (fst kv) \<and> json_doc (snd kv))
      \<and> distinct (map fst kvs))"
| "json_doc _ = False"

text \<open>
  What \<^verbatim>\<open>json.loads(json.dumps(v))\<close> gives: tuples come back as lists, keys as strings (a later
  duplicate overwrites). A float key, which \<^verbatim>\<open>json\<close> renders in decimal, is kept as it is.
\<close>

fun json_key :: "pyval \<Rightarrow> pyval" where
  "json_key PNone = PStr ''null''"
| "json_key (PBool b) = PStr (if b then ''true'' else ''false'')"
| "json_key (PNum (PyInt i)) = PStr (int_str i)"
| "json_key (PStatus s) = PStr (status_value s)"
| "json_key k = k"

definition dict_of_pairs :: "(pyval \<times> pyval) list \<Rightarrow> (pyval \<times> pyval) list" where
  "dict_of_pairs kvs = fold (\<lambda>kv d. dict_set (fst kv) (snd kv) d) kvs []"

fun json_norm :: "pyval \<Rightarrow> pyval" where
  "json_norm (PList xs) = PList (map json_norm xs)"
| "json_norm (PTuple xs) = PList (map json_norm xs)"
| "json_norm (PDict kvs) =
     PDict (dict_of_pairs (map (\<lambda>kv. (json_key (fst kv), json_norm (snd kv))) kvs))"
| "json_norm (PStatus s) = PStr (status_value s)"
| "json_norm v = v"

lemma fold_dict_set_distinct:
  "distinct (map fst acc @ map fst kvs) \<Longrightarrow> fold (\<lambda>kv d. dict_set (fst kv) (snd kv) d) kvs acc = acc @ kvs"
proof (induction kvs arbitrary: acc)
  case Nil
  then show ?case by simp
next
  case (Cons kv kvs)
  have "dict_set (fst kv) (snd kv) acc = acc @ [kv]"
    using Cons.prems by (induction acc) auto
  with Cons show ?case by simp
qed

lemma dict_of_pairs_distinct [simp]: "distinct (map fst kvs) \<Longrightarrow> dict_of_pairs kvs = kvs"
  using fold_dict_set_distinct[of "[]" kvs] by (simp add: dict_of_pairs_def)

lemma json_key_pystr [simp]: "is_pystr k \<Longrightarrow> json_key k = k"
  by (cases k rule: is_pystr.cases) auto

text \<open>Documents read back unchanged.\<close>

lemma json_norm_doc [simp]: "json_doc v \<Longrightarrow> json_norm v = v"
proof (induction v rule: json_norm.induct)
  case (3 kvs)
  have "map (\<lambda>kv. (json_key (fst kv), json_norm (snd kv))) kvs = kvs"
    using 3 by (intro map_idI) auto
  with 3 show ?case by auto
qed (auto intro: map_idI)

text \<open>What JSON accepts stays acceptable when it is read back.\<close>

lemma set_dict_of_pairs: "set (dict_of_pairs kvs) \<subseteq> set kvs"
proof -
  have upd: "set (dict_set k v d) \<subseteq> insert (k, v) (set d)" for k v and d :: "(pyval \<times> pyval) list"
    by (induction d) auto
  have "set (fold (\<lambda>kv d. dict_set (fst kv) (snd kv) d) kvs acc) \<subseteq> set acc \<union> set kvs" for acc
  proof (induction kvs arbitrary: acc)
    case (Cons kv kvs)
    show ?case using Cons.IH[of "dict_set (fst kv) (snd kv) acc"] upd[of "fst kv" "snd kv" acc] by auto
  qed simp
  from this[of "[]"] show ?thesis by (simp add: dict_of_pairs_def)
qed

lemma json_key_ok_key: "json_key_ok k \<Longrightarrow> json_key_ok (json_key k)"
  by (cases k rule: json_key.cases) auto

lemma json_ok_norm: "json_ok v \<Longrightarrow> json_ok (json_norm v)"
proof (induction v rule: json_norm.induct)
  case (3 kvs)
  have "json_key_ok (fst kv) \<and> json_ok (snd kv)"
    if "kv \<in> set (map (\<lambda>kv. (json_key (fst kv), json_norm (snd kv))) kvs)" for kv
    using that 3 json_key_ok_key by auto
  then show ?case using set_dict_of_pairs by fastforce
qed auto

text \<open>Values without float keys, whose decimal rendering is not modelled.\<close>

fun no_float_keys :: "pyval \<Rightarrow> bool" where
  "no_float_keys (PList xs) = (\<forall>x \<in> set xs. no_float_keys x)"
| "no_float_keys (PTuple xs) = (\<forall>x \<in> set xs. no_float_keys x)"
| "no_float_keys (PDict kvs) =
     (\<forall>kv \<in> set kvs. (case fst kv of PNum (PyFloat x) \<Rightarrow> False | _ \<Rightarrow> True) \<and> no_float_keys (snd kv))"
| "no_float_keys v = True"

lemma json_doc_no_float_keys: "json_doc v \<Longrightarrow> no_float_keys v"
proof (induction v rule: no_float_keys.induct)
  case (3 kvs)
  have "(case k of PNum (PyFloat x) \<Rightarrow> False | _ \<Rightarrow> True)" if "is_pystr k" for k
    using that by (cases k) auto
  with 3 show ?case by auto
qed auto

end
