(* ===== verification/Queue_Clock.thy ===== *)
theory Queue_Clock
  imports Py_Values
begin

text \<open>
  \<^verbatim>\<open>django_queue/clock.py\<close>: the \<^verbatim>\<open>ClockTime\<close> operations, with Python's float arithmetic
  where the source uses it, and the Redis-calibrated clock as a state machine over its
  calibration fields. The readings of the outside world (\<^verbatim>\<open>time.time()\<close>, the monotonic
  clock, the reply of \<^verbatim>\<open>Redis TIME\<close>) are arguments.
\<close>

section \<open>ClockTime\<close>

abbreviation MICROSECONDS_PER_SECOND :: int where
  "MICROSECONDS_PER_SECOND \<equiv> 1000000"

text \<open>\<^verbatim>\<open>type(x) is int\<close>: a boolean is not accepted.\<close>

fun is_int :: "pyval \<Rightarrow> int option" where
  "is_int (PNum (PyInt i)) = Some i"
| "is_int _ = None"

definition clock_post_init :: "pyval \<Rightarrow> pyval \<Rightarrow> clock_time result" where
  "clock_post_init s us =
     (case is_int s of None \<Rightarrow> Inl TypeError | Some s' \<Rightarrow>
      case is_int us of None \<Rightarrow> Inl TypeError | Some us' \<Rightarrow>
        if \<not> (0 \<le> us' \<and> us' < MICROSECONDS_PER_SECOND) then Inl ValueError
        else if s' < 0 then Inl ValueError
        else Inr (ClockTime s' us'))"

definition clock_new :: "int \<Rightarrow> int \<Rightarrow> clock_time result" where
  "clock_new s us = clock_post_init (PNum (PyInt s)) (PNum (PyInt us))"

definition from_timeval :: "pyval \<Rightarrow> pyval \<Rightarrow> clock_time result" where
  "from_timeval s us = clock_post_init s us"

definition from_timestamp :: "pyval \<Rightarrow> clock_time result" where
  "from_timestamp ts =
     (case ts of
        PNum n \<Rightarrow>
          bindR (math_isfinite n) (\<lambda>fin.
            if \<not> fin then Inl ValueError
            else (case n of
                PyInt i \<Rightarrow> if i < 0 then Inl ValueError else clock_new i 0
              | PyFloat (Fin r) \<Rightarrow>
                  if r < 0 then Inl ValueError
                  else (let secs = \<lfloor>r\<rfloor> in
                    bindR (int_to_float secs) (\<lambda>fsecs.
                    bindR (py_round (num_scale (PyFloat (to_double (r - fsecs))) MICROSECONDS_PER_SECOND)) (\<lambda>us.
                      if us = MICROSECONDS_PER_SECOND then clock_new (secs + 1) 0
                      else clock_new secs us)))
              | PyFloat _ \<Rightarrow> Inl ValueError))
      | _ \<Rightarrow> Inl TypeError)"

text \<open>
  A datetime is naive, or an exact count of microseconds from the epoch; subtracting the epoch
  gives a normalised \<^verbatim>\<open>timedelta\<close> of days, seconds and microseconds.
\<close>

datatype datetime = Naive | Aware int

definition from_datetime :: "datetime \<Rightarrow> clock_time result" where
  "from_datetime moment =
     (case moment of Naive \<Rightarrow> Inl ValueError | Aware n \<Rightarrow>
        let days = n div (86400 * MICROSECONDS_PER_SECOND);
            secs = n div MICROSECONDS_PER_SECOND mod 86400;
            us = n mod MICROSECONDS_PER_SECOND;
            s = days * 86400 + secs
        in if s < 0 then Inl ValueError else clock_new s us)"

definition to_timestamp :: "clock_time \<Rightarrow> pynum result" where
  "to_timestamp t =
     bindR (int_truediv (microseconds t) MICROSECONDS_PER_SECOND) (\<lambda>frac.
     bindR (int_to_float (seconds t)) (\<lambda>s. Inr (PyFloat (to_double (s + frac)))))"

definition total_microseconds :: "clock_time \<Rightarrow> int" where
  "total_microseconds t = seconds t * MICROSECONDS_PER_SECOND + microseconds t"

definition clock_add :: "clock_time \<Rightarrow> pynum \<Rightarrow> clock_time result" where
  "clock_add t duration =
     bindR (math_isfinite duration) (\<lambda>fin.
       if \<not> fin then Inl ValueError
       else bindR (py_round (num_scale duration MICROSECONDS_PER_SECOND)) (\<lambda>us.
         let shifted = total_microseconds t + us in
         if shifted < 0 then Inl ValueError
         else clock_new (shifted div MICROSECONDS_PER_SECOND) (shifted mod MICROSECONDS_PER_SECOND)))"

text \<open>\<^verbatim>\<open>__sub__\<close>: the first overload measures, the second shifts back.\<close>

definition clock_diff :: "clock_time \<Rightarrow> clock_time \<Rightarrow> rat result" where
  "clock_diff a b = int_truediv (total_microseconds a - total_microseconds b) MICROSECONDS_PER_SECOND"

definition clock_sub :: "clock_time \<Rightarrow> pynum \<Rightarrow> clock_time result" where
  "clock_sub t duration = clock_add t (num_neg duration)"

definition elapsed_time :: "clock_time option \<Rightarrow> clock_time option \<Rightarrow> rat option result" where
  "elapsed_time start end =
     (case start of None \<Rightarrow> Inr None | Some a \<Rightarrow>
      case end of None \<Rightarrow> Inr None | Some b \<Rightarrow>
        bindR (clock_diff b a) (\<lambda>secs. Inr (if secs < 0 then None else Some secs)))"

section \<open>Well-formed instants\<close>

definition clock_ok :: "clock_time \<Rightarrow> bool" where
  "clock_ok t \<longleftrightarrow> 0 \<le> seconds t \<and> 0 \<le> microseconds t \<and> microseconds t < MICROSECONDS_PER_SECOND"

lemma clock_new_Inr: "clock_new s us = Inr t \<longleftrightarrow>
    0 \<le> s \<and> 0 \<le> us \<and> us < MICROSECONDS_PER_SECOND \<and> t = ClockTime s us"
  by (auto simp: clock_new_def clock_post_init_def)

lemma clock_post_init_ok: "clock_post_init s us = Inr t \<Longrightarrow> clock_ok t"
  by (auto simp: clock_post_init_def clock_ok_def split: option.splits if_splits)

lemma clock_new_ok: "clock_new s us = Inr t \<Longrightarrow> clock_ok t"
  by (simp add: clock_new_def clock_post_init_ok)

lemma clock_add_ok: "clock_add t d = Inr t' \<Longrightarrow> clock_ok t'"
  by (auto simp: clock_add_def Let_def bindR_Inr_iff split: if_splits dest: clock_new_ok)

lemma from_timestamp_ok: "from_timestamp v = Inr t \<Longrightarrow> clock_ok t"
  by (auto simp: from_timestamp_def Let_def bindR_Inr_iff dest: clock_new_ok
      split: pyval.splits pynum.splits pyfloat.splits if_splits)

lemma clock_new_total: "0 \<le> n \<Longrightarrow> clock_new (n div 1000000) (n mod 1000000) = Inr (ClockTime (n div 1000000) (n mod 1000000))"
  by (simp add: clock_new_Inr pos_imp_zdiv_nonneg_iff)

lemma clock_of_total: "clock_ok t \<Longrightarrow>
    ClockTime (total_microseconds t div 1000000) (total_microseconds t mod 1000000) = t"
  by (cases t) (simp add: clock_ok_def total_microseconds_def)

lemma total_nonneg: "clock_ok t \<Longrightarrow> 0 \<le> total_microseconds t"
  by (simp add: clock_ok_def total_microseconds_def)

text \<open>The microsecond count is a faithful and order-preserving reading of a well-formed instant.\<close>

lemma total_less_iff: "clock_ok a \<Longrightarrow> clock_ok b \<Longrightarrow> total_microseconds a < total_microseconds b \<longleftrightarrow> a < b"
  by (auto simp: clock_ok_def total_microseconds_def less_clock_time_def)

lemma total_le_iff: "clock_ok a \<Longrightarrow> clock_ok b \<Longrightarrow> total_microseconds a \<le> total_microseconds b \<longleftrightarrow> a \<le> b"
  using total_less_iff[of b a] by (auto simp: not_less[symmetric])

text \<open>Shifting by a float number of seconds that stands for a whole number of microseconds.\<close>

lemma clock_add_micros:
  assumes "clock_ok t" "\<bar>e\<bar> < 2 ^ 50" "0 \<le> total_microseconds t + e"
  shows "clock_add t (PyFloat (Fin (fl (of_int e / 1000000)))) =
    Inr (ClockTime ((total_microseconds t + e) div 1000000) ((total_microseconds t + e) mod 1000000))"
proof -
  let ?x = "of_int e / 1000000 :: rat"
  have "\<bar>fl ?x - ?x\<bar> \<le> 1 / 2 ^ (54 - 31)"
    using micros_small[OF assms(2)] by (rule fl_error_nat) simp
  with of_int_abs_less[OF assms(2)] have "\<bar>fl ?x * 1000000\<bar> < 2 ^ 54" by (simp add: abs_if split: if_splits)
  then have "num_scale (PyFloat (Fin (fl ?x))) 1000000 = PyFloat (Fin (fl (fl ?x * 1000000)))"
    by (simp add: to_double_small)
  then show ?thesis
    using assms micros_roundtrip[OF assms(2)] by (simp add: clock_add_def Let_def clock_new_total)
qed

text \<open>A positive duration of at most \<open>2 ^ 29\<close> seconds (17 years) can always be added.\<close>

lemma clock_add_lifetime:
  assumes "clock_ok t" "num_value n = Some x" "0 < x" "x \<le> 2 ^ 29"
  shows "\<exists>d. clock_add t n = Inr d \<and> clock_ok d \<and> t \<le> d \<and> total_microseconds d - total_microseconds t < 2 ^ 50"
proof -
  have "\<exists>us. py_round (num_scale n 1000000) = Inr us \<and> math_isfinite n = Inr True \<and> 0 \<le> us \<and> us < 2 ^ 50"
  proof (cases n rule: num_value.cases)
    case (1 i)
    then have "of_int i \<le> (of_int (2 ^ 29) :: rat)" "0 < (of_int i :: rat)" using assms by simp_all
    then have "i \<le> 2 ^ 29" "0 < i" by (simp_all only: of_int_le_iff of_int_0_less_iff)
    with 1 show ?thesis by (simp add: int_to_float_exact)
  next
    case (2 r)
    then have r: "0 < r" "r \<le> 2 ^ 29" using assms by auto
    let ?y = "r * 1000000"
    have "\<bar>?y\<bar> < 2 ^ 50" using r by simp
    then have 1: "\<bar>fl ?y - ?y\<bar> \<le> 1 / 2 ^ 4" and d: "to_double ?y = Fin (fl ?y)"
      using fl_error_nat[of ?y 50] by (simp_all add: to_double_small)
    have "- 1 < (of_int (rne (fl ?y)) :: rat)" "(of_int (rne (fl ?y)) :: rat) < 2 ^ 50"
      using 1 rne_error[of "fl ?y"] r by (auto simp: abs_if split: if_splits)
    then have "0 \<le> rne (fl ?y)" "rne (fl ?y) < 2 ^ 50"
      by linarith (metis \<open>of_int (rne (fl ?y)) < 2 ^ 50\<close> of_int_less_iff of_int_numeral of_int_power)
    with 2 d show ?thesis by simp
  qed (use assms in auto)
  then obtain us where us: "py_round (num_scale n 1000000) = Inr us" "math_isfinite n = Inr True" "0 \<le> us" "us < 2 ^ 50"
    by blast
  let ?m = "total_microseconds t + us"
  let ?d = "ClockTime (?m div 1000000) (?m mod 1000000)"
  have d: "clock_add t n = Inr ?d"
    using us total_nonneg[OF assms(1)] by (simp add: clock_add_def Let_def clock_new_total)
  then have "clock_ok ?d" by (rule clock_add_ok)
  moreover have "total_microseconds ?d = ?m" by (simp add: total_microseconds_def)
  ultimately show ?thesis using us d total_le_iff[OF assms(1), of ?d] by auto
qed

lemma clock_diff_micros:
  assumes "\<bar>total_microseconds a - total_microseconds b\<bar> < 2 ^ 50"
  shows "clock_diff a b = Inr (fl (of_int (total_microseconds a - total_microseconds b) / 1000000))"
proof -
  have "\<bar>of_int (total_microseconds a - total_microseconds b) / 1000000 :: rat\<bar> < 2 ^ 54"
    using micros_small[OF assms] by simp
  then show ?thesis by (simp add: clock_diff_def int_truediv_def to_double_small del: of_int_diff)
qed

text \<open>Equations that compute shifts by whole seconds.\<close>

lemmas clock_eval =
  clock_add_def int_to_float_exact Let_def clock_new_def clock_post_init_def total_microseconds_def

section \<open>The durable form of an instant\<close>

text \<open>
  The count of seconds a stored entry carries is a double. The double nearest to a
  well-formed instant below \<open>2 ^ 33\<close> seconds (the year 2242) lies in the same second, and its
  distance from the exact value stays below half a microsecond.
\<close>

lemma timestamp_float:
  assumes "clock_ok t" "seconds t < 2 ^ 33"
  shows "to_timestamp t =
    Inr (PyFloat (Fin (fl (of_int (seconds t) + fl (of_int (microseconds t) / 1000000)))))"
proof -
  have "\<bar>of_int (microseconds t) / 1000000 :: rat\<bar> < 2 ^ 0"
    using assms(1) by (auto simp: clock_ok_def abs_if)
  then have f: "\<bar>fl (of_int (microseconds t) / 1000000)\<bar> < 2"
    using fl_error_nat[of "of_int (microseconds t) / 1000000" 0] by (simp add: abs_if split: if_splits)
  have "\<bar>of_int (seconds t) :: rat\<bar> < 2 ^ 33"
    using assms by (intro of_int_abs_less) (simp add: clock_ok_def)
  with f have "\<bar>of_int (seconds t) + fl (of_int (microseconds t) / 1000000)\<bar> < 2 ^ 54"
    by (simp add: abs_if split: if_splits)
  moreover have "int_to_float (seconds t) = Inr (of_int (seconds t))"
    using assms by (intro int_to_float_exact) (simp add: clock_ok_def)
  moreover have "int_truediv (microseconds t) 1000000 = Inr (fl (of_int (microseconds t) / 1000000))"
    using \<open>\<bar>of_int (microseconds t) / 1000000 :: rat\<bar> < 2 ^ 0\<close>
    by (simp add: int_truediv_def to_double_small)
  ultimately show ?thesis by (simp add: to_timestamp_def to_double_small)
qed

lemma timestamp_close:
  assumes "clock_ok t" "seconds t < 2 ^ 33"
  defines "ts \<equiv> fl (of_int (seconds t) + fl (of_int (microseconds t) / 1000000))"
  shows "of_int (seconds t) \<le> ts" "ts < of_int (seconds t) + 1"
    "\<bar>(ts - of_int (seconds t)) * 1000000 - of_int (microseconds t)\<bar> \<le> 1000000 / 2 ^ 21 + 1000000 / 2 ^ 54"
proof -
  let ?s = "of_int (seconds t) :: rat" and ?m = "of_int (microseconds t) :: rat"
  let ?u = "?m / 1000000"
  have m: "0 \<le> ?m" "?m \<le> 999999" using assms(1) by (auto simp: clock_ok_def)
  have s: "0 \<le> ?s" "?s \<le> 2 ^ 33 - 1" using assms(1,2) by (auto simp: clock_ok_def)
  have 1: "\<bar>fl ?u - ?u\<bar> \<le> 1 / 2 ^ 54" using fl_error_nat[of ?u 0] m by simp
  have "\<bar>?s + fl ?u\<bar> < 2 ^ 33" using s m 1 by (simp add: abs_if split: if_splits)
  then have 2: "\<bar>ts - (?s + fl ?u)\<bar> \<le> 1 / 2 ^ 21"
    using fl_error_nat[of "?s + fl ?u" 33] unfolding ts_def by simp
  show "\<bar>(ts - ?s) * 1000000 - ?m\<bar> \<le> 1000000 / 2 ^ 21 + 1000000 / 2 ^ 54"
    using 1 2 by (simp add: abs_if split: if_splits)
  show "ts < ?s + 1" using 1 2 m by (simp add: abs_if split: if_splits)
  show "?s \<le> ts"
  proof (cases "microseconds t = 0")
    case True
    then have "ts = fl ?s" by (simp add: ts_def fl_def[of 0])
    also have "\<dots> = ?s" using assms(1,2) by (intro fl_of_int) (simp add: clock_ok_def)
    finally show ?thesis by simp
  next
    case False
    with assms(1) have "1 \<le> ?m" by (simp add: clock_ok_def)
    with 1 2 show ?thesis by (simp add: abs_if split: if_splits)
  qed
qed

lemma timestamp_roundtrip:
  assumes "clock_ok t" "seconds t < 2 ^ 33"
  shows "bindR (to_timestamp t) (\<lambda>n. from_timestamp (PNum n)) = Inr t"
proof -
  define ts where "ts = fl (of_int (seconds t) + fl (of_int (microseconds t) / 1000000))"
  define d where "d = ts - of_int (seconds t)"
  note close = timestamp_close[OF assms, folded ts_def]
  have floor: "\<lfloor>ts\<rfloor> = seconds t" using close by (simp add: floor_eq_iff)
  have s: "int_to_float (seconds t) = Inr (of_int (seconds t))"
    using assms by (intro int_to_float_exact) (simp add: clock_ok_def)
  have "0 \<le> ts" using close(1) assms(1) by (simp add: clock_ok_def)
  have d: "0 \<le> d" "d < 1" using close by (simp_all add: d_def)
  then have 1: "\<bar>fl d - d\<bar> \<le> 1 / 2 ^ 54" using fl_error_nat[of d 0] by simp
  with d have "\<bar>fl d * 1000000\<bar> < 2 ^ 20" by (simp add: abs_if split: if_splits)
  then have 2: "\<bar>fl (fl d * 1000000) - fl d * 1000000\<bar> \<le> 1 / 2 ^ 34" and
    sc: "to_double (fl d * 1000000) = Fin (fl (fl d * 1000000))"
    using fl_error_nat[of "fl d * 1000000" 20] by (simp_all add: to_double_small)
  have "\<bar>fl (fl d * 1000000) - of_int (microseconds t)\<bar> < 1/2"
    using 1 2 close(3) unfolding d_def[symmetric] by (simp add: abs_if split: if_splits)
  then have us: "rne (fl (fl d * 1000000)) = microseconds t" by (rule rne_unique)
  have dd: "to_double d = Fin (fl d)" using d by (intro to_double_small) simp
  have "from_timestamp (PNum (PyFloat (Fin ts))) = clock_new (seconds t) (microseconds t)"
    using \<open>0 \<le> ts\<close> assms(1) us sc dd s floor unfolding d_def
    by (simp add: from_timestamp_def Let_def clock_ok_def)
  also have "\<dots> = Inr t" using assms(1) by (cases t) (simp add: clock_new_Inr clock_ok_def)
  finally show ?thesis using timestamp_float[OF assms] by (simp add: ts_def)
qed

section \<open>The Redis-calibrated clock\<close>

text \<open>
  The fields of \<^verbatim>\<open>RedisQueueClock\<close> that its methods read and write. A calibration is the
  pair of the offset and the monotonic reading taken with it. Locks only serialise these
  operations, so each operation is one transition; whether a refresh task exists is kept as a flag.
\<close>

record redis_clock =
  rc_asynchronous :: bool
  rc_refresh_interval :: rat
  rc_last_refresh_attempt :: "rat option"
  rc_offset :: "rat option"
  rc_refreshing :: bool
  rc_refresh_task :: bool

definition redis_clock_init :: "rat \<Rightarrow> bool \<Rightarrow> redis_clock" where
  "redis_clock_init interval asynchronous =
     \<lparr>rc_asynchronous = asynchronous, rc_refresh_interval = interval,
      rc_last_refresh_attempt = None, rc_offset = None, rc_refreshing = False, rc_refresh_task = False\<rparr>"

abbreviation MAX_CLOCK_DRIFT_SECONDS :: rat where
  "MAX_CLOCK_DRIFT_SECONDS \<equiv> 180"

definition needs_refresh :: "redis_clock \<Rightarrow> rat \<Rightarrow> bool" where
  "needs_refresh c monotonic_now =
     (case rc_last_refresh_attempt c of None \<Rightarrow> True
      | Some attempt \<Rightarrow> rc_refresh_interval c \<le> fl (monotonic_now - attempt))"

text \<open>
  \<open>reply\<close> is what the Redis client's \<^verbatim>\<open>time()\<close> gave, \<open>None\<close> when it raised.
\<close>

definition read_calibration ::
    "clock_time \<Rightarrow> (pyval \<times> pyval) option \<Rightarrow> rat \<Rightarrow> (rat \<times> rat) result" where
  "read_calibration local_time reply monotonic =
     (case reply of None \<Rightarrow> Inl QueueClockError | Some (s, us) \<Rightarrow>
      case bindR (from_timeval s us) (\<lambda>t. clock_diff t local_time) of
        Inl TypeError \<Rightarrow> Inl QueueClockError
      | Inl ValueError \<Rightarrow> Inl QueueClockError
      | Inl e \<Rightarrow> Inl e
      | Inr offset \<Rightarrow>
          if MAX_CLOCK_DRIFT_SECONDS < \<bar>offset\<bar> then Inl QueueClockError
          else Inr (offset, monotonic))"

definition set_calibration :: "rat \<times> rat \<Rightarrow> redis_clock \<Rightarrow> redis_clock" where
  "set_calibration calibration c =
     (let (offset, read_at) = calibration in
      c\<lparr>rc_offset := Some offset, rc_last_refresh_attempt := Some read_at\<rparr>)"

text \<open>
  Reading the time: calibrate first when there is no offset yet, otherwise start at most one
  background refresh when the interval has passed. \<open>calibration\<close> is the outcome of the
  calibration the call would make, \<open>utc\<close> the local reading taken last.
\<close>

definition redis_anow :: "rat \<Rightarrow> (rat \<times> rat) result \<Rightarrow> clock_time \<Rightarrow> (clock_time, redis_clock) prog" where
  "redis_anow monotonic_now calibration utc c =
     (case rc_offset c of
        None \<Rightarrow>
          (case calibration of
             Inl e \<Rightarrow> (Inl e, c)
           | Inr cal \<Rightarrow> (clock_add utc (PyFloat (Fin (fst cal))), set_calibration cal c))
      | Some offset \<Rightarrow>
          (clock_add utc (PyFloat (Fin offset)),
           if needs_refresh c monotonic_now \<and> \<not> rc_refreshing c
           then c\<lparr>rc_refreshing := True, rc_last_refresh_attempt := Some monotonic_now,
                  rc_refresh_task := rc_asynchronous c \<or> rc_refresh_task c\<rparr>
           else c))"

text \<open>
  The synchronous reading. An asynchronous clock answers from its offset alone and can only
  be calibrated from outside a running event loop.
\<close>

definition redis_now :: "bool \<Rightarrow> rat \<Rightarrow> (rat \<times> rat) result \<Rightarrow> clock_time \<Rightarrow> (clock_time, redis_clock) prog" where
  "redis_now in_running_loop monotonic_now calibration utc c =
     (if rc_asynchronous c then
        (case rc_offset c of
           None \<Rightarrow> if in_running_loop then (Inl QueueClockError, c)
                   else redis_anow monotonic_now calibration utc c
         | Some offset \<Rightarrow> (clock_add utc (PyFloat (Fin offset)), c))
      else redis_anow monotonic_now calibration utc c)"

text \<open>
  The background refresh, run to its end: only an untrustworthy clock is handled, any other
  error is raised again; the flag is cleared on every path.
\<close>

definition refresh_in_background :: "(rat \<times> rat) result \<Rightarrow> (unit, redis_clock) prog" where
  "refresh_in_background calibration c =
     (case calibration of
        Inl QueueClockError \<Rightarrow> (Inr (), c\<lparr>rc_refreshing := False, rc_refresh_task := False\<rparr>)
      | Inl e \<Rightarrow> (Inl e, c\<lparr>rc_refreshing := False, rc_refresh_task := False\<rparr>)
      | Inr cal \<Rightarrow> (Inr (), (set_calibration cal c)\<lparr>rc_refreshing := False, rc_refresh_task := False\<rparr>))"

definition clock_aclose :: "redis_clock \<Rightarrow> redis_clock" where
  "clock_aclose c =
     (if rc_refresh_task c then c\<lparr>rc_refreshing := False, rc_refresh_task := False\<rparr> else c)"

text \<open>Everything that can happen to a clock over its life, with any readings of the outside world.\<close>

inductive clock_step :: "redis_clock \<Rightarrow> redis_clock \<Rightarrow> bool" where
  step_anow: "clock_step c (snd (redis_anow m (read_calibration l r m') u c))"
| step_now: "clock_step c (snd (redis_now b m (read_calibration l r m') u c))"
| step_refresh: "rc_refreshing c \<Longrightarrow> clock_step c (snd (refresh_in_background (read_calibration l r m') c))"
| step_aclose: "clock_step c (clock_aclose c)"

inductive clock_reachable :: "redis_clock \<Rightarrow> bool" where
  reach_init: "clock_reachable (redis_clock_init interval asynchronous)"
| reach_step: "clock_reachable c \<Longrightarrow> clock_step c c' \<Longrightarrow> clock_reachable c'"

inductive_cases clock_step_cases: "clock_step c c'"

definition clock_inv :: "redis_clock \<Rightarrow> bool" where
  "clock_inv c \<longleftrightarrow>
     (\<forall>off. rc_offset c = Some off \<longrightarrow> \<bar>off\<bar> \<le> MAX_CLOCK_DRIFT_SECONDS) \<and>
     (rc_refreshing c \<longrightarrow> rc_offset c \<noteq> None)"

lemma read_calibration_bound: "read_calibration l r m = Inr cal \<Longrightarrow> \<bar>fst cal\<bar> \<le> MAX_CLOCK_DRIFT_SECONDS"
  by (auto simp: read_calibration_def split: option.splits prod.splits sum.splits pyerror.splits if_splits)

lemma clock_inv_anow: "clock_inv c \<Longrightarrow> clock_inv (snd (redis_anow m (read_calibration l r m') u c))"
  by (auto simp: clock_inv_def redis_anow_def set_calibration_def split: option.splits sum.splits
      dest: read_calibration_bound)

lemma clock_inv_now: "clock_inv c \<Longrightarrow> clock_inv (snd (redis_now b m (read_calibration l r m') u c))"
  using clock_inv_anow[of c] by (auto simp: redis_now_def split: option.splits)

lemma clock_inv_refresh: "clock_inv c \<Longrightarrow> clock_inv (snd (refresh_in_background (read_calibration l r m') c))"
  by (auto simp: clock_inv_def refresh_in_background_def set_calibration_def
      split: sum.splits pyerror.splits dest: read_calibration_bound)

lemma clock_inv_aclose: "clock_inv c \<Longrightarrow> clock_inv (clock_aclose c)"
  by (auto simp: clock_inv_def clock_aclose_def)

lemma clock_step_inv: "clock_step c c' \<Longrightarrow> clock_inv c \<Longrightarrow> clock_inv c'"
  by (induction rule: clock_step.induct)
    (auto intro: clock_inv_anow clock_inv_now clock_inv_refresh clock_inv_aclose)

lemma clock_reachable_inv: "clock_reachable c \<Longrightarrow> clock_inv c"
proof (induction rule: clock_reachable.induct)
  case (reach_init interval asynchronous)
  show ?case by (simp add: clock_inv_def redis_clock_init_def)
next
  case (reach_step c c')
  then show ?case by (blast intro: clock_step_inv)
qed

text \<open>Shifting by a permitted offset moves an instant by at most the permitted drift.\<close>

lemma drift_micros:
  assumes "\<bar>off\<bar> \<le> 180" "clock_add u (PyFloat (Fin off)) = Inr t" "clock_ok u"
  shows "\<bar>total_microseconds t - total_microseconds u\<bar> \<le> 180 * MICROSECONDS_PER_SECOND"
proof -
  have "\<bar>off * 1000000\<bar> < 2 ^ 28" using assms(1) by (simp add: abs_if split: if_splits)
  then have 1: "\<bar>fl (off * 1000000) - off * 1000000\<bar> \<le> 1 / 2 ^ 26"
    and d: "to_double (off * 1000000) = Fin (fl (off * 1000000))"
    using fl_error_nat[of "off * 1000000" 28] by (simp_all add: to_double_small)
  let ?n = "rne (fl (off * 1000000))"
  have "\<bar>of_int ?n :: rat\<bar> < 180000001"
    using 1 rne_error[of "fl (off * 1000000)"] assms(1) by (simp add: abs_if split: if_splits)
  then have n: "\<bar>?n\<bar> \<le> 180000000" by linarith
  let ?m = "total_microseconds u + ?n"
  have "0 \<le> ?m \<and> t = ClockTime (?m div 1000000) (?m mod 1000000)"
    using assms(2) d by (auto simp: clock_add_def Let_def clock_new_Inr split: if_splits)
  then have "total_microseconds t = ?m"
    by (simp add: total_microseconds_def)
  with n show ?thesis by simp
qed

end
