(* ===== verification/Queue_Entries.thy ===== *)
theory Queue_Entries
  imports Queue_Clock
begin

unbundle bit_operations_syntax

text \<open>
  \<^verbatim>\<open>django_queue/entries.py\<close>: the lifecycle relation, the shared validators, the immutable
  \<^verbatim>\<open>QueueEntry\<close> record with the checks of its constructor, and its wire form. Constructor
  arguments are dynamically typed objects; a constructed entry is typed. The fresh UUIDv7 and
  the fallback clock reading of \<^verbatim>\<open>create\<close> are arguments.
\<close>

section \<open>The lifecycle relation\<close>

fun next_state :: "QueueEntryStatus \<Rightarrow> QueueEntryStatus set" where
  "next_state QUEUED = {RUNNING, FAILED}"
| "next_state RUNNING = {QUEUED, SUCCEEDED, FAILED, CANCELLED, TIMEOUT}"
| "next_state SUCCEEDED = {TERMINATED}"
| "next_state FAILED = {TERMINATED}"
| "next_state CANCELLED = {TERMINATED}"
| "next_state TIMEOUT = {TERMINATED}"
| "next_state TERMINATED = {}"

definition terminal :: "QueueEntryStatus \<Rightarrow> bool" where
  "terminal s \<longleftrightarrow> TERMINATED \<in> next_state s"

lemma terminal_simps [simp]:
  "terminal SUCCEEDED" "terminal FAILED" "terminal CANCELLED" "terminal TIMEOUT"
  "\<not> terminal QUEUED" "\<not> terminal RUNNING" "\<not> terminal TERMINATED"
  by (simp_all add: terminal_def)

lemma terminal_next_state: "terminal s \<Longrightarrow> next_state s = {TERMINATED}"
  by (cases s) simp_all

section \<open>Validators\<close>

definition validate_budget :: "pyval \<Rightarrow> pynum result" where
  "validate_budget value =
     (case value of
        PNum n \<Rightarrow> bindR (math_isfinite n) (\<lambda>fin.
          if \<not> fin \<or> num_le n (PyInt 0) then Inl ValueError else Inr n)
      | _ \<Rightarrow> Inl TypeError)"

definition validate_priority :: "pyval \<Rightarrow> int result" where
  "validate_priority value = (case is_int value of None \<Rightarrow> Inl TypeError | Some i \<Rightarrow> Inr i)"

definition validate_json_value :: "pyval \<Rightarrow> unit result" where
  "validate_json_value value = (if json_ok value then Inr () else Inl TypeError)"

text \<open>A budget that passed the check: a finite, strictly positive number of seconds.\<close>

definition budget_ok :: "pynum \<Rightarrow> bool" where
  "budget_ok n \<longleftrightarrow> math_isfinite n = Inr True \<and> (\<exists>x. num_value n = Some x \<and> 0 < x)"

lemma num_le_zero: "num_value n = Some x \<Longrightarrow> num_le n (PyInt 0) \<longleftrightarrow> x \<le> 0"
  by (cases n rule: num_value.cases) auto

lemma isfinite_value: "math_isfinite n = Inr True \<Longrightarrow> \<exists>x. num_value n = Some x"
  by (cases n rule: num_value.cases) simp_all

lemma validate_budget_Inr: "validate_budget v = Inr n \<longleftrightarrow> v = PNum n \<and> budget_ok n"
proof (cases v)
  case (PNum m)
  show ?thesis
  proof (cases "math_isfinite m")
    case (Inl e)
    with PNum show ?thesis by (auto simp: validate_budget_def budget_ok_def)
  next
    case (Inr fin)
    show ?thesis
    proof (cases fin)
      case True
      with Inr obtain x where "num_value m = Some x" using isfinite_value by auto
      with PNum Inr True show ?thesis
        by (auto simp: validate_budget_def budget_ok_def num_le_zero not_le)
    qed (use PNum Inr in \<open>auto simp: validate_budget_def budget_ok_def\<close>)
  qed
qed (auto simp: validate_budget_def)

section \<open>UUIDs\<close>

definition uuid_version :: "uuid \<Rightarrow> nat option" where
  "uuid_version u = (if bit u 63 \<and> \<not> bit u 62 then Some (unat (drop_bit 76 u AND 15)) else None)"

fun hex_digits :: "nat \<Rightarrow> nat \<Rightarrow> nat list" where
  "hex_digits 0 n = []"
| "hex_digits (Suc k) n = hex_digits k (n div 16) @ [n mod 16]"

definition hex_char :: "nat \<Rightarrow> char" where
  "hex_char d = char_of (if d < 10 then 48 + d else 87 + d)"

text \<open>\<^verbatim>\<open>str(u)\<close>: 32 lower-case digits in five groups.\<close>

definition uuid_str :: "uuid \<Rightarrow> string" where
  "uuid_str u = (let h = map hex_char (hex_digits 32 (unat u)) in
     take 8 h @ ''-'' @ take 4 (drop 8 h) @ ''-'' @ take 4 (drop 12 h) @ ''-'' @
     take 4 (drop 16 h) @ ''-'' @ drop 20 h)"

definition hex_value :: "char \<Rightarrow> nat option" where
  "hex_value c = (let k = of_char c :: nat in
     if 48 \<le> k \<and> k \<le> 57 then Some (k - 48)
     else if 97 \<le> k \<and> k \<le> 102 then Some (k - 87)
     else if 65 \<le> k \<and> k \<le> 70 then Some (k - 55) else None)"

text \<open>
  \<^verbatim>\<open>uuid.UUID(s)\<close> for a string: hyphens are dropped and exactly 32 hexadecimal digits must
  remain. (The URN and brace spellings it also accepts do not occur in stored records.)
\<close>

definition uuid_parse :: "string \<Rightarrow> uuid result" where
  "uuid_parse s = (let h = filter (\<lambda>c. c \<noteq> CHR ''-'') s; ds = map hex_value h in
     if length h \<noteq> 32 \<or> None \<in> set ds then Inl ValueError
     else Inr (of_nat (foldl (\<lambda>a d. a * 16 + d) 0 (map the ds))))"

lemma hex_digits_bound: "d \<in> set (hex_digits k n) \<Longrightarrow> d < 16"
  by (induction k arbitrary: n) auto

lemma length_hex_digits [simp]: "length (hex_digits k n) = k"
  by (induction k arbitrary: n) auto

lemma foldl_hex_digits: "foldl (\<lambda>a d. a * 16 + d) 0 (hex_digits k n) = n mod 16 ^ k"
  by (induction k arbitrary: n) (simp_all add: mod_mult2_eq mult.commute add.commute)

lemma hex_char_cases:
  assumes "d < 16"
  shows "hex_value (hex_char d) = Some d" "hex_char d \<noteq> CHR ''-''"
proof -
  have k: "of_char (hex_char d) = (if d < 10 then 48 + d else 87 + d)"
    using assms by (simp add: hex_char_def of_char_of)
  then show "hex_value (hex_char d) = Some d"
    using assms by (simp add: hex_value_def Let_def)
  show "hex_char d \<noteq> CHR ''-''"
  proof
    assume "hex_char d = CHR ''-''"
    then have "of_char (hex_char d) = (45 :: nat)" by simp
    with k show False by (simp split: if_splits)
  qed
qed

lemma hyphenated_filter:
  assumes "CHR ''-'' \<notin> set h"
  shows "filter (\<lambda>c. c \<noteq> CHR ''-'') (take 8 h @ ''-'' @ take 4 (drop 8 h) @ ''-'' @ take 4 (drop 12 h) @
     ''-'' @ take 4 (drop 16 h) @ ''-'' @ drop 20 h) = h"
proof -
  have "take 4 (drop 16 h) @ drop 20 h = drop 16 h" using append_take_drop_id[of 4 "drop 16 h"] by simp
  moreover have "take 4 (drop 12 h) @ drop 16 h = drop 12 h" using append_take_drop_id[of 4 "drop 12 h"] by simp
  moreover have "take 4 (drop 8 h) @ drop 12 h = drop 8 h" using append_take_drop_id[of 4 "drop 8 h"] by simp
  moreover have "CHR ''-'' \<notin> set (take n h)" "CHR ''-'' \<notin> set (drop n h)"
    "CHR ''-'' \<notin> set (take m (drop n h))" for m n
    using assms by (auto dest: in_set_takeD in_set_dropD)
  ultimately show ?thesis by simp
qed

lemma uuid_str_digits:
  "filter (\<lambda>c. c \<noteq> CHR ''-'') (uuid_str u) = map hex_char (hex_digits 32 (unat u))"
  unfolding uuid_str_def Let_def
  by (rule hyphenated_filter) (use hex_digits_bound hex_char_cases(2) in fastforce)

lemma uuid_roundtrip [simp]: "uuid_parse (uuid_str u) = Inr u"
proof -
  let ?ds = "hex_digits 32 (unat u)"
  have vals: "map hex_value (map hex_char ?ds) = map Some ?ds"
    using hex_digits_bound hex_char_cases(1) by simp
  have "unat u < 16 ^ 32" using unsigned_less[of u, where 'a = nat] by simp
  then have "foldl (\<lambda>a d. a * 16 + d) 0 ?ds = unat u" by (simp add: foldl_hex_digits)
  then show ?thesis
    unfolding uuid_parse_def uuid_str_digits Let_def vals by (simp add: comp_def)
qed

section \<open>Queue entries\<close>

record queue_entry =
  qe_id :: uuid
  qe_queue :: string
  qe_status :: QueueEntryStatus
  qe_queued_at :: clock_time
  qe_dispatched_at :: "clock_time option"
  qe_finished_at :: "clock_time option"
  qe_payload :: pyval
  qe_result :: pyval
  qe_error :: pyval
  qe_timeout_seconds :: "pynum option"
  qe_priority :: int

text \<open>The constructor's arguments, before any check.\<close>

record entry_args =
  a_id :: pyval
  a_queue :: pyval
  a_status :: pyval
  a_queued_at :: pyval
  a_dispatched_at :: pyval
  a_finished_at :: pyval
  a_payload :: pyval
  a_result :: pyval
  a_error :: pyval
  a_timeout_seconds :: pyval
  a_priority :: pyval

fun as_uuid :: "pyval \<Rightarrow> uuid result" where
  "as_uuid (PUuid u) = Inr u"
| "as_uuid _ = Inl TypeError"

fun as_str :: "pyval \<Rightarrow> string result" where
  "as_str (PStr s) = Inr s"
| "as_str (PStatus s) = Inr (status_value s)"
| "as_str _ = Inl TypeError"

fun as_status :: "pyval \<Rightarrow> QueueEntryStatus result" where
  "as_status (PStatus s) = Inr s"
| "as_status _ = Inl TypeError"

fun as_clock :: "pyval \<Rightarrow> clock_time result" where
  "as_clock (PClock t) = Inr t"
| "as_clock _ = Inl TypeError"

fun as_clock_opt :: "pyval \<Rightarrow> clock_time option result" where
  "as_clock_opt PNone = Inr None"
| "as_clock_opt (PClock t) = Inr (Some t)"
| "as_clock_opt _ = Inl TypeError"

definition as_budget_opt :: "pyval \<Rightarrow> pynum option result" where
  "as_budget_opt v = (if v = PNone then Inr None else bindR (validate_budget v) (\<lambda>n. Inr (Some n)))"

text \<open>
  \<^verbatim>\<open>__post_init__\<close>: the checks in their order; the fields without a wire conversion
  (queue, payload, result, error, budget, priority) must be JSON-safe.
\<close>

definition entry_post_init :: "entry_args \<Rightarrow> queue_entry result" where
  "entry_post_init a =
     bindR (as_uuid (a_id a)) (\<lambda>i.
     bindR (as_str (a_queue a)) (\<lambda>q.
     bindR (as_status (a_status a)) (\<lambda>st.
     bindR (as_clock (a_queued_at a)) (\<lambda>qat.
     bindR (as_clock_opt (a_dispatched_at a)) (\<lambda>dat.
     bindR (as_clock_opt (a_finished_at a)) (\<lambda>fat.
     bindR (as_budget_opt (a_timeout_seconds a)) (\<lambda>budget.
     bindR (validate_priority (a_priority a)) (\<lambda>prio.
       if uuid_version i \<noteq> Some 7 then Inl ValueError
       else if q = [] then Inl ValueError
       else
         bindR (validate_json_value (a_queue a)) (\<lambda>_.
         bindR (validate_json_value (a_payload a)) (\<lambda>_.
         bindR (validate_json_value (a_result a)) (\<lambda>_.
         bindR (validate_json_value (a_error a)) (\<lambda>_.
         bindR (validate_json_value (a_timeout_seconds a)) (\<lambda>_.
         bindR (validate_json_value (a_priority a)) (\<lambda>_.
           Inr \<lparr>qe_id = i, qe_queue = q, qe_status = st, qe_queued_at = qat, qe_dispatched_at = dat,
                qe_finished_at = fat, qe_payload = a_payload a, qe_result = a_result a,
                qe_error = a_error a, qe_timeout_seconds = budget, qe_priority = prio\<rparr>))))))))))))))"

definition queued_for :: "queue_entry \<Rightarrow> rat option result" where
  "queued_for e = elapsed_time (Some (qe_queued_at e)) (qe_dispatched_at e)"

definition ran_for :: "queue_entry \<Rightarrow> rat option result" where
  "ran_for e = elapsed_time (qe_dispatched_at e) (qe_finished_at e)"

definition entry_create ::
    "uuid \<Rightarrow> clock_time \<Rightarrow> pyval \<Rightarrow> pyval \<Rightarrow> clock_time option \<Rightarrow> pyval \<Rightarrow> pyval \<Rightarrow> queue_entry result" where
  "entry_create uuid7 default_now queue payload queued_at timeout_seconds priority =
     entry_post_init \<lparr>a_id = PUuid uuid7, a_queue = queue, a_status = PStatus QUEUED,
       a_queued_at = PClock (case queued_at of Some t \<Rightarrow> t | None \<Rightarrow> default_now),
       a_dispatched_at = PNone, a_finished_at = PNone, a_payload = payload, a_result = PNone,
       a_error = PNone, a_timeout_seconds = timeout_seconds, a_priority = priority\<rparr>"

text \<open>What every constructed entry satisfies.\<close>

definition entry_valid :: "queue_entry \<Rightarrow> bool" where
  "entry_valid e \<longleftrightarrow>
     uuid_version (qe_id e) = Some 7 \<and> qe_queue e \<noteq> [] \<and>
     json_ok (qe_payload e) \<and> json_ok (qe_result e) \<and> json_ok (qe_error e) \<and>
     (\<forall>n. qe_timeout_seconds e = Some n \<longrightarrow> budget_ok n)"

lemma as_budget_opt_Inr: "as_budget_opt v = Inr b \<longleftrightarrow>
    v = PNone \<and> b = None \<or> (\<exists>n. v = PNum n \<and> b = Some n \<and> budget_ok n)"
  by (auto simp: as_budget_opt_def bindR_Inr_iff validate_budget_Inr)

lemma entry_post_init_valid: "entry_post_init a = Inr e \<Longrightarrow> entry_valid e"
  by (auto simp: entry_post_init_def entry_valid_def bindR_Inr_iff validate_json_value_def as_budget_opt_Inr
      split: if_splits)

section \<open>The wire form\<close>

definition encode_time_opt :: "clock_time option \<Rightarrow> pyval result" where
  "encode_time_opt t = (case t of None \<Rightarrow> Inr PNone | Some t \<Rightarrow> bindR (to_timestamp t) (\<lambda>n. Inr (PNum n)))"

definition budget_value :: "pynum option \<Rightarrow> pyval" where
  "budget_value b = (case b of None \<Rightarrow> PNone | Some n \<Rightarrow> PNum n)"

text \<open>
  \<^verbatim>\<open>to_dict\<close> maps \<^verbatim>\<open>_encode_wire_value\<close> over the fields in declaration order: the id becomes
  its string, the status its value, the instants their timestamps, all else is kept.
\<close>

definition to_dict :: "queue_entry \<Rightarrow> (string, pyval) pydict result" where
  "to_dict e =
     bindR (to_timestamp (qe_queued_at e)) (\<lambda>qat.
     bindR (encode_time_opt (qe_dispatched_at e)) (\<lambda>dat.
     bindR (encode_time_opt (qe_finished_at e)) (\<lambda>fat.
       Inr [(''id'', PStr (uuid_str (qe_id e))),
            (''queue'', PStr (qe_queue e)),
            (''status'', PStr (status_value (qe_status e))),
            (''queued_at'', PNum qat),
            (''dispatched_at'', dat),
            (''finished_at'', fat),
            (''payload'', qe_payload e),
            (''result'', qe_result e),
            (''error'', qe_error e),
            (''timeout_seconds'', budget_value (qe_timeout_seconds e)),
            (''priority'', PNum (PyInt (qe_priority e)))])))"

text \<open>
  The decoders of \<^verbatim>\<open>_WIRE_DECODERS\<close>. \<^verbatim>\<open>uuid.UUID(v)\<close> calls string methods on its argument,
  so a non-string raises \<^verbatim>\<open>AttributeError\<close>.
\<close>

definition wire_decoder :: "string \<Rightarrow> (pyval \<Rightarrow> pyval result) option" where
  "wire_decoder name =
     (if name = ''id'' then
        Some (\<lambda>v. case v of PStr s \<Rightarrow> bindR (uuid_parse s) (\<lambda>u. Inr (PUuid u)) | _ \<Rightarrow> Inl AttributeError)
      else if name = ''status'' then
        Some (\<lambda>v. case v of PStr s \<Rightarrow> bindR (status_of_value s) (\<lambda>st. Inr (PStatus st)) | _ \<Rightarrow> Inl ValueError)
      else if name = ''queued_at'' \<or> name = ''dispatched_at'' \<or> name = ''finished_at'' then
        Some (\<lambda>v. bindR (from_timestamp v) (\<lambda>t. Inr (PClock t)))
      else None)"

definition decode_wire_value :: "string \<Rightarrow> pyval \<Rightarrow> pyval result" where
  "decode_wire_value name value =
     (case wire_decoder name of None \<Rightarrow> Inr value | Some decoder \<Rightarrow>
        if value = PNone then Inr value
        else (case decoder value of
            Inl TypeError \<Rightarrow> Inl ValueError
          | r \<Rightarrow> r))"

definition required_fields :: "string list" where
  "required_fields = [''id'', ''queue'', ''status'', ''queued_at'', ''dispatched_at'', ''finished_at'',
     ''payload'', ''result'', ''error'']"

definition decode_field :: "(string, pyval) pydict \<Rightarrow> string \<Rightarrow> pyval \<Rightarrow> pyval result" where
  "decode_field d name dflt =
     (case dict_get d name of None \<Rightarrow> Inr dflt | Some v \<Rightarrow> decode_wire_value name v)"

text \<open>
  \<^verbatim>\<open>from_dict\<close>: a missing required field is a \<^verbatim>\<open>ValueError\<close>; the present fields are decoded in
  order; a \<^verbatim>\<open>TypeError\<close> or \<^verbatim>\<open>ValueError\<close> of the constructor becomes a \<^verbatim>\<open>ValueError\<close>.
\<close>

definition from_dict :: "(string, pyval) pydict \<Rightarrow> queue_entry result" where
  "from_dict d =
     (if list_ex (\<lambda>f. dict_get d f = None) required_fields then Inl ValueError
      else
        bindR (decode_field d ''id'' PNone) (\<lambda>i.
        bindR (decode_field d ''queue'' PNone) (\<lambda>q.
        bindR (decode_field d ''status'' PNone) (\<lambda>st.
        bindR (decode_field d ''queued_at'' PNone) (\<lambda>qat.
        bindR (decode_field d ''dispatched_at'' PNone) (\<lambda>dat.
        bindR (decode_field d ''finished_at'' PNone) (\<lambda>fat.
        bindR (decode_field d ''payload'' PNone) (\<lambda>payload.
        bindR (decode_field d ''result'' PNone) (\<lambda>result.
        bindR (decode_field d ''error'' PNone) (\<lambda>error.
        bindR (decode_field d ''timeout_seconds'' PNone) (\<lambda>budget.
        bindR (decode_field d ''priority'' (PNum (PyInt 0))) (\<lambda>prio.
          case entry_post_init \<lparr>a_id = i, a_queue = q, a_status = st, a_queued_at = qat,
                 a_dispatched_at = dat, a_finished_at = fat, a_payload = payload, a_result = result,
                 a_error = error, a_timeout_seconds = budget, a_priority = prio\<rparr> of
            Inl TypeError \<Rightarrow> Inl ValueError
          | r \<Rightarrow> r))))))))))))"

text \<open>The stored form: \<^verbatim>\<open>json.dumps(entry.to_dict())\<close>, as the document \<^verbatim>\<open>json.loads\<close> returns.\<close>

definition wire :: "queue_entry \<Rightarrow> (string, pyval) pydict result" where
  "wire e = bindR (to_dict e) (\<lambda>d. Inr (map (\<lambda>(k, v). (k, json_norm v)) d))"

text \<open>
  Instants below \<open>2 ^ 33\<close> seconds survive the wire, and the free-form fields come back as JSON
  normalises them: a tuple as a list, a key as a string. JSON documents come back as they are.
\<close>

definition entry_wire_times :: "queue_entry \<Rightarrow> bool" where
  "entry_wire_times e \<longleftrightarrow>
     (\<forall>t \<in> {qe_queued_at e} \<union> set_option (qe_dispatched_at e) \<union> set_option (qe_finished_at e).
        clock_ok t \<and> seconds t < 2 ^ 33) \<and>
     no_float_keys (qe_payload e) \<and> no_float_keys (qe_result e) \<and> no_float_keys (qe_error e)"

definition json_normalised :: "queue_entry \<Rightarrow> queue_entry" where
  "json_normalised e = e\<lparr>qe_payload := json_norm (qe_payload e), qe_result := json_norm (qe_result e),
     qe_error := json_norm (qe_error e)\<rparr>"

definition entry_wire_safe :: "queue_entry \<Rightarrow> bool" where
  "entry_wire_safe e \<longleftrightarrow>
     (\<forall>t \<in> {qe_queued_at e} \<union> set_option (qe_dispatched_at e) \<union> set_option (qe_finished_at e).
        clock_ok t \<and> seconds t < 2 ^ 33) \<and>
     json_doc (qe_payload e) \<and> json_doc (qe_result e) \<and> json_doc (qe_error e)"

lemma decode_simps:
  "decode_wire_value ''id'' (PStr (uuid_str u)) = Inr (PUuid u)"
  "decode_wire_value ''status'' (PStr (status_value s)) = Inr (PStatus s)"
  by (simp_all add: decode_wire_value_def wire_decoder_def)

lemma decode_plain: "wire_decoder name = None \<Longrightarrow> decode_wire_value name v = Inr v"
  by (simp add: decode_wire_value_def)

lemma to_timestamp_decode:
  assumes "clock_ok t" "seconds t < 2 ^ 33"
  shows "\<exists>n. to_timestamp t = Inr n \<and> json_norm (PNum n) = PNum n \<and> from_timestamp (PNum n) = Inr t"
  using timestamp_roundtrip[OF assms] by (auto simp: bindR_Inr_iff)

lemma decode_time:
  assumes "from_timestamp (PNum n) = Inr t" "name \<in> {''queued_at'', ''dispatched_at'', ''finished_at''}"
  shows "decode_wire_value name (PNum n) = Inr (PClock t)"
  using assms by (auto simp: decode_wire_value_def wire_decoder_def)

lemma encode_time_opt_decode:
  assumes "\<forall>t \<in> set_option o_t. clock_ok t \<and> seconds t < 2 ^ 33" "name \<in> {''dispatched_at'', ''finished_at''}"
  shows "\<exists>v. encode_time_opt o_t = Inr v \<and> json_norm v = v \<and>
    (\<exists>w. decode_wire_value name v = Inr w \<and> as_clock_opt w = Inr o_t)"
proof (cases o_t)
  case None
  then show ?thesis by (auto simp: encode_time_opt_def decode_wire_value_def split: option.splits)
next
  case (Some t)
  with assms(1) obtain n where n: "to_timestamp t = Inr n" "from_timestamp (PNum n) = Inr t"
    using to_timestamp_decode[of t] by auto
  with assms(2) have "decode_wire_value name (PNum n) = Inr (PClock t)" by (intro decode_time) auto
  with Some n show ?thesis by (auto simp: encode_time_opt_def)
qed

lemma entry_wire_normalises:
  assumes valid: "entry_valid e" and safe: "entry_wire_times e"
  shows "bindR (wire e) from_dict = Inr (json_normalised e)"
proof -
  obtain qn where q: "to_timestamp (qe_queued_at e) = Inr qn" "from_timestamp (PNum qn) = Inr (qe_queued_at e)"
    using to_timestamp_decode safe by (auto simp: entry_wire_times_def)
  obtain dv dw where d: "encode_time_opt (qe_dispatched_at e) = Inr dv" "json_norm dv = dv"
    "decode_wire_value ''dispatched_at'' dv = Inr dw" "as_clock_opt dw = Inr (qe_dispatched_at e)"
    using encode_time_opt_decode[of "qe_dispatched_at e" "''dispatched_at''"] safe
    by (auto simp: entry_wire_times_def)
  obtain fv fw where f: "encode_time_opt (qe_finished_at e) = Inr fv" "json_norm fv = fv"
    "decode_wire_value ''finished_at'' fv = Inr fw" "as_clock_opt fw = Inr (qe_finished_at e)"
    using encode_time_opt_decode[of "qe_finished_at e" "''finished_at''"] safe
    by (auto simp: entry_wire_times_def)
  have b: "json_norm (budget_value (qe_timeout_seconds e)) = budget_value (qe_timeout_seconds e)"
    "as_budget_opt (budget_value (qe_timeout_seconds e)) = Inr (qe_timeout_seconds e)"
    "json_ok (budget_value (qe_timeout_seconds e))"
    using valid by (auto simp: budget_value_def as_budget_opt_Inr entry_valid_def split: option.splits)
  have qd: "decode_wire_value ''queued_at'' (PNum qn) = Inr (PClock (qe_queued_at e))"
    using q(2) by (intro decode_time) auto
  have plain: "wire_decoder ''queue'' = None" "wire_decoder ''payload'' = None" "wire_decoder ''result'' = None"
    "wire_decoder ''error'' = None" "wire_decoder ''timeout_seconds'' = None" "wire_decoder ''priority'' = None"
    by (simp_all add: wire_decoder_def)
  have js: "json_ok (json_norm (qe_payload e))" "json_ok (json_norm (qe_result e))" "json_ok (json_norm (qe_error e))"
    using valid by (simp_all add: entry_valid_def json_ok_norm)
  show ?thesis
    using valid safe
    by (simp add: wire_def to_dict_def q d f b qd from_dict_def required_fields_def decode_field_def decode_simps
        decode_plain plain entry_post_init_def validate_priority_def validate_json_value_def
        entry_valid_def entry_wire_times_def js json_normalised_def)
qed

lemma json_normalised_doc:
  "json_doc (qe_payload e) \<Longrightarrow> json_doc (qe_result e) \<Longrightarrow> json_doc (qe_error e) \<Longrightarrow> json_normalised e = e"
  by (simp add: json_normalised_def)

lemma entry_wire_safe_times: "entry_wire_safe e \<Longrightarrow> entry_wire_times e \<and> json_normalised e = e"
  by (simp add: entry_wire_safe_def entry_wire_times_def json_normalised_def json_doc_no_float_keys)

lemma entry_wire_roundtrip:
  assumes "entry_valid e" "entry_wire_safe e"
  shows "bindR (wire e) from_dict = Inr e"
  using entry_wire_normalises[OF assms(1)] entry_wire_safe_times[OF assms(2)] by simp

section \<open>A sample entry\<close>

text \<open>Entries for the concrete instances below: a freshly queued entry with an id of version 7.\<close>

definition sample_id :: "nat \<Rightarrow> uuid" where
  "sample_id n = 0x01900000000070008000000000000000 + of_nat n"

definition sample_entry :: "nat \<Rightarrow> clock_time \<Rightarrow> int \<Rightarrow> queue_entry" where
  "sample_entry n t lifetime =
     \<lparr>qe_id = sample_id n, qe_queue = ''jobs'', qe_status = QUEUED, qe_queued_at = t, qe_dispatched_at = None,
      qe_finished_at = None, qe_payload = PNone, qe_result = PNone, qe_error = PNone,
      qe_timeout_seconds = Some (PyInt lifetime), qe_priority = int n\<rparr>"

lemma sample_entry_sel [simp]:
  "qe_id (sample_entry n t l) = sample_id n" "qe_status (sample_entry n t l) = QUEUED"
  "qe_queued_at (sample_entry n t l) = t" "qe_timeout_seconds (sample_entry n t l) = Some (PyInt l)"
  "qe_priority (sample_entry n t l) = int n" "qe_finished_at (sample_entry n t l) = None"
  by (simp_all add: sample_entry_def)

lemma sample_entry_valid: "0 < l \<Longrightarrow> l < 2 ^ 53 \<Longrightarrow> entry_valid (sample_entry 1 t l)"
  by (simp add: entry_valid_def sample_entry_def sample_id_def uuid_version_def budget_ok_def int_to_float_exact)

end
