(* ===== verification/Memory_Provider.thy ===== *)
theory Memory_Provider
  imports Queue_Entries
begin

text \<open>
  \<^verbatim>\<open>django_queue/backends/memory/provider.py\<close>: the in-process provider. Every operation holds
  the provider's lock over its whole body, so an operation is one transition of the record
  below. Pending ids are kept in the order of the underlying \<^verbatim>\<open>queue.Queue\<close> (a FIFO is read
  at the front, a stack at the back); the entry priority heap is kept sorted, which is the
  order \<^verbatim>\<open>queue.PriorityQueue\<close> serves its distinct triples in. Clock readings are arguments.
  Its array, and the raw values with priorities, are in \<open>Memory_Priority\<close>.
\<close>

section \<open>State\<close>

record provider_memory =
  mp_stack :: bool
  mp_maxsize :: int
  mp_items :: "pyval list"
  mp_entries :: "(uuid, queue_entry) pydict"
  mp_pending :: "uuid list"
  mp_pending_priority :: "(int \<times> nat \<times> uuid) list"
  mp_pending_priority_sequence :: nat
  mp_claims :: "(uuid, uuid) pydict"
  mp_claim_deadlines :: "(uuid, clock_time) pydict"
  mp_available_at :: "(uuid, clock_time) pydict"
  mp_scheduled :: "(uuid, clock_time) pydict"
  mp_unclaimed_deadlines :: "(uuid, clock_time) pydict"
  mp_unclaimed_remaining :: "(uuid, rat) pydict"
  mp_notification_entries :: "(uuid, queue_entry) pydict"
  mp_notification_deadlines :: "(uuid, clock_time) pydict"
  mp_notification_seen :: "queue_entry list"

definition provider_memory_init :: "bool \<Rightarrow> int \<Rightarrow> provider_memory" where
  "provider_memory_init stack maxsize =
     \<lparr>mp_stack = stack, mp_maxsize = maxsize, mp_items = [], mp_entries = [], mp_pending = [],
      mp_pending_priority = [], mp_pending_priority_sequence = 0, mp_claims = [], mp_claim_deadlines = [],
      mp_available_at = [], mp_scheduled = [], mp_unclaimed_deadlines = [], mp_unclaimed_remaining = [],
      mp_notification_entries = [], mp_notification_deadlines = [], mp_notification_seen = []\<rparr>"

section \<open>Raw values\<close>

text \<open>\<^verbatim>\<open>get_nowait\<close> of a \<^verbatim>\<open>Queue\<close> or a \<^verbatim>\<open>LifoQueue\<close>.\<close>

fun queue_get :: "bool \<Rightarrow> 'a list \<Rightarrow> ('a \<times> 'a list) option" where
  "queue_get stack [] = None"
| "queue_get stack (x # xs) = Some (if stack then (last (x # xs), butlast (x # xs)) else (x, xs))"

fun aadd :: "pyval list \<Rightarrow> (unit, provider_memory) prog" where
  "aadd [] s = (Inr (), s)"
| "aadd (item # items) s =
     (if 0 < mp_maxsize s \<and> mp_maxsize s \<le> int (length (mp_items s)) then (Inl QueueFullException, s)
      else aadd items (s\<lparr>mp_items := mp_items s @ [item]\<rparr>))"

definition aget :: "(pyval, provider_memory) prog" where
  "aget s = (case queue_get (mp_stack s) (mp_items s) of
      None \<Rightarrow> (Inl QueueEmptyException, s)
    | Some (x, rest) \<Rightarrow> (Inr x, s\<lparr>mp_items := rest\<rparr>))"

definition apeek :: "provider_memory \<Rightarrow> pyval result" where
  "apeek s = (if mp_items s = [] then Inl QueueEmptyException
     else Inr (if mp_stack s then last (mp_items s) else hd (mp_items s)))"

definition asize :: "provider_memory \<Rightarrow> nat" where
  "asize s = length (mp_items s)"

function aclear :: "provider_memory \<Rightarrow> provider_memory" where
  "aclear s = (case queue_get (mp_stack s) (mp_items s) of
      None \<Rightarrow> s | Some (_, rest) \<Rightarrow> aclear (s\<lparr>mp_items := rest\<rparr>))"
  by pat_completeness auto
termination
proof (relation "measure (\<lambda>s. length (mp_items s))")
  fix s :: provider_memory and p x rest
  assume "queue_get (mp_stack s) (mp_items s) = Some p" "(x, rest) = p"
  then show "(s\<lparr>mp_items := rest\<rparr>, s) \<in> measure (\<lambda>s. length (mp_items s))"
    by (cases "mp_items s") (auto split: if_splits)
qed simp

declare aclear.simps [simp del]

section \<open>Entry records\<close>

definition astore :: "queue_entry \<Rightarrow> provider_memory \<Rightarrow> provider_memory" where
  "astore e s = s\<lparr>mp_entries := dict_set (qe_id e) e (mp_entries s)\<rparr>"

text \<open>The record is stored before the deadline is computed.\<close>

definition astore_event :: "queue_entry \<Rightarrow> (unit, provider_memory) prog" where
  "astore_event e s =
     (case qe_timeout_seconds e of
        None \<Rightarrow> (Inl ValueError, s)
      | Some lifetime \<Rightarrow>
          let s' = s\<lparr>mp_entries := dict_set (qe_id e) e (mp_entries s)\<rparr> in
          case clock_add (qe_queued_at e) lifetime of
            Inl err \<Rightarrow> (Inl err, s')
          | Inr d \<Rightarrow> (Inr (), s'\<lparr>mp_unclaimed_deadlines := dict_set (qe_id e) d (mp_unclaimed_deadlines s')\<rparr>))"

definition afind :: "uuid \<Rightarrow> provider_memory \<Rightarrow> queue_entry result" where
  "afind i s = (case dict_get (mp_entries s) i of None \<Rightarrow> Inl (QueueEntryNotFoundError i) | Some e \<Rightarrow> Inr e)"

definition remove_pending :: "uuid \<Rightarrow> provider_memory \<Rightarrow> provider_memory" where
  "remove_pending i s = s\<lparr>mp_pending := remove1 i (mp_pending s)\<rparr>"

definition adiscard_priority :: "uuid \<Rightarrow> provider_memory \<Rightarrow> provider_memory" where
  "adiscard_priority i s =
     s\<lparr>mp_pending_priority := filter (\<lambda>item. snd (snd item) \<noteq> i) (mp_pending_priority s)\<rparr>"

definition adelete :: "uuid \<Rightarrow> provider_memory \<Rightarrow> provider_memory" where
  "adelete i s =
     adiscard_priority i (remove_pending i
       (s\<lparr>mp_entries := dict_pop i (mp_entries s),
          mp_claims := dict_pop i (mp_claims s),
          mp_claim_deadlines := dict_pop i (mp_claim_deadlines s),
          mp_available_at := dict_pop i (mp_available_at s),
          mp_scheduled := dict_pop i (mp_scheduled s),
          mp_unclaimed_deadlines := dict_pop i (mp_unclaimed_deadlines s),
          mp_unclaimed_remaining := dict_pop i (mp_unclaimed_remaining s)\<rparr>))"

definition aprune :: "uuid \<Rightarrow> (queue_entry, provider_memory) prog" where
  "aprune i s =
     (case afind i s of
        Inl err \<Rightarrow> (Inl err, s)
      | Inr e \<Rightarrow>
          if TERMINATED \<notin> next_state (qe_status e) then (Inl ValueError, s)
          else (Inr e, adelete i s))"

definition aexpire :: "uuid \<Rightarrow> provider_memory \<Rightarrow> bool \<times> provider_memory" where
  "aexpire i s =
     (if i \<in> dkeys (mp_claims s) then (False, s)
      else if i \<notin> dkeys (mp_entries s) then (False, s)
      else (True, remove_pending i
        (s\<lparr>mp_entries := dict_pop i (mp_entries s),
           mp_available_at := dict_pop i (mp_available_at s),
           mp_scheduled := dict_pop i (mp_scheduled s),
           mp_unclaimed_deadlines := dict_pop i (mp_unclaimed_deadlines s),
           mp_unclaimed_remaining := dict_pop i (mp_unclaimed_remaining s)\<rparr>)))"

definition alist :: "provider_memory \<Rightarrow> queue_entry list" where
  "alist s = map snd (mp_entries s)"

section \<open>Pending delivery\<close>

definition apush :: "uuid \<Rightarrow> provider_memory \<Rightarrow> provider_memory" where
  "apush i s = s\<lparr>mp_pending := mp_pending s @ [i]\<rparr>"

definition aschedule :: "uuid \<Rightarrow> clock_time \<Rightarrow> provider_memory \<Rightarrow> provider_memory" where
  "aschedule i available_at s = s\<lparr>mp_scheduled := dict_set i available_at (mp_scheduled s)\<rparr>"

text \<open>\<^verbatim>\<open>max(xs, key=...)\<close> returns the first of the maximal elements.\<close>

definition max_first :: "('a \<Rightarrow> int) \<Rightarrow> 'a list \<Rightarrow> 'a" where
  "max_first key xs = foldl (\<lambda>m y. if key m < key y then y else m) (hd xs) (tl xs)"

definition due_entries :: "clock_time \<Rightarrow> provider_memory \<Rightarrow> (uuid \<times> clock_time) list" where
  "due_entries now s = filter (\<lambda>(i, t). t \<le> now) (mp_scheduled s)"

definition earliest_candidates :: "clock_time \<Rightarrow> provider_memory \<Rightarrow> uuid list" where
  "earliest_candidates now s =
     (let due = due_entries now s; earliest = Min (snd ` set due)
      in map fst (filter (\<lambda>(i, t). t = earliest) due))"

definition is_queued :: "provider_memory \<Rightarrow> uuid \<Rightarrow> bool" where
  "is_queued s i = (case dict_get (mp_entries s) i of Some e \<Rightarrow> qe_status e = QUEUED | None \<Rightarrow> False)"

definition entry_priority :: "provider_memory \<Rightarrow> uuid \<Rightarrow> int" where
  "entry_priority s i = (case dict_get (mp_entries s) i of Some e \<Rightarrow> qe_priority e | None \<Rightarrow> 0)"

definition drop_stale :: "uuid list \<Rightarrow> provider_memory \<Rightarrow> provider_memory" where
  "drop_stale candidates s =
     s\<lparr>mp_scheduled := fold dict_pop (filter (\<lambda>i. \<not> is_queued s i) candidates) (mp_scheduled s)\<rparr>"

lemma fold_dict_pop: "fold dict_pop is d = filter (\<lambda>kv. fst kv \<notin> set is) d"
proof (induction "is" arbitrary: d)
  case Nil
  show ?case by simp
next
  case (Cons i "is")
  have "dict_pop i d = filter (\<lambda>kv. fst kv \<noteq> i) d"
    by (induction d) auto
  with Cons show ?case by (auto intro: filter_cong)
qed

lemma earliest_candidates_Nil: "due_entries now s \<noteq> [] \<Longrightarrow> earliest_candidates now s \<noteq> []"
proof -
  assume "due_entries now s \<noteq> []"
  then have "Min (snd ` set (due_entries now s)) \<in> snd ` set (due_entries now s)"
    by (intro Min_in) auto
  then show ?thesis
    by (auto simp: earliest_candidates_def Let_def filter_empty_conv)
qed

lemma earliest_candidates_scheduled: "i \<in> set (earliest_candidates now s) \<Longrightarrow> i \<in> dkeys (mp_scheduled s)"
  by (force simp: earliest_candidates_def Let_def due_entries_def dkeys_def)

lemma drop_stale_shrinks:
  assumes "due_entries now s \<noteq> []" "filter (is_queued s) (earliest_candidates now s) = []"
  shows "length (mp_scheduled (drop_stale (earliest_candidates now s) s)) < length (mp_scheduled s)"
proof -
  obtain i where i: "i \<in> set (earliest_candidates now s)"
    using earliest_candidates_Nil[OF assms(1)] by (cases "earliest_candidates now s") auto
  with assms(2) have "i \<in> set (filter (\<lambda>i. \<not> is_queued s i) (earliest_candidates now s))"
    by (auto simp: filter_empty_conv)
  moreover obtain t where "(i, t) \<in> set (mp_scheduled s)"
    using earliest_candidates_scheduled[OF i] by (auto simp: dkeys_def)
  ultimately show ?thesis
    by (auto simp: drop_stale_def fold_dict_pop intro!: length_filter_less)
qed

function pop_next_due_scheduled :: "clock_time \<Rightarrow> bool \<Rightarrow> provider_memory \<Rightarrow> uuid option \<times> provider_memory" where
  "pop_next_due_scheduled now priority s =
     (if due_entries now s = [] then (None, s)
      else
        let candidates = earliest_candidates now s;
            queued_candidates = filter (is_queued s) candidates;
            s' = drop_stale candidates s
        in if queued_candidates = [] then pop_next_due_scheduled now priority s'
           else let i = (if priority then max_first (entry_priority s) queued_candidates else hd queued_candidates)
                in (Some i, s'\<lparr>mp_scheduled := dict_pop i (mp_scheduled s')\<rparr>))"
  by pat_completeness auto
termination
  by (relation "measure (\<lambda>(now, p, s). length (mp_scheduled s))") (auto intro: drop_stale_shrinks)

declare pop_next_due_scheduled.simps [simp del]

definition apromote_scheduled :: "clock_time \<Rightarrow> provider_memory \<Rightarrow> provider_memory" where
  "apromote_scheduled now s =
     (case pop_next_due_scheduled now False s of
        (None, s') \<Rightarrow> s'
      | (Some i, s') \<Rightarrow> s'\<lparr>mp_pending := mp_pending s' @ [i]\<rparr>)"

definition apush_priority :: "uuid \<Rightarrow> int \<Rightarrow> provider_memory \<Rightarrow> provider_memory" where
  "apush_priority i priority s =
     (let sequence = mp_pending_priority_sequence s + 1 in
      s\<lparr>mp_pending_priority_sequence := sequence,
        mp_pending_priority := insort (- priority, sequence, i) (mp_pending_priority s)\<rparr>)"

definition apromote_scheduled_priority :: "clock_time \<Rightarrow> provider_memory \<Rightarrow> provider_memory" where
  "apromote_scheduled_priority now s =
     (case pop_next_due_scheduled now True s of
        (None, s') \<Rightarrow> s'
      | (Some i, s') \<Rightarrow> apush_priority i (entry_priority s' i) s')"

definition apop :: "(queue_entry, provider_memory) prog" where
  "apop s =
     (case queue_get (mp_stack s) (mp_pending s) of
        None \<Rightarrow> (Inl QueueEmptyException, s)
      | Some (i, rest) \<Rightarrow>
          let s' = s\<lparr>mp_pending := rest\<rparr> in
          case dict_get (mp_entries s') i of
            None \<Rightarrow> (Inl (QueueEntryNotFoundError i), s')
          | Some e \<Rightarrow> (Inr e, s'))"

definition adiscard :: "uuid \<Rightarrow> provider_memory \<Rightarrow> provider_memory" where
  "adiscard i s = remove_pending i s"

definition adiscard_scheduled :: "uuid \<Rightarrow> provider_memory \<Rightarrow> provider_memory" where
  "adiscard_scheduled i s = s\<lparr>mp_scheduled := dict_pop i (mp_scheduled s)\<rparr>"

definition apop_priority :: "(queue_entry, provider_memory) prog" where
  "apop_priority s =
     (case mp_pending_priority s of
        [] \<Rightarrow> (Inl QueueEmptyException, s)
      | (_, _, i) # rest \<Rightarrow>
          let s' = s\<lparr>mp_pending_priority := rest\<rparr> in
          case dict_get (mp_entries s') i of
            None \<Rightarrow> (Inl (QueueEntryNotFoundError i), s')
          | Some e \<Rightarrow> (Inr e, s'))"

definition ahas_pending :: "provider_memory \<Rightarrow> bool" where
  "ahas_pending s \<longleftrightarrow> mp_pending s \<noteq> [] \<or> mp_pending_priority s \<noteq> [] \<or> mp_scheduled s \<noteq> []"

section \<open>Claims\<close>

definition delete_event :: "uuid \<Rightarrow> provider_memory \<Rightarrow> provider_memory" where
  "delete_event i s = remove_pending i
     (s\<lparr>mp_entries := dict_pop i (mp_entries s),
        mp_available_at := dict_pop i (mp_available_at s),
        mp_unclaimed_deadlines := dict_pop i (mp_unclaimed_deadlines s),
        mp_unclaimed_remaining := dict_pop i (mp_unclaimed_remaining s)\<rparr>)"

text \<open>
  The pending queue of a stack is a plain list, which has no \<^verbatim>\<open>appendleft\<close>: there the skipped
  id is already off the queue when the attribute lookup fails.
\<close>

definition requeue_skipped_pending :: "uuid \<Rightarrow> (unit, provider_memory) prog" where
  "requeue_skipped_pending i s =
     (if \<not> mp_stack s then (Inr (), s\<lparr>mp_pending := mp_pending s @ [i]\<rparr>)
      else (Inl AttributeError, s))"

definition recover_claim :: "clock_time \<Rightarrow> uuid \<Rightarrow> (unit, provider_memory) prog" where
  "recover_claim now i s =
     (let s1 = s\<lparr>mp_claims := dict_pop i (mp_claims s), mp_claim_deadlines := dict_pop i (mp_claim_deadlines s)\<rparr> in
      if i \<in> dkeys (mp_entries s1) then
        (case dict_get (mp_unclaimed_remaining s1) i of
           None \<Rightarrow> (Inr (), s1\<lparr>mp_pending := mp_pending s1 @ [i]\<rparr>)
         | Some remaining \<Rightarrow>
             let s2 = s1\<lparr>mp_unclaimed_remaining := dict_pop i (mp_unclaimed_remaining s1)\<rparr> in
             case clock_add now (PyFloat (Fin remaining)) of
               Inl err \<Rightarrow> (Inl err, s2)
             | Inr d \<Rightarrow> (Inr (), s2\<lparr>mp_unclaimed_deadlines := dict_set i d (mp_unclaimed_deadlines s2),
                                    mp_pending := mp_pending s2 @ [i]\<rparr>))
      else (Inr (), s1))"

definition recover_expired_claims :: "clock_time \<Rightarrow> (unit, provider_memory) prog" where
  "recover_expired_claims now s =
     foreach (recover_claim now) (map fst (filter (\<lambda>(i, deadline). deadline \<le> now) (mp_claim_deadlines s))) s"

text \<open>The bounded loop of \<^verbatim>\<open>adequeue\<close>: at most as many rounds as ids were pending at its start.\<close>

fun dequeue_loop :: "nat \<Rightarrow> clock_time \<Rightarrow> (queue_entry, provider_memory) prog" where
  "dequeue_loop 0 now s = (Inl QueueEmptyException, s)"
| "dequeue_loop (Suc n) now s =
     (case queue_get (mp_stack s) (mp_pending s) of
        None \<Rightarrow> (Inl QueueEmptyException, s)
      | Some (i, rest) \<Rightarrow>
          let s1 = s\<lparr>mp_pending := rest\<rparr> in
          if (case dict_get (mp_available_at s1) i of Some available_at \<Rightarrow> now < available_at | None \<Rightarrow> False)
             \<or> i \<in> dkeys (mp_claims s1)
          then bindE (requeue_skipped_pending i) (\<lambda>_. dequeue_loop n now) s1
          else (case dict_get (mp_entries s1) i of
              None \<Rightarrow> dequeue_loop n now (delete_event i s1)
            | Some e \<Rightarrow>
                (case dict_get (mp_unclaimed_deadlines s1) i of
                   None \<Rightarrow> dequeue_loop n now (delete_event i s1)
                 | Some deadline \<Rightarrow>
                     if deadline \<le> now then dequeue_loop n now (delete_event i s1)
                     else (Inr e, delete_event i s1))))"

definition adequeue :: "clock_time \<Rightarrow> (queue_entry, provider_memory) prog" where
  "adequeue now =
     bindE (recover_expired_claims now) (\<lambda>_ s. dequeue_loop (length (mp_pending s)) now s)"

text \<open>Taking ownership of a deliverable id; \<open>lease\<close> is \<^verbatim>\<open>None\<close> or a validated number of seconds.\<close>

definition take_claim :: "uuid \<Rightarrow> pynum option \<Rightarrow> clock_time \<Rightarrow> uuid \<Rightarrow> queue_entry \<Rightarrow> (queue_entry, provider_memory) prog" where
  "take_claim worker_id lease now i e s =
     (let s1 = s\<lparr>mp_available_at := dict_pop i (mp_available_at s), mp_claims := dict_set i worker_id (mp_claims s)\<rparr> in
      case lease of
        None \<Rightarrow> (Inr e, s1)
      | Some n \<Rightarrow>
          (case clock_add now n of
             Inl err \<Rightarrow> (Inl err, s1)
           | Inr d \<Rightarrow> (Inr e, s1\<lparr>mp_claim_deadlines := dict_set i d (mp_claim_deadlines s1)\<rparr>)))"

definition claim_entry ::
    "bool \<Rightarrow> uuid \<Rightarrow> pynum option \<Rightarrow> clock_time \<Rightarrow> uuid \<Rightarrow> queue_entry \<Rightarrow> (queue_entry, provider_memory) prog" where
  "claim_entry expire_unclaimed worker_id lease now i e s =
     (if \<not> expire_unclaimed then take_claim worker_id lease now i e s
      else (case dict_get (mp_unclaimed_deadlines s) i of
          None \<Rightarrow> (Inl (QueueEntryExpiredError i), s)
        | Some deadline \<Rightarrow>
            if deadline \<le> now then
              (Inl (QueueEntryExpiredError i),
               s\<lparr>mp_entries := dict_pop i (mp_entries s), mp_available_at := dict_pop i (mp_available_at s),
                 mp_unclaimed_deadlines := dict_pop i (mp_unclaimed_deadlines s)\<rparr>)
            else
              let s1 = s\<lparr>mp_unclaimed_deadlines := dict_pop i (mp_unclaimed_deadlines s)\<rparr> in
              case clock_diff deadline now of
                Inl err \<Rightarrow> (Inl err, s1)
              | Inr remaining \<Rightarrow> take_claim worker_id lease now i e
                  (s1\<lparr>mp_unclaimed_remaining := dict_set i remaining (mp_unclaimed_remaining s1)\<rparr>)))"

fun claim_loop ::
    "nat \<Rightarrow> bool \<Rightarrow> uuid \<Rightarrow> pynum option \<Rightarrow> clock_time \<Rightarrow> (queue_entry, provider_memory) prog" where
  "claim_loop 0 expire_unclaimed worker_id lease now s = (Inl QueueEmptyException, s)"
| "claim_loop (Suc n) expire_unclaimed worker_id lease now s =
     (case queue_get (mp_stack s) (mp_pending s) of
        None \<Rightarrow> (Inl QueueEmptyException, s)
      | Some (i, rest) \<Rightarrow>
          let s1 = s\<lparr>mp_pending := rest\<rparr> in
          if (case dict_get (mp_available_at s1) i of Some available_at \<Rightarrow> now < available_at | None \<Rightarrow> False)
          then bindE (requeue_skipped_pending i) (\<lambda>_. claim_loop n expire_unclaimed worker_id lease now) s1
          else if i \<in> dkeys (mp_claims s1)
          then bindE (requeue_skipped_pending i) (\<lambda>_. raise (QueueClaimConflictError i)) s1
          else (case dict_get (mp_entries s1) i of
              None \<Rightarrow> (Inl (QueueEntryNotFoundError i), s1)
            | Some e \<Rightarrow> claim_entry expire_unclaimed worker_id lease now i e s1))"

text \<open>
  \<^verbatim>\<open>_aclaim\<close>: \<open>now\<close> is read first, \<open>now'\<close> by \<^verbatim>\<open>apromote_scheduled\<close>.
\<close>

definition validate_lease :: "pyval \<Rightarrow> pynum option result" where
  "validate_lease lease_seconds =
     (if lease_seconds = PNone then Inr None else bindR (validate_budget lease_seconds) (\<lambda>n. Inr (Some n)))"

definition aclaim_with ::
    "bool \<Rightarrow> clock_time \<Rightarrow> clock_time \<Rightarrow> uuid \<Rightarrow> pyval \<Rightarrow> (queue_entry, provider_memory) prog" where
  "aclaim_with expire_unclaimed now now' worker_id lease_seconds =
     bindE (lift_result (validate_lease lease_seconds)) (\<lambda>lease s.
       bindE (recover_expired_claims now)
         (\<lambda>_ s. claim_loop (length (mp_pending s)) expire_unclaimed worker_id lease now s)
         (apromote_scheduled now' s))"

definition aclaim :: "clock_time \<Rightarrow> clock_time \<Rightarrow> uuid \<Rightarrow> pyval \<Rightarrow> (queue_entry, provider_memory) prog" where
  "aclaim = aclaim_with False"

definition aclaim_unexpired :: "clock_time \<Rightarrow> clock_time \<Rightarrow> uuid \<Rightarrow> pyval \<Rightarrow> (queue_entry, provider_memory) prog" where
  "aclaim_unexpired = aclaim_with True"

definition arenew :: "clock_time \<Rightarrow> uuid \<Rightarrow> uuid \<Rightarrow> pyval \<Rightarrow> (bool, provider_memory) prog" where
  "arenew now i worker_id lease_seconds =
     bindE (lift_result (validate_budget lease_seconds)) (\<lambda>lease.
     bindE (recover_expired_claims now) (\<lambda>_ s.
       if dict_get (mp_claims s) i \<noteq> Some worker_id then (Inr False, s)
       else (case clock_add now lease of
           Inl err \<Rightarrow> (Inl err, s)
         | Inr d \<Rightarrow> (Inr True, s\<lparr>mp_claim_deadlines := dict_set i d (mp_claim_deadlines s)\<rparr>))))"

definition arelease :: "clock_time \<Rightarrow> uuid \<Rightarrow> uuid \<Rightarrow> pyval \<Rightarrow> (bool, provider_memory) prog" where
  "arelease released_at i worker_id delay_seconds =
     bindE (lift_result (validate_budget delay_seconds)) (\<lambda>delay.
     bindE (lift_result (clock_add released_at delay)) (\<lambda>available_at s.
       if dict_get (mp_claims s) i \<noteq> Some worker_id then (Inr False, s)
       else
         let s1 = s\<lparr>mp_claims := dict_pop i (mp_claims s), mp_claim_deadlines := dict_pop i (mp_claim_deadlines s)\<rparr>;
             s2 = s1\<lparr>mp_unclaimed_remaining := dict_pop i (mp_unclaimed_remaining s1)\<rparr>;
             finish = (\<lambda>s3. (Inr True, s3\<lparr>mp_available_at := dict_set i available_at (mp_available_at s3),
                                         mp_pending := mp_pending s3 @ [i]\<rparr>))
         in case dict_get (mp_unclaimed_remaining s1) i of
              None \<Rightarrow> finish s2
            | Some remaining \<Rightarrow>
                (case clock_add released_at (PyFloat (Fin remaining)) of
                   Inl err \<Rightarrow> (Inl err, s2)
                 | Inr d \<Rightarrow> finish (s2\<lparr>mp_unclaimed_deadlines := dict_set i d (mp_unclaimed_deadlines s2)\<rparr>))))"

definition aremove :: "uuid \<Rightarrow> uuid \<Rightarrow> provider_memory \<Rightarrow> bool \<times> provider_memory" where
  "aremove i worker_id s =
     (if dict_get (mp_claims s) i \<noteq> Some worker_id then (False, s)
      else (True, remove_pending i
        (s\<lparr>mp_entries := dict_pop i (mp_entries s),
           mp_claims := dict_pop i (mp_claims s),
           mp_claim_deadlines := dict_pop i (mp_claim_deadlines s),
           mp_available_at := dict_pop i (mp_available_at s),
           mp_unclaimed_deadlines := dict_pop i (mp_unclaimed_deadlines s),
           mp_unclaimed_remaining := dict_pop i (mp_unclaimed_remaining s)\<rparr>)))"

definition aexpire_due :: "clock_time \<Rightarrow> provider_memory \<Rightarrow> uuid list \<times> provider_memory" where
  "aexpire_due now s =
     (let expired_ids = map fst (filter (\<lambda>(i, deadline). deadline \<le> now \<and> i \<notin> dkeys (mp_claims s))
                                   (mp_unclaimed_deadlines s))
      in (expired_ids, fold delete_event expired_ids s))"

section \<open>Notifications\<close>

definition astore_notification :: "queue_entry \<Rightarrow> (unit, provider_memory) prog" where
  "astore_notification e s =
     (case qe_timeout_seconds e of
        None \<Rightarrow> (Inl ValueError, s)
      | Some lifetime \<Rightarrow>
          let s1 = s\<lparr>mp_notification_entries := dict_set (qe_id e) e (mp_notification_entries s)\<rparr> in
          case clock_add (qe_queued_at e) lifetime of
            Inl err \<Rightarrow> (Inl err, s1)
          | Inr d \<Rightarrow> (Inr (),
              s1\<lparr>mp_notification_deadlines := dict_set (qe_id e) d (mp_notification_deadlines s1),
                 mp_notification_seen := mp_notification_seen s1 @ [e]\<rparr>))"

definition aget_notification :: "uuid \<Rightarrow> provider_memory \<Rightarrow> queue_entry result" where
  "aget_notification i s =
     (case dict_get (mp_notification_entries s) i of None \<Rightarrow> Inl (QueueEntryNotFoundError i) | Some e \<Rightarrow> Inr e)"

definition ahas_notification :: "provider_memory \<Rightarrow> bool" where
  "ahas_notification s \<longleftrightarrow> mp_notification_entries s \<noteq> []"

definition asee_next_notification :: "provider_memory \<Rightarrow> queue_entry option \<times> provider_memory" where
  "asee_next_notification s =
     (case mp_notification_seen s of
        [] \<Rightarrow> (None, s)
      | e # rest \<Rightarrow> (Some e, s\<lparr>mp_notification_seen := rest\<rparr>))"

text \<open>One due notification is dropped per call: the first of those with the earliest deadline.\<close>

definition aexpire_due_notifications :: "clock_time \<Rightarrow> provider_memory \<Rightarrow> uuid list \<times> provider_memory" where
  "aexpire_due_notifications now s =
     (let due = filter (\<lambda>(i, deadline). deadline \<le> now) (mp_notification_deadlines s) in
      case sort_key snd due of
        [] \<Rightarrow> ([], s)
      | (i, _) # _ \<Rightarrow>
          ([i], s\<lparr>mp_notification_entries := dict_pop i (mp_notification_entries s),
                  mp_notification_deadlines := dict_pop i (mp_notification_deadlines s)\<rparr>))"

definition aclear_notifications :: "provider_memory \<Rightarrow> provider_memory" where
  "aclear_notifications s =
     s\<lparr>mp_notification_entries := [], mp_notification_deadlines := [], mp_notification_seen := []\<rparr>"

end
