(* ===== verification/Memory_Events.thy ===== *)
theory Memory_Events
  imports Memory_Provider
begin

text \<open>
  Event delivery on the in-process provider: the bookkeeping invariant that ties the seven
  dictionaries and the pending queue together, its preservation by every operation an event
  queue and its worker perform, and the reachable states of such a provider under a clock that
  does not run backwards.
\<close>

section \<open>The bookkeeping invariant\<close>

text \<open>
  An enqueue stores the record and then pushes the id, in two calls that lock the provider
  separately. \<open>Q\<close> holds the ids between the two calls, \<open>F\<close> those whose store raised. A stored
  event is pending, claimed, in \<open>Q\<close> or in \<open>F\<close>, never in two of them; unless claimed or in \<open>F\<close> it
  has the deadline of its remaining lifetime, and a claimed one has the lifetime it had left
  when it was claimed. A record deleted between the two calls leaves a pending id without a
  record behind, which the next claim or dequeue drops.
\<close>

definition event_struct :: "uuid set \<Rightarrow> uuid set \<Rightarrow> provider_memory \<Rightarrow> bool" where
  "event_struct Q F s \<longleftrightarrow>
     \<not> mp_stack s \<and> mp_scheduled s = [] \<and>
     distinct (mp_pending s) \<and> distinct (keys (mp_entries s)) \<and> distinct (keys (mp_claims s)) \<and>
     distinct (keys (mp_claim_deadlines s)) \<and>
     distinct (keys (mp_unclaimed_deadlines s)) \<and> distinct (keys (mp_unclaimed_remaining s)) \<and>
     set (mp_pending s) \<inter> dkeys (mp_claims s) = {} \<and>
     Q \<inter> F = {} \<and> (Q \<union> F) \<inter> (set (mp_pending s) \<union> dkeys (mp_claims s)) = {} \<and>
     dkeys (mp_claims s) \<subseteq> dkeys (mp_entries s) \<and>
     dkeys (mp_entries s) \<subseteq> set (mp_pending s) \<union> dkeys (mp_claims s) \<union> Q \<union> F \<and>
     dkeys (mp_claim_deadlines s) \<subseteq> dkeys (mp_claims s) \<and>
     dkeys (mp_available_at s) \<subseteq> set (mp_pending s) \<inter> dkeys (mp_entries s) \<and>
     dkeys (mp_unclaimed_deadlines s) = dkeys (mp_entries s) - dkeys (mp_claims s) - F \<and>
     dkeys (mp_unclaimed_remaining s) = dkeys (mp_claims s)"

text \<open>
  The times involved stay within the range where a duration in seconds, kept as a double,
  determines its number of microseconds: \<open>2 ^ 50\<close> microseconds, about 35 years.
\<close>

definition remaining_ok :: "rat \<Rightarrow> bool" where
  "remaining_ok r \<longleftrightarrow> (\<exists>e::int. 0 < e \<and> e < 2 ^ 50 \<and> r = fl (of_int e / 1000000))"

definition deadline_ok :: "clock_time \<Rightarrow> clock_time \<Rightarrow> bool" where
  "deadline_ok t d \<longleftrightarrow> clock_ok d \<and> total_microseconds d - total_microseconds t < 2 ^ 50"

definition event_times :: "clock_time \<Rightarrow> provider_memory \<Rightarrow> bool" where
  "event_times t s \<longleftrightarrow>
     (\<forall>i d. dict_get (mp_unclaimed_deadlines s) i = Some d \<longrightarrow> deadline_ok t d) \<and>
     (\<forall>i r. dict_get (mp_unclaimed_remaining s) i = Some r \<longrightarrow> remaining_ok r)"

definition event_inv :: "uuid set \<Rightarrow> uuid set \<Rightarrow> clock_time \<Rightarrow> provider_memory \<Rightarrow> bool" where
  "event_inv Q F t s \<longleftrightarrow> event_struct Q F s \<and> event_times t s"

lemmas event_inv_defs = event_inv_def event_struct_def event_times_def

lemma event_inv_pending:
  "event_inv Q F t s \<Longrightarrow> set p = set (mp_pending s) \<Longrightarrow> distinct p \<Longrightarrow> event_inv Q F t (s\<lparr>mp_pending := p\<rparr>)"
  by (simp add: event_inv_defs)

lemma deadline_ok_later: "deadline_ok t d \<Longrightarrow> clock_ok t \<Longrightarrow> clock_ok t' \<Longrightarrow> t \<le> t' \<Longrightarrow> deadline_ok t' d"
  using total_le_iff[of t t'] by (auto simp: deadline_ok_def)

lemma event_inv_later: "event_inv Q F t s \<Longrightarrow> clock_ok t \<Longrightarrow> clock_ok t' \<Longrightarrow> t \<le> t' \<Longrightarrow> event_inv Q F t' s"
  by (auto simp: event_inv_def event_times_def intro: deadline_ok_later)

section \<open>Claim lifetimes are exact\<close>

lemma remaining_of_deadline:
  assumes "clock_ok now" "deadline_ok now d" "now < d"
  shows "\<exists>r. clock_diff d now = Inr r \<and> remaining_ok r \<and>
    r = fl (of_int (total_microseconds d - total_microseconds now) / 1000000)"
proof -
  have "0 < total_microseconds d - total_microseconds now"
    using assms total_less_iff[of now d] by (auto simp: deadline_ok_def)
  with assms(2) show ?thesis
    by (auto simp: clock_diff_micros remaining_ok_def deadline_ok_def simp del: of_int_diff
        intro!: exI[of _ "total_microseconds d - total_microseconds now"])
qed

lemma deadline_of_remaining_exact:
  assumes "clock_ok now" "remaining_ok r"
  shows "\<exists>d. clock_add now (PyFloat (Fin r)) = Inr d \<and> deadline_ok now d \<and> now < d \<and>
    r = fl (of_int (total_microseconds d - total_microseconds now) / 1000000)"
proof -
  obtain e where e: "0 < e" "e < 2 ^ 50" "r = fl (of_int e / 1000000)"
    using assms(2) by (auto simp: remaining_ok_def)
  let ?m = "total_microseconds now + e"
  let ?d = "ClockTime (?m div 1000000) (?m mod 1000000)"
  have "clock_add now (PyFloat (Fin r)) = Inr ?d"
    using e total_nonneg[OF assms(1)] by (simp add: clock_add_micros[OF assms(1)])
  moreover have d: "deadline_ok now ?d"
    using e total_nonneg[OF assms(1)]
    by (simp add: deadline_ok_def clock_ok_def total_microseconds_def pos_imp_zdiv_nonneg_iff)
  moreover have "total_microseconds ?d = ?m" by (simp add: total_microseconds_def)
  moreover from this d have "now < ?d"
    using e(1) by (subst total_less_iff[OF assms(1), symmetric]) (simp_all add: deadline_ok_def)
  ultimately show ?thesis using e(3) by (intro exI[of _ ?d]) simp
qed

lemma deadline_of_remaining:
  assumes "clock_ok now" "remaining_ok r"
  shows "\<exists>d. clock_add now (PyFloat (Fin r)) = Inr d \<and> deadline_ok now d \<and> now < d"
  using deadline_of_remaining_exact[OF assms] by blast

text \<open>
  Measuring what is left of a lifetime and adding it to a later instant loses nothing: the new
  deadline lies as many microseconds after the release as the old one lay after the claim.
\<close>

lemma lifetime_exact:
  assumes "clock_ok now" "clock_ok released" "clock_ok d" "now < d"
    "total_microseconds d - total_microseconds now < 2 ^ 50"
    "clock_diff d now = Inr r" "clock_add released (PyFloat (Fin r)) = Inr d'"
  shows "total_microseconds d' = total_microseconds released + (total_microseconds d - total_microseconds now)"
proof -
  let ?e = "total_microseconds d - total_microseconds now"
  have e: "0 < ?e" using assms total_less_iff[of now d] by auto
  have r: "r = fl (of_int ?e / 1000000)"
    using assms(5,6) e by (simp add: clock_diff_micros del: of_int_diff)
  have "d' = ClockTime ((total_microseconds released + ?e) div 1000000) ((total_microseconds released + ?e) mod 1000000)"
    using assms(7) e assms(5) total_nonneg[OF assms(2)]
    unfolding r by (simp add: clock_add_micros[OF assms(2)] del: of_int_diff)
  then show ?thesis by (simp add: total_microseconds_def)
qed

section \<open>Preservation\<close>

lemma delete_event_inv:
  assumes "event_inv Q F t s" "i \<notin> dkeys (mp_claims s)"
  shows "event_inv Q F t (delete_event i s)"
  using assms by (auto simp: event_inv_defs delete_event_def remove_pending_def remove1_distinct_filter)

lemma delete_event_claims [simp]: "mp_claims (delete_event i s) = mp_claims s"
  by (simp add: delete_event_def remove_pending_def)

lemma fold_delete_event_inv:
  "event_inv Q F t s \<Longrightarrow> set is \<inter> dkeys (mp_claims s) = {} \<Longrightarrow> event_inv Q F t (fold delete_event is s)"
  by (induction "is" arbitrary: s) (auto simp: delete_event_inv)

lemma aexpire_due_inv: "event_inv Q F t s \<Longrightarrow> event_inv Q F t (snd (aexpire_due now s))"
  by (auto simp: aexpire_due_def Let_def intro!: fold_delete_event_inv)

text \<open>
  What recovering the claims of a set of ids does: those claims are gone, all others stay, no
  event disappears, and no recovered event is due for expiry.
\<close>

definition recovered :: "uuid set \<Rightarrow> uuid set \<Rightarrow> clock_time \<Rightarrow> uuid set \<Rightarrow> provider_memory \<Rightarrow> provider_memory \<Rightarrow> bool" where
  "recovered Q F now I s s' \<longleftrightarrow>
     event_inv Q F now s' \<and> mp_entries s' = mp_entries s \<and>
     (\<forall>j. dict_get (mp_claims s') j = (if j \<in> I then None else dict_get (mp_claims s) j)) \<and>
     (\<forall>i d. d \<le> now \<longrightarrow> dict_get (mp_unclaimed_deadlines s') i = Some d \<longrightarrow>
            dict_get (mp_unclaimed_deadlines s) i = Some d)"

lemma recovered_claims: "recovered Q F now I s s' \<Longrightarrow> dkeys (mp_claims s') = dkeys (mp_claims s) - I"
  unfolding set_eq_iff Diff_iff recovered_def by (metis dict_get_keys)

lemma recover_claim_inv:
  assumes "event_inv Q F now s" "clock_ok now" "i \<in> dkeys (mp_claims s)"
  shows "\<exists>s'. recover_claim now i s = (Inr (), s') \<and> recovered Q F now {i} s s'"
proof -
  have i: "i \<in> dkeys (mp_entries s)" "i \<in> dkeys (mp_unclaimed_remaining s)"
    using assms by (auto simp: event_inv_def event_struct_def)
  then obtain r where r: "dict_get (mp_unclaimed_remaining s) i = Some r"
    by (blast elim: dict_get_keysE)
  then have "remaining_ok r" using assms(1) by (auto simp: event_inv_def event_times_def)
  then obtain d where d: "clock_add now (PyFloat (Fin r)) = Inr d" "deadline_ok now d" "now < d"
    using deadline_of_remaining assms(2) by blast
  let ?s' = "snd (recover_claim now i s)"
  have "recover_claim now i s = (Inr (), ?s')" using i r d by (simp add: recover_claim_def Let_def)
  moreover have "event_inv Q F now ?s'"
    using assms i r d by (auto simp: event_inv_defs recover_claim_def Let_def distinct_update)
  ultimately show ?thesis
    using i r d by (intro exI[of _ ?s']) (auto simp: recovered_def recover_claim_def Let_def)
qed

lemma recover_claims_inv:
  assumes "event_inv Q F now s" "clock_ok now" "set is \<subseteq> dkeys (mp_claims s)" "distinct is"
  shows "\<exists>s'. foreach (recover_claim now) is s = (Inr (), s') \<and> recovered Q F now (set is) s s'"
  using assms
proof (induction "is" arbitrary: s)
  case Nil
  then show ?case by (simp add: recovered_def)
next
  case (Cons i "is")
  then obtain s1 where s1: "recover_claim now i s = (Inr (), s1)" "recovered Q F now {i} s s1"
    using recover_claim_inv[of Q F now s i] by auto
  have "set is \<subseteq> dkeys (mp_claims s1)" "distinct is"
    using Cons.prems recovered_claims[OF s1(2)] by auto
  moreover have "event_inv Q F now s1" using s1(2) by (simp add: recovered_def)
  ultimately obtain s' where "foreach (recover_claim now) is s1 = (Inr (), s')" "recovered Q F now (set is) s1 s'"
    using Cons.IH Cons.prems(2) by blast
  with s1 show ?case by (intro exI[of _ s']) (auto simp: recovered_def)
qed

text \<open>Recovery never fails and ends exactly the claims whose lease has run out.\<close>

definition lease_over :: "clock_time \<Rightarrow> provider_memory \<Rightarrow> uuid set" where
  "lease_over now s = {i. \<exists>d \<le> now. dict_get (mp_claim_deadlines s) i = Some d}"

lemma recover_expired_claims_inv:
  assumes "event_inv Q F now s" "clock_ok now"
  shows "\<exists>s'. recover_expired_claims now s = (Inr (), s') \<and> recovered Q F now (lease_over now s) s s'"
proof -
  let ?is = "map fst (filter (\<lambda>(i, deadline). deadline \<le> now) (mp_claim_deadlines s))"
  have d: "distinct (keys (mp_claim_deadlines s))" "dkeys (mp_claim_deadlines s) \<subseteq> dkeys (mp_claims s)"
    using assms(1) by (auto simp: event_inv_def event_struct_def)
  have "set ?is \<subseteq> dkeys (mp_claims s)" using d(2) by (auto simp: dkeys_def)
  moreover have "distinct ?is" using d(1) by (simp add: distinct_map inj_on_def)
  moreover have "set ?is = lease_over now s"
    by (force simp: lease_over_def dict_items_get[OF d(1), symmetric])
  ultimately show ?thesis
    using recover_claims_inv[OF assms] by (metis recover_expired_claims_def)
qed

lemma apromote_scheduled_none: "mp_scheduled s = [] \<Longrightarrow> apromote_scheduled now s = s"
  by (simp add: apromote_scheduled_def pop_next_due_scheduled.simps due_entries_def)

lemma take_claim_state:
  "\<exists>d. snd (take_claim w lease now i e s) =
    s\<lparr>mp_available_at := dict_pop i (mp_available_at s), mp_claims := dict_set i w (mp_claims s), mp_claim_deadlines := d\<rparr> \<and>
    (d = mp_claim_deadlines s \<or> (\<exists>t. d = dict_set i t (mp_claim_deadlines s)))"
  by (cases "snd (take_claim w lease now i e s) = s\<lparr>mp_available_at := dict_pop i (mp_available_at s),
        mp_claims := dict_set i w (mp_claims s)\<rparr>", rule exI[of _ "mp_claim_deadlines s"])
    (auto simp: take_claim_def Let_def split: option.splits sum.splits)

lemma claim_entry_inv:
  assumes inv: "event_inv Q F now s" and pend: "mp_pending s = i # rest" and ok: "clock_ok now"
    and ent: "i \<in> dkeys (mp_entries s)"
  shows "event_inv Q F now (snd (claim_entry True w lease now i e (s\<lparr>mp_pending := rest\<rparr>)))"
proof -
  have i: "i \<in> dkeys (mp_unclaimed_deadlines s)" "i \<notin> dkeys (mp_claims s)" "i \<notin> set rest" "distinct rest"
    using inv pend ent by (auto simp: event_inv_def event_struct_def)
  then obtain d where d: "dict_get (mp_unclaimed_deadlines s) i = Some d" by (blast elim: dict_get_keysE)
  then have dok: "deadline_ok now d" using inv by (auto simp: event_inv_def event_times_def)
  show ?thesis
  proof (cases "d \<le> now")
    case True
    then show ?thesis using inv pend i d
      by (auto simp: claim_entry_def event_inv_defs)
  next
    case False
    then obtain r where r: "clock_diff d now = Inr r" "remaining_ok r"
      using remaining_of_deadline[OF ok dok] by auto
    let ?s2 = "s\<lparr>mp_pending := rest, mp_unclaimed_deadlines := dict_pop i (mp_unclaimed_deadlines s),
      mp_unclaimed_remaining := dict_set i r (mp_unclaimed_remaining s)\<rparr>"
    obtain cd where cd: "snd (take_claim w lease now i e ?s2) =
      ?s2\<lparr>mp_available_at := dict_pop i (mp_available_at ?s2), mp_claims := dict_set i w (mp_claims ?s2), mp_claim_deadlines := cd\<rparr>"
      "cd = mp_claim_deadlines s \<or> (\<exists>t. cd = dict_set i t (mp_claim_deadlines s))"
      using take_claim_state[of w lease now i e ?s2] by auto
    have "snd (claim_entry True w lease now i e (s\<lparr>mp_pending := rest\<rparr>)) = snd (take_claim w lease now i e ?s2)"
      using False d r by (simp add: claim_entry_def Let_def)
    with cd show ?thesis using inv pend i r
      by (auto simp: event_inv_defs distinct_update)
  qed
qed

lemma rotate_inv:
  assumes "event_inv Q F t s" "mp_pending s = i # rest"
  shows "event_inv Q F t (s\<lparr>mp_pending := rest @ [i]\<rparr>)"
  using assms by (intro event_inv_pending) (auto simp: event_inv_def event_struct_def)

lemma drop_dangling_inv:
  assumes "event_inv Q F t s" "mp_pending s = i # rest" "i \<notin> dkeys (mp_entries s)"
  shows "event_inv Q F t (s\<lparr>mp_pending := rest\<rparr>)"
  using assms by (auto simp: event_inv_defs)

lemma requeue_queue: "\<not> mp_stack s \<Longrightarrow> requeue_skipped_pending i s = (Inr (), s\<lparr>mp_pending := mp_pending s @ [i]\<rparr>)"
  by (simp add: requeue_skipped_pending_def)

lemma event_inv_stack: "event_inv Q F t s \<Longrightarrow> \<not> mp_stack s"
  by (simp add: event_inv_def event_struct_def)

lemma claim_loop_inv:
  assumes "event_inv Q F now s" "clock_ok now"
  shows "event_inv Q F now (snd (claim_loop n True w lease now s))"
  using assms
proof (induction n arbitrary: s)
  case (Suc n)
  note inv = Suc.prems(1)
  show ?case
  proof (cases "mp_pending s")
    case Nil
    with inv show ?thesis by simp
  next
    case (Cons i rest)
    note stack = event_inv_stack[OF inv]
    have rot: "event_inv Q F now (s\<lparr>mp_pending := rest @ [i]\<rparr>)" using rotate_inv[OF inv Cons] .
    show ?thesis
    proof (cases "i \<in> dkeys (mp_entries s)")
      case True
      then obtain e where "dict_get (mp_entries s) i = Some e" by (blast elim: dict_get_keysE)
      with Suc.IH[OF rot Suc.prems(2)] rot Cons stack claim_entry_inv[OF inv Cons Suc.prems(2) True, of w lease e]
      show ?thesis by (simp add: requeue_queue Let_def split: option.splits)
    next
      case False
      with Suc.IH[OF rot Suc.prems(2)] rot Cons stack drop_dangling_inv[OF inv Cons False]
      show ?thesis by (simp add: requeue_queue Let_def split: option.splits)
    qed
  qed
qed simp

lemma dequeue_loop_inv:
  assumes "event_inv Q F now s" "clock_ok now"
  shows "event_inv Q F now (snd (dequeue_loop n now s))"
  using assms
proof (induction n arbitrary: s)
  case (Suc n)
  note inv = Suc.prems(1)
  show ?case
  proof (cases "mp_pending s")
    case Nil
    with inv show ?thesis by simp
  next
    case (Cons i rest)
    note stack = event_inv_stack[OF inv]
    have rot: "event_inv Q F now (s\<lparr>mp_pending := rest @ [i]\<rparr>)" using rotate_inv[OF inv Cons] .
    have i: "i \<notin> dkeys (mp_claims s)" "i \<notin> set rest" using inv Cons by (auto simp: event_inv_def event_struct_def)
    then have "delete_event i (s\<lparr>mp_pending := rest\<rparr>) = delete_event i s"
      using Cons by (simp add: delete_event_def remove_pending_def remove1_idem)
    then have del: "event_inv Q F now (delete_event i (s\<lparr>mp_pending := rest\<rparr>))"
      using delete_event_inv[OF inv i(1)] by simp
    from Suc.IH[OF rot Suc.prems(2)] Suc.IH[OF del Suc.prems(2)] del Cons stack i
    show ?thesis by (simp add: requeue_queue Let_def split: option.splits)
  qed
qed simp

section \<open>What the loops change\<close>

definition held_back :: "clock_time \<Rightarrow> provider_memory \<Rightarrow> uuid \<Rightarrow> bool" where
  "held_back now s i \<longleftrightarrow> (\<exists>t. dict_get (mp_available_at s) i = Some t \<and> now < t)"

lemma held_back_case:
  "(case dict_get (mp_available_at s) i of Some available_at \<Rightarrow> now < available_at | None \<Rightarrow> False) \<longleftrightarrow> held_back now s i"
  by (cases "dict_get (mp_available_at s) i") (simp_all add: held_back_def del: dict_get_None)

lemma held_back_pending [simp]: "held_back now (s\<lparr>mp_pending := p\<rparr>) = held_back now s"
  by (simp add: held_back_def fun_eq_iff)

text \<open>
  A claim attempt by worker \<open>w\<close>: events disappear only when their lifetime is over, a claim in
  force is never replaced, and an event handed out was unclaimed and in its lifetime and is now
  claimed by \<open>w\<close>.
\<close>

definition claim_effect ::
    "clock_time \<Rightarrow> uuid \<Rightarrow> provider_memory \<Rightarrow> queue_entry result \<Rightarrow> provider_memory \<Rightarrow> bool" where
  "claim_effect now w s r s' \<longleftrightarrow>
     (\<forall>i. i \<in> dkeys (mp_entries s) - dkeys (mp_entries s') \<longrightarrow>
          (\<exists>d \<le> now. dict_get (mp_unclaimed_deadlines s) i = Some d)) \<and>
     (\<forall>i v. dict_get (mp_claims s) i = Some v \<longrightarrow> dict_get (mp_claims s') i = Some v) \<and>
     (\<forall>e. r = Inr e \<longrightarrow> (\<exists>i d. dict_get (mp_entries s) i = Some e \<and> i \<notin> dkeys (mp_claims s) \<and>
          dict_get (mp_unclaimed_deadlines s) i = Some d \<and> now < d \<and> \<not> held_back now s i \<and>
          dict_get (mp_entries s') i = Some e \<and> dict_get (mp_claims s') i = Some w))"

lemma claim_entry_effect:
  assumes "event_inv Q F now s" "clock_ok now" "mp_pending s = i # rest" "dict_get (mp_entries s) i = Some e"
    "\<not> held_back now s i" "claim_entry True w lease now i e (s\<lparr>mp_pending := rest\<rparr>) = (r, s')"
  shows "claim_effect now w s r s'"
proof -
  have i: "i \<notin> dkeys (mp_claims s)" using assms by (auto simp: event_inv_def event_struct_def)
  show ?thesis
    using assms(4-6) i dict_get_dkeys[of "mp_claims s"]
    by (auto simp: claim_effect_def claim_entry_def take_claim_def Let_def split: option.splits if_splits sum.splits)
qed

lemma claim_effect_pending [simp]: "claim_effect now w (s\<lparr>mp_pending := p\<rparr>) r s' = claim_effect now w s r s'"
  by (simp add: claim_effect_def)

lemma claim_effect_same [simp]: "claim_effect now w s (Inl err) s"
  "claim_effect now w s (Inl err) (s\<lparr>mp_pending := p\<rparr>)"
  by (simp_all add: claim_effect_def)

lemma claim_loop_effect:
  assumes "event_inv Q F now s" "clock_ok now" "claim_loop n True w lease now s = (r, s')"
  shows "claim_effect now w s r s'"
  using assms
proof (induction n arbitrary: s)
  case (Suc n)
  note inv = Suc.prems(1)
  show ?case
  proof (cases "mp_pending s")
    case Nil
    with Suc.prems show ?thesis by auto
  next
    case (Cons i rest)
    note stack = event_inv_stack[OF inv]
    have rot: "event_inv Q F now (s\<lparr>mp_pending := rest @ [i]\<rparr>)" using rotate_inv[OF inv Cons] .
    have i: "i \<notin> dkeys (mp_claims s)" using inv Cons by (auto simp: event_inv_def event_struct_def)
    show ?thesis
    proof (cases "held_back now s i")
      case True
      then show ?thesis using Suc.IH[OF rot Suc.prems(2)] Suc.prems(3) Cons stack
        by (simp add: Let_def held_back_case requeue_queue)
    next
      case False
      then show ?thesis
        using claim_entry_effect[OF inv Suc.prems(2) Cons _ False] Suc.prems(3) Cons stack i
        by (auto simp: Let_def held_back_case split: option.splits)
    qed
  qed
qed auto

definition dequeue_effect :: "clock_time \<Rightarrow> provider_memory \<Rightarrow> queue_entry result \<Rightarrow> provider_memory \<Rightarrow> bool" where
  "dequeue_effect now s r s' \<longleftrightarrow>
     (\<forall>i. i \<in> dkeys (mp_entries s) - dkeys (mp_entries s') \<longrightarrow>
          (\<exists>d \<le> now. dict_get (mp_unclaimed_deadlines s) i = Some d) \<or>
          (\<exists>e. dict_get (mp_entries s) i = Some e \<and> r = Inr e)) \<and>
     mp_claims s' = mp_claims s \<and>
     (\<forall>e. r = Inr e \<longrightarrow> (\<exists>i d. dict_get (mp_entries s) i = Some e \<and> i \<notin> dkeys (mp_claims s) \<and>
          dict_get (mp_unclaimed_deadlines s) i = Some d \<and> now < d \<and> i \<notin> dkeys (mp_entries s')))"

lemma dequeue_effect_delete:
  assumes "dequeue_effect now (delete_event i s) r s'"
    "i \<notin> dkeys (mp_entries s) \<or> (\<exists>d \<le> now. dict_get (mp_unclaimed_deadlines s) i = Some d)"
  shows "dequeue_effect now s r s'"
  unfolding dequeue_effect_def
proof (intro conjI allI impI)
  fix j assume "j \<in> dkeys (mp_entries s) - dkeys (mp_entries s')"
  then show "(\<exists>d \<le> now. dict_get (mp_unclaimed_deadlines s) j = Some d) \<or>
    (\<exists>e. dict_get (mp_entries s) j = Some e \<and> r = Inr e)"
    using assms by (cases "j = i") (auto simp: dequeue_effect_def delete_event_def remove_pending_def)
next
  show "mp_claims s' = mp_claims s" using assms(1) by (simp add: dequeue_effect_def)
next
  fix e assume "r = Inr e"
  then obtain j d where j: "dict_get (mp_entries (delete_event i s)) j = Some e" "j \<notin> dkeys (mp_claims s)"
    "dict_get (mp_unclaimed_deadlines (delete_event i s)) j = Some d" "now < d" "j \<notin> dkeys (mp_entries s')"
    using assms(1) by (auto simp: dequeue_effect_def)
  then have "j \<noteq> i" by (auto simp: delete_event_def remove_pending_def)
  with j show "\<exists>i d. dict_get (mp_entries s) i = Some e \<and> i \<notin> dkeys (mp_claims s) \<and>
      dict_get (mp_unclaimed_deadlines s) i = Some d \<and> now < d \<and> i \<notin> dkeys (mp_entries s')"
    by (auto simp: delete_event_def remove_pending_def)
qed

lemma dequeue_effect_pending [simp]: "dequeue_effect now (s\<lparr>mp_pending := p\<rparr>) r s' = dequeue_effect now s r s'"
  by (simp add: dequeue_effect_def)

lemma dequeue_effect_taken:
  assumes "dict_get (mp_entries s) i = Some e" "i \<notin> dkeys (mp_claims s)"
    "dict_get (mp_unclaimed_deadlines s) i = Some d" "now < d"
  shows "dequeue_effect now s (Inr e) (delete_event i s)"
  using assms by (auto simp: dequeue_effect_def delete_event_def remove_pending_def)

lemma dequeue_loop_effect:
  assumes "event_inv Q F now s" "clock_ok now" "dequeue_loop n now s = (r, s')"
  shows "dequeue_effect now s r s'"
  using assms
proof (induction n arbitrary: s)
  case (Suc n)
  note inv = Suc.prems(1)
  show ?case
  proof (cases "mp_pending s")
    case Nil
    with Suc.prems show ?thesis by (auto simp: dequeue_effect_def)
  next
    case (Cons i rest)
    note stack = event_inv_stack[OF inv]
    have rot: "event_inv Q F now (s\<lparr>mp_pending := rest @ [i]\<rparr>)" using rotate_inv[OF inv Cons] .
    have i: "i \<notin> dkeys (mp_claims s)" "i \<notin> set rest" "i \<notin> F"
      using inv Cons by (auto simp: event_inv_def event_struct_def)
    have del: "delete_event i (s\<lparr>mp_pending := rest\<rparr>) = delete_event i s"
      using Cons i by (simp add: delete_event_def remove_pending_def remove1_idem)
    note IH = Suc.IH[OF rot Suc.prems(2)] Suc.IH[OF delete_event_inv[OF inv i(1)] Suc.prems(2)]
    show ?thesis
    proof (cases "i \<in> dkeys (mp_entries s)")
      case True
      then have "i \<in> dkeys (mp_unclaimed_deadlines s)" using inv i by (auto simp: event_inv_def event_struct_def)
      then obtain d where d: "dict_get (mp_unclaimed_deadlines s) i = Some d" by (blast elim: dict_get_keysE)
      obtain e where e: "dict_get (mp_entries s) i = Some e" using True by (blast elim: dict_get_keysE)
      have loop: "dequeue_loop (Suc n) now s =
          (if held_back now s i then dequeue_loop n now (s\<lparr>mp_pending := rest @ [i]\<rparr>)
           else if d \<le> now then dequeue_loop n now (delete_event i s) else (Inr e, delete_event i s))"
        using Cons stack i e d del by (simp add: Let_def held_back_case requeue_queue)
      show ?thesis
        using IH Suc.prems(3) dequeue_effect_delete[OF _ disjI2, of now i s] dequeue_effect_taken[OF e i(1) d, of now] d
        unfolding loop by (auto split: if_splits)
    next
      case False
      then have loop: "dequeue_loop (Suc n) now s =
          (if held_back now s i then dequeue_loop n now (s\<lparr>mp_pending := rest @ [i]\<rparr>)
           else dequeue_loop n now (delete_event i s))"
        using Cons stack i del dict_get_None[of "mp_entries s" i]
        by (simp add: Let_def held_back_case requeue_queue del: dict_get_None)
      show ?thesis using IH Suc.prems(3) dequeue_effect_delete[OF _ disjI1[OF False], of now]
        unfolding loop by (auto split: if_splits)
    qed
  qed
qed (auto simp: dequeue_effect_def)

section \<open>Operations of an event queue and its worker\<close>

definition lifetime_ok :: "queue_entry \<Rightarrow> bool" where
  "lifetime_ok e \<longleftrightarrow> (\<exists>n x. qe_timeout_seconds e = Some n \<and> num_value n = Some x \<and> 0 < x \<and> x \<le> 2 ^ 29)"

text \<open>
  The first of the two provider calls of an enqueue. A lifetime in range gives the event its
  deadline; a lifetime whose end is no instant makes the store raise after the record is
  written, and one that is missing makes it raise before.
\<close>

lemma astore_event_inv:
  assumes "event_inv Q F t s" "clock_ok (qe_queued_at e)" "qe_queued_at e \<le> t" "clock_ok t" "lifetime_ok e"
    "qe_id e \<notin> dkeys (mp_entries s) \<union> set (mp_pending s) \<union> Q \<union> F"
  shows "\<exists>s'. astore_event e s = (Inr (), s') \<and> event_inv (insert (qe_id e) Q) F t s'"
proof -
  obtain n d where n: "qe_timeout_seconds e = Some n" "clock_add (qe_queued_at e) n = Inr d" "deadline_ok (qe_queued_at e) d"
    using assms(2,5) clock_add_lifetime by (fastforce simp: lifetime_ok_def deadline_ok_def)
  let ?s' = "s\<lparr>mp_entries := dict_set (qe_id e) e (mp_entries s),
    mp_unclaimed_deadlines := dict_set (qe_id e) d (mp_unclaimed_deadlines s)\<rparr>"
  have "astore_event e s = (Inr (), ?s')"
    using n by (simp add: astore_event_def Let_def)
  moreover have "deadline_ok t d" using deadline_ok_later[OF n(3) assms(2,4,3)] .
  then have "event_inv (insert (qe_id e) Q) F t ?s'"
    using assms(1,6) by (auto simp: event_inv_defs distinct_update)
  ultimately show ?thesis by auto
qed

lemma astore_event_failed:
  assumes "event_inv Q F t s" "astore_event e s = (Inl err, s')"
    "qe_id e \<notin> dkeys (mp_entries s) \<union> set (mp_pending s) \<union> Q \<union> F"
  shows "event_inv Q (insert (qe_id e) F) t s'"
  using assms by (auto simp: astore_event_def Let_def event_inv_defs distinct_update split: option.splits sum.splits)

lemma apush_inv:
  assumes "event_inv Q F t s" "i \<in> Q"
  shows "event_inv (Q - {i}) F t (apush i s)"
  using assms by (auto simp: apush_def event_inv_defs)

lemma adelete_inv:
  assumes "event_inv Q F t s"
  shows "event_inv Q F t (adelete i s)"
  using assms by (auto simp: adelete_def adiscard_priority_def remove_pending_def event_inv_defs remove1_distinct_filter)

lemma aclaim_unexpired_run:
  assumes "event_inv Q F now s" "clock_ok now" "validate_lease lease_seconds = Inr lease"
    "recover_expired_claims now s = (Inr (), s1)"
  shows "aclaim_unexpired now now' w lease_seconds s = claim_loop (length (mp_pending s1)) True w lease now s1"
  using assms by (simp add: aclaim_unexpired_def aclaim_with_def bindE_lift bindE_def
      apromote_scheduled_none event_inv_def event_struct_def)

lemma aclaim_unexpired_inv:
  assumes "event_inv Q F now s" "clock_ok now"
  shows "event_inv Q F now (snd (aclaim_unexpired now now' w lease_seconds s))"
proof (cases "validate_lease lease_seconds")
  case (Inl err)
  with assms show ?thesis by (simp add: aclaim_unexpired_def aclaim_with_def bindE_lift)
next
  case (Inr lease)
  obtain s1 where "recover_expired_claims now s = (Inr (), s1)" "event_inv Q F now s1"
    using recover_expired_claims_inv[OF assms] by (auto simp: recovered_def)
  then show ?thesis using aclaim_unexpired_run[OF assms Inr] claim_loop_inv assms(2) by simp
qed

lemma adequeue_run:
  assumes "recover_expired_claims now s = (Inr (), s1)"
  shows "adequeue now s = dequeue_loop (length (mp_pending s1)) now s1"
  using assms by (simp add: adequeue_def)

lemma adequeue_inv:
  assumes "event_inv Q F now s" "clock_ok now"
  shows "event_inv Q F now (snd (adequeue now s))"
  using recover_expired_claims_inv[OF assms] adequeue_run dequeue_loop_inv assms(2)
  by (metis recovered_def)

lemma arenew_inv:
  assumes "event_inv Q F now s" "clock_ok now"
  shows "event_inv Q F now (snd (arenew now i w lease_seconds s))"
proof (cases "validate_budget lease_seconds")
  case (Inl err)
  with assms show ?thesis by (simp add: arenew_def bindE_lift)
next
  case (Inr lease)
  obtain s1 where s1: "recover_expired_claims now s = (Inr (), s1)" "event_inv Q F now s1"
    using recover_expired_claims_inv[OF assms] by (auto simp: recovered_def)
  have "dict_get (mp_claims s1) i = Some w \<Longrightarrow> event_inv Q F now (s1\<lparr>mp_claim_deadlines := dict_set i d (mp_claim_deadlines s1)\<rparr>)" for d
    using s1(2) dict_get_dkeys[of "mp_claims s1" i w] by (auto simp: event_inv_defs distinct_update)
  with s1 Inr show ?thesis by (auto simp: arenew_def bindE_lift split: sum.splits)
qed

lemma arelease_inv:
  assumes "event_inv Q F now s" "clock_ok now"
  shows "event_inv Q F now (snd (arelease now i w delay_seconds s))"
proof (cases "dict_get (mp_claims s) i = Some w")
  case True
  then have i: "i \<in> dkeys (mp_claims s)" by (rule dict_get_dkeys)
  then have "i \<in> dkeys (mp_unclaimed_remaining s)" using assms by (simp add: event_inv_def event_struct_def)
  then obtain r where r: "dict_get (mp_unclaimed_remaining s) i = Some r" by (blast elim: dict_get_keysE)
  then have "remaining_ok r" using assms(1) by (auto simp: event_inv_def event_times_def)
  then obtain d where d: "clock_add now (PyFloat (Fin r)) = Inr d" "deadline_ok now d"
    using deadline_of_remaining assms(2) by blast
  have "event_inv Q F now (s\<lparr>mp_claims := dict_pop i (mp_claims s), mp_claim_deadlines := dict_pop i (mp_claim_deadlines s),
      mp_unclaimed_remaining := dict_pop i (mp_unclaimed_remaining s),
      mp_unclaimed_deadlines := dict_set i d (mp_unclaimed_deadlines s),
      mp_available_at := dict_set i t (mp_available_at s), mp_pending := mp_pending s @ [i]\<rparr>)" for t
    using assms i d by (auto simp: event_inv_defs distinct_update)
  then show ?thesis
    using True r d assms by (simp add: arelease_def bindE_lift Let_def split: sum.splits)
next
  case False
  then show ?thesis using assms by (simp add: arelease_def bindE_lift split: sum.splits)
qed

lemma aremove_inv:
  assumes "event_inv Q F t s"
  shows "event_inv Q F t (snd (aremove i w s))"
  using assms dict_get_dkeys[of "mp_claims s" i w]
  by (auto simp: aremove_def event_inv_defs remove_pending_def remove1_idem)

text \<open>An enqueue that nothing interrupts: the two calls one after the other.\<close>

definition astore_and_push_event :: "queue_entry \<Rightarrow> (unit, provider_memory) prog" where
  "astore_and_push_event e = bindE (astore_event e) (\<lambda>_ s. (Inr (), apush (qe_id e) s))"

section \<open>Reachable states\<close>

text \<open>
  An event provider together with the latest clock reading and the enqueue calls under way: the
  ids whose record is stored and whose push is still to come, and the ids whose store raised.
  The provider is shared by the threads of its process and locks each call for itself, so the
  two calls of an enqueue are two steps with any other calls between them. Every step reads the
  clock again, no earlier than before. A fresh event carries an id that is nowhere in the
  provider, a creation time that is not in the future, and a lifetime that is either at most
  \<open>2 ^ 29\<close> seconds or one with which the store raises (longer ones are left out: beyond
  \<open>2 ^ 50\<close> microseconds the remaining lifetime is rounded at every claim). Clearing the queue
  deletes one listed record after the other, each under its own lock; any worker may attempt any
  operation on any id with any arguments.
\<close>

datatype event_op =
    EvStore queue_entry
  | EvPush uuid
  | EvClaim uuid pyval clock_time
  | EvRenew uuid uuid pyval
  | EvRelease uuid uuid pyval
  | EvRemove uuid uuid
  | EvDequeue
  | EvExpireDue
  | EvDelete uuid

type_synonym event_world = "clock_time \<times> uuid set \<times> uuid set \<times> provider_memory"

fun event_run :: "event_op \<Rightarrow> clock_time \<Rightarrow> provider_memory \<Rightarrow> queue_entry result option \<times> provider_memory" where
  "event_run (EvStore e) now s = (None, snd (astore_event e s))"
| "event_run (EvPush i) now s = (None, apush i s)"
| "event_run (EvClaim w lease now') now s = (let (r, s') = aclaim_unexpired now now' w lease s in (Some r, s'))"
| "event_run (EvRenew i w lease) now s = (None, snd (arenew now i w lease s))"
| "event_run (EvRelease i w delay) now s = (None, snd (arelease now i w delay s))"
| "event_run (EvRemove i w) now s = (None, snd (aremove i w s))"
| "event_run EvDequeue now s = (let (r, s') = adequeue now s in (Some r, s'))"
| "event_run EvExpireDue now s = (None, snd (aexpire_due now s))"
| "event_run (EvDelete i) now s = (None, adelete i s)"

text \<open>The enqueue calls under way, and those that failed, after a step.\<close>

fun event_storing :: "event_op \<Rightarrow> provider_memory \<Rightarrow> uuid set \<Rightarrow> uuid set" where
  "event_storing (EvStore e) s Q = (if isl (fst (astore_event e s)) then Q else insert (qe_id e) Q)"
| "event_storing (EvPush i) s Q = Q - {i}"
| "event_storing _ s Q = Q"

fun event_failed :: "event_op \<Rightarrow> provider_memory \<Rightarrow> uuid set \<Rightarrow> uuid set" where
  "event_failed (EvStore e) s F = (if isl (fst (astore_event e s)) then insert (qe_id e) F else F)"
| "event_failed _ s F = F"

fun event_enabled :: "event_op \<Rightarrow> clock_time \<Rightarrow> uuid set \<Rightarrow> uuid set \<Rightarrow> provider_memory \<Rightarrow> bool" where
  "event_enabled (EvStore e) now Q F s \<longleftrightarrow>
     clock_ok (qe_queued_at e) \<and> qe_queued_at e \<le> now \<and> (lifetime_ok e \<or> isl (fst (astore_event e s))) \<and>
     qe_id e \<notin> dkeys (mp_entries s) \<union> set (mp_pending s) \<union> Q \<union> F"
| "event_enabled (EvPush i) now Q F s \<longleftrightarrow> i \<in> Q"
| "event_enabled _ now Q F s \<longleftrightarrow> True"

inductive event_step ::
    "event_world \<Rightarrow> event_op \<Rightarrow> queue_entry result option \<Rightarrow> event_world \<Rightarrow> bool" where
  event_stepI: "t \<le> now \<Longrightarrow> clock_ok now \<Longrightarrow> event_enabled op now Q F s \<Longrightarrow> event_run op now s = (r, s') \<Longrightarrow>
    event_step (t, Q, F, s) op r (now, event_storing op s Q, event_failed op s F, s')"

inductive_cases event_stepE: "event_step (t, Q, F, s) op r (now, Q', F', s')"

inductive event_reachable :: "event_world \<Rightarrow> bool" where
  event_init: "clock_ok t \<Longrightarrow> event_reachable (t, {}, {}, provider_memory_init False maxsize)"
| event_next: "event_reachable c \<Longrightarrow> event_step c op r c' \<Longrightarrow> event_reachable c'"

lemma event_store_inv:
  assumes "event_inv Q F now s" "clock_ok now" "event_enabled (EvStore e) now Q F s"
  shows "event_inv (event_storing (EvStore e) s Q) (event_failed (EvStore e) s F) now (snd (astore_event e s))"
proof (cases "fst (astore_event e s)")
  case (Inl err)
  then have "astore_event e s = (Inl err, snd (astore_event e s))" by (metis prod.collapse)
  from astore_event_failed[OF assms(1) this] show ?thesis using Inl assms(3) by simp
next
  case (Inr u)
  then obtain s' where "astore_event e s = (Inr (), s')" "event_inv (insert (qe_id e) Q) F now s'"
    using astore_event_inv[OF assms(1), of e] assms(2,3) by auto
  then show ?thesis by simp
qed

lemma event_run_inv:
  assumes "event_inv Q F now s" "clock_ok now" "event_enabled op now Q F s"
  shows "event_inv (event_storing op s Q) (event_failed op s F) now (snd (event_run op now s))"
proof (cases op)
  case (EvStore e)
  then show ?thesis using assms event_store_inv[of Q F now s e] by (simp del: event_storing.simps event_failed.simps)
next
  case (EvPush i)
  then show ?thesis using assms apush_inv[of Q F now s i] by simp
next
  case (EvClaim w lease now')
  then show ?thesis using aclaim_unexpired_inv[OF assms(1,2), of now' w lease] by (simp add: case_prod_beta)
next
  case EvDequeue
  then show ?thesis using adequeue_inv[OF assms(1,2)] by (simp add: case_prod_beta)
qed (use assms arenew_inv arelease_inv aremove_inv aexpire_due_inv adelete_inv in simp_all)

lemma event_reachable_inv: "event_reachable (t, Q, F, s) \<Longrightarrow> clock_ok t \<and> event_inv Q F t s"
proof (induction "(t, Q, F, s)" arbitrary: t Q F s rule: event_reachable.induct)
  case (event_init t maxsize)
  then show ?case by (simp add: event_inv_defs provider_memory_init_def)
next
  case (event_next c op r)
  from event_next.hyps(3) show ?case
  proof cases
    case (event_stepI t0 Q0 F0 s0)
    have "clock_ok t0 \<and> event_inv Q0 F0 t0 s0" using event_next.hyps(2)[OF event_stepI(1)] .
    then have "event_inv Q0 F0 t s0" using event_inv_later[of Q0 F0 t0 s0 t] event_stepI by simp
    with event_stepI event_run_inv[of Q0 F0 t s0 op] show ?thesis by simp
  qed
qed

text \<open>
  A stored event is in exactly one place: pending, claimed, between the two calls of its
  enqueue, or left behind by an enqueue that raised. No id is in two places or pending twice,
  and only stored events are claimed.
\<close>

definition event_places :: "uuid set \<Rightarrow> uuid set \<Rightarrow> provider_memory \<Rightarrow> uuid \<Rightarrow> nat" where
  "event_places Q F s i = count_list (mp_pending s) i + (if i \<in> dkeys (mp_claims s) then 1 else 0) +
     (if i \<in> Q then 1 else 0) + (if i \<in> F then 1 else 0)"

definition live_once :: "uuid set \<Rightarrow> uuid set \<Rightarrow> provider_memory \<Rightarrow> uuid \<Rightarrow> bool" where
  "live_once Q F s i \<longleftrightarrow>
     (i \<in> dkeys (mp_entries s) \<longrightarrow> event_places Q F s i = 1) \<and>
     (i \<notin> dkeys (mp_entries s) \<longrightarrow> i \<notin> dkeys (mp_claims s) \<and> event_places Q F s i \<le> 1)"

lemma event_inv_live_once: "event_inv Q F t s \<Longrightarrow> live_once Q F s i"
  by (auto simp: live_once_def event_places_def event_inv_def event_struct_def count_list_distinct)

text \<open>How a stored event can disappear in one step.\<close>

definition removal_reason ::
    "event_op \<Rightarrow> queue_entry result option \<Rightarrow> clock_time \<Rightarrow> provider_memory \<Rightarrow> uuid \<Rightarrow> bool" where
  "removal_reason op r now s i \<longleftrightarrow>
     (\<exists>w. op = EvRemove i w \<and> dict_get (mp_claims s) i = Some w) \<or>
     (\<exists>e. op = EvDequeue \<and> r = Some (Inr e) \<and> dict_get (mp_entries s) i = Some e) \<or>
     op = EvDelete i \<or>
     ((op = EvExpireDue \<or> op = EvDequeue \<or> (\<exists>w lease now'. op = EvClaim w lease now')) \<and>
        (\<exists>d \<le> now. dict_get (mp_unclaimed_deadlines s) i = Some d))"

lemma fold_delete_entries: "dkeys (mp_entries (fold delete_event is s)) = dkeys (mp_entries s) - set is"
  by (induction "is" arbitrary: s) (auto simp: delete_event_def remove_pending_def)

lemma astore_event_keeps: "i \<in> dkeys (mp_entries s) \<Longrightarrow> i \<in> dkeys (mp_entries (snd (astore_event e s)))"
  by (auto simp: astore_event_def Let_def split: option.splits sum.splits)

lemma event_removed:
  assumes inv: "event_inv Q F now s" and ok: "clock_ok now"
    and run: "event_run op now s = (r, s')" and i: "i \<in> dkeys (mp_entries s)" "i \<notin> dkeys (mp_entries s')"
  shows "removal_reason op r now s i"
proof -
  obtain s1 where s1: "recover_expired_claims now s = (Inr (), s1)" "recovered Q F now (lease_over now s) s s1"
    using recover_expired_claims_inv[OF inv ok] by blast
  then have inv1: "event_inv Q F now s1" and ents: "mp_entries s1 = mp_entries s"
    and dl: "\<And>i d. d \<le> now \<Longrightarrow> dict_get (mp_unclaimed_deadlines s1) i = Some d \<Longrightarrow> dict_get (mp_unclaimed_deadlines s) i = Some d"
    by (auto simp: recovered_def)
  show ?thesis
  proof (cases op)
    case (EvStore e)
    then show ?thesis using run i astore_event_keeps[OF i(1), of e] by auto
  next
    case (EvPush j)
    then show ?thesis using run i by (auto simp: apush_def)
  next
    case (EvDelete j)
    then show ?thesis using run i by (auto simp: adelete_def adiscard_priority_def remove_pending_def removal_reason_def)
  next
    case (EvClaim w lease now')
    then have claim: "aclaim_unexpired now now' w lease s = (the r, s')" using run by (auto split: prod.splits)
    then obtain le where "validate_lease lease = Inr le"
      using i by (cases "validate_lease lease") (auto simp: aclaim_unexpired_def aclaim_with_def bindE_lift)
    then have "claim_effect now w s1 (the r) s'"
      using claim_loop_effect[OF inv1 ok] claim aclaim_unexpired_run[OF inv ok _ s1(1)] by metis
    then show ?thesis using i dl ents EvClaim by (auto simp: claim_effect_def removal_reason_def)
  next
    case EvDequeue
    then have "dequeue_loop (length (mp_pending s1)) now s1 = (the r, s')" "r \<noteq> None"
      using run adequeue_run[OF s1(1)] by (auto split: prod.splits)
    then have "dequeue_effect now s1 (the r) s'" using dequeue_loop_effect[OF inv1 ok] by blast
    then show ?thesis using i dl ents \<open>r \<noteq> None\<close> EvDequeue
      unfolding dequeue_effect_def removal_reason_def by (metis DiffI option.collapse)
  next
    case EvExpireDue
    have "distinct (keys (mp_unclaimed_deadlines s))" using inv by (simp add: event_inv_def event_struct_def)
    from dict_items_get[OF this] show ?thesis using run i EvExpireDue
      by (auto simp: aexpire_due_def Let_def fold_delete_entries removal_reason_def)
  next
    case (EvRenew j w lease)
    then show ?thesis using run i s1 ents by (auto simp: arenew_def bindE_lift split: sum.splits if_splits)
  next
    case (EvRelease j w delay)
    then show ?thesis using run i
      by (auto simp: arelease_def bindE_lift Let_def split: sum.splits if_splits option.splits)
  next
    case (EvRemove j w)
    then show ?thesis using run i by (auto simp: aremove_def removal_reason_def remove_pending_def split: if_splits)
  qed
qed

section \<open>The guarantees of event delivery\<close>

lemma aclaim_unexpired_effect:
  assumes inv: "event_inv Q F now s" and ok: "clock_ok now" and run: "aclaim_unexpired now now' w lease s = (r, s')"
  shows "(\<forall>i v. dict_get (mp_claims s) i = Some v \<longrightarrow> i \<notin> lease_over now s \<longrightarrow> dict_get (mp_claims s') i = Some v) \<and>
    (\<forall>e. r = Inr e \<longrightarrow> (\<exists>i. dict_get (mp_entries s) i = Some e \<and> dict_get (mp_claims s') i = Some w \<and>
        (i \<notin> dkeys (mp_claims s) \<or> i \<in> lease_over now s)))"
proof (cases "validate_lease lease")
  case (Inl err)
  then show ?thesis using run by (auto simp: aclaim_unexpired_def aclaim_with_def bindE_lift)
next
  case (Inr le)
  obtain s1 where s1: "recover_expired_claims now s = (Inr (), s1)" "recovered Q F now (lease_over now s) s s1"
    using recover_expired_claims_inv[OF inv ok] by blast
  then have "claim_effect now w s1 r s'"
    using claim_loop_effect[OF _ ok] aclaim_unexpired_run[OF inv ok Inr s1(1)] run by (metis recovered_def)
  with s1(2) recovered_claims[OF s1(2)] show ?thesis
    unfolding claim_effect_def recovered_def by (metis Diff_iff)
qed

definition sample_events :: event_world where
  "sample_events = (ClockTime 1001 0, {}, {},
     (provider_memory_init False 0)\<lparr>mp_entries := [(sample_id 1, sample_entry 1 (ClockTime 1000 0) 60)],
       mp_claims := [(sample_id 1, 7)], mp_claim_deadlines := [(sample_id 1, ClockTime 1011 0)],
       mp_unclaimed_remaining := [(sample_id 1, 59)]\<rparr>)"

lemma sample_claim:
  "validate_lease (PNum (PyInt 10)) = Inr (Some (PyInt 10))"
  "clock_add (ClockTime 1000 0) (PyInt 60) = Inr (ClockTime 1060 0)"
  "clock_add (ClockTime 1001 0) (PyInt 10) = Inr (ClockTime 1011 0)"
  "clock_diff (ClockTime 1060 0) (ClockTime 1001 0) = Inr 59"
  using clock_diff_micros[of "ClockTime 1060 0" "ClockTime 1001 0"] fl_numeral[of "num.Bit1 (num.Bit1 (num.Bit0 (num.Bit1 (num.Bit1 num.One))))"]
  by (simp_all add: validate_lease_def validate_budget_def clock_eval)

definition sample_memory :: provider_memory where
  "sample_memory = snd (snd (snd sample_events))"

lemma sample_events_eq: "sample_events = (ClockTime 1001 0, {}, {}, sample_memory)"
  by (simp add: sample_memory_def sample_events_def)

lemma sample_events_reachable: "event_reachable (ClockTime 1001 0, {}, {}, sample_memory)"
proof -
  let ?e = "sample_entry 1 (ClockTime 1000 0) 60"
  let ?s0 = "provider_memory_init False 0"
  let ?s1 = "?s0\<lparr>mp_entries := [(sample_id 1, ?e)], mp_unclaimed_deadlines := [(sample_id 1, ClockTime 1060 0)]\<rparr>"
  let ?s2 = "?s1\<lparr>mp_pending := [sample_id 1]\<rparr>"
  have 0: "event_reachable (ClockTime 1000 0, {}, {}, ?s0)" by (rule event_init) (simp add: clock_ok_def)
  have "event_step (ClockTime 1000 0, {}, {}, ?s0) (EvStore ?e) None (ClockTime 1000 0, event_storing (EvStore ?e) ?s0 {},
      event_failed (EvStore ?e) ?s0 {}, ?s1)"
    by (rule event_stepI) (simp_all add: clock_ok_def lifetime_ok_def astore_event_def sample_claim provider_memory_init_def)
  then have 1: "event_step (ClockTime 1000 0, {}, {}, ?s0) (EvStore ?e) None (ClockTime 1000 0, {sample_id 1}, {}, ?s1)"
    by (simp add: astore_event_def sample_claim)
  have "event_step (ClockTime 1000 0, {sample_id 1}, {}, ?s1) (EvPush (sample_id 1)) None
      (ClockTime 1000 0, event_storing (EvPush (sample_id 1)) ?s1 {sample_id 1}, event_failed (EvPush (sample_id 1)) ?s1 {}, ?s2)"
    by (rule event_stepI) (simp_all add: clock_ok_def apush_def provider_memory_init_def)
  then have 2: "event_step (ClockTime 1000 0, {sample_id 1}, {}, ?s1) (EvPush (sample_id 1)) None (ClockTime 1000 0, {}, {}, ?s2)"
    by simp
  let ?claim = "EvClaim 7 (PNum (PyInt 10)) (ClockTime 1001 0)"
  have "event_step (ClockTime 1000 0, {}, {}, ?s2) ?claim (Some (Inr ?e))
      (ClockTime 1001 0, event_storing ?claim ?s2 {}, event_failed ?claim ?s2 {}, sample_memory)"
    unfolding sample_memory_def sample_events_def
    by (rule event_stepI) (simp_all add: clock_ok_def less_eq_clock_time_def aclaim_unexpired_def aclaim_with_def bindE_lift
        sample_claim apromote_scheduled_none recover_expired_claims_def claim_entry_def take_claim_def
        provider_memory_init_def Let_def)
  then have 3: "event_step (ClockTime 1000 0, {}, {}, ?s2) ?claim (Some (Inr ?e)) (ClockTime 1001 0, {}, {}, sample_memory)"
    by simp
  show ?thesis using event_next[OF event_next[OF event_next[OF 0 1] 2] 3] .
qed

lemma sample_removed:
  "sample_id 1 \<in> dkeys (mp_entries sample_memory)" "sample_id 1 \<notin> dkeys (mp_entries (snd (aremove (sample_id 1) 7 sample_memory)))"
  by (simp_all add: sample_memory_def sample_events_def provider_memory_init_def aremove_def remove_pending_def dkeys_def)

text \<open>
  C7. In every reachable state of an in-process event provider a stored event is in exactly one
  place: once in the pending queue, claimed by a worker, between the two provider calls of its
  own enqueue, or left behind by an enqueue whose store raised (a lifetime whose end is not an
  instant). No id is in two of these places or pending twice, and only stored events are
  claimed. So once no enqueue of it is under way, an event whose enqueue succeeded is pending
  once or claimed, whatever the other threads did in between; lifetimes are at most \<open>2 ^ 29\<close>
  seconds unless the store rejects them.
\<close>

theorem events_conserved: "event_reachable (t, Q, F, s) \<Longrightarrow> live_once Q F s i"
  using event_reachable_inv[of t Q F s] event_inv_live_once[of Q F t s i] by simp

theorem events_conserved_witness:
  "event_reachable sample_events \<and> live_once {} {} sample_memory (sample_id 1)"
  using events_conserved[of "ClockTime 1001 0" "{}" "{}" sample_memory "sample_id 1"] sample_events_reachable
  by (simp add: sample_events_eq)

text \<open>
  C8. A stored event disappears in a step only because the worker that holds its claim removed
  it, because a direct consumer received it, because the queue was being cleared, or because a
  claim attempt, a dequeue or the expiry of due events found its unclaimed lifetime ended.
\<close>

theorem events_removed_for_a_reason:
  assumes "event_reachable (t, Q, F, s)" "event_step (t, Q, F, s) op r (now, Q', F', s')"
    "i \<in> dkeys (mp_entries s)" "i \<notin> dkeys (mp_entries s')"
  shows "removal_reason op r now s i"
  using assms(2)
proof (rule event_stepE)
  assume a: "t \<le> now" "clock_ok now" "event_run op now s = (r, s')"
  then have "event_inv Q F now s" using event_reachable_inv[OF assms(1)] event_inv_later[of Q F t s now] by simp
  from event_removed[OF this a(2,3) assms(3,4)] show ?thesis .
qed

theorem events_removed_for_a_reason_witness:
  "\<exists>s'. event_step sample_events (EvRemove (sample_id 1) 7) None (ClockTime 1002 0, {}, {}, s') \<and>
     removal_reason (EvRemove (sample_id 1) 7) None (ClockTime 1002 0) sample_memory (sample_id 1)"
proof -
  let ?op = "EvRemove (sample_id 1) 7"
  let ?s' = "snd (aremove (sample_id 1) 7 sample_memory)"
  have "event_step (ClockTime 1001 0, {}, {}, sample_memory) ?op None
      (ClockTime 1002 0, event_storing ?op sample_memory {}, event_failed ?op sample_memory {}, ?s')"
    by (rule event_stepI) (simp_all add: clock_ok_def less_eq_clock_time_def)
  then have step: "event_step (ClockTime 1001 0, {}, {}, sample_memory) ?op None (ClockTime 1002 0, {}, {}, ?s')" by simp
  show ?thesis using events_removed_for_a_reason[OF sample_events_reachable step sample_removed] step
    unfolding sample_events_eq by blast
qed

text \<open>
  C9. A claim in force is never taken over: while its lease runs, another claim attempt leaves
  it with its owner, and an event handed out was unclaimed or its lease had ended, and now
  belongs to the claiming worker.
\<close>

theorem claims_are_exclusive:
  assumes "event_reachable (t, Q, F, s)" "event_step (t, Q, F, s) (EvClaim w lease now') r (now, Q', F', s')"
  shows "(\<forall>i v. dict_get (mp_claims s) i = Some v \<longrightarrow> i \<notin> lease_over now s \<longrightarrow> dict_get (mp_claims s') i = Some v) \<and>
    (\<forall>e. r = Some (Inr e) \<longrightarrow> (\<exists>i. dict_get (mp_entries s) i = Some e \<and> dict_get (mp_claims s') i = Some w \<and>
        (i \<notin> dkeys (mp_claims s) \<or> i \<in> lease_over now s)))"
  using assms(2)
proof (rule event_stepE)
  assume a: "t \<le> now" "clock_ok now" "event_run (EvClaim w lease now') now s = (r, s')"
  then have "event_inv Q F now s" using event_reachable_inv[OF assms(1)] event_inv_later[of Q F t s now] by simp
  moreover obtain r' where "aclaim_unexpired now now' w lease s = (r', s')" "r = Some r'"
    using a(3) by (auto split: prod.splits)
  ultimately show ?thesis using aclaim_unexpired_effect[OF _ a(2)] by simp
qed

theorem claims_are_exclusive_witness:
  "\<exists>r s'. event_step sample_events (EvClaim 8 (PNum (PyInt 10)) (ClockTime 1002 0)) r (ClockTime 1002 0, {}, {}, s') \<and>
     dict_get (mp_claims s') (sample_id 1) = Some 7"
proof -
  let ?op = "EvClaim 8 (PNum (PyInt 10)) (ClockTime 1002 0)"
  obtain r s' where run: "event_run ?op (ClockTime 1002 0) sample_memory = (r, s')" by fastforce
  have "event_step (ClockTime 1001 0, {}, {}, sample_memory) ?op r
      (ClockTime 1002 0, event_storing ?op sample_memory {}, event_failed ?op sample_memory {}, s')"
    by (rule event_stepI[OF _ _ _ run]) (simp_all add: clock_ok_def less_eq_clock_time_def)
  then have step: "event_step (ClockTime 1001 0, {}, {}, sample_memory) ?op r (ClockTime 1002 0, {}, {}, s')" by simp
  have "dict_get (mp_claims sample_memory) (sample_id 1) = Some 7"
    "sample_id 1 \<notin> lease_over (ClockTime 1002 0) sample_memory"
    by (auto simp: sample_memory_def sample_events_def lease_over_def less_eq_clock_time_def)
  then show ?thesis using claims_are_exclusive[OF sample_events_reachable step] step
    unfolding sample_events_eq by blast
qed

end
