(* ===== verification/Queue_Base.thy ===== *)
theory Queue_Base
  imports Queue_Entries
begin

text \<open>
  \<^verbatim>\<open>django_queue/backends/base.py\<close>: the persistent queue, \<^verbatim>\<open>AsyncQueue\<close>, over its provider. The
  queue calls its provider through the operations of \<open>async_ops\<close>; a backend is the record of its
  operations. The locales state what a provider promises and derive what the queue then
  guarantees; the theories of the backends interpret them. The transient queues of the same file
  are in the theory of the event worker.

  A clock reading is an argument, and may be an error: a Redis clock can refuse to answer.
  Signals and log records leave no trace in the state. The synchronous methods run their
  asynchronous counterparts to completion and are not repeated here.
\<close>

section \<open>Replacing fields of an entry\<close>

text \<open>\<^verbatim>\<open>dataclasses.replace\<close> runs the constructor again, with all its checks.\<close>

definition args_of :: "queue_entry \<Rightarrow> entry_args" where
  "args_of e =
     \<lparr>a_id = PUuid (qe_id e), a_queue = PStr (qe_queue e), a_status = PStatus (qe_status e),
      a_queued_at = PClock (qe_queued_at e),
      a_dispatched_at = (case qe_dispatched_at e of None \<Rightarrow> PNone | Some t \<Rightarrow> PClock t),
      a_finished_at = (case qe_finished_at e of None \<Rightarrow> PNone | Some t \<Rightarrow> PClock t),
      a_payload = qe_payload e, a_result = qe_result e, a_error = qe_error e,
      a_timeout_seconds = budget_value (qe_timeout_seconds e), a_priority = PNum (PyInt (qe_priority e))\<rparr>"

definition replace :: "queue_entry \<Rightarrow> (entry_args \<Rightarrow> entry_args) \<Rightarrow> queue_entry result" where
  "replace e changes = entry_post_init (changes (args_of e))"

lemma as_clock_opt_case [simp]: "as_clock_opt (case x of None \<Rightarrow> PNone | Some t \<Rightarrow> PClock t) = Inr x"
  by (cases x) simp_all

lemma budget_value_ok:
  "entry_valid e \<Longrightarrow> as_budget_opt (budget_value (qe_timeout_seconds e)) = Inr (qe_timeout_seconds e)"
  "json_ok (budget_value b)"
  by (auto simp: budget_value_def as_budget_opt_Inr entry_valid_def split: option.splits)

lemma replace_status: "entry_valid e \<Longrightarrow> replace e (a_status_update (\<lambda>_. PStatus st)) = Inr (e\<lparr>qe_status := st\<rparr>)"
  by (simp add: replace_def args_of_def entry_post_init_def validate_priority_def budget_value_ok
      validate_json_value_def) (simp add: entry_valid_def)

lemma replace_id: "replace e f = Inr e' \<Longrightarrow> a_id (f (args_of e)) = PUuid i \<Longrightarrow> qe_id e' = i"
  by (auto simp: replace_def entry_post_init_def bindR_Inr_iff split: if_splits)

text \<open>Replacing the fields a transition sets succeeds on every valid entry.\<close>

lemma replace_ok:
  assumes "entry_valid e" "json_ok result" "json_ok error"
  shows "replace e (a_dispatched_at_update (\<lambda>_. PClock t) \<circ> a_status_update (\<lambda>_. PStatus st)) =
      Inr (e\<lparr>qe_status := st, qe_dispatched_at := Some t\<rparr>)"
    and "replace e (a_finished_at_update (\<lambda>_. PClock t) \<circ> a_status_update (\<lambda>_. PStatus st)) =
      Inr (e\<lparr>qe_status := st, qe_finished_at := Some t\<rparr>)"
    and "replace e ((a_error_update (\<lambda>_. error) \<circ> a_finished_at_update (\<lambda>_. PClock t)) \<circ> a_status_update (\<lambda>_. PStatus st)) =
      Inr (e\<lparr>qe_status := st, qe_error := error, qe_finished_at := Some t\<rparr>)"
    and "replace e ((a_result_update (\<lambda>_. result) \<circ> a_error_update (\<lambda>_. error) \<circ> a_finished_at_update (\<lambda>_. PClock t)) \<circ>
        a_status_update (\<lambda>_. PStatus st)) =
      Inr (e\<lparr>qe_status := st, qe_result := result, qe_error := error, qe_finished_at := Some t\<rparr>)"
  using assms budget_value_ok(1)[OF assms(1)] budget_value_ok(2)
  by (simp_all add: replace_def args_of_def entry_post_init_def validate_priority_def validate_json_value_def entry_valid_def)

section \<open>AsyncQueue\<close>

record 's async_ops =
  op_astore :: "queue_entry \<Rightarrow> (unit, 's) prog"
  op_apush :: "queue_entry \<Rightarrow> (unit, 's) prog"
  op_aschedule :: "uuid \<Rightarrow> clock_time \<Rightarrow> (unit, 's) prog"
  op_apromote_scheduled :: "clock_time result \<Rightarrow> (unit, 's) prog"
  op_apop :: "(queue_entry, 's) prog"
  op_astore_and_discard :: "queue_entry \<Rightarrow> (unit, 's) prog"
  op_afind :: "uuid \<Rightarrow> (queue_entry, 's) prog"
  op_alist :: "(queue_entry list, 's) prog"
  op_aprune :: "uuid \<Rightarrow> (queue_entry, 's) prog"
  op_ahas_pending :: "(bool, 's) prog"

text \<open>The default of the hook that stores a failed entry and takes it out of the dispatch order.\<close>

definition base_astore_and_discard ::
    "(queue_entry \<Rightarrow> (unit, 's) prog) \<Rightarrow> (uuid \<Rightarrow> (unit, 's) prog) \<Rightarrow> queue_entry \<Rightarrow> (unit, 's) prog" where
  "base_astore_and_discard astore adiscard e = bindE (astore e) (\<lambda>_. adiscard (qe_id e))"

text \<open>\<open>now\<close> is the reading compared with the requested availability.\<close>

definition astore_and_push ::
    "'s async_ops \<Rightarrow> clock_time result \<Rightarrow> queue_entry \<Rightarrow> clock_time option \<Rightarrow> (unit, 's) prog" where
  "astore_and_push P now e available_at =
     bindE (op_astore P e) (\<lambda>_.
       case available_at of
         None \<Rightarrow> op_apush P e
       | Some avail \<Rightarrow>
           bindE (lift_result now) (\<lambda>t.
             if t < avail then op_aschedule P (qe_id e) avail else op_apush P e))"

text \<open>\<open>uuid7\<close> and \<open>created\<close> are the fresh id and the clock reading the new entry gets.\<close>

definition async_aenqueue_with ::
    "(queue_entry \<Rightarrow> clock_time option \<Rightarrow> (unit, 's) prog) \<Rightarrow> string \<Rightarrow> uuid \<Rightarrow> clock_time result \<Rightarrow>
     pyval \<Rightarrow> pyval \<Rightarrow> pyval \<Rightarrow> pyval \<Rightarrow> (uuid, 's) prog" where
  "async_aenqueue_with store_and_push queue_name uuid7 created payload timeout_seconds priority available_at =
     bindE (lift_result (validate_json_value payload)) (\<lambda>_.
     bindE (lift_result (as_clock_opt available_at)) (\<lambda>avail.
     bindE (lift_result created) (\<lambda>queued_at.
     bindE (lift_result (entry_create uuid7 queued_at (PStr queue_name) payload (Some queued_at) timeout_seconds priority)) (\<lambda>e.
     bindE (store_and_push e avail) (\<lambda>_. ok (qe_id e))))))"

definition async_aenqueue ::
    "'s async_ops \<Rightarrow> string \<Rightarrow> uuid \<Rightarrow> clock_time result \<Rightarrow> clock_time result \<Rightarrow>
     pyval \<Rightarrow> pyval \<Rightarrow> pyval \<Rightarrow> pyval \<Rightarrow> (uuid, 's) prog" where
  "async_aenqueue P queue_name uuid7 created now = async_aenqueue_with (astore_and_push P now) queue_name uuid7 created"

definition async_adequeue :: "'s async_ops \<Rightarrow> clock_time result \<Rightarrow> (queue_entry, 's) prog" where
  "async_adequeue P now = bindE (op_apromote_scheduled P now) (\<lambda>_. op_apop P)"

definition async_afind :: "'s async_ops \<Rightarrow> uuid \<Rightarrow> (queue_entry, 's) prog" where
  "async_afind P i = op_afind P i"

text \<open>Pruning publishes the final snapshot, which is the result here.\<close>

definition async_aprune :: "'s async_ops \<Rightarrow> uuid \<Rightarrow> (queue_entry, 's) prog" where
  "async_aprune P i =
     bindE (op_aprune P i) (\<lambda>e. lift_result (replace e (a_status_update (\<lambda>_. PStatus TERMINATED))))"

fun expired_entry_ids :: "clock_time \<Rightarrow> pynum \<Rightarrow> queue_entry list \<Rightarrow> uuid list result" where
  "expired_entry_ids now retention [] = Inr []"
| "expired_entry_ids now retention (e # es) =
     (if terminal (qe_status e) then
        (case qe_finished_at e of
           None \<Rightarrow> expired_entry_ids now retention es
         | Some t \<Rightarrow>
             bindR (clock_diff now t) (\<lambda>age.
             bindR (expired_entry_ids now retention es) (\<lambda>is.
               Inr (if num_le retention (PyFloat (Fin age)) then qe_id e # is else is))))
      else expired_entry_ids now retention es)"

fun prune_each :: "'s async_ops \<Rightarrow> uuid list \<Rightarrow> nat \<Rightarrow> (nat, 's) prog" where
  "prune_each P [] pruned s = (Inr pruned, s)"
| "prune_each P (i # is) pruned s =
     (case async_aprune P i s of
        (Inl (QueueEntryNotFoundError _), s') \<Rightarrow> prune_each P is pruned s'
      | (Inl err, s') \<Rightarrow> (Inl err, s')
      | (Inr _, s') \<Rightarrow> prune_each P is (pruned + 1) s')"

definition async_aprune_expired :: "'s async_ops \<Rightarrow> pynum option \<Rightarrow> clock_time result \<Rightarrow> (nat, 's) prog" where
  "async_aprune_expired P retention_timeout now =
     (case retention_timeout of
        None \<Rightarrow> ok 0
      | Some retention \<Rightarrow>
          bindE (lift_result now) (\<lambda>t.
          bindE (op_alist P) (\<lambda>es.
          bindE (lift_result (expired_entry_ids t retention es)) (\<lambda>is. prune_each P is 0))))"

definition areplace_entry ::
    "'s async_ops \<Rightarrow> uuid \<Rightarrow> QueueEntryStatus \<Rightarrow> (entry_args \<Rightarrow> entry_args) \<Rightarrow> (queue_entry, 's) prog" where
  "areplace_entry P i status changes =
     (if status = TERMINATED then raise ValueError
      else
        bindE (op_afind P i) (\<lambda>previous.
          if status \<notin> next_state (qe_status previous) then raise ValueError
          else
            bindE (lift_result (replace previous (changes \<circ> a_status_update (\<lambda>_. PStatus status)))) (\<lambda>e.
            if qe_status previous = QUEUED \<and> status = FAILED
            then bindE (op_astore_and_discard P e) (\<lambda>_. ok e)
            else bindE (op_astore P e) (\<lambda>_. ok e))))"

definition amark_running :: "'s async_ops \<Rightarrow> clock_time result \<Rightarrow> uuid \<Rightarrow> (queue_entry, 's) prog" where
  "amark_running P now i =
     bindE (lift_result now) (\<lambda>t. areplace_entry P i RUNNING (a_dispatched_at_update (\<lambda>_. PClock t)))"

definition amark_succeeded :: "'s async_ops \<Rightarrow> clock_time result \<Rightarrow> uuid \<Rightarrow> pyval \<Rightarrow> (queue_entry, 's) prog" where
  "amark_succeeded P now i result =
     bindE (lift_result (validate_json_value result)) (\<lambda>_.
     bindE (lift_result now) (\<lambda>t.
       areplace_entry P i SUCCEEDED
         (a_result_update (\<lambda>_. result) \<circ> a_error_update (\<lambda>_. PNone) \<circ> a_finished_at_update (\<lambda>_. PClock t))))"

text \<open>An exception is recorded by its class name and its message.\<close>

definition error_document :: "string \<Rightarrow> string \<Rightarrow> pyval" where
  "error_document type_name message =
     PDict [(PStr ''type'', PStr type_name), (PStr ''message'', PStr message)]"

definition amark_failed ::
    "'s async_ops \<Rightarrow> clock_time result \<Rightarrow> uuid \<Rightarrow> string \<Rightarrow> string \<Rightarrow> (queue_entry, 's) prog" where
  "amark_failed P now i type_name message =
     bindE (lift_result now) (\<lambda>t.
       areplace_entry P i FAILED
         (a_error_update (\<lambda>_. error_document type_name message) \<circ> a_finished_at_update (\<lambda>_. PClock t)))"

definition amark_cancelled :: "'s async_ops \<Rightarrow> clock_time result \<Rightarrow> uuid \<Rightarrow> (queue_entry, 's) prog" where
  "amark_cancelled P now i =
     bindE (lift_result now) (\<lambda>t. areplace_entry P i CANCELLED (a_finished_at_update (\<lambda>_. PClock t)))"

definition amark_timed_out :: "'s async_ops \<Rightarrow> clock_time result \<Rightarrow> uuid \<Rightarrow> (queue_entry, 's) prog" where
  "amark_timed_out P now i =
     bindE (lift_result now) (\<lambda>t. areplace_entry P i TIMEOUT (a_finished_at_update (\<lambda>_. PClock t)))"

text \<open>The keyword arguments of \<^verbatim>\<open>_areplace_entry\<close> never touch the id or the status.\<close>

definition field_changes :: "(entry_args \<Rightarrow> entry_args) \<Rightarrow> bool" where
  "field_changes chg \<longleftrightarrow> (\<forall>a. a_id (chg a) = a_id a \<and> a_status (chg a) = a_status a)"

lemma replace_fields:
  assumes "field_changes chg" "replace e (chg \<circ> a_status_update (\<lambda>_. PStatus st)) = Inr e'"
  shows "qe_id e' = qe_id e \<and> qe_status e' = st \<and> entry_valid e'"
proof -
  have "entry_valid e'" using assms(2) by (auto simp: replace_def dest: entry_post_init_valid)
  moreover have "as_uuid (PUuid (qe_id e)) = Inr (qe_id e')" "as_status (PStatus st) = Inr (qe_status e')"
    using assms by (auto simp: replace_def field_changes_def entry_post_init_def bindR_Inr_iff args_of_def split: if_splits)
  ultimately show ?thesis by simp
qed

text \<open>
  The life of a queue: producers enqueue under fresh ids, consumers take entries out of the
  dispatch order, whoever holds an entry records its progress, a queued entry may be failed
  directly, terminal records are pruned. \<open>held\<close> are the ids handed out by a dequeue.
\<close>

definition handed_out :: "queue_entry result \<Rightarrow> uuid set" where
  "handed_out r = (case r of Inl _ \<Rightarrow> {} | Inr e \<Rightarrow> {qe_id e})"

inductive async_step :: "'s async_ops \<Rightarrow> 's \<times> uuid set \<Rightarrow> 's \<times> uuid set \<Rightarrow> bool" for P where
  step_enqueue: "op_afind P new_id s = (Inl (QueueEntryNotFoundError new_id), s) \<Longrightarrow>
    async_aenqueue P queue_name new_id created (Inr now) payload budget priority available_at s = (r, s') \<Longrightarrow>
    async_step P (s, held) (s', held)"
| step_dequeue: "async_adequeue P (Inr now) s = (r, s') \<Longrightarrow> async_step P (s, held) (s', held \<union> handed_out r)"
| step_running: "i \<in> held \<Longrightarrow> amark_running P now i s = (r, s') \<Longrightarrow> async_step P (s, held) (s', held)"
| step_succeeded: "i \<in> held \<Longrightarrow> amark_succeeded P now i result s = (r, s') \<Longrightarrow> async_step P (s, held) (s', held)"
| step_failed: "amark_failed P now i type_name message s = (r, s') \<Longrightarrow> async_step P (s, held) (s', held)"
| step_cancelled: "i \<in> held \<Longrightarrow> amark_cancelled P now i s = (r, s') \<Longrightarrow> async_step P (s, held) (s', held)"
| step_timed_out: "i \<in> held \<Longrightarrow> amark_timed_out P now i s = (r, s') \<Longrightarrow> async_step P (s, held) (s', held)"
| step_prune: "async_aprune P i s = (r, s') \<Longrightarrow> async_step P (s, held) (s', held - handed_out r)"

inductive async_reachable :: "'s async_ops \<Rightarrow> 's \<Rightarrow> 's \<times> uuid set \<Rightarrow> bool" for P s0 where
  async_init: "async_reachable P s0 (s0, {})"
| async_next: "async_reachable P s0 c \<Longrightarrow> async_step P c c' \<Longrightarrow> async_reachable P s0 c'"

lemma entry_create_props: "entry_create u t q payload qat b p = Inr e \<Longrightarrow>
    qe_id e = u \<and> qe_status e = QUEUED \<and> entry_valid e"
proof -
  assume c: "entry_create u t q payload qat b p = Inr e"
  then have "entry_valid e" unfolding entry_create_def by (rule entry_post_init_valid)
  with c show ?thesis
    by (auto simp: entry_create_def entry_post_init_def bindR_Inr_iff split: if_splits)
qed

text \<open>Every mark is one transition, or an error before it.\<close>

definition transition :: "'s async_ops \<Rightarrow> uuid \<Rightarrow> QueueEntryStatus \<Rightarrow> 's \<Rightarrow> queue_entry result \<Rightarrow> 's \<Rightarrow> bool" where
  "transition P i st s r s' \<longleftrightarrow>
     (\<exists>chg. areplace_entry P i st chg s = (r, s') \<and> field_changes chg) \<or> s' = s \<and> (\<exists>err. r = Inl err)"

lemma field_changes_intros [simp]:
  "field_changes (a_dispatched_at_update f)" "field_changes (a_finished_at_update f)"
  "field_changes (a_result_update f)" "field_changes (a_error_update f)"
  "field_changes g \<Longrightarrow> field_changes h \<Longrightarrow> field_changes (g \<circ> h)"
  by (simp_all add: field_changes_def)

lemma transitionI: "areplace_entry P i st chg s = (r, s') \<Longrightarrow> field_changes chg \<Longrightarrow> transition P i st s r s'"
  by (auto simp: transition_def)

lemma mark_transition:
  "amark_running P now i s = (r, s') \<Longrightarrow> transition P i RUNNING s r s'"
  "amark_succeeded P now i v s = (r, s') \<Longrightarrow> transition P i SUCCEEDED s r s'"
  "amark_failed P now i ty m s = (r, s') \<Longrightarrow> transition P i FAILED s r s'"
  "amark_cancelled P now i s = (r, s') \<Longrightarrow> transition P i CANCELLED s r s'"
  "amark_timed_out P now i s = (r, s') \<Longrightarrow> transition P i TIMEOUT s r s'"
  by (auto simp: amark_running_def amark_succeeded_def amark_failed_def amark_cancelled_def amark_timed_out_def
      bindE_lift split: sum.splits intro: transitionI) (auto simp: transition_def)

section \<open>What an AsyncQueue relies on and guarantees\<close>

text \<open>
  The contract of a provider: \<open>inv\<close> is its invariant, \<open>entry\<close> its retained records and
  \<open>queued\<close> the ids that have a place in the dispatch order (pending or scheduled).
\<close>

locale async_provider =
  fixes P :: "'s async_ops"
    and inv :: "'s \<Rightarrow> bool"
    and entry :: "'s \<Rightarrow> uuid \<Rightarrow> queue_entry option"
    and queued :: "'s \<Rightarrow> uuid \<Rightarrow> bool"
  assumes entry_key: "inv s \<Longrightarrow> entry s i = Some e \<Longrightarrow> qe_id e = i \<and> entry_valid e"
    and store: "inv s \<Longrightarrow> entry_valid e \<Longrightarrow> \<exists>s'. op_astore P e s = (Inr (), s') \<and> inv s' \<and>
      entry s' = (entry s)(qe_id e \<mapsto> e) \<and> queued s' = queued s"
    and push: "inv s \<Longrightarrow> \<not> queued s (qe_id e) \<Longrightarrow> \<exists>s'. op_apush P e s = (Inr (), s') \<and> inv s' \<and>
      entry s' = entry s \<and> queued s' = (queued s)(qe_id e := True)"
    and schedule: "inv s \<Longrightarrow> \<not> queued s i \<Longrightarrow> \<exists>s'. op_aschedule P i t s = (Inr (), s') \<and> inv s' \<and>
      entry s' = entry s \<and> queued s' = (queued s)(i := True)"
    and promote: "inv s \<Longrightarrow> \<exists>s'. op_apromote_scheduled P (Inr now) s = (Inr (), s') \<and> inv s' \<and> entry s' = entry s \<and>
      (\<forall>i. (queued s' i \<longrightarrow> queued s i) \<and> (queued s i \<longrightarrow> (\<exists>e. entry s i = Some e \<and> qe_status e = QUEUED) \<longrightarrow> queued s' i))"
    and pop: "inv s \<Longrightarrow> \<exists>r s'. op_apop P s = (r, s') \<and> inv s' \<and> entry s' = entry s \<and>
      (case r of
         Inr e \<Rightarrow> entry s (qe_id e) = Some e \<and> queued s (qe_id e) \<and> queued s' = (queued s)(qe_id e := False)
       | Inl (QueueEntryNotFoundError i) \<Rightarrow> entry s i = None \<and> queued s i \<and> queued s' = (queued s)(i := False)
       | Inl err \<Rightarrow> err = QueueEmptyException \<and> s' = s)"
    and discard: "inv s \<Longrightarrow> entry_valid e \<Longrightarrow> \<exists>s'. op_astore_and_discard P e s = (Inr (), s') \<and> inv s' \<and>
      entry s' = (entry s)(qe_id e \<mapsto> e) \<and> queued s' = (queued s)(qe_id e := False)"
    and find: "inv s \<Longrightarrow> op_afind P i s =
      ((case entry s i of None \<Rightarrow> Inl (QueueEntryNotFoundError i) | Some e \<Rightarrow> Inr e), s)"
    and prune: "inv s \<Longrightarrow> \<exists>s'. op_aprune P i s =
      ((case entry s i of None \<Rightarrow> Inl (QueueEntryNotFoundError i)
        | Some e \<Rightarrow> if terminal (qe_status e) then Inr e else Inl ValueError), s') \<and> inv s' \<and>
      (if (\<exists>e. entry s i = Some e \<and> terminal (qe_status e))
       then entry s' = (entry s)(i := None) \<and> queued s' = (queued s)(i := False) else s' = s)"
begin

text \<open>The work ledger: whatever has a place in the dispatch order is a retained, queued entry.\<close>

definition ledger :: "'s \<Rightarrow> bool" where
  "ledger s \<longleftrightarrow> inv s \<and> (\<forall>i. queued s i \<longrightarrow> (\<exists>e. entry s i = Some e \<and> qe_status e = QUEUED))"

lemma enqueue_ledger:
  assumes "ledger s" "\<not> queued s (qe_id e)" "entry_valid e" "qe_status e = QUEUED"
  shows "\<exists>s'. astore_and_push P (Inr now) e available_at s = (Inr (), s') \<and> ledger s' \<and>
    entry s' = (entry s)(qe_id e \<mapsto> e) \<and> queued s' = (queued s)(qe_id e := True)"
proof -
  obtain s1 where s1: "op_astore P e s = (Inr (), s1)" "inv s1" "entry s1 = (entry s)(qe_id e \<mapsto> e)" "queued s1 = queued s"
    using store[of s e] assms(1,3) by (auto simp: ledger_def)
  have "\<not> queued s1 (qe_id e)" using assms(2) s1(4) by simp
  with push[OF s1(2)] obtain s2 where s2: "op_apush P e s1 = (Inr (), s2)" "inv s2" "entry s2 = entry s1"
    "queued s2 = (queued s1)(qe_id e := True)" by blast
  from schedule[OF s1(2) \<open>\<not> queued s1 (qe_id e)\<close>]
  have s3: "\<exists>s3. op_aschedule P (qe_id e) avail s1 = (Inr (), s3) \<and> inv s3 \<and> entry s3 = entry s1 \<and>
    queued s3 = (queued s1)(qe_id e := True)" for avail by blast
  have led: "ledger s'" if "inv s'" "entry s' = entry s1" "queued s' = (queued s1)(qe_id e := True)" for s'
    using that assms(1,4) s1(3,4) by (auto simp: ledger_def)
  show ?thesis
  proof (cases available_at)
    case None
    with s1 s2 led show ?thesis by (auto simp: astore_and_push_def)
  next
    case (Some avail)
    obtain s4 where "op_aschedule P (qe_id e) avail s1 = (Inr (), s4)" "inv s4" "entry s4 = entry s1"
      "queued s4 = (queued s1)(qe_id e := True)" using s3 by blast
    with Some s1 s2 led show ?thesis by (cases "now < avail") (auto simp: astore_and_push_def)
  qed
qed

lemma dequeue_ledger:
  assumes "ledger s"
  shows "\<exists>r s'. async_adequeue P (Inr now) s = (r, s') \<and> ledger s' \<and> entry s' = entry s \<and>
    (case r of Inl err \<Rightarrow> err = QueueEmptyException \<and> queued s' = queued s
     | Inr e \<Rightarrow> entry s (qe_id e) = Some e \<and> qe_status e = QUEUED \<and> queued s (qe_id e) \<and>
               queued s' = (queued s)(qe_id e := False))"
proof -
  have "inv s" using assms by (simp add: ledger_def)
  then obtain s1 where s1: "op_apromote_scheduled P (Inr now) s = (Inr (), s1)" "inv s1" "entry s1 = entry s"
    "\<And>i. queued s1 i \<Longrightarrow> queued s i"
    "\<And>i. queued s i \<Longrightarrow> \<exists>e. entry s i = Some e \<and> qe_status e = QUEUED \<Longrightarrow> queued s1 i"
    using promote by blast
  then have q: "queued s1 = queued s" using assms by (auto simp: ledger_def fun_eq_iff)
  obtain r s2 where s2: "op_apop P s1 = (r, s2)" "inv s2" "entry s2 = entry s1" and
    r: "case r of
         Inr e \<Rightarrow> entry s1 (qe_id e) = Some e \<and> queued s1 (qe_id e) \<and> queued s2 = (queued s1)(qe_id e := False)
       | Inl (QueueEntryNotFoundError i) \<Rightarrow> entry s1 i = None \<and> queued s1 i \<and> queued s2 = (queued s1)(i := False)
       | Inl err \<Rightarrow> err = QueueEmptyException \<and> s2 = s1"
    using pop[OF s1(2)] by blast
  have "\<not> (\<exists>i. r = Inl (QueueEntryNotFoundError i))"
    using r q s1(3) assms by (auto simp: ledger_def)
  then have "(case r of Inl err \<Rightarrow> err = QueueEmptyException \<and> s2 = s1
     | Inr e \<Rightarrow> entry s (qe_id e) = Some e \<and> queued s (qe_id e) \<and> queued s2 = (queued s)(qe_id e := False))"
    using r q s1(3) by (auto split: sum.splits pyerror.splits)
  with assms s1 s2 q show ?thesis
    by (auto simp: async_adequeue_def ledger_def split: sum.splits)
qed

text \<open>
  A transition succeeds only along the lifecycle relation and replaces exactly one record; a
  refused transition changes nothing. Failing a queued entry also takes it out of the dispatch
  order.
\<close>

lemma areplace_entry_effect:
  assumes "inv s" "field_changes chg" "areplace_entry P i st chg s = (r, s')"
  shows "case r of
      Inl err \<Rightarrow> s' = s
    | Inr e' \<Rightarrow> \<exists>e. entry s i = Some e \<and> st \<in> next_state (qe_status e) \<and> st \<noteq> TERMINATED \<and> qe_status e' = st \<and>
        replace e (chg \<circ> a_status_update (\<lambda>_. PStatus st)) = Inr e' \<and> inv s' \<and> entry s' = (entry s)(i \<mapsto> e') \<and>
        queued s' = (if qe_status e = QUEUED \<and> st = FAILED then (queued s)(i := False) else queued s)"
proof (cases "st = TERMINATED \<or> entry s i = None \<or> st \<notin> next_state (qe_status (the (entry s i)))")
  case True
  then show ?thesis using assms(3) find[OF assms(1), of i]
    by (cases "entry s i") (auto simp: areplace_entry_def split: if_splits)
next
  case False
  then obtain e where e: "entry s i = Some e" "st \<in> next_state (qe_status e)" "st \<noteq> TERMINATED" by auto
  have run: "areplace_entry P i st chg s = bindE (lift_result (replace e (chg \<circ> a_status_update (\<lambda>_. PStatus st)))) (\<lambda>e.
      if qe_status (the (entry s i)) = QUEUED \<and> st = FAILED
      then bindE (op_astore_and_discard P e) (\<lambda>_. ok e)
      else bindE (op_astore P e) (\<lambda>_. ok e)) s"
    using e find[OF assms(1), of i] by (simp add: areplace_entry_def)
  show ?thesis
  proof (cases "replace e (chg \<circ> a_status_update (\<lambda>_. PStatus st))")
    case (Inl err)
    then show ?thesis using run assms(3) by (auto simp: bindE_lift)
  next
    case (Inr e')
    have id: "qe_id e' = i" "qe_status e' = st" "entry_valid e'"
      using replace_fields[OF assms(2) Inr] entry_key[OF assms(1) e(1)] by auto
    obtain s1 where s1: "op_astore P e' s = (Inr (), s1)" "inv s1" "entry s1 = (entry s)(i \<mapsto> e')" "queued s1 = queued s"
      using store[OF assms(1) id(3)] id(1) by auto
    obtain s2 where "op_astore_and_discard P e' s = (Inr (), s2)" "inv s2" "entry s2 = (entry s)(i \<mapsto> e')"
      "queued s2 = (queued s)(i := False)"
      using discard[OF assms(1) id(3)] id(1) by auto
    then show ?thesis using run assms(3) Inr e id s1 by (auto simp: bindE_lift split: if_splits)
  qed
qed

text \<open>Marking an entry that has no place in the dispatch order, or failing one that has, keeps the ledger.\<close>

lemma areplace_entry_ledger:
  assumes "ledger s" "field_changes chg" "areplace_entry P i st chg s = (r, s')"
    "\<not> queued s i \<or> st = FAILED"
  shows "ledger s'"
proof (cases r)
  case (Inl err)
  then show ?thesis using areplace_entry_effect[OF _ assms(2,3)] assms(1) by (simp add: ledger_def)
next
  case (Inr e')
  then obtain e where e: "entry s i = Some e" "inv s'" "entry s' = (entry s)(i \<mapsto> e')"
      "queued s' = (if qe_status e = QUEUED \<and> st = FAILED then (queued s)(i := False) else queued s)"
    using areplace_entry_effect[OF _ assms(2,3)] assms(1) by (auto simp: ledger_def)
  have "queued s i \<Longrightarrow> qe_status e = QUEUED" using assms(1) e(1) by (auto simp: ledger_def)
  with e assms(1,4) show ?thesis by (auto simp: ledger_def)
qed

lemma aprune_ledger:
  assumes "ledger s" "async_aprune P i s = (r, s')"
  shows "ledger s' \<and> (case r of
      Inl err \<Rightarrow> s' = s
    | Inr e' \<Rightarrow> \<exists>e. entry s i = Some e \<and> terminal (qe_status e) \<and> e' = e\<lparr>qe_status := TERMINATED\<rparr> \<and>
        entry s' = (entry s)(i := None))"
proof -
  have inv: "inv s" using assms(1) by (simp add: ledger_def)
  show ?thesis
  proof (cases "\<exists>e. entry s i = Some e \<and> terminal (qe_status e)")
    case True
    then obtain e where e: "entry s i = Some e" "terminal (qe_status e)" by blast
    with prune[OF inv, of i] obtain s1 where "op_aprune P i s = (Inr e, s1)" "inv s1"
      "entry s1 = (entry s)(i := None)" "queued s1 = (queued s)(i := False)" by auto
    then show ?thesis using assms e entry_key[OF inv e(1)]
      by (auto simp: async_aprune_def bindE_lift replace_status ledger_def)
  next
    case False
    with prune[OF inv, of i] have "op_aprune P i s = (Inl (if entry s i = None then QueueEntryNotFoundError i else ValueError), s)"
      by (auto split: option.splits)
    then show ?thesis using assms by (auto simp: async_aprune_def)
  qed
qed

text \<open>
  No work is lost: a retained entry that is still queued has its place in the dispatch order or
  was handed out, and nothing is both.
\<close>

definition accounted :: "'s \<times> uuid set \<Rightarrow> bool" where
  "accounted c \<longleftrightarrow> (case c of (s, held) \<Rightarrow>
     ledger s \<and> (\<forall>i \<in> held. \<not> queued s i \<and> entry s i \<noteq> None) \<and>
     (\<forall>i e. entry s i = Some e \<longrightarrow> qe_status e = QUEUED \<longrightarrow> queued s i \<or> i \<in> held))"

lemma accounted_replace:
  assumes "accounted (s, held)" "field_changes chg" "areplace_entry P i st chg s = (r, s')" "i \<in> held \<or> st = FAILED" "st \<noteq> QUEUED"
  shows "accounted (s', held)"
proof -
  have inv: "inv s" "ledger s" using assms(1) by (auto simp: accounted_def ledger_def)
  have "\<not> queued s i \<or> st = FAILED" using assms(1,4) by (auto simp: accounted_def)
  from areplace_entry_ledger[OF inv(2) assms(2,3) this] have led: "ledger s'" .
  show ?thesis
  proof (cases r)
    case (Inl err)
    then show ?thesis using areplace_entry_effect[OF inv(1) assms(2,3)] assms(1) by simp
  next
    case (Inr e')
    then obtain e where "entry s i = Some e" "qe_status e' = st" "entry s' = (entry s)(i \<mapsto> e')"
        "queued s' = (if qe_status e = QUEUED \<and> st = FAILED then (queued s)(i := False) else queued s)"
      using areplace_entry_effect[OF inv(1) assms(2,3)] by auto
    then show ?thesis using led assms(1,5) by (auto simp: accounted_def)
  qed
qed

lemma accounted_transition:
  "accounted (s, held) \<Longrightarrow> transition P i st s r s' \<Longrightarrow> i \<in> held \<or> st = FAILED \<Longrightarrow> st \<noteq> QUEUED \<Longrightarrow> accounted (s', held)"
  unfolding transition_def using accounted_replace by blast

lemma enqueue_run:
  assumes "ledger s" "entry s u = None"
    "async_aenqueue P q u created (Inr now) payload budget priority available_at s = (r, s')"
  shows "s' = s \<or> (\<exists>e. ledger s' \<and> qe_id e = u \<and> entry s' = (entry s)(u \<mapsto> e) \<and> queued s' = (queued s)(u := True))"
proof (cases "\<exists>avail qat e. as_clock_opt available_at = Inr avail \<and> created = Inr qat \<and> json_ok payload \<and>
    entry_create u qat (PStr q) payload (Some qat) budget priority = Inr e")
  case True
  then obtain avail qat e where e: "as_clock_opt available_at = Inr avail" "created = Inr qat" "json_ok payload"
    "entry_create u qat (PStr q) payload (Some qat) budget priority = Inr e" by blast
  have p: "qe_id e = u" "qe_status e = QUEUED" "entry_valid e" using entry_create_props[OF e(4)] by auto
  have "\<not> queued s u" using assms(1,2) by (auto simp: ledger_def)
  with p obtain s1 where "astore_and_push P (Inr now) e avail s = (Inr (), s1)" "ledger s1"
      "entry s1 = (entry s)(u \<mapsto> e)" "queued s1 = (queued s)(u := True)"
    using enqueue_ledger[OF assms(1), of e now avail] by auto
  moreover from this have "s' = s1"
    using assms(3) e by (simp add: async_aenqueue_def async_aenqueue_with_def bindE_lift validate_json_value_def)
  ultimately show ?thesis using p(1) by auto
next
  case False
  then show ?thesis using assms(3)
    by (auto simp: async_aenqueue_def async_aenqueue_with_def bindE_lift validate_json_value_def split: sum.splits if_splits)
qed

lemma fresh_entry: "inv s \<Longrightarrow> op_afind P u s = (Inl (QueueEntryNotFoundError u), s) \<Longrightarrow> entry s u = None"
  using find[of s u] by (auto split: option.splits)

lemma accounted_enqueue:
  assumes "accounted (s, held)" "op_afind P u s = (Inl (QueueEntryNotFoundError u), s)"
    "async_aenqueue P q u created (Inr now) payload budget priority available_at s = (r, s')"
  shows "accounted (s', held)"
proof -
  have inv: "inv s" "ledger s" using assms(1) by (auto simp: accounted_def ledger_def)
  note u = fresh_entry[OF inv(1) assms(2)]
  from enqueue_run[OF inv(2) u assms(3)] assms(1) u show ?thesis
    by (auto simp: accounted_def split: if_splits) blast
qed

lemma accounted_step: "async_step P c c' \<Longrightarrow> accounted c \<Longrightarrow> accounted c'"
proof (induction rule: async_step.induct)
  case (step_dequeue now s r s' held)
  then have "ledger s" by (simp add: accounted_def)
  from dequeue_ledger[OF this, of now] step_dequeue show ?case
    by (cases r) (auto simp: accounted_def handed_out_def)
next
  case (step_prune i s r s' held)
  then have "ledger s" by (simp add: accounted_def)
  from aprune_ledger[OF this step_prune.hyps] step_prune.prems show ?case
  proof (cases r)
    case (Inr e')
    with aprune_ledger[OF \<open>ledger s\<close> step_prune.hyps] obtain e where e: "entry s i = Some e" "terminal (qe_status e)"
      "e' = e\<lparr>qe_status := TERMINATED\<rparr>" "entry s' = (entry s)(i := None)" "ledger s'" by auto
    moreover have "qe_id e = i" using entry_key e(1) \<open>ledger s\<close> by (auto simp: ledger_def)
    moreover have "queued s' = (queued s)(i := False)"
      using prune[of s i] step_prune.hyps e(1,2) \<open>ledger s\<close> Inr
      by (auto simp: async_aprune_def bindE_Inr_iff ledger_def)
    ultimately show ?thesis using step_prune.prems Inr by (auto simp: accounted_def handed_out_def)
  qed (auto simp: handed_out_def)
next
  case (step_enqueue new_id s queue_name created now payload budget priority available_at r s' held)
  then show ?case using accounted_enqueue by blast
qed (auto dest!: mark_transition intro: accounted_transition)

lemma accounted_reachable: "accounted (s0, {}) \<Longrightarrow> async_reachable P s0 c \<Longrightarrow> accounted c"
  by (rotate_tac 1, induction rule: async_reachable.induct) (auto intro: accounted_step)

text \<open>
  The life of one record: a step leaves it alone, moves its status along the lifecycle relation,
  or prunes it after it became terminal.
\<close>

lemma lifecycle_transition:
  assumes "inv s" "transition P i st s r s'" "entry s j = Some e"
  shows "\<exists>e'. entry s' j = Some e' \<and> (e' = e \<or> qe_status e' \<in> next_state (qe_status e) - {TERMINATED})"
proof -
  consider "s' = s" | chg where "areplace_entry P i st chg s = (r, s')" "field_changes chg"
    using assms(2) by (auto simp: transition_def)
  then show ?thesis
  proof cases
    case 2
    then show ?thesis using areplace_entry_effect[OF assms(1) 2(2,1)] assms(3) by (cases r) auto
  qed (use assms in auto)
qed

lemma lifecycle_step:
  assumes "async_step P c c'" "accounted c" "entry (fst c) j = Some e"
  shows "case entry (fst c') j of None \<Rightarrow> terminal (qe_status e)
    | Some e' \<Rightarrow> e' = e \<or> qe_status e' \<in> next_state (qe_status e) - {TERMINATED}"
  using assms
proof (induction rule: async_step.induct)
  case (step_dequeue now s r s' held)
  then have "ledger s" by (simp add: accounted_def)
  from dequeue_ledger[OF this, of now] step_dequeue show ?case by auto
next
  case (step_prune i s r s' held)
  then have "ledger s" by (simp add: accounted_def)
  from aprune_ledger[OF this step_prune.hyps] step_prune.prems show ?case by (cases r; cases "j = i") auto
next
  case (step_enqueue new_id s queue_name created now payload budget priority available_at r s' held)
  have inv: "inv s" "ledger s" using step_enqueue.prems(1) by (auto simp: accounted_def ledger_def)
  note u = fresh_entry[OF inv(1) step_enqueue.hyps(1)]
  from enqueue_run[OF inv(2) u step_enqueue.hyps(2)] step_enqueue.prems(2) u show ?case by auto
qed (auto dest!: mark_transition lifecycle_transition[rotated, of _ _ _ _ _ j e] simp: accounted_def ledger_def)

end

end
