(* ===== verification/Memory_Queue.thy ===== *)
theory Memory_Queue
  imports Memory_Provider Queue_Base
begin

text \<open>
  The in-process queues: \<^verbatim>\<open>MemoryAsyncQueue\<close> (FIFO or stack) and \<^verbatim>\<open>MemoryAsyncPriorityQueue\<close>
  as records of provider operations, their interpretations of the provider contract, and the
  order in which each of them serves its entries.
\<close>

section \<open>Scheduled entries\<close>

text \<open>
  Removing one due entry: \<open>D\<close> are the ids taken out of the schedule, all of them stale except
  the one that is returned; that one is queued, due, among the earliest due queued entries and,
  for a priority queue, of the highest priority among those.
\<close>

definition due_queued :: "clock_time \<Rightarrow> provider_memory \<Rightarrow> uuid \<Rightarrow> clock_time \<Rightarrow> bool" where
  "due_queued now s i t \<longleftrightarrow> (i, t) \<in> set (mp_scheduled s) \<and> t \<le> now \<and> is_queued s i"

definition popped :: "clock_time \<Rightarrow> bool \<Rightarrow> provider_memory \<Rightarrow> uuid option \<Rightarrow> provider_memory \<Rightarrow> bool" where
  "popped now priority s r s' \<longleftrightarrow>
     (\<exists>D. s' = s\<lparr>mp_scheduled := filter (\<lambda>kv. fst kv \<notin> D) (mp_scheduled s)\<rparr> \<and>
       (\<forall>j \<in> D. is_queued s j \<longrightarrow> r = Some j) \<and> (\<forall>i. r = Some i \<longrightarrow> i \<in> D)) \<and>
     (case r of
        None \<Rightarrow> \<forall>i t. \<not> due_queued now s i t
      | Some i \<Rightarrow> \<exists>t. due_queued now s i t \<and>
          (\<forall>j u. due_queued now s j u \<longrightarrow> t \<le> u \<and> (priority \<longrightarrow> u = t \<longrightarrow> entry_priority s j \<le> entry_priority s i)))"

lemma is_queued_schedule [simp]: "is_queued (s\<lparr>mp_scheduled := x\<rparr>) = is_queued s"
  by (simp add: is_queued_def fun_eq_iff)

lemma entry_priority_schedule [simp]: "entry_priority (s\<lparr>mp_scheduled := x\<rparr>) = entry_priority s"
  by (simp add: entry_priority_def fun_eq_iff)

lemma foldl_max:
  fixes key :: "'a \<Rightarrow> int"
  defines "step \<equiv> \<lambda>m y. if key m < key y then y else m"
  shows "foldl step x ys \<in> insert x (set ys) \<and> (\<forall>y \<in> insert x (set ys). key y \<le> key (foldl step x ys))"
proof (induction ys arbitrary: x)
  case (Cons a ys)
  have "key x \<le> key (step x a)" "key a \<le> key (step x a)" "step x a \<in> {x, a}" by (auto simp: step_def)
  with Cons[of "step x a"] show ?case by (auto intro: order_trans)
qed simp

lemma max_first_in: "xs \<noteq> [] \<Longrightarrow> max_first key xs \<in> set xs \<and> (\<forall>y \<in> set xs. key y \<le> key (max_first key xs))"
  using foldl_max[of key "hd xs" "tl xs"] by (cases xs) (auto simp: max_first_def)

lemma earliest_candidates_iff:
  assumes "due_entries now s \<noteq> []"
  shows "\<exists>t \<le> now. (\<forall>i. i \<in> set (earliest_candidates now s) \<longleftrightarrow> (i, t) \<in> set (mp_scheduled s)) \<and>
    (\<forall>j u. (j, u) \<in> set (mp_scheduled s) \<longrightarrow> u \<le> now \<longrightarrow> t \<le> u)"
proof -
  let ?D = "snd ` set (due_entries now s)"
  let ?t = "Min ?D"
  have "?t \<in> ?D" using assms by (intro Min_in) auto
  then have t: "?t \<le> now" by (auto simp: due_entries_def)
  have "i \<in> set (earliest_candidates now s) \<longleftrightarrow> (i, ?t) \<in> set (mp_scheduled s)" for i
    using t by (force simp: earliest_candidates_def Let_def due_entries_def)
  moreover have "?t \<le> u" if "(j, u) \<in> set (mp_scheduled s)" "u \<le> now" for j u
    using that by (intro Min_le) (force simp: due_entries_def)+
  ultimately show ?thesis using t by (intro exI[of _ ?t]) simp
qed

lemma pop_next_due_scheduled_popped:
  assumes "pop_next_due_scheduled now priority s = (r, s')" "distinct (keys (mp_scheduled s))"
  shows "popped now priority s r s'"
  using assms
proof (induction now priority s arbitrary: r s' rule: pop_next_due_scheduled.induct)
  case (1 now priority s)
  let ?c = "earliest_candidates now s"
  show ?case
  proof (cases "due_entries now s = []")
    case True
    then have "\<not> due_queued now s i t" for i t
      by (auto simp: due_queued_def due_entries_def filter_empty_conv)
    then show ?thesis using 1(2) True
      by (auto simp: popped_def pop_next_due_scheduled.simps[of now] intro!: exI[of _ "{}"])
  next
    case False
    obtain t where t: "\<And>i. i \<in> set ?c \<longleftrightarrow> (i, t) \<in> set (mp_scheduled s)" "t \<le> now"
      "\<And>j u. (j, u) \<in> set (mp_scheduled s) \<Longrightarrow> u \<le> now \<Longrightarrow> t \<le> u"
      using earliest_candidates_iff[OF False] by auto
    let ?stale = "set (filter (\<lambda>i. \<not> is_queued s i) ?c)"
    let ?s1 = "drop_stale ?c s"
    have s1: "?s1 = s\<lparr>mp_scheduled := filter (\<lambda>kv. fst kv \<notin> ?stale) (mp_scheduled s)\<rparr>"
      by (simp add: drop_stale_def fold_dict_pop)
    have dq: "due_queued now ?s1 j u \<longleftrightarrow> due_queued now s j u" for j u
      unfolding s1 by (auto simp: due_queued_def)
    show ?thesis
    proof (cases "filter (is_queued s) ?c = []")
      case True
      have "pop_next_due_scheduled now priority ?s1 = (r, s')"
        using 1(2) False True by (simp add: pop_next_due_scheduled.simps[of now priority s] Let_def)
      moreover have "distinct (keys (mp_scheduled ?s1))"
        using 1(3) unfolding s1 by (simp add: distinct_map_filter)
      ultimately have ih: "popped now priority ?s1 r s'" using "1.IH" False True by simp
      have iq: "is_queued ?s1 = is_queued s" "entry_priority ?s1 = entry_priority s" by (simp_all add: drop_stale_def)
      obtain D where D: "s' = ?s1\<lparr>mp_scheduled := filter (\<lambda>kv. fst kv \<notin> D) (mp_scheduled ?s1)\<rparr>"
        "\<forall>j \<in> D. is_queued s j \<longrightarrow> r = Some j" "\<forall>i. r = Some i \<longrightarrow> i \<in> D"
        using ih unfolding popped_def iq by blast
      have "s' = s\<lparr>mp_scheduled := filter (\<lambda>kv. fst kv \<notin> D \<union> ?stale) (mp_scheduled s)\<rparr>"
        unfolding D(1) s1 by (simp add: conj_commute)
      moreover have "\<forall>j \<in> D \<union> ?stale. is_queued s j \<longrightarrow> r = Some j" "\<forall>i. r = Some i \<longrightarrow> i \<in> D \<union> ?stale"
        using D(2,3) unfolding Ball_def Un_iff set_filter mem_Collect_eq by blast+
      moreover note ih[unfolded popped_def dq iq, THEN conjunct2]
      ultimately show ?thesis unfolding popped_def by blast
    next
      case False2: False
      define i where "i = (if priority then max_first (entry_priority s) (filter (is_queued s) ?c) else hd (filter (is_queued s) ?c))"
      have "i \<in> set (filter (is_queued s) ?c)"
        using False2 max_first_in[OF False2] hd_in_set[OF False2] by (simp add: i_def)
      then have i: "i \<in> set ?c" "is_queued s i" by auto
      have r: "r = Some i" "s' = ?s1\<lparr>mp_scheduled := dict_pop i (mp_scheduled ?s1)\<rparr>"
        using 1(2) False False2 by (auto simp: pop_next_due_scheduled.simps[of now priority s] Let_def i_def)
      have "dict_pop i d = filter (\<lambda>kv. fst kv \<noteq> i) d" for d :: "(uuid, clock_time) pydict"
        by (induction d) auto
      then have s': "s' = s\<lparr>mp_scheduled := filter (\<lambda>kv. fst kv \<notin> insert i ?stale) (mp_scheduled s)\<rparr>"
        unfolding r(2) s1 by (simp add: conj_commute)
      have "due_queued now s i t" using i t by (simp add: due_queued_def)
      moreover have "t \<le> u" if "due_queued now s j u" for j u using that t(3) by (auto simp: due_queued_def)
      moreover have "entry_priority s j \<le> entry_priority s i" if "priority" "due_queued now s j t" for j
      proof -
        have "j \<in> set (filter (is_queued s) ?c)" using that t(1) by (auto simp: due_queued_def)
        then show ?thesis using max_first_in[OF False2] that(1) by (auto simp: i_def)
      qed
      ultimately show ?thesis unfolding popped_def r(1)
        by (intro conjI exI[of _ "insert i ?stale"]) (use s' in auto)
    qed
  qed
qed

section \<open>MemoryAsyncQueue\<close>

definition memory_async_ops :: "provider_memory async_ops" where
  "memory_async_ops =
     \<lparr>op_astore = (\<lambda>e s. (Inr (), astore e s)),
      op_apush = (\<lambda>e s. (Inr (), apush (qe_id e) s)),
      op_aschedule = (\<lambda>i t s. (Inr (), aschedule i t s)),
      op_apromote_scheduled = (\<lambda>now. bindE (lift_result now) (\<lambda>t s. (Inr (), apromote_scheduled t s))),
      op_apop = apop,
      op_astore_and_discard = base_astore_and_discard (\<lambda>e s. (Inr (), astore e s))
        (\<lambda>i s. (Inr (), adiscard_scheduled i (adiscard i s))),
      op_afind = (\<lambda>i s. (afind i s, s)),
      op_alist = (\<lambda>s. (Inr (alist s), s)),
      op_aprune = aprune,
      op_ahas_pending = (\<lambda>s. (Inr (ahas_pending s), s))\<rparr>"

definition memory_entry :: "provider_memory \<Rightarrow> uuid \<Rightarrow> queue_entry option" where
  "memory_entry s = dict_get (mp_entries s)"

definition entries_ok :: "provider_memory \<Rightarrow> bool" where
  "entries_ok s \<longleftrightarrow> (\<forall>i e. dict_get (mp_entries s) i = Some e \<longrightarrow> qe_id e = i \<and> entry_valid e) \<and>
     distinct (keys (mp_scheduled s))"

definition memory_queued :: "provider_memory \<Rightarrow> uuid \<Rightarrow> bool" where
  "memory_queued s i \<longleftrightarrow> i \<in> set (mp_pending s) \<or> i \<in> dkeys (mp_scheduled s)"

definition memory_inv :: "provider_memory \<Rightarrow> bool" where
  "memory_inv s \<longleftrightarrow> entries_ok s \<and> distinct (mp_pending s) \<and> set (mp_pending s) \<inter> dkeys (mp_scheduled s) = {}"

lemma queue_get_Some:
  assumes "queue_get st xs = Some (x, rest)"
  shows "set xs = insert x (set rest)" "distinct xs \<Longrightarrow> distinct rest \<and> x \<notin> set rest"
proof -
  have "xs = (if st then rest @ [x] else x # rest)"
    using assms by (cases xs) (auto split: if_splits simp del: last.simps butlast.simps)
  then show "set xs = insert x (set rest)" "distinct xs \<Longrightarrow> distinct rest \<and> x \<notin> set rest"
    by (auto split: if_splits)
qed

lemma dkeys_filter: "dkeys (filter (\<lambda>kv. fst kv \<notin> D) d) = dkeys d - D"
  by (auto simp: dkeys_def)

lemma popped_schedule:
  assumes "popped now p s r s'" "distinct (keys (mp_scheduled s))"
  shows "distinct (keys (mp_scheduled s'))" "mp_entries s' = mp_entries s" "mp_pending s' = mp_pending s"
    "mp_pending_priority s' = mp_pending_priority s" "mp_pending_priority_sequence s' = mp_pending_priority_sequence s"
    "dkeys (mp_scheduled s') \<subseteq> dkeys (mp_scheduled s)"
    "\<And>j. j \<in> dkeys (mp_scheduled s) \<Longrightarrow> is_queued s j \<Longrightarrow> r \<noteq> Some j \<Longrightarrow> j \<in> dkeys (mp_scheduled s')"
    "\<And>i. r = Some i \<Longrightarrow> i \<in> dkeys (mp_scheduled s) \<and> i \<notin> dkeys (mp_scheduled s') \<and> is_queued s i"
proof -
  obtain D where D: "s' = s\<lparr>mp_scheduled := filter (\<lambda>kv. fst kv \<notin> D) (mp_scheduled s)\<rparr>"
    "\<forall>j \<in> D. is_queued s j \<longrightarrow> r = Some j" "\<forall>i. r = Some i \<longrightarrow> i \<in> D"
    using assms(1) unfolding popped_def by blast
  show "distinct (keys (mp_scheduled s'))" "mp_entries s' = mp_entries s" "mp_pending s' = mp_pending s"
    "mp_pending_priority s' = mp_pending_priority s" "mp_pending_priority_sequence s' = mp_pending_priority_sequence s"
    "dkeys (mp_scheduled s') \<subseteq> dkeys (mp_scheduled s)"
    unfolding D(1) using assms(2) by (simp_all add: dkeys_filter distinct_map_filter)
  have sch: "dkeys (mp_scheduled s') = dkeys (mp_scheduled s) - D" unfolding D(1) by (simp add: dkeys_filter)
  show "\<And>j. j \<in> dkeys (mp_scheduled s) \<Longrightarrow> is_queued s j \<Longrightarrow> r \<noteq> Some j \<Longrightarrow> j \<in> dkeys (mp_scheduled s')"
    using D(2) unfolding sch by blast
  fix i assume r: "r = Some i"
  then obtain t where "due_queued now s i t" using assms(1) unfolding popped_def by auto
  then have "i \<in> dkeys (mp_scheduled s)" "is_queued s i" by (force simp: due_queued_def dkeys_def)+
  with D(3) r show "i \<in> dkeys (mp_scheduled s) \<and> i \<notin> dkeys (mp_scheduled s') \<and> is_queued s i"
    unfolding sch by blast
qed

lemma apromote_scheduled_effect:
  fixes now :: clock_time
  assumes "memory_inv s"
  defines "s' \<equiv> apromote_scheduled now s"
  shows "memory_inv s' \<and> mp_entries s' = mp_entries s \<and> (\<forall>i. (memory_queued s' i \<longrightarrow> memory_queued s i) \<and>
    (memory_queued s i \<longrightarrow> is_queued s i \<longrightarrow> memory_queued s' i))"
proof -
  obtain r s1 where r: "pop_next_due_scheduled now False s = (r, s1)" by fastforce
  have d: "distinct (keys (mp_scheduled s))" using assms(1) by (simp add: memory_inv_def entries_ok_def)
  note p = popped_schedule[OF pop_next_due_scheduled_popped[OF r d] d]
  show ?thesis
  proof (cases r)
    case None
    then have "s' = s1" by (simp add: s'_def apromote_scheduled_def r)
    then show ?thesis using p(1-3,6,7) assms(1) None
      by (auto simp: memory_inv_def entries_ok_def memory_queued_def)
  next
    case (Some i)
    then have "s' = s1\<lparr>mp_pending := mp_pending s1 @ [i]\<rparr>" by (simp add: s'_def apromote_scheduled_def r)
    then show ?thesis using p(1-3,6,7) p(8)[OF Some] assms(1) Some
      by (auto simp: memory_inv_def entries_ok_def memory_queued_def)
  qed
qed

interpretation memory_queue: async_provider memory_async_ops memory_inv memory_entry memory_queued
proof (unfold_locales, goal_cases)
  case (1 s i e)
  then show ?case by (auto simp: memory_inv_def entries_ok_def memory_entry_def)
next
  case (2 s e)
  then show ?case
    by (auto simp: memory_async_ops_def memory_inv_def entries_ok_def memory_entry_def memory_queued_def astore_def fun_eq_iff)
next
  case (3 s e)
  then show ?case
    by (auto simp: memory_async_ops_def memory_inv_def entries_ok_def memory_entry_def memory_queued_def apush_def fun_eq_iff)
next
  case (4 s i t)
  then show ?case
    by (auto simp: memory_async_ops_def memory_inv_def entries_ok_def memory_entry_def memory_queued_def aschedule_def fun_eq_iff)
next
  case (5 s now)
  then show ?case using apromote_scheduled_effect[of s now]
    by (auto simp: memory_async_ops_def bindE_lift memory_entry_def is_queued_def)
next
  case (6 s)
  show ?case
  proof (cases "queue_get (mp_stack s) (mp_pending s)")
    case None
    then show ?thesis using 6 by (simp add: memory_async_ops_def apop_def)
  next
    case (Some p)
    obtain i rest where p: "p = (i, rest)" by fastforce
    note g = queue_get_Some[OF Some[unfolded p]]
    have "memory_inv (s\<lparr>mp_pending := rest\<rparr>)" "\<And>j. memory_queued (s\<lparr>mp_pending := rest\<rparr>) j \<longleftrightarrow> memory_queued s j \<and> j \<noteq> i"
      "memory_queued s i"
      using 6 g by (auto simp: memory_inv_def entries_ok_def memory_queued_def)
    then show ?thesis using 6 Some p
      by (cases "dict_get (mp_entries s) i")
        (auto simp: memory_async_ops_def apop_def memory_entry_def memory_inv_def entries_ok_def fun_eq_iff)
  qed
next
  case (7 s e)
  have stored: "memory_inv (astore e s)" "memory_entry (astore e s) = (memory_entry s)(qe_id e \<mapsto> e)"
    "memory_queued (astore e s) = memory_queued s"
    using 7 by (auto simp: memory_inv_def entries_ok_def memory_entry_def memory_queued_def astore_def fun_eq_iff)
  have gone: "memory_inv (adiscard_scheduled i (adiscard i s1))"
    "memory_entry (adiscard_scheduled i (adiscard i s1)) = memory_entry s1"
    "memory_queued (adiscard_scheduled i (adiscard i s1)) = (memory_queued s1)(i := False)"
    if "memory_inv s1" for s1 i
    using that by (auto simp: memory_inv_def entries_ok_def memory_entry_def memory_queued_def adiscard_def
        adiscard_scheduled_def remove_pending_def remove1_distinct_filter fun_eq_iff)
  show ?case using stored gone[OF stored(1), of "qe_id e"]
    by (simp add: memory_async_ops_def base_astore_and_discard_def)
next
  case (8 s i)
  then show ?case by (simp add: memory_async_ops_def afind_def memory_entry_def)
next
  case (9 s i)
  have "memory_inv (adelete i s)" "memory_entry (adelete i s) = (memory_entry s)(i := None)"
    "memory_queued (adelete i s) = (memory_queued s)(i := False)"
    using 9 by (auto simp: memory_inv_def entries_ok_def memory_entry_def memory_queued_def adelete_def
        adiscard_priority_def remove_pending_def remove1_distinct_filter fun_eq_iff split: if_splits)
  then show ?case using 9
    by (cases "dict_get (mp_entries s) i")
      (auto simp: memory_async_ops_def aprune_def afind_def memory_entry_def terminal_def simp del: dict_get_None)
qed

section \<open>MemoryAsyncPriorityQueue\<close>

definition memory_priority_ops :: "provider_memory async_ops" where
  "memory_priority_ops = memory_async_ops
     \<lparr>op_apush := (\<lambda>e s. (Inr (), apush_priority (qe_id e) (qe_priority e) s)),
      op_apromote_scheduled := (\<lambda>now. bindE (lift_result now) (\<lambda>t s. (Inr (), apromote_scheduled_priority t s))),
      op_apop := apop_priority,
      op_astore_and_discard := base_astore_and_discard (\<lambda>e s. (Inr (), astore e s))
        (\<lambda>i s. (Inr (), adiscard_scheduled i (adiscard_priority i s)))\<rparr>"

abbreviation priority_ids :: "provider_memory \<Rightarrow> uuid list" where
  "priority_ids s \<equiv> map (\<lambda>item. snd (snd item)) (mp_pending_priority s)"

definition priority_queued :: "provider_memory \<Rightarrow> uuid \<Rightarrow> bool" where
  "priority_queued s i \<longleftrightarrow> i \<in> set (priority_ids s) \<or> i \<in> dkeys (mp_scheduled s)"

definition priority_inv :: "provider_memory \<Rightarrow> bool" where
  "priority_inv s \<longleftrightarrow> entries_ok s \<and> distinct (priority_ids s) \<and> set (priority_ids s) \<inter> dkeys (mp_scheduled s) = {}"

lemma distinct_insort_map: "distinct (map f (insort x xs)) \<longleftrightarrow> f x \<notin> f ` set xs \<and> distinct (map f xs)"
  by (induction xs) (auto simp: set_insort_key)

lemma apush_priority_effect:
  fixes p :: int
  assumes "priority_inv s" "\<not> priority_queued s i"
  defines "s' \<equiv> apush_priority i p s"
  shows "priority_inv s' \<and> mp_entries s' = mp_entries s \<and> priority_queued s' = (priority_queued s)(i := True)"
  using assms(1,2)
  by (auto simp: s'_def priority_inv_def entries_ok_def priority_queued_def apush_priority_def Let_def
      distinct_insort_map set_insort_key fun_eq_iff image_iff)

lemma apromote_priority_effect:
  fixes now :: clock_time
  assumes "priority_inv s"
  defines "s' \<equiv> apromote_scheduled_priority now s"
  shows "priority_inv s' \<and> mp_entries s' = mp_entries s \<and> (\<forall>i. (priority_queued s' i \<longrightarrow> priority_queued s i) \<and>
    (priority_queued s i \<longrightarrow> is_queued s i \<longrightarrow> priority_queued s' i))"
proof -
  obtain r s1 where r: "pop_next_due_scheduled now True s = (r, s1)" by fastforce
  have d: "distinct (keys (mp_scheduled s))" using assms(1) by (simp add: priority_inv_def entries_ok_def)
  note p = popped_schedule[OF pop_next_due_scheduled_popped[OF r d] d]
  have s1: "priority_inv s1" "priority_ids s1 = priority_ids s"
    using p(1-6) assms(1) by (auto simp: priority_inv_def entries_ok_def)
  show ?thesis
  proof (cases r)
    case None
    then have "s' = s1" by (simp add: s'_def apromote_scheduled_priority_def r)
    then show ?thesis using p(2,4,6,7) None s1 by (auto simp: priority_queued_def)
  next
    case (Some i)
    note i = p(8)[OF Some]
    have s': "s' = apush_priority i (entry_priority s1 i) s1" using Some by (simp add: s'_def apromote_scheduled_priority_def r)
    have "\<not> priority_queued s1 i" using i s1(2) assms(1) by (auto simp: priority_queued_def priority_inv_def)
    from apush_priority_effect[OF s1(1) this]
    have e: "priority_inv s'" "mp_entries s' = mp_entries s1" "\<And>j. priority_queued s' j \<longleftrightarrow> j = i \<or> priority_queued s1 j"
      unfolding s' by (auto simp: fun_eq_iff)
    have "priority_queued s1 j \<longleftrightarrow> j \<in> set (priority_ids s) \<or> j \<in> dkeys (mp_scheduled s1)" for j
      using s1(2) by (simp add: priority_queued_def)
    with e p(2,6,7) i Some show ?thesis by (auto simp: priority_queued_def)
  qed
qed

interpretation memory_priority_queue: async_provider memory_priority_ops priority_inv memory_entry priority_queued
proof (unfold_locales, goal_cases)
  case (1 s i e)
  then show ?case by (auto simp: priority_inv_def entries_ok_def memory_entry_def)
next
  case (2 s e)
  then show ?case
    by (auto simp: memory_priority_ops_def memory_async_ops_def priority_inv_def entries_ok_def memory_entry_def
        priority_queued_def astore_def fun_eq_iff)
next
  case (3 s e)
  then show ?case using apush_priority_effect[of s "qe_id e" "qe_priority e"]
    by (auto simp: memory_priority_ops_def memory_entry_def)
next
  case (4 s i t)
  then show ?case
    by (auto simp: memory_priority_ops_def memory_async_ops_def priority_inv_def entries_ok_def memory_entry_def
        priority_queued_def aschedule_def fun_eq_iff)
next
  case (5 s now)
  then show ?case using apromote_priority_effect[of s now]
    by (auto simp: memory_priority_ops_def bindE_lift memory_entry_def is_queued_def)
next
  case (6 s)
  show ?case
  proof (cases "mp_pending_priority s")
    case Nil
    then show ?thesis using 6 by (simp add: memory_priority_ops_def apop_priority_def)
  next
    case (Cons x rest)
    obtain np n i where x: "x = (np, n, i)" by (cases x)
    have "priority_inv (s\<lparr>mp_pending_priority := rest\<rparr>)" "priority_queued s i"
      "\<And>j. priority_queued (s\<lparr>mp_pending_priority := rest\<rparr>) j \<longleftrightarrow> priority_queued s j \<and> j \<noteq> i"
      using 6 Cons x by (auto simp: priority_inv_def entries_ok_def priority_queued_def)
    then show ?thesis using 6 Cons x
      by (cases "dict_get (mp_entries s) i")
        (auto simp: memory_priority_ops_def apop_priority_def memory_entry_def priority_inv_def entries_ok_def fun_eq_iff Let_def)
  qed
next
  case (7 s e)
  have stored: "priority_inv (astore e s)" "memory_entry (astore e s) = (memory_entry s)(qe_id e \<mapsto> e)"
    "priority_queued (astore e s) = priority_queued s"
    using 7 by (auto simp: priority_inv_def entries_ok_def memory_entry_def priority_queued_def astore_def fun_eq_iff)
  have gone: "priority_inv (adiscard_scheduled i (adiscard_priority i s1))"
    "memory_entry (adiscard_scheduled i (adiscard_priority i s1)) = memory_entry s1"
    "priority_queued (adiscard_scheduled i (adiscard_priority i s1)) = (priority_queued s1)(i := False)"
    if "priority_inv s1" for s1 i
    using that by (auto simp: priority_inv_def entries_ok_def memory_entry_def priority_queued_def
        adiscard_priority_def adiscard_scheduled_def distinct_map_filter fun_eq_iff)
  show ?case using stored gone[OF stored(1), of "qe_id e"]
    by (simp add: memory_priority_ops_def base_astore_and_discard_def)
next
  case (8 s i)
  then show ?case by (simp add: memory_priority_ops_def memory_async_ops_def afind_def memory_entry_def)
next
  case (9 s i)
  have "priority_inv (adelete i s)" "memory_entry (adelete i s) = (memory_entry s)(i := None)"
    "priority_queued (adelete i s) = (priority_queued s)(i := False)"
    using 9 by (auto simp: priority_inv_def entries_ok_def memory_entry_def priority_queued_def adelete_def
        adiscard_priority_def remove_pending_def distinct_map_filter fun_eq_iff split: if_splits)
  then show ?case using 9
    by (cases "dict_get (mp_entries s) i")
      (auto simp: memory_priority_ops_def memory_async_ops_def aprune_def afind_def memory_entry_def terminal_def simp del: dict_get_None)
qed

section \<open>The order of service\<close>

text \<open>
  The abstract priority queue: the ids waiting, with their priorities, in the order of their
  arrival. The heap holds one triple per element, with the sequence numbers handed out so far.
\<close>

definition heap_of :: "(uuid \<times> int) list \<Rightarrow> nat list \<Rightarrow> (int \<times> nat \<times> uuid) list" where
  "heap_of waiting seqs = map2 (\<lambda>(i, p) n. (- p, n, i)) waiting seqs"

definition prio_rel :: "provider_memory \<Rightarrow> (uuid \<times> int) list \<Rightarrow> bool" where
  "prio_rel s waiting \<longleftrightarrow>
     (\<exists>seqs. length seqs = length waiting \<and> sorted_wrt (<) seqs \<and>
        (\<forall>n \<in> set seqs. n \<le> mp_pending_priority_sequence s) \<and> mp_pending_priority s = sort (heap_of waiting seqs))"

lemma prio_rel_push:
  assumes "prio_rel s waiting"
  shows "prio_rel (apush_priority i p s) (waiting @ [(i, p)])"
proof -
  obtain seqs where q: "length seqs = length waiting" "sorted_wrt (<) seqs"
    "\<forall>n \<in> set seqs. n \<le> mp_pending_priority_sequence s" "mp_pending_priority s = sort (heap_of waiting seqs)"
    using assms by (auto simp: prio_rel_def)
  let ?n = "mp_pending_priority_sequence s + 1"
  have "heap_of (waiting @ [(i, p)]) (seqs @ [?n]) = heap_of waiting seqs @ [(- p, ?n, i)]"
    using q(1) by (simp add: heap_of_def)
  then have "sort (heap_of (waiting @ [(i, p)]) (seqs @ [?n])) = insort (- p, ?n, i) (sort (heap_of waiting seqs))"
    by (intro properties_for_sort) (auto simp: sorted_insort)
  moreover have "sorted_wrt (<) (seqs @ [?n])" using q(2,3) by (auto simp: sorted_wrt_append less_Suc_eq_le)
  ultimately show ?thesis
    using q unfolding prio_rel_def
    by (intro exI[of _ "seqs @ [?n]"]) (auto simp: apush_priority_def Let_def)
qed

lemma sort_Cons_decomp:
  assumes "sort xs = x # rest"
  shows "\<exists>k < length xs. xs ! k = x \<and> rest = sort (take k xs @ drop (Suc k) xs) \<and> (\<forall>y \<in> set xs. x \<le> y)"
proof -
  have "x \<in> set xs" using assms by (metis list.set_intros(1) set_sort)
  then obtain k where k: "k < length xs" "xs ! k = x" by (auto simp: in_set_conv_nth)
  have srt: "sorted (x # rest)" using assms sorted_sort[of xs] by simp
  have "mset (x # rest) = mset xs" using assms by (metis mset_sort)
  also have "\<dots> = mset (take k xs @ x # drop (Suc k) xs)" using k id_take_nth_drop[of k xs] by simp
  finally have "mset rest = mset (take k xs @ drop (Suc k) xs)" by simp
  then have "rest = sort (take k xs @ drop (Suc k) xs)" using srt by (intro properties_for_sort[symmetric]) auto
  moreover have "\<forall>y \<in> set xs. x \<le> y" using srt assms by (metis set_sort set_ConsD sorted_simps(2) order_refl)
  ultimately show ?thesis using k by blast
qed

text \<open>
  The head of the heap is the first arrival of the highest priority waiting; taking it leaves
  the others in their order.
\<close>

lemma prio_rel_pop:
  assumes "prio_rel s waiting" "mp_pending_priority s = (np, n, i) # rest"
  shows "\<exists>before after. waiting = before @ (i, - np) # after \<and> (\<forall>(j, q) \<in> set before. q < - np) \<and>
    (\<forall>(j, q) \<in> set after. q \<le> - np) \<and> prio_rel (s\<lparr>mp_pending_priority := rest\<rparr>) (before @ after)"
proof -
  obtain seqs where q: "length seqs = length waiting" "sorted_wrt (<) seqs"
    "\<forall>n \<in> set seqs. n \<le> mp_pending_priority_sequence s" "sort (heap_of waiting seqs) = (np, n, i) # rest"
    using assms by (auto simp: prio_rel_def)
  let ?h = "heap_of waiting seqs"
  have h: "length ?h = length waiting" "\<And>j. j < length waiting \<Longrightarrow> ?h ! j = (- snd (waiting ! j), seqs ! j, fst (waiting ! j))"
    using q(1) by (auto simp: heap_of_def split: prod.split)
  obtain k where k: "k < length waiting" "?h ! k = (np, n, i)" "rest = sort (take k ?h @ drop (Suc k) ?h)"
    "\<forall>y \<in> set ?h. (np, n, i) \<le> y"
    using sort_Cons_decomp[OF q(4)] h(1) by auto
  have wk: "waiting ! k = (i, - np)" "seqs ! k = n" using h(2)[OF k(1)] k(2) by (auto simp: prod_eq_iff)
  have le: "(np, n, i) \<le> (- snd (waiting ! j), seqs ! j, fst (waiting ! j))" if "j < length waiting" for j
    using k(4) h(2)[OF that] that h(1) by (metis nth_mem)
  have before: "snd (waiting ! j) < - np" if "j < k" for j
  proof -
    have "seqs ! j < n" using q(1,2) that k(1) wk(2) by (metis sorted_wrt_iff_nth_less)
    then show ?thesis using le[of j] that k(1) by (auto simp: less_eq_prod_def)
  qed
  have after: "snd (waiting ! j) \<le> - np" if "j < length waiting" for j
    using le[OF that] by (auto simp: less_eq_prod_def)
  have rest: "prio_rel (s\<lparr>mp_pending_priority := rest\<rparr>) (take k waiting @ drop (Suc k) waiting)"
    unfolding prio_rel_def
  proof (intro exI[of _ "take k seqs @ drop (Suc k) seqs"] conjI)
    show "mp_pending_priority (s\<lparr>mp_pending_priority := rest\<rparr>) =
        sort (heap_of (take k waiting @ drop (Suc k) waiting) (take k seqs @ drop (Suc k) seqs))"
      using k(3) q(1) by (simp add: heap_of_def take_map drop_map take_zip drop_zip)
    show "sorted_wrt (<) (take k seqs @ drop (Suc k) seqs)"
      using q(2) id_take_nth_drop[of k seqs] k(1) q(1) by (metis sorted_wrt_append sorted_wrt.simps(2) list.set_intros(2))
  qed (use q(1,3) in \<open>auto dest: in_set_takeD in_set_dropD\<close>)
  have "waiting = take k waiting @ (i, - np) # drop (Suc k) waiting"
    using id_take_nth_drop[OF k(1)] wk by simp
  moreover have "\<forall>(j, q) \<in> set (take k waiting). q < - np"
    using before by (auto simp: in_set_conv_nth split: prod.split) (metis snd_conv)
  moreover have "\<forall>(j, q) \<in> set (drop (Suc k) waiting). q \<le> - np"
    using after by (auto simp: in_set_conv_nth split: prod.split dest!: in_set_dropD) (metis snd_conv)
  ultimately show ?thesis using rest by blast
qed

fun drain_pending :: "nat \<Rightarrow> provider_memory \<Rightarrow> queue_entry list" where
  "drain_pending 0 s = []"
| "drain_pending (Suc n) s = (case apop s of (Inr e, s') \<Rightarrow> e # drain_pending n s' | (Inl _, _) \<Rightarrow> [])"

lemma queue_get_fifo [simp]: "queue_get False (x # xs) = Some (x, xs)"
  by simp

lemma queue_get_lifo [simp]: "queue_get True (xs @ [x]) = Some (x, xs)"
  by (cases xs) auto

lemma drain_fifo:
  assumes "\<not> mp_stack s" "mp_pending s = map qe_id es" "\<forall>e \<in> set es. dict_get (mp_entries s) (qe_id e) = Some e"
  shows "drain_pending (length es) s = es"
  using assms by (induction es arbitrary: s) (auto simp: apop_def Let_def)

lemma drain_lifo:
  assumes "mp_stack s" "mp_pending s = map qe_id es" "\<forall>e \<in> set es. dict_get (mp_entries s) (qe_id e) = Some e"
  shows "drain_pending (length es) s = rev es"
  using assms
proof (induction es arbitrary: s rule: rev_induct)
  case (snoc e es)
  then have "apop s = (Inr e, s\<lparr>mp_pending := map qe_id es\<rparr>)" by (simp add: apop_def)
  with snoc show ?case by simp
qed simp

lemma push_all_state:
  "fold (\<lambda>e. apush (qe_id e)) es s = s\<lparr>mp_pending := mp_pending s @ map qe_id es\<rparr>"
  by (induction es arbitrary: s) (simp_all add: apush_def)

section \<open>The guarantees of the in-process queues\<close>

lemma memory_init_accounted: "memory_queue.accounted (provider_memory_init stack maxsize, {})"
  "memory_priority_queue.accounted (provider_memory_init stack maxsize, {})"
  by (simp_all add: memory_queue.accounted_def memory_queue.ledger_def memory_priority_queue.accounted_def
      memory_priority_queue.ledger_def memory_inv_def priority_inv_def entries_ok_def memory_queued_def
      priority_queued_def memory_entry_def provider_memory_init_def)

definition sample_store :: "bool \<Rightarrow> provider_memory" where
  "sample_store stack = (provider_memory_init stack 0)
     \<lparr>mp_entries := [(sample_id 1, sample_entry 1 (ClockTime 5 0) 60), (sample_id 2, sample_entry 2 (ClockTime 6 0) 60)]\<rparr>"

lemma sample_id_neq: "sample_id 2 \<noteq> sample_id 1"
  by (simp add: sample_id_def)

text \<open>
  C10. On the in-process queue, FIFO or stack, whatever producers, consumers and administrators
  do: every retained entry that is still queued either waits in the dispatch order or was handed
  out to a consumer, and never both; and everything in the dispatch order is a retained entry
  that is still queued.
\<close>

theorem memory_queue_loses_nothing:
  assumes "async_reachable memory_async_ops (provider_memory_init stack maxsize) (s, held)"
  shows "(\<forall>i e. dict_get (mp_entries s) i = Some e \<longrightarrow> qe_status e = QUEUED \<longrightarrow>
            (i \<in> set (mp_pending s) \<or> i \<in> dkeys (mp_scheduled s)) \<noteq> (i \<in> held)) \<and>
    distinct (mp_pending s) \<and>
    (\<forall>i. i \<in> set (mp_pending s) \<or> i \<in> dkeys (mp_scheduled s) \<longrightarrow>
       (\<exists>e. dict_get (mp_entries s) i = Some e \<and> qe_status e = QUEUED))"
proof -
  have "memory_queue.accounted (s, held)"
    using memory_queue.accounted_reachable[OF memory_init_accounted(1) assms] .
  then show ?thesis
    by (auto simp: memory_queue.accounted_def memory_queue.ledger_def memory_queued_def memory_entry_def memory_inv_def)
qed

lemma sample_reachable:
  "async_reachable memory_async_ops (provider_memory_init False 0)
     ((provider_memory_init False 0)\<lparr>mp_entries := [(sample_id 1, sample_entry 1 (ClockTime 5 0) 60)],
        mp_pending := [sample_id 1]\<rparr>, {})"
  "async_reachable memory_priority_ops (provider_memory_init False 0)
     ((provider_memory_init False 0)\<lparr>mp_entries := [(sample_id 1, sample_entry 1 (ClockTime 5 0) 60)],
        mp_pending_priority := [(- 1, 1, sample_id 1)], mp_pending_priority_sequence := 1\<rparr>, {})"
proof -
  have e: "entry_create (sample_id 1) (ClockTime 5 0) (PStr ''jobs'') PNone (Some (ClockTime 5 0)) (PNum (PyInt 60)) (PNum (PyInt 1)) =
      Inr (sample_entry 1 (ClockTime 5 0) 60)"
    by (simp add: entry_create_def entry_post_init_def as_budget_opt_def validate_budget_def int_to_float_exact
        validate_priority_def validate_json_value_def sample_entry_def sample_id_def uuid_version_def)
  show "async_reachable memory_async_ops (provider_memory_init False 0)
     ((provider_memory_init False 0)\<lparr>mp_entries := [(sample_id 1, sample_entry 1 (ClockTime 5 0) 60)],
        mp_pending := [sample_id 1]\<rparr>, {})"
    by (rule async_next[OF async_init step_enqueue[where queue_name = "''jobs''" and created = "Inr (ClockTime 5 0)" and
        now = "ClockTime 5 0" and payload = PNone and budget = "PNum (PyInt 60)" and priority = "PNum (PyInt 1)" and
        available_at = PNone and new_id = "sample_id 1" and r = "Inr (sample_id 1)"]])
      (simp_all add: memory_async_ops_def afind_def async_aenqueue_def async_aenqueue_with_def bindE_lift e[unfolded One_nat_def] validate_json_value_def
        astore_and_push_def bindE_def astore_def apush_def provider_memory_init_def)
  show "async_reachable memory_priority_ops (provider_memory_init False 0)
     ((provider_memory_init False 0)\<lparr>mp_entries := [(sample_id 1, sample_entry 1 (ClockTime 5 0) 60)],
        mp_pending_priority := [(- 1, 1, sample_id 1)], mp_pending_priority_sequence := 1\<rparr>, {})"
    by (rule async_next[OF async_init step_enqueue[where queue_name = "''jobs''" and created = "Inr (ClockTime 5 0)" and
        now = "ClockTime 5 0" and payload = PNone and budget = "PNum (PyInt 60)" and priority = "PNum (PyInt 1)" and
        available_at = PNone and new_id = "sample_id 1" and r = "Inr (sample_id 1)"]])
      (simp_all add: memory_priority_ops_def memory_async_ops_def afind_def async_aenqueue_def async_aenqueue_with_def bindE_lift e[unfolded One_nat_def] validate_json_value_def
        astore_and_push_def bindE_def astore_def apush_priority_def Let_def provider_memory_init_def)
qed

theorem memory_queue_loses_nothing_witness:
  "async_reachable memory_async_ops (provider_memory_init False 0)
     ((provider_memory_init False 0)\<lparr>mp_entries := [(sample_id 1, sample_entry 1 (ClockTime 5 0) 60)],
        mp_pending := [sample_id 1]\<rparr>, {}) \<and> distinct [sample_id 1]"
  using memory_queue_loses_nothing[OF sample_reachable(1)] sample_reachable(1) by simp

text \<open>
  The same for the in-process priority queue: nothing queued is lost or in two places, and
  the heap and the schedule hold retained queued entries only.
\<close>

theorem memory_priority_queue_loses_nothing:
  assumes "async_reachable memory_priority_ops (provider_memory_init stack maxsize) (s, held)"
  shows "(\<forall>i e. dict_get (mp_entries s) i = Some e \<longrightarrow> qe_status e = QUEUED \<longrightarrow>
            (i \<in> set (priority_ids s) \<or> i \<in> dkeys (mp_scheduled s)) \<noteq> (i \<in> held)) \<and>
    distinct (priority_ids s) \<and>
    (\<forall>i. i \<in> set (priority_ids s) \<or> i \<in> dkeys (mp_scheduled s) \<longrightarrow>
       (\<exists>e. dict_get (mp_entries s) i = Some e \<and> qe_status e = QUEUED))"
proof -
  have a: "memory_priority_queue.accounted (s, held)"
    using memory_priority_queue.accounted_reachable[OF memory_init_accounted(2) assms] .
  then have q: "\<And>i. priority_queued s i \<longleftrightarrow> i \<in> set (priority_ids s) \<or> i \<in> dkeys (mp_scheduled s)"
    and d: "distinct (priority_ids s)"
    by (simp_all add: priority_queued_def memory_priority_queue.accounted_def memory_priority_queue.ledger_def priority_inv_def)
  from a d show ?thesis unfolding q[symmetric] memory_priority_queue.accounted_def memory_priority_queue.ledger_def memory_entry_def
    by auto
qed

theorem memory_priority_queue_loses_nothing_witness:
  "async_reachable memory_priority_ops (provider_memory_init False 0)
     ((provider_memory_init False 0)\<lparr>mp_entries := [(sample_id 1, sample_entry 1 (ClockTime 5 0) 60)],
        mp_pending_priority := [(- 1, 1, sample_id 1)], mp_pending_priority_sequence := 1\<rparr>, {}) \<and> distinct [sample_id 1]"
  using memory_priority_queue_loses_nothing[OF sample_reachable(2)] sample_reachable(2) by simp

text \<open>
  C11. A record of the in-process queue lives along the lifecycle relation: one step leaves it
  as it is, moves its status to a permitted successor, or prunes it once it is terminal.
\<close>

theorem memory_queue_lifecycle:
  assumes "async_reachable memory_async_ops (provider_memory_init stack maxsize) (s, held)"
    "async_step memory_async_ops (s, held) (s', held')" "dict_get (mp_entries s) i = Some e"
  shows "case dict_get (mp_entries s') i of
      None \<Rightarrow> terminal (qe_status e)
    | Some e' \<Rightarrow> e' = e \<or> qe_status e' \<in> next_state (qe_status e) - {TERMINATED}"
  using memory_queue.lifecycle_step[OF assms(2) memory_queue.accounted_reachable[OF memory_init_accounted(1) assms(1)]] assms(3)
  by (simp add: memory_entry_def)

theorem memory_queue_lifecycle_witness:
  "\<exists>s' held'. async_step memory_async_ops
      ((provider_memory_init False 0)\<lparr>mp_entries := [(sample_id 1, sample_entry 1 (ClockTime 5 0) 60)],
        mp_pending := [sample_id 1]\<rparr>, {}) (s', held') \<and>
    (case dict_get (mp_entries s') (sample_id 1) of
      None \<Rightarrow> terminal QUEUED
    | Some e' \<Rightarrow> e' = sample_entry 1 (ClockTime 5 0) 60 \<or> qe_status e' \<in> next_state QUEUED - {TERMINATED})"
proof -
  let ?s = "(provider_memory_init False 0)\<lparr>mp_entries := [(sample_id 1, sample_entry 1 (ClockTime 5 0) 60)],
        mp_pending := [sample_id 1]\<rparr>"
  obtain r s' where run: "amark_failed memory_async_ops (Inr (ClockTime 9 0)) (sample_id 1) ''E'' ''boom'' ?s = (r, s')"
    by fastforce
  have step: "async_step memory_async_ops (?s, {}) (s', {})" using step_failed[OF run] .
  have get: "dict_get (mp_entries ?s) (sample_id 1) = Some (sample_entry 1 (ClockTime 5 0) 60)" by simp
  show ?thesis
    using memory_queue_lifecycle[OF sample_reachable(1) step get, unfolded sample_entry_sel] step by blast
qed

text \<open>
  Entries pushed onto an empty in-process queue are handed out in the order of their arrival,
  and in the reverse order by a stack.
\<close>

theorem memory_service_order:
  assumes "mp_pending s = []" "\<forall>e \<in> set es. dict_get (mp_entries s) (qe_id e) = Some e"
  shows "drain_pending (length es) (fold (\<lambda>e. apush (qe_id e)) es s) = (if mp_stack s then rev es else es)"
  using assms drain_fifo[of "s\<lparr>mp_pending := map qe_id es\<rparr>" es] drain_lifo[of "s\<lparr>mp_pending := map qe_id es\<rparr>" es]
  by (simp add: push_all_state)

theorem memory_service_order_witness:
  "drain_pending 2 (fold (\<lambda>e. apush (qe_id e)) [sample_entry 1 (ClockTime 5 0) 60, sample_entry 2 (ClockTime 6 0) 60]
      (sample_store True)) = [sample_entry 2 (ClockTime 6 0) 60, sample_entry 1 (ClockTime 5 0) 60]"
  using memory_service_order[of "sample_store True" "[sample_entry 1 (ClockTime 5 0) 60, sample_entry 2 (ClockTime 6 0) 60]"]
    sample_id_neq
  by (simp add: sample_store_def provider_memory_init_def numeral_2_eq_2)

text \<open>
  C19. The in-process priority heap refines a list in arrival order: pushing appends, and the
  next entry is the first arrival among those of the highest priority.
\<close>

theorem memory_priority_order:
  assumes "prio_rel s waiting"
  shows "prio_rel (apush_priority i p s) (waiting @ [(i, p)]) \<and>
    (\<forall>e s'. apop_priority s = (Inr e, s') \<longrightarrow>
       (\<exists>before j q after. waiting = before @ (j, q) # after \<and> dict_get (mp_entries s) j = Some e \<and>
          (\<forall>(_, q') \<in> set before. q' < q) \<and> (\<forall>(_, q') \<in> set after. q' \<le> q) \<and> prio_rel s' (before @ after))) \<and>
    (apop_priority s = (Inl QueueEmptyException, s) \<longleftrightarrow> waiting = [])"
proof (intro conjI allI impI)
  show "prio_rel (apush_priority i p s) (waiting @ [(i, p)])" using assms by (rule prio_rel_push)
next
  fix e s' assume pop: "apop_priority s = (Inr e, s')"
  then obtain np n j rest where j: "mp_pending_priority s = (np, n, j) # rest" "s' = s\<lparr>mp_pending_priority := rest\<rparr>"
    "dict_get (mp_entries s) j = Some e"
    by (auto simp: apop_priority_def Let_def split: list.splits option.splits)
  from prio_rel_pop[OF assms j(1)] j(2,3)
  show "\<exists>before j q after. waiting = before @ (j, q) # after \<and> dict_get (mp_entries s) j = Some e \<and>
          (\<forall>(_, q') \<in> set before. q' < q) \<and> (\<forall>(_, q') \<in> set after. q' \<le> q) \<and> prio_rel s' (before @ after)"
    by blast
next
  have "length (mp_pending_priority s) = length waiting"
    using assms by (auto simp: prio_rel_def heap_of_def)
  then show "apop_priority s = (Inl QueueEmptyException, s) \<longleftrightarrow> waiting = []"
    by (auto simp: apop_priority_def Let_def split: list.splits option.splits)
qed

theorem memory_priority_order_witness:
  "prio_rel (apush_priority (sample_id 2) 5 (sample_store False)) [(sample_id 2, 5)]"
proof -
  have "prio_rel (sample_store False) []" by (simp add: prio_rel_def heap_of_def sample_store_def provider_memory_init_def)
  from memory_priority_order[OF this, of "sample_id 2" 5] show ?thesis by simp
qed

text \<open>
  C21. Promotion takes exactly one due entry out of the schedule: one that is still queued, whose
  instant is the earliest among the due ones, and for a priority queue of the highest priority at
  that instant. Everything else it removes is stale, and it finds nothing only when no queued
  entry is due. The search always ends.
\<close>

theorem scheduled_earliest_first:
  assumes "distinct (keys (mp_scheduled s))"
  shows "\<exists>r s'. pop_next_due_scheduled now priority s = (r, s') \<and> popped now priority s r s'"
  using pop_next_due_scheduled_popped[OF _ assms] by (metis surj_pair)

theorem scheduled_earliest_first_witness:
  "\<exists>r s'. pop_next_due_scheduled (ClockTime 9 0) True ((sample_store False)\<lparr>mp_scheduled := [(sample_id 1, ClockTime 8 0)]\<rparr>) = (r, s') \<and>
     popped (ClockTime 9 0) True ((sample_store False)\<lparr>mp_scheduled := [(sample_id 1, ClockTime 8 0)]\<rparr>) r s'"
  by (rule scheduled_earliest_first) simp

end
