(* ===== verification/Queue_Worker.thy ===== *)
theory Queue_Worker
  imports Queue_Base
begin

text \<open>
  \<^verbatim>\<open>django_queue/worker.py\<close>: the asynchronous worker. A worker object is a record of its state;
  its methods are programs over the pair of worker state and queue store. The methods a
  delivery-specific worker overrides are the fields of \<open>worker_class\<close>. Readings of the queue clock
  and of the event loop's clock are arguments; how the race between handler, execution budget,
  claim renewal and shutdown ended is a value of \<open>handler_end\<close>. The snapshots a
  worker publishes itself are kept as a list in its state, those of pruning are the result of
  \<open>async_aprune\<close>; of log records only the computed fields are modelled.
\<close>

section \<open>State\<close>

record worker_state =
  wk_worker_id :: uuid
  wk_timeout_seconds :: "pynum option"
  wk_cancellation_grace_period :: pynum
  wk_running :: bool
  wk_started_at :: "clock_time option"
  wk_stopped_at :: "clock_time option"
  wk_active_entry_id :: "uuid option"
  wk_active_queue_name :: "string option"
  wk_dispatch_count :: nat
  wk_succeeded_count :: nat
  wk_failed_count :: nat
  wk_cancelled_count :: nat
  wk_timed_out_count :: nat
  wk_last_recovery_at :: "(nat, rat) pydict"
  wk_last_retention_cleanup_at :: "(nat, rat) pydict"
  wk_last_first_seen_scan_at :: "(nat, rat) pydict"
  wk_last_observed_entry_id :: "(nat, uuid) pydict"
  wk_last_claim_conflict_at :: "(uuid, rat) pydict"
  wk_published :: "queue_entry list"

text \<open>
  A registered queue: \<open>wq_key\<close> is the identity of the queue object, by which the worker's
  dictionaries are keyed.
\<close>

record 's worker_queue =
  wq_key :: nat
  wq_ops :: "'s async_ops"
  wq_timeout_seconds :: "pynum option"
  wq_retention_timeout :: "pynum option"
  wq_is_async :: bool
  wq_provider_kind :: string
  wq_compatible :: bool

abbreviation DEFAULT_TIMEOUT_SECONDS :: pynum where
  "DEFAULT_TIMEOUT_SECONDS \<equiv> PyInt 600"

text \<open>
  The constructor. \<open>wq_compatible\<close> tells whether the queue accepts this worker class. The grace
  period must be a plain number (not a bool), finite and not negative.
\<close>

definition validate_grace_period :: "pyval \<Rightarrow> pynum result" where
  "validate_grace_period v =
     (case v of
        PNum n \<Rightarrow> bindR (math_isfinite n) (\<lambda>fin.
          if \<not> fin \<or> \<not> num_le (PyInt 0) n then Inl ValueError else Inr n)
      | _ \<Rightarrow> Inl ValueError)"

fun check_queues :: "string \<Rightarrow> 's worker_queue list \<Rightarrow> unit result" where
  "check_queues provider_kind [] = Inr ()"
| "check_queues provider_kind (q # qs) =
     (if \<not> wq_is_async q then Inl TypeError
      else if provider_kind \<noteq> wq_provider_kind q then Inl TypeError
      else if \<not> wq_compatible q then Inl TypeError
      else check_queues provider_kind qs)"

definition worker_init :: "uuid \<Rightarrow> string \<Rightarrow> 's worker_queue list \<Rightarrow> pyval \<Rightarrow> pyval \<Rightarrow> worker_state result" where
  "worker_init worker_id provider_kind queues timeout_seconds grace =
     bindR (as_budget_opt timeout_seconds) (\<lambda>budget.
     bindR (validate_grace_period grace) (\<lambda>g.
     bindR (check_queues provider_kind queues) (\<lambda>_.
       Inr \<lparr>wk_worker_id = worker_id, wk_timeout_seconds = budget, wk_cancellation_grace_period = g, wk_running = False,
            wk_started_at = None, wk_stopped_at = None, wk_active_entry_id = None, wk_active_queue_name = None,
            wk_dispatch_count = 0, wk_succeeded_count = 0, wk_failed_count = 0, wk_cancelled_count = 0,
            wk_timed_out_count = 0, wk_last_recovery_at = [], wk_last_retention_cleanup_at = [],
            wk_last_first_seen_scan_at = [], wk_last_observed_entry_id = [], wk_last_claim_conflict_at = [],
            wk_published = []\<rparr>)))"

definition budget_for :: "worker_state \<Rightarrow> 's worker_queue \<Rightarrow> queue_entry \<Rightarrow> pynum" where
  "budget_for w q e =
     (case wk_timeout_seconds w of Some b \<Rightarrow> b | None \<Rightarrow>
      case qe_timeout_seconds e of Some b \<Rightarrow> b | None \<Rightarrow>
      case wq_timeout_seconds q of Some b \<Rightarrow> b | None \<Rightarrow> DEFAULT_TIMEOUT_SECONDS)"

text \<open>The time a worker has been running, or ran before it stopped; absent when the clock does not answer.\<close>

definition running_for :: "worker_state \<Rightarrow> clock_time result \<Rightarrow> rat option result" where
  "running_for w now =
     (case wk_started_at w of
        None \<Rightarrow> Inr None
      | Some started \<Rightarrow>
          (case wk_stopped_at w of
             Some stopped \<Rightarrow> elapsed_time (Some started) (Some stopped)
           | None \<Rightarrow>
               (case now of
                  Inl QueueClockError \<Rightarrow> Inr None
                | Inl err \<Rightarrow> Inl err
                | Inr t \<Rightarrow> elapsed_time (Some started) (Some t))))"

text \<open>What a reader sees of a worker, and the fields of the record it logs at a state change.\<close>

record worker_snapshot =
  ws_worker_id :: uuid
  ws_running :: bool
  ws_started_at :: "clock_time option"
  ws_running_for :: "rat option"
  ws_active_entry_id :: "uuid option"
  ws_active_queue_name :: "string option"
  ws_queue_names :: "string list"
  ws_dispatch_count :: nat
  ws_succeeded_count :: nat
  ws_failed_count :: nat
  ws_cancelled_count :: nat
  ws_timed_out_count :: nat

definition snapshot :: "worker_state \<Rightarrow> string list \<Rightarrow> clock_time result \<Rightarrow> worker_snapshot result" where
  "snapshot w queue_names now =
     bindR (running_for w now) (\<lambda>elapsed. Inr
       \<lparr>ws_worker_id = wk_worker_id w, ws_running = wk_running w, ws_started_at = wk_started_at w,
        ws_running_for = elapsed, ws_active_entry_id = wk_active_entry_id w,
        ws_active_queue_name = wk_active_queue_name w, ws_queue_names = queue_names,
        ws_dispatch_count = wk_dispatch_count w, ws_succeeded_count = wk_succeeded_count w,
        ws_failed_count = wk_failed_count w, ws_cancelled_count = wk_cancelled_count w,
        ws_timed_out_count = wk_timed_out_count w\<rparr>)"

record worker_log = worker_snapshot +
  wl_event :: string
  wl_started_at :: "pynum option"
  wl_entry_queued_for :: "rat option"
  wl_entry_ran_for :: "rat option"

definition log_state_change ::
    "worker_state \<Rightarrow> string list \<Rightarrow> clock_time result \<Rightarrow> string \<Rightarrow> queue_entry option \<Rightarrow> worker_log result" where
  "log_state_change w queue_names now event e =
     bindR (snapshot w queue_names now) (\<lambda>s.
     bindR (case ws_started_at s of None \<Rightarrow> Inr None | Some t \<Rightarrow> bindR (to_timestamp t) (\<lambda>r. Inr (Some r))) (\<lambda>started.
     bindR (case e of None \<Rightarrow> Inr None | Some e \<Rightarrow> queued_for e) (\<lambda>waited.
     bindR (case e of None \<Rightarrow> Inr None | Some e \<Rightarrow> ran_for e) (\<lambda>ran.
       Inr (worker_snapshot.extend s (worker_log.fields event started waited ran))))))"

section \<open>Handler deadlines\<close>

text \<open>
  The execution budget of the running handler: \<open>at_deadline\<close> is the loop time it ends at. A heartbeat
  restarts it, and is refused when no dispatch is active or its deadline has passed.
\<close>

record active_timeout =
  at_deadline :: rat
  at_budget :: rat
  at_active :: bool

definition heartbeat :: "rat \<Rightarrow> active_timeout option \<Rightarrow> active_timeout result" where
  "heartbeat loop_time timeout =
     (case timeout of
        None \<Rightarrow> Inl RuntimeError
      | Some a \<Rightarrow>
          if \<not> at_active a \<or> at_deadline a \<le> loop_time then Inl RuntimeError
          else Inr (a\<lparr>at_deadline := fl (loop_time + at_budget a)\<rparr>))"

section \<open>Programs of the worker\<close>

definition on_queue :: "('a, 's) prog \<Rightarrow> ('a, worker_state \<times> 's) prog" where
  "on_queue p c = (case p (snd c) of (r, s') \<Rightarrow> (r, (fst c, s')))"

definition set_worker :: "(worker_state \<Rightarrow> worker_state) \<Rightarrow> (unit, worker_state \<times> 's) prog" where
  "set_worker f c = (Inr (), (f (fst c), snd c))"

definition with_worker :: "(worker_state \<Rightarrow> ('a, worker_state \<times> 's) prog) \<Rightarrow> ('a, worker_state \<times> 's) prog" where
  "with_worker f c = f (fst c) c"

definition apublish :: "queue_entry \<Rightarrow> (unit, worker_state \<times> 's) prog" where
  "apublish e = set_worker (\<lambda>w. w\<lparr>wk_published := wk_published w @ [e]\<rparr>)"

lemma on_queue_apply [simp, prog_simps]: "p s = (r, s') \<Longrightarrow> on_queue p (w, s) = (r, (w, s'))"
  by (simp add: on_queue_def)

lemma set_worker_apply [simp, prog_simps]: "set_worker f (w, s) = (Inr (), (f w, s))"
  by (simp add: set_worker_def)

lemma with_worker_apply [simp, prog_simps]: "with_worker f (w, s) = f w (w, s)"
  by (simp add: with_worker_def)

lemma apublish_apply [simp, prog_simps]: "apublish e (w, s) = (Inr (), (w\<lparr>wk_published := wk_published w @ [e]\<rparr>, s))"
  by (simp add: apublish_def)

lemma on_queue_cases: "on_queue p (w, s) = (fst (p s), (w, snd (p s)))"
  by (simp add: on_queue_def case_prod_unfold)

text \<open>The overridable methods; the clock reading a method takes is its first argument.\<close>

record 's worker_class =
  wc_next :: "'s worker_queue \<Rightarrow> ((queue_entry \<times> pynum option) option, worker_state \<times> 's) prog"
  wc_mark_running :: "'s worker_queue \<Rightarrow> clock_time result \<Rightarrow> uuid \<Rightarrow> queue_entry \<Rightarrow> (queue_entry option, 's) prog"
  wc_settle :: "'s worker_queue \<Rightarrow> uuid \<Rightarrow> queue_entry \<Rightarrow> (bool, 's) prog"
  wc_discard_missing :: "'s worker_queue \<Rightarrow> uuid \<Rightarrow> uuid \<Rightarrow> (unit, 's) prog"

text \<open>
  The generic worker takes entries out of the queue and holds no claims. \<open>now\<close> is the reading of
  the clock while it takes an entry, one for all the entries of a run.
\<close>

definition generic_worker :: "clock_time result \<Rightarrow> 's worker_class" where
  "generic_worker now =
     \<lparr>wc_next = (\<lambda>q. bindE (on_queue (async_adequeue (wq_ops q) now)) (\<lambda>e. ok (Some (e, None)))),
      wc_mark_running = (\<lambda>_ _ _ _. raise RuntimeError),
      wc_settle = (\<lambda>_ _ _. raise RuntimeError),
      wc_discard_missing = (\<lambda>_ _ _. ok ())\<rparr>"

section \<open>Observation and retention\<close>

definition interval_over :: "(nat, rat) pydict \<Rightarrow> nat \<Rightarrow> rat \<Rightarrow> rat \<Rightarrow> bool" where
  "interval_over seen k loop_time interval =
     (case dict_get seen k of None \<Rightarrow> True | Some t \<Rightarrow> interval \<le> fl (loop_time - t))"

definition observed :: "worker_state \<Rightarrow> 's worker_queue \<Rightarrow> queue_entry \<Rightarrow> bool" where
  "observed w q e =
     (case dict_get (wk_last_observed_entry_id w) (wq_key q) of None \<Rightarrow> False | Some i \<Rightarrow> qe_id e \<le> i)"

text \<open>Entries beyond the cursor, in id order; the cursor then moves to the largest id of the scan.\<close>

definition new_entries :: "uuid option \<Rightarrow> queue_entry list \<Rightarrow> queue_entry list" where
  "new_entries previous entries =
     sort_key qe_id (filter (\<lambda>e. case previous of None \<Rightarrow> True | Some i \<Rightarrow> i < qe_id e) entries)"

definition next_cursor :: "uuid option \<Rightarrow> queue_entry list \<Rightarrow> uuid option" where
  "next_cursor previous entries =
     (if entries = [] then previous
      else let largest = Max (set (map qe_id entries)) in
        case previous of None \<Rightarrow> Some largest | Some i \<Rightarrow> if i < largest then Some largest else Some i)"

definition publish_new :: "'s worker_queue \<Rightarrow> rat \<Rightarrow> (unit, worker_state \<times> 's) prog" where
  "publish_new q loop_time =
     with_worker (\<lambda>w. let k = wq_key q in
      if \<not> interval_over (wk_last_first_seen_scan_at w) k loop_time 1 then ok ()
      else
        bindE (set_worker (\<lambda>w. w\<lparr>wk_last_first_seen_scan_at := dict_set k loop_time (wk_last_first_seen_scan_at w)\<rparr>)) (\<lambda>_.
        bindE (on_queue (op_alist (wq_ops q))) (\<lambda>entries.
        let previous = dict_get (wk_last_observed_entry_id w) k in
        bindE (foreach apublish (new_entries previous entries)) (\<lambda>_.
          set_worker (\<lambda>w. case next_cursor previous entries of
              None \<Rightarrow> w
            | Some i \<Rightarrow> w\<lparr>wk_last_observed_entry_id := dict_set k i (wk_last_observed_entry_id w)\<rparr>)))))"

definition prune_expired :: "'s worker_queue \<Rightarrow> rat \<Rightarrow> clock_time result \<Rightarrow> (unit, worker_state \<times> 's) prog" where
  "prune_expired q loop_time now =
     with_worker (\<lambda>w. let k = wq_key q in
      if wq_retention_timeout q = None \<or> \<not> interval_over (wk_last_retention_cleanup_at w) k loop_time 1 then ok ()
      else
        bindE (set_worker (\<lambda>w. w\<lparr>wk_last_retention_cleanup_at := dict_set k loop_time (wk_last_retention_cleanup_at w)\<rparr>)) (\<lambda>_.
        bindE (on_queue (async_aprune_expired (wq_ops q) (wq_retention_timeout q) now)) (\<lambda>_. ok ())))"

abbreviation CLAIM_CONFLICT_LOG_INTERVAL_SECONDS :: rat where
  "CLAIM_CONFLICT_LOG_INTERVAL_SECONDS \<equiv> 60"

text \<open>A conflict is logged, and its time kept, at most once per interval; the result tells whether it was.\<close>

definition log_claim_conflict :: "uuid \<Rightarrow> rat \<Rightarrow> (bool, worker_state \<times> 's) prog" where
  "log_claim_conflict i loop_time =
     with_worker (\<lambda>w. let due = (case dict_get (wk_last_claim_conflict_at w) i of
                   None \<Rightarrow> True | Some t \<Rightarrow> CLAIM_CONFLICT_LOG_INTERVAL_SECONDS \<le> fl (loop_time - t))
      in bindE (set_worker (\<lambda>w. if due then w\<lparr>wk_last_claim_conflict_at := dict_set i loop_time (wk_last_claim_conflict_at w)\<rparr> else w))
           (\<lambda>_. ok due))"

section \<open>Recording outcomes\<close>

text \<open>A terminal outcome is counted by its status; an entry in any other state is not counted.\<close>

definition clear_active :: "worker_state \<Rightarrow> worker_state" where
  "clear_active w = w\<lparr>wk_active_entry_id := None, wk_active_queue_name := None\<rparr>"

definition count_terminal :: "QueueEntryStatus \<Rightarrow> worker_state \<Rightarrow> worker_state" where
  "count_terminal st w =
     (case st of
        SUCCEEDED \<Rightarrow> w\<lparr>wk_succeeded_count := wk_succeeded_count w + 1\<rparr>
      | FAILED \<Rightarrow> w\<lparr>wk_failed_count := wk_failed_count w + 1\<rparr>
      | CANCELLED \<Rightarrow> w\<lparr>wk_cancelled_count := wk_cancelled_count w + 1\<rparr>
      | TIMEOUT \<Rightarrow> w\<lparr>wk_timed_out_count := wk_timed_out_count w + 1\<rparr>
      | _ \<Rightarrow> w)"

definition record_terminal :: "queue_entry \<Rightarrow> (unit, worker_state \<times> 's) prog" where
  "record_terminal e =
     set_worker (\<lambda>w.
       if qe_status e \<in> {SUCCEEDED, FAILED, CANCELLED, TIMEOUT} then
         (clear_active (count_terminal (qe_status e) w))\<lparr>wk_last_claim_conflict_at := dict_pop (qe_id e) (wk_last_claim_conflict_at w)\<rparr>
       else w)"

definition persistence_message :: string where
  "persistence_message = ''Unable to persist terminal queue outcome''"

text \<open>Without a claim: mark the entry, and when that fails record the failure itself.\<close>

definition record_persistence_failure ::
    "'s worker_queue \<Rightarrow> clock_time result \<Rightarrow> uuid \<Rightarrow> (queue_entry option, worker_state \<times> 's) prog" where
  "record_persistence_failure q now i =
     except_Exception
       (bindE (on_queue (async_afind (wq_ops q) i)) (\<lambda>current.
          if qe_status current \<noteq> RUNNING then ok (Some current)
          else bindE (on_queue (amark_failed (wq_ops q) now i ''QueuePersistenceError'' persistence_message)) (\<lambda>e. ok (Some e))))
       (\<lambda>_. ok None)"

definition publish_terminal ::
    "'s worker_queue \<Rightarrow> clock_time result \<Rightarrow> uuid \<Rightarrow> (queue_entry, 's) prog \<Rightarrow> (queue_entry, worker_state \<times> 's) prog" where
  "publish_terminal q fail_now i update =
     bindE
       (except_Exception (on_queue update)
         (\<lambda>_. bindE (record_persistence_failure q fail_now i) (\<lambda>r.
           case r of None \<Rightarrow> raise QueuePersistenceError | Some e \<Rightarrow> ok e)))
       (\<lambda>e. bindE (apublish e) (\<lambda>_. bindE (record_terminal e) (\<lambda>_. ok e)))"

text \<open>With a claim: settle it, once more as a failure when the first attempt broke.\<close>

definition terminal_fields :: "QueueEntryStatus \<Rightarrow> pyval \<Rightarrow> pyval \<Rightarrow> clock_time \<Rightarrow> entry_args \<Rightarrow> entry_args" where
  "terminal_fields status result error t =
     (a_result_update (\<lambda>_. result) \<circ> a_error_update (\<lambda>_. error) \<circ> a_finished_at_update (\<lambda>_. PClock t)) \<circ>
     a_status_update (\<lambda>_. PStatus status)"

definition record_claim_persistence_failure ::
    "'s worker_class \<Rightarrow> 's worker_queue \<Rightarrow> clock_time result \<Rightarrow> uuid \<Rightarrow> queue_entry \<Rightarrow> (queue_entry, worker_state \<times> 's) prog" where
  "record_claim_persistence_failure C q now worker_id e =
     bindE (except_Exception (on_queue (async_afind (wq_ops q) (qe_id e))) (\<lambda>_. raise QueuePersistenceError)) (\<lambda>current.
       if qe_status current \<noteq> RUNNING then ok current
       else
         bindE
           (except_Exception
             (bindE (lift_result now) (\<lambda>t.
              bindE (lift_result (replace current
                ((a_error_update (\<lambda>_. error_document ''QueuePersistenceError'' persistence_message) \<circ>
                  a_finished_at_update (\<lambda>_. PClock t)) \<circ> a_status_update (\<lambda>_. PStatus FAILED)))) (\<lambda>failure.
              bindE (on_queue (wc_settle C q worker_id failure)) (\<lambda>settled. ok (settled, failure)))))
             (\<lambda>_. raise QueuePersistenceError))
           (\<lambda>(settled, failure).
             if \<not> settled then raise QueuePersistenceError
             else bindE (apublish failure) (\<lambda>_. bindE (record_terminal failure) (\<lambda>_. ok failure))))"

definition settle_terminal ::
    "'s worker_class \<Rightarrow> 's worker_queue \<Rightarrow> clock_time result \<Rightarrow> clock_time result \<Rightarrow> queue_entry \<Rightarrow> uuid \<Rightarrow>
     QueueEntryStatus \<Rightarrow> pyval \<Rightarrow> pyval \<Rightarrow> (queue_entry, worker_state \<times> 's) prog" where
  "settle_terminal C q now fail_now e worker_id status result error =
     bindE
       (tryE
         (bindE (on_queue (async_afind (wq_ops q) (qe_id e))) (\<lambda>current.
          bindE (lift_result now) (\<lambda>t.
          bindE (lift_result (replace current (terminal_fields status result error t))) (\<lambda>terminal_entry.
          bindE (on_queue (wc_settle C q worker_id terminal_entry)) (\<lambda>settled. ok (Inr (settled, terminal_entry)))))))
         (\<lambda>err. case err of
            QueueEntryNotFoundError _ \<Rightarrow> bindE (on_queue (wc_discard_missing C q worker_id (qe_id e))) (\<lambda>_. ok (Inl e))
          | CancelledError \<Rightarrow> raise CancelledError
          | _ \<Rightarrow> bindE (record_claim_persistence_failure C q fail_now worker_id e) (\<lambda>r. ok (Inl r))))
       (\<lambda>attempt. case attempt of
          Inl returned \<Rightarrow> ok returned
        | Inr (settled, terminal_entry) \<Rightarrow>
            if \<not> settled then ok e
            else bindE (apublish terminal_entry) (\<lambda>_. bindE (record_terminal terminal_entry) (\<lambda>_. ok terminal_entry)))"

section \<open>One dispatch\<close>

text \<open>
  How a handler ended while its worker was being shut down: within the grace period, by ignoring
  the cancellation until the period was over, or by being cancelled itself.
\<close>

datatype grace_end =
    GraceReturned pyval
  | GraceRaised string string
  | GraceExpired
  | GraceCancelled

text \<open>
  How the wait of a dispatch ended: the handler returned or raised (class name and message, a
  timeout of its own included), the execution budget ran out, the claim was lost during renewal
  (only with a lease), the worker was cancelled, or the handler ended by a cancellation of its own.
\<close>

datatype handler_end =
    HandlerReturned pyval
  | HandlerRaised string string
  | BudgetExpired
  | ClaimLost
  | WorkerCancelled grace_end
  | HandlerCancelled

record dispatch_env =
  de_dispatched :: "clock_time result"
  de_finished :: "clock_time result"
  de_failed :: "clock_time result"
  de_handler :: handler_end

definition record_failure ::
    "'s worker_class \<Rightarrow> 's worker_queue \<Rightarrow> dispatch_env \<Rightarrow> queue_entry \<Rightarrow> string \<Rightarrow> string \<Rightarrow> uuid option \<Rightarrow>
     (queue_entry, worker_state \<times> 's) prog" where
  "record_failure C q env e type_name message claim_worker_id =
     (case claim_worker_id of
        Some worker_id \<Rightarrow>
          settle_terminal C q (de_finished env) (de_failed env) e worker_id FAILED PNone (error_document type_name message)
      | None \<Rightarrow>
          publish_terminal q (de_failed env) (qe_id e) (amark_failed (wq_ops q) (de_finished env) (qe_id e) type_name message))"

definition json_message :: string where
  "json_message = ''Queue entry values must be JSON-serialisable''"

definition record_result ::
    "'s worker_class \<Rightarrow> 's worker_queue \<Rightarrow> dispatch_env \<Rightarrow> queue_entry \<Rightarrow> pyval \<Rightarrow> uuid option \<Rightarrow>
     (queue_entry, worker_state \<times> 's) prog" where
  "record_result C q env e result claim_worker_id =
     (case validate_json_value result of
        Inl _ \<Rightarrow> record_failure C q env e ''TypeError'' json_message claim_worker_id
      | Inr _ \<Rightarrow>
          (case claim_worker_id of
             Some worker_id \<Rightarrow> settle_terminal C q (de_finished env) (de_failed env) e worker_id SUCCEEDED result PNone
           | None \<Rightarrow>
               publish_terminal q (de_failed env) (qe_id e) (amark_succeeded (wq_ops q) (de_finished env) (qe_id e) result)))"

definition abandon_unresponsive_handler ::
    "'s worker_class \<Rightarrow> 's worker_queue \<Rightarrow> dispatch_env \<Rightarrow> queue_entry \<Rightarrow> uuid option \<Rightarrow> (queue_entry, worker_state \<times> 's) prog" where
  "abandon_unresponsive_handler C q env e claim_worker_id =
     (case claim_worker_id of
        Some worker_id \<Rightarrow> settle_terminal C q (de_finished env) (de_failed env) e worker_id TIMEOUT PNone PNone
      | None \<Rightarrow> publish_terminal q (de_failed env) (qe_id e) (amark_timed_out (wq_ops q) (de_finished env) (qe_id e)))"

definition finish_cancellation ::
    "'s worker_class \<Rightarrow> 's worker_queue \<Rightarrow> dispatch_env \<Rightarrow> queue_entry \<Rightarrow> grace_end \<Rightarrow> uuid option \<Rightarrow>
     (queue_entry, worker_state \<times> 's) prog" where
  "finish_cancellation C q env e grace claim_worker_id =
     (case grace of
        GraceReturned result \<Rightarrow> record_result C q env e result claim_worker_id
      | GraceRaised type_name message \<Rightarrow> record_failure C q env e type_name message claim_worker_id
      | GraceExpired \<Rightarrow> abandon_unresponsive_handler C q env e claim_worker_id
      | GraceCancelled \<Rightarrow> raise CancelledError)"

definition handle_outcome ::
    "'s worker_class \<Rightarrow> 's worker_queue \<Rightarrow> dispatch_env \<Rightarrow> queue_entry \<Rightarrow> uuid option \<Rightarrow> (unit, worker_state \<times> 's) prog" where
  "handle_outcome C q env e claim_worker_id =
     (case de_handler env of
        HandlerReturned result \<Rightarrow> bindE (record_result C q env e result claim_worker_id) (\<lambda>_. ok ())
      | HandlerRaised type_name message \<Rightarrow> bindE (record_failure C q env e type_name message claim_worker_id) (\<lambda>_. ok ())
      | BudgetExpired \<Rightarrow> bindE (abandon_unresponsive_handler C q env e claim_worker_id) (\<lambda>_. ok ())
      | ClaimLost \<Rightarrow> ok ()
      | WorkerCancelled grace \<Rightarrow> bindE (finish_cancellation C q env e grace claim_worker_id) (\<lambda>_. raise CancelledError)
      | HandlerCancelled \<Rightarrow> bindE (finish_cancellation C q env e GraceCancelled claim_worker_id) (\<lambda>_. raise CancelledError))"

text \<open>\<^verbatim>\<open>try ... finally\<close>: the last step runs on both branches.\<close>

definition finallyE :: "('a, 's) prog \<Rightarrow> ('s \<Rightarrow> 's) \<Rightarrow> ('a, 's) prog" where
  "finallyE m f s = (case m s of (r, s') \<Rightarrow> (r, f s'))"

definition dispatch ::
    "'s worker_class \<Rightarrow> 's worker_queue \<Rightarrow> dispatch_env \<Rightarrow> queue_entry \<Rightarrow> pynum option \<Rightarrow> (unit, worker_state \<times> 's) prog" where
  "dispatch C q env e lease_seconds =
     with_worker (\<lambda>w. let worker_id = wk_worker_id w in
      bindE (if observed w q e then ok () else apublish e) (\<lambda>_.
      bindE
        (case lease_seconds of
           Some _ \<Rightarrow> on_queue (wc_mark_running C q (de_dispatched env) worker_id e)
         | None \<Rightarrow> bindE (on_queue (amark_running (wq_ops q) (de_dispatched env) (qe_id e))) (\<lambda>r. ok (Some r)))
        (\<lambda>running. case running of
           None \<Rightarrow> ok ()
         | Some r \<Rightarrow>
             bindE (apublish r) (\<lambda>_.
               finallyE (handle_outcome C q env r (map_option (\<lambda>_. worker_id) lease_seconds))
                 (\<lambda>(w, s). (clear_active w, s))))))"

section \<open>The loop\<close>

text \<open>
  One registered queue in one pass of \<^verbatim>\<open>run\<close>; the result tells whether an entry was dispatched.
  \<open>loop_times\<close> and \<open>now\<close> are the readings for the scan, the retention cleanup and a conflict.
\<close>

definition visit_queue ::
    "'s worker_class \<Rightarrow> rat \<Rightarrow> clock_time result \<Rightarrow> dispatch_env \<Rightarrow> string \<times> 's worker_queue \<Rightarrow> (bool, worker_state \<times> 's) prog" where
  "visit_queue C loop_time now env nq =
     (let name = fst nq; q = snd nq in
      bindE (publish_new q loop_time) (\<lambda>_.
      bindE (prune_expired q loop_time now) (\<lambda>_.
      bindE
        (tryE (wc_next C q) (\<lambda>err. with_worker (\<lambda>w.
           case err of
             QueueEmptyException \<Rightarrow> ok None
           | QueueClaimConflictError i \<Rightarrow> bindE (log_claim_conflict i loop_time) (\<lambda>_. ok None)
           | QueueEntryMissingError i \<Rightarrow> bindE (on_queue (wc_discard_missing C q (wk_worker_id w) i)) (\<lambda>_. ok None)
           | QueueEntryNotFoundError i \<Rightarrow> ok None
           | _ \<Rightarrow> raise err)))
        (\<lambda>next_entry. case next_entry of
           None \<Rightarrow> ok False
         | Some (e, lease_seconds) \<Rightarrow>
             bindE (set_worker (\<lambda>w. w\<lparr>wk_active_entry_id := Some (qe_id e), wk_active_queue_name := Some name,
                                      wk_dispatch_count := wk_dispatch_count w + 1\<rparr>)) (\<lambda>_.
             bindE
               (tryE (dispatch C q env e lease_seconds) (\<lambda>err. with_worker (\<lambda>w.
                  case err of
                    QueueEntryNotFoundError i \<Rightarrow>
                      if lease_seconds = None then ok ()
                      else on_queue (wc_discard_missing C q (wk_worker_id w) i)
                  | _ \<Rightarrow> raise err)))
               (\<lambda>_. ok True))))))"

text \<open>A pass over the registered queues; after a pass without a dispatch the worker sleeps.\<close>

fun visit_all ::
    "'s worker_class \<Rightarrow> (rat \<times> clock_time result \<times> dispatch_env) list \<Rightarrow> (string \<times> 's worker_queue) list \<Rightarrow> bool \<Rightarrow>
     (bool, worker_state \<times> 's) prog" where
  "visit_all C ((loop_time, now, env) # readings) (nq # queues) dispatched =
     bindE (visit_queue C loop_time now env nq) (\<lambda>d. visit_all C readings queues (dispatched \<or> d))"
| "visit_all C readings queues dispatched = ok dispatched"

text \<open>
  Entering and leaving the loop. The clock is read after the running flag is set, and again after
  it is cleared; a reading that fails leaves the rest undone.
\<close>

definition worker_start :: "clock_time result \<Rightarrow> (unit, worker_state) prog" where
  "worker_start now w =
     (case now of
        Inl err \<Rightarrow> (Inl err, w\<lparr>wk_running := True\<rparr>)
      | Inr t \<Rightarrow> (Inr (), w\<lparr>wk_running := True, wk_started_at := Some t, wk_stopped_at := None\<rparr>))"

definition worker_stop :: "clock_time result \<Rightarrow> (unit, worker_state) prog" where
  "worker_stop now w =
     (case now of
        Inl err \<Rightarrow> (Inl err, w\<lparr>wk_running := False\<rparr>)
      | Inr t \<Rightarrow> (Inr (), clear_active (w\<lparr>wk_running := False, wk_stopped_at := Some t\<rparr>)))"

text \<open>
  The loop itself, one list of readings per pass. It ends when a pass raises or when the worker's
  task is cancelled, which is how a run ends after its last pass here; either way the worker is
  stopped, and an error of the stopping clock replaces the one that ended the loop.
\<close>

fun run_passes ::
    "'s worker_class \<Rightarrow> (rat \<times> clock_time result \<times> dispatch_env) list list \<Rightarrow> (string \<times> 's worker_queue) list \<Rightarrow>
     (unit, worker_state \<times> 's) prog" where
  "run_passes C [] queues = raise CancelledError"
| "run_passes C (readings # passes) queues =
     bindE (visit_all C readings queues False) (\<lambda>_. run_passes C passes queues)"

definition worker_run ::
    "'s worker_class \<Rightarrow> clock_time result \<Rightarrow> clock_time result \<Rightarrow> (rat \<times> clock_time result \<times> dispatch_env) list list \<Rightarrow>
     (string \<times> 's worker_queue) list \<Rightarrow> (unit, worker_state \<times> 's) prog" where
  "worker_run C started stopped passes queues c =
     (case worker_start started (fst c) of
        (Inl err, w) \<Rightarrow> (Inl err, (w, snd c))
      | (Inr _, w) \<Rightarrow>
          (case run_passes C passes queues (w, snd c) of
             (r, (w', s')) \<Rightarrow>
               (case worker_stop stopped w' of
                  (Inl err, w'') \<Rightarrow> (Inl err, (w'', s'))
                | (Inr _, w'') \<Rightarrow> (r, (w'', s')))))"

section \<open>What a dispatch leaves behind\<close>

text \<open>The status an ended handler is recorded with; nothing is recorded for a lost claim or a cancelled handler.\<close>

fun grace_status :: "grace_end \<Rightarrow> QueueEntryStatus option" where
  "grace_status (GraceReturned v) = Some (if json_ok v then SUCCEEDED else FAILED)"
| "grace_status (GraceRaised _ _) = Some FAILED"
| "grace_status GraceExpired = Some TIMEOUT"
| "grace_status GraceCancelled = None"

fun settled_status :: "handler_end \<Rightarrow> QueueEntryStatus option" where
  "settled_status (HandlerReturned v) = Some (if json_ok v then SUCCEEDED else FAILED)"
| "settled_status (HandlerRaised _ _) = Some FAILED"
| "settled_status BudgetExpired = Some TIMEOUT"
| "settled_status ClaimLost = None"
| "settled_status (WorkerCancelled g) = grace_status g"
| "settled_status HandlerCancelled = None"

definition dispatch_reply :: "handler_end \<Rightarrow> unit result" where
  "dispatch_reply h = (case h of WorkerCancelled _ \<Rightarrow> Inl CancelledError | HandlerCancelled \<Rightarrow> Inl CancelledError | _ \<Rightarrow> Inr ())"

definition terminal_count :: "worker_state \<Rightarrow> nat" where
  "terminal_count w = wk_succeeded_count w + wk_failed_count w + wk_cancelled_count w + wk_timed_out_count w"

text \<open>The worker after a recorded outcome.\<close>

definition after_record :: "queue_entry \<Rightarrow> worker_state \<Rightarrow> worker_state" where
  "after_record e w = fst (snd (record_terminal e (w\<lparr>wk_published := wk_published w @ [e]\<rparr>, ())))"

lemma record_terminal_apply [simp]:
  "record_terminal e (w\<lparr>wk_published := wk_published w @ [e]\<rparr>, s) = (Inr (), (after_record e w, s))"
  by (simp add: after_record_def record_terminal_def)

lemma publish_terminal_ok:
  "update s = (Inr e, s') \<Longrightarrow> publish_terminal q t i update (w, s) = (Inr e, (after_record e w, s'))"
  by (simp add: publish_terminal_def)

lemma json_ok_error [simp]: "json_ok (error_document ty m)"
  by (simp add: error_document_def)

text \<open>A registered queue whose provider keeps the contract of an asynchronous queue.\<close>

locale served_queue = async_provider P inv entry queued
    for P :: "'s async_ops" and inv and entry and queued +
  fixes q :: "'s worker_queue"
  assumes queue_ops: "wq_ops q = P"
begin

text \<open>The provider answered \<open>e'\<close>, which is now the record of \<open>i\<close>, and kept everything else.\<close>

definition records :: "'s \<Rightarrow> uuid \<Rightarrow> queue_entry \<Rightarrow> queue_entry result \<times> 's \<Rightarrow> bool" where
  "records s i e' out \<longleftrightarrow>
     fst out = Inr e' \<and> inv (snd out) \<and> entry (snd out) = (entry s)(i \<mapsto> e') \<and> queued (snd out) = queued s"

lemma areplace_ok:
  assumes "inv s" "entry s i = Some e" "st \<in> next_state (qe_status e)" "st \<noteq> TERMINATED" "qe_status e \<noteq> QUEUED \<or> st \<noteq> FAILED"
    "field_changes chg" "replace e (chg \<circ> a_status_update (\<lambda>_. PStatus st)) = Inr e'"
  shows "records s i e' (areplace_entry P i st chg s)"
proof -
  have e': "qe_id e' = i" "entry_valid e'"
    using replace_fields[OF assms(6,7)] entry_key[OF assms(1,2)] by auto
  then obtain s' where "op_astore P e' s = (Inr (), s')" "inv s'" "entry s' = (entry s)(i \<mapsto> e')" "queued s' = queued s"
    using store[OF assms(1), of e'] by auto
  moreover have "op_afind P i s = (Inr e, s)" using find[OF assms(1), of i] assms(2) by simp
  ultimately show ?thesis using assms(3-5,7) by (auto simp: records_def areplace_entry_def bindE_lift)
qed

lemma marks_ok:
  assumes "inv s" "entry s i = Some e"
  shows "qe_status e = QUEUED \<Longrightarrow>
      records s i (e\<lparr>qe_status := RUNNING, qe_dispatched_at := Some t\<rparr>) (amark_running P (Inr t) i s)"
    and "qe_status e = RUNNING \<Longrightarrow> json_ok v \<Longrightarrow>
      records s i (e\<lparr>qe_status := SUCCEEDED, qe_result := v, qe_error := PNone, qe_finished_at := Some t\<rparr>) (amark_succeeded P (Inr t) i v s)"
    and "qe_status e = RUNNING \<Longrightarrow>
      records s i (e\<lparr>qe_status := FAILED, qe_error := error_document ty m, qe_finished_at := Some t\<rparr>) (amark_failed P (Inr t) i ty m s)"
    and "qe_status e = RUNNING \<Longrightarrow>
      records s i (e\<lparr>qe_status := TIMEOUT, qe_finished_at := Some t\<rparr>) (amark_timed_out P (Inr t) i s)"
proof -
  have valid: "entry_valid e" using entry_key[OF assms] by simp
  note r = replace_ok[OF valid] and run = areplace_ok[OF assms]
  show "qe_status e = QUEUED \<Longrightarrow>
      records s i (e\<lparr>qe_status := RUNNING, qe_dispatched_at := Some t\<rparr>) (amark_running P (Inr t) i s)"
    using run[OF _ _ _ _ r(1)[of PNone PNone]] by (simp add: amark_running_def bindE_lift)
  show "qe_status e = RUNNING \<Longrightarrow> json_ok v \<Longrightarrow>
      records s i (e\<lparr>qe_status := SUCCEEDED, qe_result := v, qe_error := PNone, qe_finished_at := Some t\<rparr>) (amark_succeeded P (Inr t) i v s)"
    using run[OF _ _ _ _ r(4)[of v PNone]] by (simp add: amark_succeeded_def bindE_lift validate_json_value_def)
  show "qe_status e = RUNNING \<Longrightarrow>
      records s i (e\<lparr>qe_status := FAILED, qe_error := error_document ty m, qe_finished_at := Some t\<rparr>) (amark_failed P (Inr t) i ty m s)"
    using run[OF _ _ _ _ r(3)[of PNone "error_document ty m"]] by (simp add: amark_failed_def bindE_lift)
  show "qe_status e = RUNNING \<Longrightarrow>
      records s i (e\<lparr>qe_status := TIMEOUT, qe_finished_at := Some t\<rparr>) (amark_timed_out P (Inr t) i s)"
    using run[OF _ _ _ _ r(2)[of PNone PNone]] by (simp add: amark_timed_out_def bindE_lift)
qed

lemma publish_terminal_records:
  assumes "records s i e' (update s)"
  shows "publish_terminal q t j update (w, s) = (Inr e', (after_record e' w, snd (update s)))"
  by (rule publish_terminal_ok) (use assms in \<open>simp add: records_def prod_eq_iff\<close>)

text \<open>An ended handler is recorded once, with the status that fits its end, at the time it ended.\<close>

definition settled_as :: "handler_end \<Rightarrow> 's \<Rightarrow> queue_entry \<Rightarrow> clock_time \<Rightarrow> queue_entry \<Rightarrow> 's \<Rightarrow> bool" where
  "settled_as h s e t e' s' \<longleftrightarrow>
     settled_status h = Some (qe_status e') \<and> qe_id e' = qe_id e \<and> qe_dispatched_at e' = qe_dispatched_at e \<and>
     qe_finished_at e' = Some t \<and> qe_payload e' = qe_payload e \<and>
     inv s' \<and> entry s' = (entry s)(qe_id e \<mapsto> e') \<and> queued s' = queued s"

lemma record_outcomes:
  assumes "inv s" "entry s (qe_id e) = Some e" "qe_status e = RUNNING" "de_finished env = Inr t"
  shows "\<exists>e' s'. record_result C q env e v None (w, s) = (Inr e', (after_record e' w, s')) \<and> settled_as (HandlerReturned v) s e t e' s'"
    and "\<exists>e' s'. record_failure C q env e ty m None (w, s) = (Inr e', (after_record e' w, s')) \<and> settled_as (HandlerRaised ty m) s e t e' s'"
    and "\<exists>e' s'. abandon_unresponsive_handler C q env e None (w, s) = (Inr e', (after_record e' w, s')) \<and> settled_as BudgetExpired s e t e' s'"
proof -
  note marks = marks_ok[OF assms(1,2), where t = t]
  show fail: "\<exists>e' s'. record_failure C q env e ty m None (w, s) = (Inr e', (after_record e' w, s')) \<and> settled_as (HandlerRaised ty m) s e t e' s'"
    for ty m
    using marks(3)[OF assms(3), of ty m] publish_terminal_records[of _ _ _ "amark_failed P (Inr t) (qe_id e) ty m", OF marks(3)[OF assms(3), of ty m]] assms(4) queue_ops
    by (auto simp: record_failure_def settled_as_def records_def)
  show "\<exists>e' s'. abandon_unresponsive_handler C q env e None (w, s) = (Inr e', (after_record e' w, s')) \<and> settled_as BudgetExpired s e t e' s'"
    using marks(4)[OF assms(3)] publish_terminal_records[of _ _ _ "amark_timed_out P (Inr t) (qe_id e)", OF marks(4)[OF assms(3)]] assms(4) queue_ops
    by (auto simp: abandon_unresponsive_handler_def settled_as_def records_def)
  show "\<exists>e' s'. record_result C q env e v None (w, s) = (Inr e', (after_record e' w, s')) \<and> settled_as (HandlerReturned v) s e t e' s'"
  proof (cases "json_ok v")
    case True
    then show ?thesis using marks(2)[OF assms(3) True] publish_terminal_records[of _ _ _ "amark_succeeded P (Inr t) (qe_id e) v", OF marks(2)[OF assms(3) True]] assms(4) queue_ops
      by (auto simp: record_result_def validate_json_value_def settled_as_def records_def)
  next
    case False
    then show ?thesis using fail[of "''TypeError''" json_message]
      by (auto simp: record_result_def validate_json_value_def settled_as_def)
  qed
qed

lemma handle_outcome_settles:
  assumes "inv s" "entry s (qe_id e) = Some e" "qe_status e = RUNNING" "de_finished env = Inr t"
    "settled_status (de_handler env) \<noteq> None"
  shows "\<exists>e' s'. handle_outcome C q env e None (w, s) = (dispatch_reply (de_handler env), (after_record e' w, s')) \<and>
    settled_as (de_handler env) s e t e' s'"
proof -
  note rec = record_outcomes[OF assms(1-4)]
  show ?thesis
  proof (cases "de_handler env")
    case (HandlerReturned v)
    then show ?thesis using rec(1)[of C v w] by (auto simp: handle_outcome_def dispatch_reply_def)
  next
    case (HandlerRaised ty m)
    then show ?thesis using rec(2)[of C ty m w] by (auto simp: handle_outcome_def dispatch_reply_def)
  next
    case BudgetExpired
    then show ?thesis using rec(3)[of C w] by (auto simp: handle_outcome_def dispatch_reply_def)
  next
    case (WorkerCancelled g)
    note run = handle_outcome_def dispatch_reply_def finish_cancellation_def settled_as_def
    show ?thesis
    proof (cases g)
      case (GraceReturned v)
      then show ?thesis using WorkerCancelled rec(1)[of C v w] by (auto simp: run)
    next
      case (GraceRaised ty m)
      then show ?thesis using WorkerCancelled rec(2)[of C ty m w] by (auto simp: run)
    next
      case GraceExpired
      then show ?thesis using WorkerCancelled rec(3)[of C w] by (auto simp: run)
    qed (use WorkerCancelled assms(5) in simp)
  qed (use assms(5) in simp_all)
qed

lemma dispatch_settles:
  assumes "inv s" "entry s (qe_id e) = Some e" "qe_status e = QUEUED"
    "de_dispatched env = Inr t1" "de_finished env = Inr t2" "settled_status (de_handler env) \<noteq> None"
  shows "\<exists>e' s'. let r = e\<lparr>qe_status := RUNNING, qe_dispatched_at := Some t1\<rparr> in
    dispatch C q env e None (w, s) =
      (dispatch_reply (de_handler env),
       (clear_active (after_record e' (w\<lparr>wk_published := wk_published w @ (if observed w q e then [r] else [e, r])\<rparr>)), s')) \<and>
    settled_as (de_handler env) s r t2 e' s'"
proof -
  let ?r = "e\<lparr>qe_status := RUNNING, qe_dispatched_at := Some t1\<rparr>"
  let ?w = "w\<lparr>wk_published := wk_published w @ (if observed w q e then [?r] else [e, ?r])\<rparr>"
  obtain s1 where run: "amark_running P (Inr t1) (qe_id e) s = (Inr ?r, s1)"
    and s1: "inv s1" "entry s1 = (entry s)(qe_id e \<mapsto> ?r)" "queued s1 = queued s"
    using marks_ok(1)[OF assms(1,2,3), of t1] by (auto simp: records_def prod_eq_iff)
  obtain e' s' where out: "handle_outcome C q env ?r None (?w, s1) = (dispatch_reply (de_handler env), (after_record e' ?w, s'))"
    "settled_as (de_handler env) s1 ?r t2 e' s'"
    using handle_outcome_settles[of s1 ?r env t2 C ?w] s1 assms(4-6) by auto
  have "dispatch C q env e None (w, s) = (dispatch_reply (de_handler env), (clear_active (after_record e' ?w), s'))"
    using run out(1) assms(4) queue_ops by (cases "observed w q e") (simp_all add: dispatch_def Let_def finallyE_def)
  moreover have "settled_as (de_handler env) s ?r t2 e' s'" using out(2) s1 by (simp add: settled_as_def)
  ultimately show ?thesis by (auto simp: Let_def)
qed

end

section \<open>Counters\<close>

text \<open>
  \<open>counted n p\<close>: the program \<open>p\<close> records at most \<open>n\<close> terminal outcomes, dispatches nothing and
  keeps the worker's identity, on every branch.
\<close>

definition counted :: "nat \<Rightarrow> ('a, worker_state \<times> 's) prog \<Rightarrow> bool" where
  "counted n p \<longleftrightarrow> (\<forall>w s. let w' = fst (snd (p (w, s))) in
     terminal_count w' \<le> terminal_count w + n \<and> wk_dispatch_count w' = wk_dispatch_count w \<and> wk_worker_id w' = wk_worker_id w)"

lemma countedD: "counted n p \<Longrightarrow> p (w, s) = (r, (w', s')) \<Longrightarrow>
    terminal_count w' \<le> terminal_count w + n \<and> wk_dispatch_count w' = wk_dispatch_count w \<and> wk_worker_id w' = wk_worker_id w"
  by (metis (mono_tags, lifting) counted_def fst_conv snd_conv)

lemma countedI: "(\<And>w s r w' s'. p (w, s) = (r, (w', s')) \<Longrightarrow>
    terminal_count w' \<le> terminal_count w + n \<and> wk_dispatch_count w' = wk_dispatch_count w \<and> wk_worker_id w' = wk_worker_id w) \<Longrightarrow> counted n p"
  unfolding counted_def Let_def by (metis prod.collapse)

lemma counted_bind:
  assumes "counted m p" "\<And>x. counted n (f x)"
  shows "counted (m + n) (bindE p f)"
proof (rule countedI)
  fix w s r w' s' assume "bindE p f (w, s) = (r, (w', s'))"
  then obtain x w1 s1 where "p (w, s) = (x, (w1, s1))" "case x of Inl e \<Rightarrow> (r, w', s') = (Inl e, w1, s1) | Inr y \<Rightarrow> f y (w1, s1) = (r, (w', s'))"
    by (auto simp: bindE_def split: prod.splits sum.splits)
  then show "terminal_count w' \<le> terminal_count w + (m + n) \<and> wk_dispatch_count w' = wk_dispatch_count w \<and> wk_worker_id w' = wk_worker_id w"
    using countedD[OF assms(1)] countedD[OF assms(2)] by (cases x) fastforce+
qed

lemma counted_try:
  assumes "counted m p" "\<And>e. counted n (h e)"
  shows "counted (m + n) (tryE p h)"
proof (rule countedI)
  fix w s r w' s' assume "tryE p h (w, s) = (r, (w', s'))"
  then obtain x w1 s1 where "p (w, s) = (x, (w1, s1))" "case x of Inl e \<Rightarrow> h e (w1, s1) = (r, (w', s')) | Inr y \<Rightarrow> (r, w', s') = (Inr y, w1, s1)"
    by (auto simp: tryE_def split: prod.splits sum.splits)
  then show "terminal_count w' \<le> terminal_count w + (m + n) \<and> wk_dispatch_count w' = wk_dispatch_count w \<and> wk_worker_id w' = wk_worker_id w"
    using countedD[OF assms(1)] countedD[OF assms(2)] by (cases x) fastforce+
qed

lemma counted_weaken: "counted m p \<Longrightarrow> m \<le> n \<Longrightarrow> counted n p"
  unfolding counted_def Let_def by (meson add_left_mono le_trans)

lemma counted_except: "counted m p \<Longrightarrow> (\<And>e. counted n (h e)) \<Longrightarrow> counted (m + n) (except_Exception p h)"
  unfolding except_Exception_def by (rule counted_try) (auto simp: counted_def)

lemma counted_with: "(\<And>w. counted n (f w)) \<Longrightarrow> counted n (with_worker f)"
  by (simp add: counted_def)

lemma counted_basic [simp, intro]:
  "counted n (ok x)" "counted n (raise err)" "counted n (lift_result r)" "counted n (on_queue q)" "counted n (apublish e)"
  by (simp_all add: counted_def on_queue_cases terminal_count_def)

lemma counted_record [simp, intro]: "counted (Suc n) (record_terminal e)"
  by (cases "qe_status e") (simp_all add: counted_def record_terminal_def clear_active_def count_terminal_def terminal_count_def)

lemmas counted_bind0 = counted_bind[of 0, simplified] and counted_bind1 = counted_bind[of _ _ 0, simplified]
  and counted_except0 = counted_except[of 0, simplified] and counted_try0 = counted_try[of 0, simplified]
  and counted_except1 = counted_except[of _ _ 0, simplified]

lemma counted_publish_record: "counted (Suc 0) (bindE (apublish e) (\<lambda>_. bindE (record_terminal e) (\<lambda>_. ok r)))"
  by (intro counted_bind0 counted_bind1 counted_basic) (simp add: counted_record)

lemma counted_record_persistence_failure: "counted 0 (record_persistence_failure q t i)"
  unfolding record_persistence_failure_def
  by (intro counted_except0 counted_bind0 counted_basic) (auto intro: counted_bind0)

lemma counted_publish_terminal: "counted (Suc 0) (publish_terminal q t i u)"
  unfolding publish_terminal_def
  by (intro counted_bind0[OF _ counted_publish_record] counted_except0 counted_basic counted_bind0 counted_record_persistence_failure)
    (auto split: option.splits)

lemma counted_claim_persistence_failure: "counted (Suc 0) (record_claim_persistence_failure C q t i e)"
  unfolding record_claim_persistence_failure_def
  by (rule counted_bind0, rule counted_except0, simp_all, intro impI, rule counted_bind0, rule counted_except0)
    (auto split: prod.splits intro!: counted_bind0[of "on_queue _"] counted_bind0[of "lift_result _"] counted_publish_record)

text \<open>Either the body went through and the rest counts, or its handler did and nothing follows.\<close>

lemma counted_try_bind:
  assumes "counted 0 p" "\<And>e. counted n (h e)"
    "\<And>c x c'. p c = (Inr x, c') \<Longrightarrow> \<not> isl x" "\<And>e c x c'. h e c = (Inr x, c') \<Longrightarrow> isl x"
    "\<And>y. counted n (k (Inr y))" "\<And>y. k (Inl y) = ok y"
  shows "counted n (bindE (tryE p h) k)"
proof (rule countedI)
  fix w s r w' s' assume run: "bindE (tryE p h) k (w, s) = (r, (w', s'))"
  obtain x w1 s1 where p: "p (w, s) = (x, (w1, s1))" by (metis prod.collapse)
  note c = countedD[OF assms(1) p]
  show "terminal_count w' \<le> terminal_count w + n \<and> wk_dispatch_count w' = wk_dispatch_count w \<and> wk_worker_id w' = wk_worker_id w"
  proof (cases x)
    case (Inr y)
    then obtain z where "y = Inr z" using assms(3)[of "(w, s)" y] p by (cases y) auto
    with run p Inr have "k (Inr z) (w1, s1) = (r, (w', s'))" by simp
    from countedD[OF assms(5) this] c show ?thesis by simp
  next
    case (Inl e)
    obtain z w2 s2 where h: "h e (w1, s1) = (z, (w2, s2))" by (metis prod.collapse)
    have "w2 = w'"
    proof (cases z)
      case (Inr v)
      then obtain u where "v = Inl u" using assms(4)[of e "(w1, s1)" v] h by (cases v) auto
      then show ?thesis using run p Inl h Inr assms(6) by simp
    qed (use run p \<open>x = Inl e\<close> h in simp)
    with countedD[OF assms(2) h] c show ?thesis by simp
  qed
qed

lemma counted_settle_terminal: "counted (Suc 0) (settle_terminal C q t ft e i st v err)"
  unfolding settle_terminal_def
proof (rule counted_try_bind, goal_cases)
  case 1
  show ?case by (intro counted_bind0 counted_basic)
next
  case (2 err')
  have "counted (Suc 0) (bindE (record_claim_persistence_failure C q ft i e) (\<lambda>r. ok (Inl r)))"
    by (rule counted_bind1[OF counted_claim_persistence_failure]) simp
  then show ?case by (auto split: pyerror.splits intro: counted_bind0)
next
  case (5 y)
  then show ?case using counted_publish_record by (auto split: prod.splits)
next
  case (4 err' c x c')
  then show ?case by (auto split: pyerror.splits simp: bindE_Inr_iff)
qed (auto intro: counted_bind0 simp: bindE_Inr_iff)

lemma counted_outcomes:
  "counted (Suc 0) (record_failure C q env e ty m cw)" "counted (Suc 0) (record_result C q env e v cw)"
  "counted (Suc 0) (abandon_unresponsive_handler C q env e cw)" "counted (Suc 0) (finish_cancellation C q env e g cw)"
  by (auto simp: record_failure_def record_result_def abandon_unresponsive_handler_def finish_cancellation_def
      intro!: counted_settle_terminal counted_publish_terminal split: option.splits sum.splits grace_end.splits)

lemma counted_handle_outcome: "counted (Suc 0) (handle_outcome C q env e cw)"
  by (auto simp: handle_outcome_def intro!: counted_bind1[OF counted_outcomes(1)] counted_bind1[OF counted_outcomes(2)]
      counted_bind1[OF counted_outcomes(3)] counted_bind1[OF counted_outcomes(4)] split: handler_end.splits)

lemma counted_finally:
  assumes "counted n p"
  shows "counted n (finallyE p (\<lambda>(w, s). (clear_active w, s)))"
proof (rule countedI)
  fix w s r w' s' assume "finallyE p (\<lambda>(w, s). (clear_active w, s)) (w, s) = (r, (w', s'))"
  then obtain w1 s1 where "p (w, s) = (r, (w1, s1))" "w' = clear_active w1" by (auto simp: finallyE_def split: prod.splits)
  with countedD[OF assms this(1)]
  show "terminal_count w' \<le> terminal_count w + n \<and> wk_dispatch_count w' = wk_dispatch_count w \<and> wk_worker_id w' = wk_worker_id w"
    by (simp add: clear_active_def terminal_count_def)
qed

lemma counted_dispatch: "counted (Suc 0) (dispatch C q env e lease)"
  unfolding dispatch_def Let_def
  by (rule counted_with, rule counted_bind0, simp, rule counted_bind0)
    (auto split: option.splits intro!: counted_bind0 counted_finally counted_handle_outcome)

text \<open>\<open>balanced p\<close>: \<open>p\<close> records no more outcomes than it dispatches entries.\<close>

definition balanced :: "('a, worker_state \<times> 's) prog \<Rightarrow> bool" where
  "balanced p \<longleftrightarrow> (\<forall>w s r w' s'. p (w, s) = (r, (w', s')) \<longrightarrow>
     terminal_count w' + wk_dispatch_count w \<le> terminal_count w + wk_dispatch_count w')"

lemma balanced_counted: "counted 0 p \<Longrightarrow> balanced p"
  unfolding balanced_def using countedD by fastforce

lemma balanced_bind:
  assumes "balanced p" "\<And>x. balanced (f x)"
  shows "balanced (bindE p f)"
  unfolding balanced_def
proof (intro allI impI)
  fix w s r w' s' assume "bindE p f (w, s) = (r, (w', s'))"
  then obtain x w1 s1 where "p (w, s) = (x, (w1, s1))" "case x of Inl e \<Rightarrow> w' = w1 | Inr y \<Rightarrow> f y (w1, s1) = (r, (w', s'))"
    by (auto simp: bindE_def split: prod.splits sum.splits)
  then show "terminal_count w' + wk_dispatch_count w \<le> terminal_count w + wk_dispatch_count w'"
    using assms unfolding balanced_def by (cases x) (fastforce dest: spec)+
qed

lemma balanced_dispatch:
  assumes "counted (Suc 0) p" "\<And>w. terminal_count (f w) = terminal_count w \<and> wk_dispatch_count (f w) = Suc (wk_dispatch_count w)"
  shows "balanced (bindE (set_worker f) (\<lambda>_. p))"
  unfolding balanced_def
proof (intro allI impI)
  fix w s r w' s' assume "bindE (set_worker f) (\<lambda>_. p) (w, s) = (r, (w', s'))"
  then have "p (f w, s) = (r, (w', s'))" by simp
  from countedD[OF assms(1) this] assms(2)[of w]
  show "terminal_count w' + wk_dispatch_count w \<le> terminal_count w + wk_dispatch_count w'" by simp
qed

section \<open>What every worker class keeps\<close>

text \<open>The contract of a worker class: fetching an entry records no outcome and dispatches nothing.\<close>

locale queue_worker =
  fixes C :: "'s worker_class"
  assumes next_counts: "counted 0 (wc_next C q)"
begin

lemma scan_counts:
  "counted 0 (publish_new q lt)" "counted 0 (prune_expired q lt now)" "counted 0 (log_claim_conflict i lt)"
proof -
  have pub: "counted 0 (foreach apublish es)" for es
  proof (induction es)
    case (Cons e es)
    have "foreach apublish (e # es) = bindE (apublish e) (\<lambda>_. foreach apublish es)" by (rule ext) simp
    then show ?case using Cons by (auto intro: counted_bind0)
  qed (simp add: counted_def)
  have set: "counted 0 (set_worker f)" if "\<And>w. terminal_count (f w) = terminal_count w \<and>
      wk_dispatch_count (f w) = wk_dispatch_count w \<and> wk_worker_id (f w) = wk_worker_id w" for f
    using that by (simp add: counted_def)
  show "counted 0 (publish_new q lt)"
    unfolding publish_new_def Let_def
    by (rule counted_with) (auto simp: terminal_count_def split: option.splits intro!: counted_bind0 set pub)
  show "counted 0 (prune_expired q lt now)"
    unfolding prune_expired_def Let_def by (rule counted_with) (auto simp: terminal_count_def intro!: counted_bind0 set)
  show "counted 0 (log_claim_conflict i lt)"
    unfolding log_claim_conflict_def Let_def by (rule counted_with) (auto simp: terminal_count_def intro!: counted_bind0 set)
qed

lemma visit_balanced: "balanced (visit_queue C lt now env nq)"
proof -
  let ?q = "snd nq"
  have caught: "counted 0 (with_worker (\<lambda>w. case err of
      QueueEmptyException \<Rightarrow> ok None
    | QueueClaimConflictError i \<Rightarrow> bindE (log_claim_conflict i lt) (\<lambda>_. ok None)
    | QueueEntryMissingError i \<Rightarrow> bindE (on_queue (wc_discard_missing C ?q (wk_worker_id w) i)) (\<lambda>_. ok None)
    | QueueEntryNotFoundError i \<Rightarrow> ok None
    | _ \<Rightarrow> raise err))" for err
    by (rule counted_with) (auto split: pyerror.splits intro!: counted_bind0 scan_counts)
  have gone: "counted 0 (with_worker (\<lambda>w. case err of
      QueueEntryNotFoundError i \<Rightarrow> if lease = None then ok () else on_queue (wc_discard_missing C ?q (wk_worker_id w) i)
    | _ \<Rightarrow> raise err))" for err and lease :: "pynum option"
    by (rule counted_with) (auto split: pyerror.splits)
  note run = counted_bind1[OF counted_try[OF counted_dispatch gone], of "\<lambda>_. ok True", simplified]
  show ?thesis
    unfolding visit_queue_def Let_def
    by (rule balanced_bind[OF balanced_counted[OF scan_counts(1)]], rule balanced_bind[OF balanced_counted[OF scan_counts(2)]],
        rule balanced_bind[OF balanced_counted[OF counted_try0[OF next_counts caught]]])
      (auto split: option.splits intro: balanced_dispatch[OF run] balanced_counted[OF counted_basic(1)] simp: terminal_count_def)
qed

lemma visit_all_balanced: "balanced (visit_all C readings queues d)"
proof (induction readings arbitrary: queues d)
  case Nil
  show ?case unfolding visit_all.simps by (rule balanced_counted) (rule counted_basic)
next
  case (Cons x readings)
  obtain lt now env where x: "x = (lt, now, env)" by (cases x) auto
  show ?case
  proof (cases queues)
    case (Cons nq qs)
    then show ?thesis unfolding x by (simp add: balanced_bind[OF visit_balanced Cons.IH])
  next
    case Nil
    show ?thesis unfolding Nil visit_all.simps by (rule balanced_counted) (rule counted_basic)
  qed
qed

lemma run_passes_balanced: "balanced (run_passes C passes queues)"
proof (induction passes)
  case Nil
  show ?case unfolding run_passes.simps by (rule balanced_counted) (rule counted_basic)
next
  case (Cons readings passes)
  then show ?case unfolding run_passes.simps by (rule balanced_bind[OF visit_all_balanced])
qed

lemma run_passes_error: "\<exists>err. fst (run_passes C passes queues c) = Inl err"
proof (induction passes arbitrary: c)
  case (Cons readings passes)
  then show ?case by (cases "visit_all C readings queues False c") (auto simp: bindE_def split: sum.splits)
qed simp

text \<open>A run records at most one outcome per dispatch, always ends with an error and leaves the worker stopped.\<close>

lemma run_books:
  assumes "worker_run C started stopped passes queues (w, s) = (r, (w', s'))"
  shows "terminal_count w' + wk_dispatch_count w \<le> terminal_count w + wk_dispatch_count w'" "\<exists>err. r = Inl err"
    and "started = Inr t0 \<Longrightarrow> stopped = Inr t1 \<Longrightarrow>
      \<not> wk_running w' \<and> wk_stopped_at w' = Some t1 \<and> wk_active_entry_id w' = None"
proof -
  note run = worker_run_def worker_start_def worker_stop_def clear_active_def
  show "terminal_count w' + wk_dispatch_count w \<le> terminal_count w + wk_dispatch_count w'"
  proof (cases started)
    case (Inr t)
    define w0 where "w0 = w\<lparr>wk_running := True, wk_started_at := Some t, wk_stopped_at := None\<rparr>"
    have w0: "terminal_count w0 = terminal_count w" "wk_dispatch_count w0 = wk_dispatch_count w"
      by (simp_all add: w0_def terminal_count_def)
    obtain r1 w1 s1 where p: "run_passes C passes queues (w0, s) = (r1, (w1, s1))" by (metis prod.collapse)
    with assms Inr have "terminal_count w' = terminal_count w1" "wk_dispatch_count w' = wk_dispatch_count w1"
      by (auto simp: run terminal_count_def w0_def[symmetric] split: sum.splits)
    with run_passes_balanced[of passes queues, unfolded balanced_def, rule_format, OF p] w0 show ?thesis by simp
  qed (use assms in \<open>auto simp: run terminal_count_def\<close>)
  show "\<exists>err. r = Inl err"
  proof (cases "worker_start started w")
    case (Pair r0 w0)
    obtain err r1 w1 s1 where "run_passes C passes queues (w0, s) = (r1, (w1, s1))" "r1 = Inl err"
      using run_passes_error[of passes queues "(w0, s)"] by (metis prod.collapse)
    then show ?thesis using assms Pair
      by (cases r0; cases "worker_stop stopped w1") (auto simp: worker_run_def split: sum.splits)
  qed
  show "started = Inr t0 \<Longrightarrow> stopped = Inr t1 \<Longrightarrow>
      \<not> wk_running w' \<and> wk_stopped_at w' = Some t1 \<and> wk_active_entry_id w' = None"
    using assms by (auto simp: run split: prod.splits)
qed

end

lemma generic_next_counts: "counted 0 (wc_next (generic_worker now) q)"
  by (auto simp: generic_worker_def intro: counted_bind0)

interpretation generic: queue_worker "generic_worker now" for now
  by unfold_locales (rule generic_next_counts)

section \<open>A sample worker\<close>

definition sample_worker :: worker_state where
  "sample_worker =
     \<lparr>wk_worker_id = 7, wk_timeout_seconds = None, wk_cancellation_grace_period = PyInt 30, wk_running = True,
      wk_started_at = Some (ClockTime 1000 0), wk_stopped_at = None, wk_active_entry_id = None, wk_active_queue_name = None,
      wk_dispatch_count = 0, wk_succeeded_count = 0, wk_failed_count = 0, wk_cancelled_count = 0, wk_timed_out_count = 0,
      wk_last_recovery_at = [], wk_last_retention_cleanup_at = [], wk_last_first_seen_scan_at = [],
      wk_last_observed_entry_id = [], wk_last_claim_conflict_at = [], wk_published = []\<rparr>"

definition sample_env :: "handler_end \<Rightarrow> dispatch_env" where
  "sample_env h = \<lparr>de_dispatched = Inr (ClockTime 1001 0), de_finished = Inr (ClockTime 1002 0),
     de_failed = Inr (ClockTime 1003 0), de_handler = h\<rparr>"

end
