(* ===== verification/Memory_Worker.thy ===== *)
theory Memory_Worker
  imports Memory_Queue Queue_Worker
begin

text \<open>
  The in-process queues with their worker: \<^verbatim>\<open>MemoryAsyncQueueWorker\<close> is the generic worker. The
  properties of a dispatch hold for the queue, the stack and the priority queue alike, because
  all of them keep the provider contract.
\<close>

section \<open>Sample queue\<close>

definition sample_queue :: "provider_memory worker_queue" where
  "sample_queue =
     \<lparr>wq_key = 0, wq_ops = memory_async_ops, wq_timeout_seconds = None, wq_retention_timeout = Some (PyInt 600),
      wq_is_async = True, wq_provider_kind = ''generic'', wq_compatible = True\<rparr>"

text \<open>The entry was just taken out of the dispatch order: it is retained and not queued.\<close>

definition sample_taken :: provider_memory where
  "sample_taken = (provider_memory_init False 0)\<lparr>mp_entries := [(sample_id 1, sample_entry 1 (ClockTime 1000 0) 60)]\<rparr>"

lemma sample_taken_inv:
  "memory_inv sample_taken" "memory_entry sample_taken (sample_id 1) = Some (sample_entry 1 (ClockTime 1000 0) 60)"
  using sample_entry_valid[of 60 "ClockTime 1000 0"]
  by (auto simp: sample_taken_def provider_memory_init_def memory_inv_def entries_ok_def memory_entry_def split: if_splits)

text \<open>What a worker does to any provider that keeps the contract, on the in-process queue and stack.\<close>

interpretation memory_worker: served_queue memory_async_ops memory_inv memory_entry memory_queued
    "q\<lparr>wq_ops := memory_async_ops\<rparr>" for q
  by unfold_locales simp

section \<open>Properties\<close>

text \<open>
  C12. Every dispatch of the in-process worker ends in exactly one recorded outcome: whatever the
  handler did, unless it was cancelled itself, the entry is stored with the terminal status that
  fits (also when the worker is being shut down), with the times it was dispatched and finished;
  one terminal counter goes up by one, the worker is idle again, and the snapshots published are
  the queued one if it was not seen before, the running one and the terminal one, in this order.
\<close>

theorem memory_worker_settles:
  assumes "memory_inv s" "memory_entry s (qe_id e) = Some e" "qe_status e = QUEUED" "wq_ops q = memory_async_ops"
    "de_dispatched env = Inr t1" "de_finished env = Inr t2" "settled_status (de_handler env) = Some st"
  shows "\<exists>e' w' s'. dispatch (generic_worker now) q env e None (w, s) = (dispatch_reply (de_handler env), (w', s')) \<and>
    memory_entry s' = (memory_entry s)(qe_id e \<mapsto> e') \<and> memory_queued s' = memory_queued s \<and>
    qe_status e' = st \<and> qe_dispatched_at e' = Some t1 \<and> qe_finished_at e' = Some t2 \<and>
    terminal_count w' = terminal_count w + 1 \<and> wk_active_entry_id w' = None \<and>
    wk_published w' = wk_published w @ (if observed w q e then [] else [e]) @
      [e\<lparr>qe_status := RUNNING, qe_dispatched_at := Some t1\<rparr>, e']"
proof -
  let ?r = "e\<lparr>qe_status := RUNNING, qe_dispatched_at := Some t1\<rparr>"
  let ?w = "w\<lparr>wk_published := wk_published w @ (if observed w q e then [?r] else [e, ?r])\<rparr>"
  have "settled_status (de_handler env) \<noteq> None" using assms(7) by simp
  moreover have "q\<lparr>wq_ops := memory_async_ops\<rparr> = q" using assms(4) by simp
  ultimately
  obtain e' s' where out: "dispatch (generic_worker now) q env e None (w, s) =
      (dispatch_reply (de_handler env), (clear_active (after_record e' ?w), s'))"
    "memory_worker.settled_as (de_handler env) s ?r t2 e' s'"
    using memory_worker.dispatch_settles[OF assms(1-3,5,6), where q = q and C = "generic_worker now" and w = w] by (auto simp: Let_def)
  have "qe_status e' = st" using out(2) assms(7) by (simp add: memory_worker.settled_as_def)
  moreover have "st \<in> {SUCCEEDED, FAILED, TIMEOUT}"
    using assms(7) by (cases "(de_handler env)" rule: settled_status.cases) (auto split: if_splits elim!: grace_status.elims)
  ultimately have "terminal_count (clear_active (after_record e' ?w)) = terminal_count w + 1 \<and>
      wk_active_entry_id (clear_active (after_record e' ?w)) = None \<and>
      wk_published (clear_active (after_record e' ?w)) = wk_published ?w @ [e']"
    by (auto simp: after_record_def record_terminal_def clear_active_def count_terminal_def terminal_count_def)
  then show ?thesis using out assms(7) by (auto simp: memory_worker.settled_as_def)
qed

theorem memory_worker_settles_witness:
  "\<exists>e' w' s'. dispatch (generic_worker (Inr (ClockTime 1001 0))) sample_queue (sample_env (HandlerReturned (PNum (PyInt 42))))
      (sample_entry 1 (ClockTime 1000 0) 60) None (sample_worker, sample_taken) = (Inr (), (w', s')) \<and>
    qe_status e' = SUCCEEDED \<and> memory_entry s' (sample_id 1) = Some e' \<and> terminal_count w' = 1"
proof -
  let ?e = "sample_entry 1 (ClockTime 1000 0) 60" and ?env = "sample_env (HandlerReturned (PNum (PyInt 42)))"
  have "qe_id ?e = sample_id 1" "qe_status ?e = QUEUED" by (simp_all add: sample_entry_def)
  moreover have "wq_ops sample_queue = memory_async_ops" by (simp add: sample_queue_def)
  moreover have "de_dispatched ?env = Inr (ClockTime 1001 0)" "de_finished ?env = Inr (ClockTime 1002 0)"
    "settled_status (de_handler ?env) = Some SUCCEEDED" by (simp_all add: sample_env_def)
  ultimately show ?thesis
    using memory_worker_settles[of sample_taken ?e sample_queue ?env "ClockTime 1001 0" "ClockTime 1002 0" SUCCEEDED
        "Inr (ClockTime 1001 0)" sample_worker] sample_taken_inv
    by (auto simp: sample_env_def dispatch_reply_def terminal_count_def sample_worker_def)
qed

text \<open>
  C13. The books of a worker add up: from its construction through any run, whatever the handlers
  and the clocks do, it has recorded at most one terminal outcome per dispatch; a run ends only by
  an error, and unless a clock failed the worker is then stopped, idle and dated.
\<close>

theorem worker_books_balance:
  assumes "worker_init wid kind qs budget grace = Inr w0"
    "worker_run (generic_worker now) started stopped passes queues (w0, s) = (r, (w, s'))"
  shows "wk_succeeded_count w + wk_failed_count w + wk_cancelled_count w + wk_timed_out_count w \<le> wk_dispatch_count w \<and>
    (\<exists>err. r = Inl err) \<and>
    (\<forall>t0 t1. started = Inr t0 \<and> stopped = Inr t1 \<longrightarrow>
       \<not> wk_running w \<and> wk_stopped_at w = Some t1 \<and> wk_active_entry_id w = None)"
proof -
  have "terminal_count w0 = 0" "wk_dispatch_count w0 = 0"
    using assms(1) by (auto simp: worker_init_def bindR_Inr_iff terminal_count_def)
  then show ?thesis using generic.run_books[OF assms(2)] by (auto simp: terminal_count_def)
qed

theorem worker_books_balance_witness:
  "\<exists>w0 r w s'. worker_init 7 ''generic'' [sample_queue] PNone (PNum (PyInt 30)) = Inr w0 \<and>
     worker_run (generic_worker (Inr (ClockTime 1001 0))) (Inr (ClockTime 1000 0)) (Inr (ClockTime 1009 0))
       [[(1, Inr (ClockTime 1001 0), sample_env BudgetExpired)]] [(''jobs'', sample_queue)] (w0, provider_memory_init False 0) = (r, (w, s')) \<and>
     wk_succeeded_count w + wk_failed_count w + wk_cancelled_count w + wk_timed_out_count w \<le> wk_dispatch_count w \<and>
     \<not> wk_running w"
proof -
  have "int_to_float 30 = Inr 30" by (rule int_to_float_exact[of 30, simplified])
  then obtain w0 where w0: "worker_init 7 ''generic'' [sample_queue] PNone (PNum (PyInt 30)) = Inr w0"
    by (auto simp: worker_init_def as_budget_opt_def validate_grace_period_def sample_queue_def)
  obtain r w s' where run: "worker_run (generic_worker (Inr (ClockTime 1001 0))) (Inr (ClockTime 1000 0)) (Inr (ClockTime 1009 0))
       [[(1, Inr (ClockTime 1001 0), sample_env BudgetExpired)]] [(''jobs'', sample_queue)] (w0, provider_memory_init False 0) = (r, (w, s'))"
    by (metis prod.collapse)
  from worker_books_balance[OF w0 run] w0 run show ?thesis by blast
qed

text \<open>
  No handler runs unbounded: the budget that governs a dispatch is a finite, positive number of
  seconds for every worker that was constructed, every valid entry and every queue whose own
  default is one; and the worker's budget overrides the entry's, which overrides the queue's.
\<close>

theorem dispatch_budget_bounded:
  assumes "worker_init wid kind qs timeout grace = Inr w" "entry_valid e" "\<forall>b. wq_timeout_seconds q = Some b \<longrightarrow> budget_ok b"
  shows "budget_ok (budget_for w q e) \<and>
    (timeout \<noteq> PNone \<longrightarrow> PNum (budget_for w q e) = timeout) \<and>
    (\<forall>b. timeout = PNone \<and> qe_timeout_seconds e = Some b \<longrightarrow> budget_for w q e = b)"
proof -
  obtain b where "as_budget_opt timeout = Inr b" "wk_timeout_seconds w = b"
    using assms(1) by (auto simp: worker_init_def bindR_Inr_iff)
  then have "timeout = PNone \<and> wk_timeout_seconds w = None \<or> (\<exists>n. timeout = PNum n \<and> wk_timeout_seconds w = Some n \<and> budget_ok n)"
    by (auto simp: as_budget_opt_Inr)
  moreover have "int_to_float 600 = Inr 600" by (rule int_to_float_exact[of 600, simplified])
  then have "budget_ok DEFAULT_TIMEOUT_SECONDS" by (simp add: budget_ok_def)
  ultimately show ?thesis using assms(2,3) by (auto simp: budget_for_def entry_valid_def split: option.splits)
qed

theorem dispatch_budget_bounded_witness:
  "\<exists>w. worker_init 7 ''generic'' [sample_queue] PNone (PNum (PyInt 30)) = Inr w \<and>
     budget_ok (budget_for w sample_queue (sample_entry 1 (ClockTime 1000 0) 60))"
proof -
  have "int_to_float 30 = Inr 30" by (rule int_to_float_exact[of 30, simplified])
  then obtain w where w: "worker_init 7 ''generic'' [sample_queue] PNone (PNum (PyInt 30)) = Inr w"
    by (auto simp: worker_init_def as_budget_opt_def validate_grace_period_def sample_queue_def)
  moreover have "wq_timeout_seconds sample_queue = None" by (simp add: sample_queue_def)
  moreover have "entry_valid (sample_entry 1 (ClockTime 1000 0) 60)" by (rule sample_entry_valid) simp_all
  ultimately show ?thesis using dispatch_budget_bounded[OF w, of _ sample_queue] by fastforce
qed

text \<open>
  C14. Observers see every retained entry once: a scan publishes exactly the listed entries that
  were not observed before, in strictly ascending id order, and afterwards every listed entry is
  observed and stays so; a scan less than a second after the last one does nothing.
\<close>

theorem scan_publishes_each_once:
  assumes "op_alist (wq_ops q) s = (Inr entries, s')" "distinct (map qe_id entries)"
  shows "if interval_over (wk_last_first_seen_scan_at w) (wq_key q) loop_time 1
    then \<exists>w' new. publish_new q loop_time (w, s) = (Inr (), (w', s')) \<and> wk_published w' = wk_published w @ new \<and>
      set new = {e \<in> set entries. \<not> observed w q e} \<and> sorted_wrt (<) (map qe_id new) \<and>
      (\<forall>e. e \<in> set entries \<or> observed w q e \<longrightarrow> observed w' q e)
    else publish_new q loop_time (w, s) = (Inr (), (w, s))"
proof (cases "interval_over (wk_last_first_seen_scan_at w) (wq_key q) loop_time 1")
  case True
  let ?k = "wq_key q" and ?prev = "dict_get (wk_last_observed_entry_id w) (wq_key q)"
  define w1 where "w1 = w\<lparr>wk_last_first_seen_scan_at := dict_set ?k loop_time (wk_last_first_seen_scan_at w)\<rparr>"
  define w2 where "w2 = w1\<lparr>wk_published := wk_published w @ new_entries ?prev entries\<rparr>"
  define w3 where "w3 = (case next_cursor ?prev entries of None \<Rightarrow> w2
      | Some i \<Rightarrow> w2\<lparr>wk_last_observed_entry_id := dict_set ?k i (wk_last_observed_entry_id w2)\<rparr>)"
  have all: "foreach apublish es (v, s') = (Inr (), (v\<lparr>wk_published := wk_published v @ es\<rparr>, s'))" for es v
    by (induction es arbitrary: v) auto
  have run: "publish_new q loop_time (w, s) = (Inr (), (w3, s'))"
    using True assms(1) by (simp add: publish_new_def Let_def w3_def w2_def w1_def all split: option.split)
  have new: "set (new_entries ?prev entries) = {e \<in> set entries. \<not> observed w q e}"
    by (auto simp: new_entries_def observed_def split: option.splits)
  have "distinct (map qe_id (new_entries ?prev entries))"
    using assms(2) by (auto simp: new_entries_def distinct_map elim: inj_on_subset)
  then have sorted: "sorted_wrt (<) (map qe_id (new_entries ?prev entries))"
    by (simp add: strict_sorted_iff new_entries_def)
  have le: "qe_id e \<le> Max (qe_id ` set entries)" if "e \<in> set entries" for e using that by (intro Max_ge) auto
  have cur: "dict_get (wk_last_observed_entry_id w3) ?k = next_cursor ?prev entries"
    by (cases ?prev) (auto simp: w3_def w2_def w1_def next_cursor_def Let_def simp del: dict_get_None)
  have "observed w3 q e" if "e \<in> set entries \<or> observed w q e" for e
    unfolding observed_def cur using that
    by (cases ?prev) (auto simp: next_cursor_def observed_def Let_def not_less le intro: order_trans[OF le] simp del: dict_get_None)
  then show ?thesis using True run new sorted by (auto simp: w3_def w2_def split: option.splits)
qed (simp add: publish_new_def Let_def)

theorem scan_publishes_each_once_witness:
  "\<exists>w' new. publish_new sample_queue 5 (sample_worker, sample_taken) = (Inr (), (w', sample_taken)) \<and>
     set new = {sample_entry 1 (ClockTime 1000 0) 60} \<and> wk_published w' = new"
proof -
  have "op_alist (wq_ops sample_queue) sample_taken = (Inr [sample_entry 1 (ClockTime 1000 0) 60], sample_taken)"
    by (simp add: sample_queue_def memory_async_ops_def alist_def sample_taken_def provider_memory_init_def)
  moreover have "\<not> observed sample_worker sample_queue e" "interval_over (wk_last_first_seen_scan_at sample_worker) k 5 1"
    "wk_published sample_worker = []" for e k
    by (simp_all add: observed_def sample_worker_def interval_over_def)
  ultimately show ?thesis
    using scan_publishes_each_once[of sample_queue sample_taken "[sample_entry 1 (ClockTime 1000 0) 60]" sample_taken sample_worker 5]
    by auto
qed

end
