(* ===== verification/Redis_Server.thy ===== *)
theory Redis_Server
  imports Queue_Base
begin

text \<open>
  What the Redis backend uses of its server. Redis is a service outside the repository, so its
  commands are a record of functions \<open>'s redis\<close> that every definition of the backend takes as
  an argument, and the locale \<open>redis_server\<close> states their documented effect on what can be
  observed: string values, lists and sorted sets. A map-based server interprets the locale.

  A key of the backend is a constructor of \<open>rkey\<close>; \<open>key_string\<close> renders it as the text the
  provider builds. Ids inside lists and sorted sets are the entry ids themselves: their textual
  form is injective and, having a fixed shape, ordered like the ids.
\<close>

section \<open>Keys\<close>

definition queue_alias_characters :: "char set" where
  "queue_alias_characters =
     set ''abcdefghijklmnopqrstuvwxyzABCDEFGHIJKLMNOPQRSTUVWXYZ0123456789_-''"

definition validate_queue_alias :: "pyval \<Rightarrow> string result" where
  "validate_queue_alias alias =
     (case as_str alias of
        Inl _ \<Rightarrow> Inl InvalidQueueBackendError
      | Inr s \<Rightarrow>
          if s = [] \<or> list_ex (\<lambda>c. c \<notin> queue_alias_characters) s then Inl InvalidQueueBackendError else Inr s)"

datatype rkey =
    RawKey
  | PendingKey
  | PriorityKey
  | SequenceKey
  | DelayedKey
  | ScheduledKey
  | ClaimDeadlinesKey
  | UnclaimedDeadlinesKey
  | EntryKey uuid
  | ClaimKey uuid
  | NotificationDeadlinesKey
  | NotificationKey uuid
  | NotificationLeaseKey uuid

fun key_suffix :: "rkey \<Rightarrow> string" where
  "key_suffix RawKey = []"
| "key_suffix PendingKey = '':entries:pending''"
| "key_suffix PriorityKey = '':entries:pending:priority''"
| "key_suffix SequenceKey = '':entries:pending:priority:sequence''"
| "key_suffix DelayedKey = '':entries:delayed''"
| "key_suffix ScheduledKey = '':entries:scheduled''"
| "key_suffix ClaimDeadlinesKey = '':entries:claim-leases''"
| "key_suffix UnclaimedDeadlinesKey = '':entries:unclaimed-leases''"
| "key_suffix (EntryKey i) = '':entries:'' @ uuid_str i"
| "key_suffix (ClaimKey i) = '':entries:claims:'' @ uuid_str i"
| "key_suffix NotificationDeadlinesKey = '':notifications:deadlines''"
| "key_suffix (NotificationKey i) = '':notifications:'' @ uuid_str i"
| "key_suffix (NotificationLeaseKey i) = '':notifications:leases:'' @ uuid_str i"

definition key_string :: "string \<Rightarrow> rkey \<Rightarrow> string" where
  "key_string alias k = CHR ''{'' # alias @ CHR ''}'' # key_suffix k"

lemma length_uuid_str: "length (uuid_str u) = 36"
  by (simp add: uuid_str_def Let_def)

lemma uuid_str_inject: "uuid_str i = uuid_str j \<longleftrightarrow> i = j"
  by (metis uuid_roundtrip sum.inject(2))

lemma uuid_str_neq: "length xs \<noteq> 36 \<Longrightarrow> uuid_str i \<noteq> xs" "length xs \<noteq> 36 \<Longrightarrow> xs \<noteq> uuid_str i"
  using length_uuid_str by metis+

lemma key_suffix_inject: "key_suffix k = key_suffix k' \<longleftrightarrow> k = k'"
  by (cases k; cases k') (simp_all add: uuid_str_neq uuid_str_inject length_uuid_str)

lemma brace_not_allowed: "CHR ''}'' \<notin> queue_alias_characters"
  by (simp add: queue_alias_characters_def)

lemma validate_queue_alias_brace: "validate_queue_alias (PStr a) = Inr a \<Longrightarrow> CHR ''}'' \<notin> set a"
  using brace_not_allowed by (auto simp: validate_queue_alias_def list_ex_iff split: if_splits)

lemma append_brace_inject:
  "CHR ''}'' \<notin> set a \<Longrightarrow> CHR ''}'' \<notin> set b \<Longrightarrow> a @ CHR ''}'' # x = b @ CHR ''}'' # y \<longleftrightarrow> a = b \<and> x = y"
proof (induction a arbitrary: b)
  case Nil
  then show ?case by (cases b) auto
next
  case (Cons c a)
  then show ?case by (cases b) auto
qed

lemma key_string_inject:
  assumes "validate_queue_alias (PStr a) = Inr a" "validate_queue_alias (PStr b) = Inr b"
  shows "key_string a k = key_string b k' \<longleftrightarrow> a = b \<and> k = k'"
  using append_brace_inject[OF validate_queue_alias_brace[OF assms(1)] validate_queue_alias_brace[OF assms(2)]]
  by (simp add: key_string_def key_suffix_inject)

text \<open>
  C22. The key schema has no collisions: two aliases that pass validation and two keys of the
  backend give the same Redis key only when both are equal. Queues never share a key, and no
  entry id can be mistaken for one of the fixed names.
\<close>

theorem redis_keys_disjoint:
  assumes "validate_queue_alias (PStr a) = Inr a" "validate_queue_alias (PStr b) = Inr b"
    "key_string a k = key_string b k'"
  shows "a = b \<and> k = k'"
  using key_string_inject[OF assms(1,2)] assms(3) by simp

theorem redis_keys_disjoint_witness:
  "validate_queue_alias (PStr ''jobs'') = Inr ''jobs'' \<and>
   key_string ''jobs'' (EntryKey (sample_id 1)) \<noteq> key_string ''jobs'' PendingKey"
proof -
  have a: "validate_queue_alias (PStr ''jobs'') = Inr ''jobs''"
    by (simp add: validate_queue_alias_def queue_alias_characters_def)
  then show ?thesis using redis_keys_disjoint[OF a a] by blast
qed

section \<open>Values and commands\<close>

text \<open>
  A claim document, as the claim function writes it. The field for the remaining unclaimed
  lifetime is present for events only.
\<close>

record claim =
  cl_worker_id :: uuid
  cl_claimed_at :: "int \<times> int"
  cl_lease_deadline :: "int option"
  cl_unclaimed_remaining_us :: "int option"

text \<open>
  A stored text: an entry document, a claim document, a decimal number, or anything else.
\<close>

datatype rvalue = VDoc "(string, pyval) pydict" | VClaim claim | VInt int | VOther string

record 's redis =
  r_get :: "'s \<Rightarrow> rkey \<Rightarrow> rvalue option"
  r_list :: "'s \<Rightarrow> rkey \<Rightarrow> uuid list"
  r_zscore :: "'s \<Rightarrow> rkey \<Rightarrow> uuid \<Rightarrow> int option"
  r_zrange :: "'s \<Rightarrow> rkey \<Rightarrow> (uuid \<times> int) list"
  r_set :: "rkey \<Rightarrow> rvalue \<Rightarrow> 's \<Rightarrow> 's"
  r_del :: "rkey \<Rightarrow> 's \<Rightarrow> int \<times> 's"
  r_set_nx :: "rkey \<Rightarrow> rvalue \<Rightarrow> 's \<Rightarrow> bool \<times> 's"
  r_set_xx :: "rkey \<Rightarrow> rvalue \<Rightarrow> 's \<Rightarrow> 's"
  r_incr :: "rkey \<Rightarrow> 's \<Rightarrow> int \<times> 's"
  r_rpush :: "rkey \<Rightarrow> uuid \<Rightarrow> 's \<Rightarrow> 's"
  r_lpush :: "rkey \<Rightarrow> uuid \<Rightarrow> 's \<Rightarrow> 's"
  r_lpop :: "rkey \<Rightarrow> 's \<Rightarrow> uuid option \<times> 's"
  r_rpop :: "rkey \<Rightarrow> 's \<Rightarrow> uuid option \<times> 's"
  r_lrem :: "rkey \<Rightarrow> uuid \<Rightarrow> 's \<Rightarrow> 's"
  r_zadd :: "rkey \<Rightarrow> uuid \<Rightarrow> int \<Rightarrow> 's \<Rightarrow> 's"
  r_zrem :: "rkey \<Rightarrow> uuid \<Rightarrow> 's \<Rightarrow> 's"

text \<open>
  \<open>r_zrange\<close> is a sorted set in ascending order: by score, and by member among equal scores;
  the range queries of the library are prefixes, filters and ends of it. Removing all occurrences
  from a list is \<^verbatim>\<open>LREM key 0 member\<close>; \<open>r_set_xx\<close> writes an existing key only.
\<close>

definition zrange_by_score :: "'s redis \<Rightarrow> rkey \<Rightarrow> int \<Rightarrow> 's \<Rightarrow> (uuid \<times> int) list" where
  "zrange_by_score R k max_score s = filter (\<lambda>(_, sc). sc \<le> max_score) (r_zrange R s k)"

definition zcard :: "'s redis \<Rightarrow> rkey \<Rightarrow> 's \<Rightarrow> nat" where
  "zcard R k s = length (r_zrange R s k)"

locale redis_server =
  fixes R :: "'s redis"
  assumes get_set [simp]: "r_get R (r_set R k v s) k' = (if k' = k then Some v else r_get R s k')"
    and list_set [simp]: "r_list R (r_set R k v s) = r_list R s"
    and zscore_set [simp]: "r_zscore R (r_set R k v s) = r_zscore R s"
    and del_reply [simp]: "fst (r_del R k s) = (if r_get R s k = None then 0 else 1)"
    and get_del [simp]: "r_get R (snd (r_del R k s)) k' = (if k' = k then None else r_get R s k')"
    and list_del [simp]: "r_list R (snd (r_del R k s)) = r_list R s"
    and zscore_del [simp]: "r_zscore R (snd (r_del R k s)) = r_zscore R s"
    and set_nx_reply [simp]: "fst (r_set_nx R k v s) \<longleftrightarrow> r_get R s k = None"
    and get_set_nx [simp]: "r_get R (snd (r_set_nx R k v s)) k' =
      (if k' = k \<and> r_get R s k = None then Some v else r_get R s k')"
    and list_set_nx [simp]: "r_list R (snd (r_set_nx R k v s)) = r_list R s"
    and zscore_set_nx [simp]: "r_zscore R (snd (r_set_nx R k v s)) = r_zscore R s"
    and get_set_xx [simp]: "r_get R (r_set_xx R k v s) k' =
      (if k' = k \<and> r_get R s k \<noteq> None then Some v else r_get R s k')"
    and list_set_xx [simp]: "r_list R (r_set_xx R k v s) = r_list R s"
    and zscore_set_xx [simp]: "r_zscore R (r_set_xx R k v s) = r_zscore R s"
    and incr_reply: "r_get R s k \<in> {None, Some (VInt n)} \<Longrightarrow>
      fst (r_incr R k s) = (case r_get R s k of Some (VInt m) \<Rightarrow> m + 1 | _ \<Rightarrow> 1)"
    and get_incr: "r_get R s k \<in> {None, Some (VInt n)} \<Longrightarrow>
      r_get R (snd (r_incr R k s)) k' = (if k' = k then Some (VInt (fst (r_incr R k s))) else r_get R s k')"
    and get_incr_other [simp]: "k' \<noteq> k \<Longrightarrow> r_get R (snd (r_incr R k s)) k' = r_get R s k'"
    and list_incr [simp]: "r_list R (snd (r_incr R k s)) = r_list R s"
    and zscore_incr [simp]: "r_zscore R (snd (r_incr R k s)) = r_zscore R s"
    and list_rpush [simp]: "r_list R (r_rpush R k i s) k' = (if k' = k then r_list R s k @ [i] else r_list R s k')"
    and get_rpush [simp]: "r_get R (r_rpush R k i s) = r_get R s"
    and zscore_rpush [simp]: "r_zscore R (r_rpush R k i s) = r_zscore R s"
    and list_lpush [simp]: "r_list R (r_lpush R k i s) k' = (if k' = k then i # r_list R s k else r_list R s k')"
    and get_lpush [simp]: "r_get R (r_lpush R k i s) = r_get R s"
    and zscore_lpush [simp]: "r_zscore R (r_lpush R k i s) = r_zscore R s"
    and lpop_reply [simp]: "fst (r_lpop R k s) = (case r_list R s k of [] \<Rightarrow> None | i # _ \<Rightarrow> Some i)"
    and list_lpop [simp]: "r_list R (snd (r_lpop R k s)) k' = (if k' = k then tl (r_list R s k) else r_list R s k')"
    and get_lpop [simp]: "r_get R (snd (r_lpop R k s)) = r_get R s"
    and zscore_lpop [simp]: "r_zscore R (snd (r_lpop R k s)) = r_zscore R s"
    and rpop_reply [simp]: "fst (r_rpop R k s) = (if r_list R s k = [] then None else Some (last (r_list R s k)))"
    and list_rpop [simp]: "r_list R (snd (r_rpop R k s)) k' = (if k' = k then butlast (r_list R s k) else r_list R s k')"
    and get_rpop [simp]: "r_get R (snd (r_rpop R k s)) = r_get R s"
    and zscore_rpop [simp]: "r_zscore R (snd (r_rpop R k s)) = r_zscore R s"
    and list_lrem [simp]: "r_list R (r_lrem R k i s) k' =
      (if k' = k then filter (\<lambda>j. j \<noteq> i) (r_list R s k) else r_list R s k')"
    and get_lrem [simp]: "r_get R (r_lrem R k i s) = r_get R s"
    and zscore_lrem [simp]: "r_zscore R (r_lrem R k i s) = r_zscore R s"
    and zscore_zadd [simp]: "r_zscore R (r_zadd R k i sc s) k' j =
      (if k' = k \<and> j = i then Some sc else r_zscore R s k' j)"
    and get_zadd [simp]: "r_get R (r_zadd R k i sc s) = r_get R s"
    and list_zadd [simp]: "r_list R (r_zadd R k i sc s) = r_list R s"
    and zscore_zrem [simp]: "r_zscore R (r_zrem R k i s) k' j = (if k' = k \<and> j = i then None else r_zscore R s k' j)"
    and get_zrem [simp]: "r_get R (r_zrem R k i s) = r_get R s"
    and list_zrem [simp]: "r_list R (r_zrem R k i s) = r_list R s"
    and zrange_scores: "(i, sc) \<in> set (r_zrange R s k) \<longleftrightarrow> r_zscore R s k i = Some sc"
    and zrange_distinct: "distinct (map fst (r_zrange R s k))"
    and zrange_sorted: "sorted (map (\<lambda>(i, sc). (sc, i)) (r_zrange R s k))"
begin

lemma zrange_by_score_iff: "(i, sc) \<in> set (zrange_by_score R k m s) \<longleftrightarrow> r_zscore R s k i = Some sc \<and> sc \<le> m"
  by (auto simp: zrange_by_score_def zrange_scores)

lemma zcard_0: "zcard R k s = 0 \<longleftrightarrow> (\<forall>i. r_zscore R s k i = None)"
proof -
  have "zcard R k s = 0 \<longleftrightarrow> (\<forall>i sc. (i, sc) \<notin> set (r_zrange R s k))"
    by (auto simp: zcard_def) (metis list.set_intros(1) neq_Nil_conv surj_pair)
  then show ?thesis by (auto simp: zrange_scores)
qed

lemma pop_state [simp]:
  "r_get R (if b then snd (r_rpop R k s) else snd (r_lpop R k s)) = r_get R s"
  "r_zscore R (if b then snd (r_rpop R k s) else snd (r_lpop R k s)) = r_zscore R s"
  by simp_all

end

section \<open>A map-based server\<close>

text \<open>
  The documented behaviour is satisfiable: three maps, sorted sets kept as association lists and
  ordered when they are read.
\<close>

record redis_db =
  db_values :: "rkey \<Rightarrow> rvalue option"
  db_lists :: "rkey \<Rightarrow> uuid list"
  db_zsets :: "rkey \<Rightarrow> (uuid \<times> int) list"

definition db_empty :: redis_db where
  "db_empty = \<lparr>db_values = (\<lambda>_. None), db_lists = (\<lambda>_. []), db_zsets = (\<lambda>_. [])\<rparr>"

definition db_incr :: "rkey \<Rightarrow> redis_db \<Rightarrow> int \<times> redis_db" where
  "db_incr k s =
     (let n = (case db_values s k of Some (VInt m) \<Rightarrow> m + 1 | _ \<Rightarrow> 1)
      in (n, s\<lparr>db_values := (db_values s)(k \<mapsto> VInt n)\<rparr>))"

definition map_redis :: "redis_db redis" where
  "map_redis =
     \<lparr>r_get = db_values,
      r_list = db_lists,
      r_zscore = (\<lambda>s k. map_of (db_zsets s k)),
      r_zrange = (\<lambda>s k. sort_key (\<lambda>(i, sc). (sc, i)) (AList.clearjunk (db_zsets s k))),
      r_set = (\<lambda>k v s. s\<lparr>db_values := (db_values s)(k \<mapsto> v)\<rparr>),
      r_del = (\<lambda>k s. (if db_values s k = None then 0 else 1, s\<lparr>db_values := (db_values s)(k := None)\<rparr>)),
      r_set_nx = (\<lambda>k v s. (db_values s k = None,
        if db_values s k = None then s\<lparr>db_values := (db_values s)(k \<mapsto> v)\<rparr> else s)),
      r_set_xx = (\<lambda>k v s. if db_values s k = None then s else s\<lparr>db_values := (db_values s)(k \<mapsto> v)\<rparr>),
      r_incr = db_incr,
      r_rpush = (\<lambda>k i s. s\<lparr>db_lists := (db_lists s)(k := db_lists s k @ [i])\<rparr>),
      r_lpush = (\<lambda>k i s. s\<lparr>db_lists := (db_lists s)(k := i # db_lists s k)\<rparr>),
      r_lpop = (\<lambda>k s. (case db_lists s k of [] \<Rightarrow> None | i # _ \<Rightarrow> Some i, s\<lparr>db_lists := (db_lists s)(k := tl (db_lists s k))\<rparr>)),
      r_rpop = (\<lambda>k s. (if db_lists s k = [] then None else Some (last (db_lists s k)),
        s\<lparr>db_lists := (db_lists s)(k := butlast (db_lists s k))\<rparr>)),
      r_lrem = (\<lambda>k i s. s\<lparr>db_lists := (db_lists s)(k := filter (\<lambda>j. j \<noteq> i) (db_lists s k))\<rparr>),
      r_zadd = (\<lambda>k i sc s. s\<lparr>db_zsets := (db_zsets s)(k := AList.update i sc (db_zsets s k))\<rparr>),
      r_zrem = (\<lambda>k i s. s\<lparr>db_zsets := (db_zsets s)(k := AList.delete i (db_zsets s k))\<rparr>)\<rparr>"

lemma sorted_map_sort_key: "sorted (map f (sort_key f xs))"
  by (rule sorted_sort_key)

lemma map_redis_zrange:
  "set (r_zrange map_redis s k) = set (AList.clearjunk (db_zsets s k))"
  "distinct (map fst (r_zrange map_redis s k))"
  "sorted (map (\<lambda>(i, sc). (sc, i)) (r_zrange map_redis s k))"
proof -
  have "distinct (map fst (AList.clearjunk (db_zsets s k)))" by (rule distinct_clearjunk)
  then have "distinct (AList.clearjunk (db_zsets s k))" "inj_on fst (set (AList.clearjunk (db_zsets s k)))"
    by (auto simp: distinct_map)
  then show "distinct (map fst (r_zrange map_redis s k))"
    by (simp add: map_redis_def distinct_map)
  show "set (r_zrange map_redis s k) = set (AList.clearjunk (db_zsets s k))"
    "sorted (map (\<lambda>(i, sc). (sc, i)) (r_zrange map_redis s k))"
    by (simp_all add: map_redis_def sorted_map_sort_key)
qed

interpretation map_server: redis_server map_redis
proof (unfold_locales, goal_cases)
  case (43 i sc s k)
  then show ?case
    unfolding map_redis_zrange(1)
    by (metis (no_types, lifting) distinct_clearjunk map_of_clearjunk map_of_eq_Some_iff map_redis_def redis.select_convs(3))
qed (simp_all add: map_redis_zrange, simp_all add: map_redis_def db_incr_def Let_def delete_conv' update_conv' fun_eq_iff split: option.splits rvalue.splits list.splits)

end
