(* ===== verification/Redis_Library.thy ===== *)
theory Redis_Library
  imports Redis_Server
begin

text \<open>
  \<^verbatim>\<open>django_queue/backends/redis/library.lua\<close>: the Redis Functions, each an atomic script over
  the server's commands. Keys and arguments are parameters, as in the scripts; a key prefix that
  a script extends by an id is a function from ids to keys. The reply of \<^verbatim>\<open>TIME\<close> is an
  argument; microsecond counts stay below \<open>2 ^ 53\<close> until the year 2255, where Lua's doubles are
  exact, so they are integers here.

  The JSON codec of the Lua runtime is not part of the repository: \<open>cjson\<close> carries what a number
  and a document become when they are encoded and read back. Encoding a document may fail.
\<close>

section \<open>The Lua runtime\<close>

record cjson =
  cj_number :: "int \<Rightarrow> int"
  cj_document :: "(string, pyval) pydict \<Rightarrow> (string, pyval) pydict option"

text \<open>
  What the encoder of the Lua runtime accepts: it raises on a number that is not finite (an
  integer beyond the range of doubles reads back as infinite) and on values nested more than
  1000 deep. Python's encoder writes both, so a stored payload may be such a document.
\<close>

fun plain_value :: "nat \<Rightarrow> pyval \<Rightarrow> bool" where
  "plain_value n PNone = True"
| "plain_value n (PBool b) = True"
| "plain_value n (PStr v) = True"
| "plain_value n (PNum (PyInt i)) = (\<bar>i\<bar> < 2 ^ 1023)"
| "plain_value n (PNum (PyFloat (Fin r))) = True"
| "plain_value (Suc n) (PList vs) = list_all (plain_value n) vs"
| "plain_value (Suc n) (PTuple vs) = list_all (plain_value n) vs"
| "plain_value (Suc n) (PDict kvs) = list_all (\<lambda>kv. plain_value n (snd kv)) kvs"
| "plain_value n v = False"

definition document_plain :: "(string, pyval) pydict \<Rightarrow> bool" where
  "document_plain d = list_all (\<lambda>kv. plain_value 999 (snd kv)) d"

text \<open>A codec that preserves whole numbers and plain documents, and encodes nothing else.\<close>

definition exact_cjson :: cjson where
  "exact_cjson = \<lparr>cj_number = (\<lambda>n. n), cj_document = (\<lambda>d. if document_plain d then Some d else None)\<rparr>"

definition now_us :: "int \<times> int \<Rightarrow> int" where
  "now_us now = fst now * 1000000 + snd now"

text \<open>
  Records and claims are stored as the documents they decode to. The scripts treat a text that
  does not decode like a missing one; the package writes no such text, unless a payload nests
  deeper than the decoder's 1000 levels.
\<close>

fun decode_document :: "rvalue option \<Rightarrow> (string, pyval) pydict option" where
  "decode_document (Some (VDoc d)) = Some d"
| "decode_document _ = None"

fun decode_claim :: "rvalue option \<Rightarrow> claim option" where
  "decode_claim (Some (VClaim c)) = Some c"
| "decode_claim _ = None"

definition doc_status :: "(string, pyval) pydict \<Rightarrow> QueueEntryStatus option" where
  "doc_status d =
     (case dict_get d ''status'' of
        Some (PStr v) \<Rightarrow> (case status_of_value v of Inr st \<Rightarrow> Some st | Inl _ \<Rightarrow> None)
      | _ \<Rightarrow> None)"

text \<open>\<^verbatim>\<open>tonumber(entry.priority) or 0\<close> for the integer priorities the package writes.\<close>

definition doc_priority :: "(string, pyval) pydict \<Rightarrow> int" where
  "doc_priority d = (case dict_get d ''priority'' of Some (PNum (PyInt p)) \<Rightarrow> p | _ \<Rightarrow> 0)"

definition owned_by :: "rvalue option \<Rightarrow> uuid \<Rightarrow> claim option" where
  "owned_by raw worker_id =
     (case decode_claim raw of
        None \<Rightarrow> None
      | Some c \<Rightarrow> if cl_worker_id c = worker_id then Some c else None)"

text \<open>Lua arithmetic on scores: the nearest double of an integer, an integer again.\<close>

definition dbl :: "int \<Rightarrow> int" where
  "dbl n = \<lfloor>fl (of_int n)\<rfloor>"

lemma dbl_exact: "\<bar>n\<bar> < 2 ^ 53 \<Longrightarrow> dbl n = n"
  by (simp add: dbl_def fl_of_int)

section \<open>Helpers\<close>

definition push_priority :: "'s redis \<Rightarrow> rkey \<Rightarrow> rkey \<Rightarrow> int \<Rightarrow> uuid \<Rightarrow> 's \<Rightarrow> 's" where
  "push_priority R priority_key sequence_key base_score i s =
     (let (sequence, s1) = r_incr R sequence_key s
      in r_zadd R priority_key i (dbl (base_score - sequence)) s1)"

definition pop_pending :: "'s redis \<Rightarrow> rkey \<Rightarrow> bool \<Rightarrow> 's \<Rightarrow> uuid option \<times> 's" where
  "pop_pending R pending_key stack s = (if stack then r_rpop R pending_key s else r_lpop R pending_key s)"

definition reset_sequence :: "'s redis \<Rightarrow> rkey \<Rightarrow> rkey \<Rightarrow> 's \<Rightarrow> 's" where
  "reset_sequence R priority_key sequence_key s =
     (if zcard R priority_key s = 0 then r_set_xx R sequence_key (VInt 0) s else s)"

definition zrev_top :: "'s redis \<Rightarrow> rkey \<Rightarrow> 's \<Rightarrow> (uuid \<times> int) option" where
  "zrev_top R k s = (case rev (r_zrange R s k) of [] \<Rightarrow> None | m # _ \<Rightarrow> Some m)"

definition lua_pop_priority :: "'s redis \<Rightarrow> rkey \<Rightarrow> rkey \<Rightarrow> 's \<Rightarrow> uuid option \<times> 's" where
  "lua_pop_priority R priority_key sequence_key s =
     (case zrev_top R priority_key s of
        None \<Rightarrow> (None, s)
      | Some (i, _) \<Rightarrow> (Some i, reset_sequence R priority_key sequence_key (r_zrem R priority_key i s)))"

text \<open>The members of the earliest due group of a schedule.\<close>

definition earliest_group :: "'s redis \<Rightarrow> rkey \<Rightarrow> int \<Rightarrow> 's \<Rightarrow> uuid list" where
  "earliest_group R scheduled_key max_score s =
     (case zrange_by_score R scheduled_key max_score s of
        [] \<Rightarrow> []
      | (_, earliest) # _ \<Rightarrow> map fst (filter (\<lambda>(_, sc). sc = earliest) (r_zrange R s scheduled_key)))"

fun promote_group :: "'s redis \<Rightarrow> rkey \<Rightarrow> (uuid \<Rightarrow> rkey) \<Rightarrow> rkey \<Rightarrow> uuid list \<Rightarrow> 's \<Rightarrow> 's" where
  "promote_group R scheduled_key entry_key pending_key [] s = s"
| "promote_group R scheduled_key entry_key pending_key (i # is) s =
     (if (case decode_document (r_get R s (entry_key i)) of Some d \<Rightarrow> doc_status d = Some QUEUED | None \<Rightarrow> False)
      then r_zrem R scheduled_key i (r_rpush R pending_key i s)
      else promote_group R scheduled_key entry_key pending_key is (r_zrem R scheduled_key i s))"

text \<open>A stack and a queue both append here; the flag only decides where a pop reads.\<close>

definition promote_one_scheduled :: "'s redis \<Rightarrow> rkey \<Rightarrow> (uuid \<Rightarrow> rkey) \<Rightarrow> rkey \<Rightarrow> int \<Rightarrow> 's \<Rightarrow> 's" where
  "promote_one_scheduled R scheduled_key entry_key pending_key now s =
     promote_group R scheduled_key entry_key pending_key (earliest_group R scheduled_key now s) s"

fun select_priority ::
    "'s redis \<Rightarrow> rkey \<Rightarrow> (uuid \<Rightarrow> rkey) \<Rightarrow> uuid list \<Rightarrow> (uuid \<times> int) option \<Rightarrow> 's \<Rightarrow> (uuid \<times> int) option \<times> 's" where
  "select_priority R scheduled_key entry_key [] selected s = (selected, s)"
| "select_priority R scheduled_key entry_key (i # is) selected s =
     (case decode_document (r_get R s (entry_key i)) of
        Some d \<Rightarrow>
          if doc_status d = Some QUEUED then
            let p = doc_priority d in
            select_priority R scheduled_key entry_key is
              (case selected of None \<Rightarrow> Some (i, p) | Some (_, q) \<Rightarrow> if q < p then Some (i, p) else selected) s
          else select_priority R scheduled_key entry_key is selected (r_zrem R scheduled_key i s)
      | None \<Rightarrow> select_priority R scheduled_key entry_key is selected (r_zrem R scheduled_key i s))"

definition promote_one_scheduled_priority ::
    "'s redis \<Rightarrow> rkey \<Rightarrow> (uuid \<Rightarrow> rkey) \<Rightarrow> rkey \<Rightarrow> rkey \<Rightarrow> int \<Rightarrow> int \<Rightarrow> 's \<Rightarrow> 's" where
  "promote_one_scheduled_priority R scheduled_key entry_key priority_key sequence_key priority_space now s =
     (case select_priority R scheduled_key entry_key (earliest_group R scheduled_key now s) None s of
        (None, s1) \<Rightarrow> s1
      | (Some (i, p), s1) \<Rightarrow>
          r_zrem R scheduled_key i (push_priority R priority_key sequence_key (dbl (p * priority_space)) i s1))"

section \<open>Storing and dequeuing\<close>

definition lua_store_and_push :: "'s redis \<Rightarrow> rkey \<Rightarrow> rkey \<Rightarrow> (string, pyval) pydict \<Rightarrow> uuid \<Rightarrow> 's \<Rightarrow> 's" where
  "lua_store_and_push R entry_key pending_key d i s =
     r_rpush R pending_key i (r_set R entry_key (VDoc d) s)"

definition lua_discard_priority :: "'s redis \<Rightarrow> rkey \<Rightarrow> rkey \<Rightarrow> uuid \<Rightarrow> 's \<Rightarrow> 's" where
  "lua_discard_priority R priority_key sequence_key i s =
     reset_sequence R priority_key sequence_key (r_zrem R priority_key i s)"

definition lua_dequeue ::
    "'s redis \<Rightarrow> int \<times> int \<Rightarrow> rkey \<Rightarrow> (uuid \<Rightarrow> rkey) \<Rightarrow> rkey \<Rightarrow> bool \<Rightarrow> 's \<Rightarrow> uuid option \<times> 's" where
  "lua_dequeue R now scheduled_key entry_key pending_key stack s =
     pop_pending R pending_key stack (promote_one_scheduled R scheduled_key entry_key pending_key (now_us now) s)"

definition lua_dequeue_priority ::
    "'s redis \<Rightarrow> int \<times> int \<Rightarrow> rkey \<Rightarrow> (uuid \<Rightarrow> rkey) \<Rightarrow> rkey \<Rightarrow> rkey \<Rightarrow> int \<Rightarrow> 's \<Rightarrow> uuid option \<times> 's" where
  "lua_dequeue_priority R now scheduled_key entry_key priority_key sequence_key priority_space s =
     lua_pop_priority R priority_key sequence_key
       (promote_one_scheduled_priority R scheduled_key entry_key priority_key sequence_key priority_space (now_us now) s)"

definition lua_store_and_push_priority ::
    "'s redis \<Rightarrow> rkey \<Rightarrow> rkey \<Rightarrow> rkey \<Rightarrow> (string, pyval) pydict \<Rightarrow> uuid \<Rightarrow> int \<Rightarrow> 's \<Rightarrow> 's" where
  "lua_store_and_push_priority R entry_key priority_key sequence_key d i base_score s =
     push_priority R priority_key sequence_key base_score i (r_set R entry_key (VDoc d) s)"

definition lua_store_available ::
    "'s redis \<Rightarrow> int \<times> int \<Rightarrow> rkey \<Rightarrow> rkey \<Rightarrow> rkey \<Rightarrow> rkey \<Rightarrow> rkey \<Rightarrow> (string, pyval) pydict \<Rightarrow> uuid \<Rightarrow> int \<Rightarrow> int \<Rightarrow> bool \<Rightarrow>
     's \<Rightarrow> 's" where
  "lua_store_available R now entry_key pending_key scheduled_key priority_key sequence_key d i available base_score priority s =
     (let s1 = r_set R entry_key (VDoc d) s in
      if now_us now < available then r_zadd R scheduled_key i available s1
      else if priority then push_priority R priority_key sequence_key base_score i s1
      else r_rpush R pending_key i s1)"

definition lua_store_and_discard ::
    "'s redis \<Rightarrow> rkey \<Rightarrow> rkey \<Rightarrow> rkey \<Rightarrow> rkey \<Rightarrow> rkey \<Rightarrow> (string, pyval) pydict \<Rightarrow> uuid \<Rightarrow> 's \<Rightarrow> 's" where
  "lua_store_and_discard R entry_key pending_key priority_key sequence_key scheduled_key d i s =
     reset_sequence R priority_key sequence_key
       (r_zrem R scheduled_key i (r_zrem R priority_key i (r_lrem R pending_key i (r_set R entry_key (VDoc d) s))))"

definition lua_store_event_and_push ::
    "'s redis \<Rightarrow> rkey \<Rightarrow> rkey \<Rightarrow> rkey \<Rightarrow> (string, pyval) pydict \<Rightarrow> uuid \<Rightarrow> int \<Rightarrow> 's \<Rightarrow> 's" where
  "lua_store_event_and_push R entry_key unclaimed_key pending_key d i deadline s =
     r_rpush R pending_key i (r_zadd R unclaimed_key i deadline (r_set R entry_key (VDoc d) s))"

text \<open>Moving every member whose delay is over back to the pending list.\<close>

definition release_delayed :: "'s redis \<Rightarrow> rkey \<Rightarrow> rkey \<Rightarrow> int \<Rightarrow> 's \<Rightarrow> 's" where
  "release_delayed R pending_key delayed_key now s =
     fold (\<lambda>(i, _) s. r_zrem R delayed_key i (r_rpush R pending_key i s)) (zrange_by_score R delayed_key now s) s"

definition drop_event :: "'s redis \<Rightarrow> rkey \<Rightarrow> rkey \<Rightarrow> rkey \<Rightarrow> rkey \<Rightarrow> rkey \<Rightarrow> uuid \<Rightarrow> 's \<Rightarrow> 's" where
  "drop_event R entry_key pending_key delayed_key claims_key unclaimed_key i s =
     r_lrem R pending_key i (r_zrem R unclaimed_key i (r_zrem R claims_key i (r_zrem R delayed_key i
       (snd (r_del R entry_key s)))))"

fun dequeue_event_loop ::
    "nat \<Rightarrow> 's redis \<Rightarrow> int \<Rightarrow> rkey \<Rightarrow> rkey \<Rightarrow> (uuid \<Rightarrow> rkey) \<Rightarrow> rkey \<Rightarrow> (uuid \<Rightarrow> rkey) \<Rightarrow> rkey \<Rightarrow> bool \<Rightarrow>
     's \<Rightarrow> rvalue option \<times> 's" where
  "dequeue_event_loop 0 R now pending_key delayed_key claim_key claims_key entry_key unclaimed_key stack s = (None, s)"
| "dequeue_event_loop (Suc n) R now pending_key delayed_key claim_key claims_key entry_key unclaimed_key stack s =
     (case pop_pending R pending_key stack s of
        (None, s1) \<Rightarrow> (None, s1)
      | (Some i, s1) \<Rightarrow>
          if r_get R s1 (claim_key i) \<noteq> None then
            dequeue_event_loop n R now pending_key delayed_key claim_key claims_key entry_key unclaimed_key stack
              (if stack then r_lpush R pending_key i s1 else r_rpush R pending_key i s1)
          else
            let s2 = drop_event R (entry_key i) pending_key delayed_key claims_key unclaimed_key i s1 in
            case (r_get R s1 (entry_key i), r_zscore R s1 unclaimed_key i) of
              (Some raw, Some deadline) \<Rightarrow>
                if now < deadline then (Some raw, s2)
                else dequeue_event_loop n R now pending_key delayed_key claim_key claims_key entry_key unclaimed_key stack s2
            | _ \<Rightarrow> dequeue_event_loop n R now pending_key delayed_key claim_key claims_key entry_key unclaimed_key stack s2)"

definition lua_dequeue_event ::
    "'s redis \<Rightarrow> int \<times> int \<Rightarrow> rkey \<Rightarrow> rkey \<Rightarrow> (uuid \<Rightarrow> rkey) \<Rightarrow> rkey \<Rightarrow> (uuid \<Rightarrow> rkey) \<Rightarrow> rkey \<Rightarrow> bool \<Rightarrow> 's \<Rightarrow> rvalue option \<times> 's" where
  "lua_dequeue_event R now pending_key delayed_key claim_key claims_key entry_key unclaimed_key stack s =
     (let s1 = release_delayed R pending_key delayed_key (now_us now) s
      in dequeue_event_loop (length (r_list R s1 pending_key)) R (now_us now) pending_key delayed_key claim_key claims_key
           entry_key unclaimed_key stack s1)"

section \<open>Claims\<close>

definition lua_renew ::
    "'s redis \<Rightarrow> cjson \<Rightarrow> int \<times> int \<Rightarrow> rkey \<Rightarrow> rkey \<Rightarrow> uuid \<Rightarrow> int \<Rightarrow> uuid \<Rightarrow> 's \<Rightarrow> int \<times> 's" where
  "lua_renew R cj now claim_key claims_key worker_id lease_us i s =
     (case owned_by (r_get R s claim_key) worker_id of
        None \<Rightarrow> (0, s)
      | Some c \<Rightarrow>
          (case cl_lease_deadline c of
             None \<Rightarrow> (0, s)
           | Some lease_deadline \<Rightarrow>
               if lease_deadline \<le> now_us now then (0, s)
               else
                 let deadline = now_us now + lease_us;
                     c' = c\<lparr>cl_lease_deadline := Some (cj_number cj deadline)\<rparr>
                 in (1, r_zadd R claims_key i deadline (r_set R claim_key (VClaim c') s))))"

text \<open>Restoring the unclaimed deadline of an event from the lifetime kept in its claim.\<close>

definition restore_unclaimed :: "'s redis \<Rightarrow> rkey \<Rightarrow> int \<Rightarrow> claim option \<Rightarrow> uuid \<Rightarrow> 's \<Rightarrow> 's" where
  "restore_unclaimed R unclaimed_key now c i s =
     (case Option.bind c cl_unclaimed_remaining_us of
        None \<Rightarrow> s
      | Some remaining \<Rightarrow> r_zadd R unclaimed_key i (now + remaining) s)"

definition lua_release ::
    "'s redis \<Rightarrow> int \<times> int \<Rightarrow> rkey \<Rightarrow> rkey \<Rightarrow> rkey \<Rightarrow> rkey \<Rightarrow> uuid \<Rightarrow> uuid \<Rightarrow> int \<Rightarrow> 's \<Rightarrow> int \<times> 's" where
  "lua_release R now claim_key claims_key delayed_key unclaimed_key worker_id i delay_us s =
     (case owned_by (r_get R s claim_key) worker_id of
        None \<Rightarrow> (0, s)
      | Some c \<Rightarrow>
          (1, restore_unclaimed R unclaimed_key (now_us now) (Some c) i
                (r_zadd R delayed_key i (now_us now + delay_us)
                  (r_zrem R claims_key i (snd (r_del R claim_key s))))))"

definition lua_release_priority ::
    "'s redis \<Rightarrow> int \<times> int \<Rightarrow> rkey \<Rightarrow> rkey \<Rightarrow> rkey \<Rightarrow> rkey \<Rightarrow> rkey \<Rightarrow> rkey \<Rightarrow> uuid \<Rightarrow> uuid \<Rightarrow> int \<Rightarrow> 's \<Rightarrow> int \<times> 's" where
  "lua_release_priority R now claim_key claims_key unclaimed_key priority_key entry_key sequence_key worker_id i priority_space s =
     (case owned_by (r_get R s claim_key) worker_id of
        None \<Rightarrow> (0, s)
      | Some c \<Rightarrow>
          let priority = (case decode_document (r_get R s entry_key) of Some d \<Rightarrow> doc_priority d | None \<Rightarrow> 0);
              s1 = r_zrem R claims_key i (snd (r_del R claim_key s))
          in (1, restore_unclaimed R unclaimed_key (now_us now) (Some c) i
                   (push_priority R priority_key sequence_key (dbl (priority * priority_space)) i s1)))"

definition lua_remove ::
    "'s redis \<Rightarrow> rkey \<Rightarrow> rkey \<Rightarrow> rkey \<Rightarrow> rkey \<Rightarrow> rkey \<Rightarrow> rkey \<Rightarrow> uuid \<Rightarrow> uuid \<Rightarrow> 's \<Rightarrow> int \<times> 's" where
  "lua_remove R claim_key claims_key delayed_key pending_key entry_key unclaimed_key worker_id i s =
     (case owned_by (r_get R s claim_key) worker_id of
        None \<Rightarrow> (0, s)
      | Some _ \<Rightarrow>
          r_del R entry_key (r_zrem R unclaimed_key i (r_lrem R pending_key i (r_zrem R delayed_key i
            (r_zrem R claims_key i (snd (r_del R claim_key s)))))))"

definition lua_ack :: "'s redis \<Rightarrow> rkey \<Rightarrow> rkey \<Rightarrow> uuid \<Rightarrow> uuid \<Rightarrow> 's \<Rightarrow> int \<times> 's" where
  "lua_ack R claim_key claims_key worker_id i s =
     (case owned_by (r_get R s claim_key) worker_id of
        None \<Rightarrow> (0, s)
      | Some _ \<Rightarrow> r_del R claim_key (r_zrem R claims_key i s))"

definition doc_is :: "rvalue option \<Rightarrow> QueueEntryStatus \<Rightarrow> bool" where
  "doc_is raw st = (case decode_document raw of Some d \<Rightarrow> doc_status d = Some st | None \<Rightarrow> False)"

definition lua_mark_running ::
    "'s redis \<Rightarrow> rkey \<Rightarrow> rkey \<Rightarrow> uuid \<Rightarrow> (string, pyval) pydict \<Rightarrow> 's \<Rightarrow> int \<times> 's" where
  "lua_mark_running R claim_key entry_key worker_id d s =
     (case owned_by (r_get R s claim_key) worker_id of
        None \<Rightarrow> (0, s)
      | Some _ \<Rightarrow>
          if \<not> doc_is (r_get R s entry_key) QUEUED then (0, s)
          else (1, r_set R entry_key (VDoc d) s))"

definition lua_settle ::
    "'s redis \<Rightarrow> rkey \<Rightarrow> rkey \<Rightarrow> rkey \<Rightarrow> uuid \<Rightarrow> uuid \<Rightarrow> (string, pyval) pydict \<Rightarrow> 's \<Rightarrow> int \<times> 's" where
  "lua_settle R claim_key claims_key entry_key worker_id i d s =
     (case owned_by (r_get R s claim_key) worker_id of
        None \<Rightarrow> (0, s)
      | Some _ \<Rightarrow>
          if \<not> doc_is (r_get R s entry_key) RUNNING then (0, s)
          else r_del R claim_key (r_zrem R claims_key i (r_set R entry_key (VDoc d) s)))"

definition lua_expire ::
    "'s redis \<Rightarrow> int \<times> int \<Rightarrow> rkey \<Rightarrow> rkey \<Rightarrow> rkey \<Rightarrow> rkey \<Rightarrow> rkey \<Rightarrow> rkey \<Rightarrow> uuid \<Rightarrow> 's \<Rightarrow> int \<times> 's" where
  "lua_expire R now claim_key entry_key pending_key delayed_key claims_key unclaimed_key i s =
     (if r_get R s claim_key \<noteq> None then (0, s)
      else (case r_zscore R s unclaimed_key i of
          None \<Rightarrow> (0, s)
        | Some deadline \<Rightarrow>
            if now_us now < deadline then (0, s)
            else let (deleted, s1) = r_del R entry_key s in
              if deleted = 0 then (0, s1)
              else (1, r_zrem R unclaimed_key i (r_zrem R claims_key i (r_zrem R delayed_key i (r_lrem R pending_key i s1))))))"

datatype prune_outcome = PruneMissing | PruneNonTerminal | Pruned "(string, pyval) pydict"

definition lua_prune :: "'s redis \<Rightarrow> rkey \<Rightarrow> rkey \<Rightarrow> uuid \<Rightarrow> 's \<Rightarrow> prune_outcome \<times> 's" where
  "lua_prune R entry_key pending_key i s =
     (case decode_document (r_get R s entry_key) of
        None \<Rightarrow> (PruneMissing, s)
      | Some d \<Rightarrow>
          if \<not> (\<exists>st \<in> {SUCCEEDED, FAILED, CANCELLED, TIMEOUT}. doc_status d = Some st) then (PruneNonTerminal, s)
          else let (deleted, s1) = r_del R entry_key (r_lrem R pending_key i s)
            in (if deleted = 0 then PruneMissing else Pruned d, s1))"

definition lua_delete ::
    "'s redis \<Rightarrow> rkey \<Rightarrow> rkey \<Rightarrow> rkey \<Rightarrow> rkey \<Rightarrow> rkey \<Rightarrow> rkey \<Rightarrow> rkey \<Rightarrow> rkey \<Rightarrow> rkey \<Rightarrow> uuid \<Rightarrow> 's \<Rightarrow> 's" where
  "lua_delete R entry_key pending_key delayed_key claims_key unclaimed_key claim_key priority_key sequence_key scheduled_key i s =
     reset_sequence R priority_key sequence_key
       (r_zrem R scheduled_key i (r_zrem R priority_key i (snd (r_del R claim_key
         (r_zrem R unclaimed_key i (r_zrem R claims_key i (r_zrem R delayed_key i (r_lrem R pending_key i
           (snd (r_del R entry_key s))))))))))"

section \<open>Recovery of abandoned claims\<close>

text \<open>The recovered document: queued again, with the traces of the attempt erased.\<close>

definition requeued_document :: "(string, pyval) pydict \<Rightarrow> (string, pyval) pydict" where
  "requeued_document d =
     dict_set ''error'' PNone (dict_set ''result'' PNone (dict_set ''finished_at'' PNone
       (dict_set ''dispatched_at'' PNone (dict_set ''status'' (PStr ''queued'') d))))"

text \<open>
  One due id. \<open>redeliver\<close> puts the id back in line: on the pending list, or into the priority set.
  A document that cannot be encoded aborts the script where it is.
\<close>

definition recover_due ::
    "'s redis \<Rightarrow> cjson \<Rightarrow> int \<Rightarrow> rkey \<Rightarrow> (uuid \<Rightarrow> rkey) \<Rightarrow> (uuid \<Rightarrow> rkey) \<Rightarrow> rkey \<Rightarrow>
     ((string, pyval) pydict \<Rightarrow> uuid \<Rightarrow> 's \<Rightarrow> 's) \<Rightarrow> claim option \<Rightarrow> uuid \<Rightarrow> (int \<times> int, 's) prog" where
  "recover_due R cj deadline claims_key claim_key entry_key unclaimed_key redeliver claim i s =
     (let finish = (\<lambda>s. r_zrem R claims_key i (snd (r_del R (claim_key i) s))) in
      case decode_document (r_get R s (entry_key i)) of
        None \<Rightarrow> (Inr (0, 1), finish s)
      | Some d \<Rightarrow>
          if doc_status d \<noteq> Some QUEUED \<and> doc_status d \<noteq> Some RUNNING then (Inr (0, 1), finish s)
          else (case cj_document cj (requeued_document d) of
              None \<Rightarrow> (Inl InvalidQueueBackendError, s)
            | Some d' \<Rightarrow>
                (Inr (1, 0), finish (redeliver (requeued_document d) i
                  (restore_unclaimed R unclaimed_key deadline claim i (r_set R (entry_key i) (VDoc d') s))))))"

definition recover_one ::
    "'s redis \<Rightarrow> cjson \<Rightarrow> int \<Rightarrow> rkey \<Rightarrow> (uuid \<Rightarrow> rkey) \<Rightarrow> (uuid \<Rightarrow> rkey) \<Rightarrow> rkey \<Rightarrow>
     ((string, pyval) pydict \<Rightarrow> uuid \<Rightarrow> 's \<Rightarrow> 's) \<Rightarrow> uuid \<Rightarrow> (int \<times> int, 's) prog" where
  "recover_one R cj deadline claims_key claim_key entry_key unclaimed_key redeliver i s =
     (let claim = decode_claim (r_get R s (claim_key i)) in
      case Option.bind claim cl_lease_deadline of
        Some lease_deadline \<Rightarrow>
          if deadline < lease_deadline then (Inr (0, 0), r_zadd R claims_key i lease_deadline s)
          else recover_due R cj deadline claims_key claim_key entry_key unclaimed_key redeliver claim i s
      | None \<Rightarrow> recover_due R cj deadline claims_key claim_key entry_key unclaimed_key redeliver claim i s)"

fun recover_each ::
    "(uuid \<Rightarrow> (int \<times> int, 's) prog) \<Rightarrow> uuid list \<Rightarrow> int \<times> int \<Rightarrow> (int \<times> int, 's) prog" where
  "recover_each one [] counts s = (Inr counts, s)"
| "recover_each one (i # is) counts s =
     bindE (one i) (\<lambda>(r, d). recover_each one is (fst counts + r, snd counts + d)) s"

definition lua_recover ::
    "'s redis \<Rightarrow> cjson \<Rightarrow> int \<times> int \<Rightarrow> rkey \<Rightarrow> (uuid \<Rightarrow> rkey) \<Rightarrow> rkey \<Rightarrow> (uuid \<Rightarrow> rkey) \<Rightarrow> rkey \<Rightarrow> nat \<Rightarrow> (int \<times> int, 's) prog" where
  "lua_recover R cj now claims_key claim_key pending_key entry_key unclaimed_key batch_size s =
     recover_each
       (recover_one R cj (now_us now) claims_key claim_key entry_key unclaimed_key (\<lambda>_ i. r_rpush R pending_key i))
       (map fst (take batch_size (zrange_by_score R claims_key (now_us now) s))) (0, 0) s"

definition lua_recover_priority ::
    "'s redis \<Rightarrow> cjson \<Rightarrow> int \<times> int \<Rightarrow> rkey \<Rightarrow> (uuid \<Rightarrow> rkey) \<Rightarrow> (uuid \<Rightarrow> rkey) \<Rightarrow> rkey \<Rightarrow> rkey \<Rightarrow> rkey \<Rightarrow> nat \<Rightarrow> int \<Rightarrow>
     (int \<times> int, 's) prog" where
  "lua_recover_priority R cj now claims_key claim_key entry_key unclaimed_key priority_key sequence_key batch_size priority_space s =
     recover_each
       (recover_one R cj (now_us now) claims_key claim_key entry_key unclaimed_key
         (\<lambda>d i. push_priority R priority_key sequence_key (dbl (doc_priority d * priority_space)) i))
       (map fst (take batch_size (zrange_by_score R claims_key (now_us now) s))) (0, 0) s"

section \<open>Claiming\<close>

datatype claim_outcome = ClaimEmpty | Claimed uuid | ClaimConflict uuid | ClaimExpired uuid

definition new_claim :: "cjson \<Rightarrow> int \<times> int \<Rightarrow> uuid \<Rightarrow> int \<Rightarrow> int option \<Rightarrow> claim" where
  "new_claim cj now worker_id deadline remaining =
     \<lparr>cl_worker_id = worker_id, cl_claimed_at = now, cl_lease_deadline = Some (cj_number cj deadline),
      cl_unclaimed_remaining_us = map_option (cj_number cj) remaining\<rparr>"

text \<open>
  From the popped id on: check and take the unclaimed lifetime of an event, then write the claim
  unless there is one. \<open>give_back\<close> returns the id to where it was popped from, \<open>taken\<close> is the
  bookkeeping after the id left for good.
\<close>

definition claim_popped ::
    "'s redis \<Rightarrow> cjson \<Rightarrow> int \<times> int \<Rightarrow> rkey \<Rightarrow> (uuid \<Rightarrow> rkey) \<Rightarrow> rkey \<Rightarrow> (uuid \<Rightarrow> rkey) \<Rightarrow> rkey \<Rightarrow> uuid \<Rightarrow> int \<Rightarrow> bool \<Rightarrow>
     ('s \<Rightarrow> 's) \<Rightarrow> ('s \<Rightarrow> 's) \<Rightarrow> uuid \<Rightarrow> 's \<Rightarrow> claim_outcome \<times> 's" where
  "claim_popped R cj now delayed_key claim_key claims_key entry_key unclaimed_key worker_id lease_us expire_unclaimed
     give_back taken i s =
     (let deadline = now_us now + lease_us;
          finish = (\<lambda>remaining s.
            let (created, s1) = r_set_nx R (claim_key i) (VClaim (new_claim cj now worker_id deadline remaining)) s in
            if created then (Claimed i, taken (r_zadd R claims_key i deadline s1))
            else (ClaimConflict i, give_back s1))
      in if \<not> expire_unclaimed then finish None s
         else (case r_zscore R s unclaimed_key i of
             Some expiry \<Rightarrow>
               if now_us now < expiry then finish (Some (expiry - now_us now)) (r_zrem R unclaimed_key i s)
               else (ClaimExpired i, taken (r_zrem R unclaimed_key i (r_zrem R claims_key i (r_zrem R delayed_key i
                       (snd (r_del R (entry_key i) s))))))
           | None \<Rightarrow>
               (ClaimExpired i, taken (r_zrem R unclaimed_key i (r_zrem R claims_key i (r_zrem R delayed_key i
                  (snd (r_del R (entry_key i) s))))))))"

definition lua_claim ::
    "'s redis \<Rightarrow> cjson \<Rightarrow> int \<times> int \<Rightarrow> rkey \<Rightarrow> rkey \<Rightarrow> (uuid \<Rightarrow> rkey) \<Rightarrow> rkey \<Rightarrow> (uuid \<Rightarrow> rkey) \<Rightarrow> rkey \<Rightarrow> rkey \<Rightarrow>
     uuid \<Rightarrow> int \<Rightarrow> bool \<Rightarrow> bool \<Rightarrow> 's \<Rightarrow> claim_outcome \<times> 's" where
  "lua_claim R cj now pending_key delayed_key claim_key claims_key entry_key unclaimed_key scheduled_key
     worker_id lease_us stack expire_unclaimed s =
     (let s1 = promote_one_scheduled R scheduled_key entry_key pending_key (now_us now) s;
          s2 = release_delayed R pending_key delayed_key (now_us now) s1
      in case pop_pending R pending_key stack s2 of
           (None, s3) \<Rightarrow> (ClaimEmpty, s3)
         | (Some i, s3) \<Rightarrow>
             claim_popped R cj now delayed_key claim_key claims_key entry_key unclaimed_key worker_id lease_us expire_unclaimed
               (if stack then r_rpush R pending_key i else r_lpush R pending_key i) (\<lambda>s. s) i s3)"

definition release_delayed_priority :: "'s redis \<Rightarrow> rkey \<Rightarrow> rkey \<Rightarrow> bool \<Rightarrow> int \<Rightarrow> 's \<Rightarrow> 's" where
  "release_delayed_priority R pending_key delayed_key stack now s =
     fold (\<lambda>(i, _) s. r_zrem R delayed_key i (if stack then r_lpush R pending_key i s else r_rpush R pending_key i s))
       (zrange_by_score R delayed_key now s) s"

definition lua_claim_priority ::
    "'s redis \<Rightarrow> cjson \<Rightarrow> int \<times> int \<Rightarrow> rkey \<Rightarrow> rkey \<Rightarrow> (uuid \<Rightarrow> rkey) \<Rightarrow> rkey \<Rightarrow> (uuid \<Rightarrow> rkey) \<Rightarrow> rkey \<Rightarrow> rkey \<Rightarrow> rkey \<Rightarrow> rkey \<Rightarrow>
     uuid \<Rightarrow> int \<Rightarrow> bool \<Rightarrow> bool \<Rightarrow> int \<Rightarrow> 's \<Rightarrow> claim_outcome \<times> 's" where
  "lua_claim_priority R cj now pending_key delayed_key claim_key claims_key entry_key unclaimed_key priority_key sequence_key
     scheduled_key worker_id lease_us stack expire_unclaimed priority_space s =
     (let s1 = promote_one_scheduled_priority R scheduled_key entry_key priority_key sequence_key priority_space (now_us now) s;
          s2 = release_delayed_priority R pending_key delayed_key stack (now_us now) s1
      in case pop_pending R pending_key stack s2 of
           (Some i, s3) \<Rightarrow>
             claim_popped R cj now delayed_key claim_key claims_key entry_key unclaimed_key worker_id lease_us expire_unclaimed
               (if stack then r_rpush R pending_key i else r_lpush R pending_key i) (\<lambda>s. s) i s3
         | (None, s3) \<Rightarrow>
             (case zrev_top R priority_key s3 of
                None \<Rightarrow> (ClaimEmpty, s3)
              | Some (i, score) \<Rightarrow>
                  claim_popped R cj now delayed_key claim_key claims_key entry_key unclaimed_key worker_id lease_us expire_unclaimed
                    (r_zadd R priority_key i score) (reset_sequence R priority_key sequence_key) i
                    (r_zrem R priority_key i s3)))"

section \<open>Notifications\<close>

text \<open>The published payload is the second component: every connected receiver sees it.\<close>

definition lua_notification_store ::
    "'s redis \<Rightarrow> int \<times> int \<Rightarrow> rkey \<Rightarrow> rkey \<Rightarrow> (string, pyval) pydict \<Rightarrow> uuid \<Rightarrow> int \<Rightarrow> 's \<Rightarrow> (string, pyval) pydict \<times> 's" where
  "lua_notification_store R now notification_key deadlines_key d i lifetime_us s =
     (d, r_zadd R deadlines_key i (now_us now + lifetime_us) (r_set R notification_key (VDoc d) s))"

definition lua_notification_get :: "'s redis \<Rightarrow> rkey \<Rightarrow> rkey \<Rightarrow> 's \<Rightarrow> rvalue option" where
  "lua_notification_get R lease_key notification_key s =
     (if r_get R s lease_key \<noteq> None then None else r_get R s notification_key)"

text \<open>
  The removal lease is written with a lifetime of its own; the server drops it later, which is an
  event of the outside world like the passing of time.
\<close>

definition lua_notification_expire ::
    "'s redis \<Rightarrow> int \<times> int \<Rightarrow> rkey \<Rightarrow> (uuid \<Rightarrow> rkey) \<Rightarrow> (uuid \<Rightarrow> rkey) \<Rightarrow> 's \<Rightarrow> uuid option \<times> 's" where
  "lua_notification_expire R now deadlines_key lease_key notification_key s =
     (case r_zrange R s deadlines_key of
        [] \<Rightarrow> (None, s)
      | (i, deadline) # _ \<Rightarrow>
          if now_us now < deadline then (None, s)
          else (Some i, r_zrem R deadlines_key i (snd (r_del R (notification_key i) (r_set R (lease_key i) (VOther ''1'') s)))))"

text \<open>Deleting the index is removing all its members.\<close>

definition lua_notification_clear ::
    "'s redis \<Rightarrow> rkey \<Rightarrow> (uuid \<Rightarrow> rkey) \<Rightarrow> (uuid \<Rightarrow> rkey) \<Rightarrow> 's \<Rightarrow> 's" where
  "lua_notification_clear R deadlines_key lease_key notification_key s =
     fold (\<lambda>(i, _). r_zrem R deadlines_key i) (r_zrange R s deadlines_key)
       (fold (\<lambda>(i, _) s. snd (r_del R (notification_key i) (snd (r_del R (lease_key i) s)))) (r_zrange R s deadlines_key) s)"

end
