(* ===== verification/Redis_Provider.thy ===== *)
theory Redis_Provider
  imports Redis_Library
begin

text \<open>
  \<^verbatim>\<open>django_queue/backends/redis/provider.py\<close>: the methods of \<^verbatim>\<open>QueueProviderRedis\<close>, each as the
  commands or the Redis Function it calls, with the keys and arguments it passes, the checks it
  makes before and the errors it raises from the reply. The context holds what a provider object
  keeps: the connection (the server's commands), the Lua runtime behind it, the stack option, and
  the outcome of the library version check, which guards every function call. A stored text is
  read back as the document it holds; any other text makes \<^verbatim>\<open>json.loads\<close> or the entry
  constructor raise \<^verbatim>\<open>ValueError\<close>.
\<close>

section \<open>Context\<close>

record 's redis_context =
  rx_server :: "'s redis"
  rx_cjson :: cjson
  rx_stack :: bool
  rx_ready :: "unit result"

abbreviation PRIORITY_SEQUENCE_SPACE :: int where
  "PRIORITY_SEQUENCE_SPACE \<equiv> 2 ^ 32"

abbreviation MAX_PRIORITY_MAGNITUDE :: int where
  "MAX_PRIORITY_MAGNITUDE \<equiv> 100000"

abbreviation FUNCTION_API_VERSION :: int where
  "FUNCTION_API_VERSION \<equiv> 1"

definition validate_redis_priority_magnitude :: "int \<Rightarrow> int result" where
  "validate_redis_priority_magnitude priority =
     (if MAX_PRIORITY_MAGNITUDE < \<bar>priority\<bar> then Inl ValueError else Inr priority)"

text \<open>
  \<^verbatim>\<open>_ensure_function_compatibility\<close>: \<open>checked\<close> tells whether this event loop passed the check
  before; \<open>reply\<close> is what \<^verbatim>\<open>django_queue_info\<close> returned, an error when the call failed.
\<close>

definition ensure_function_compatibility :: "pyval result \<Rightarrow> bool \<Rightarrow> unit result \<times> bool" where
  "ensure_function_compatibility reply checked =
     (if checked then (Inr (), checked)
      else (case reply of
          Inr (PList [PStr library_version, PNum (PyInt api_version)]) \<Rightarrow>
            if api_version < FUNCTION_API_VERSION then (Inl InvalidQueueBackendError, checked) else (Inr (), True)
        | _ \<Rightarrow> (Inl InvalidQueueBackendError, checked)))"

definition fcall :: "'s redis_context \<Rightarrow> ('s \<Rightarrow> 'a \<times> 's) \<Rightarrow> ('a, 's) prog" where
  "fcall X script = bindE (lift_result (rx_ready X)) (\<lambda>_ s. let (a, s') = script s in (Inr a, s'))"

definition fcall_unit :: "'s redis_context \<Rightarrow> ('s \<Rightarrow> 's) \<Rightarrow> (unit, 's) prog" where
  "fcall_unit X script = fcall X (\<lambda>s. ((), script s))"

definition fcall_prog :: "'s redis_context \<Rightarrow> ('a, 's) prog \<Rightarrow> ('a, 's) prog" where
  "fcall_prog X script = bindE (lift_result (rx_ready X)) (\<lambda>_. script)"

lemma fcall_ready [simp]:
  "rx_ready X = Inr () \<Longrightarrow> fcall X script s = (let (a, s') = script s in (Inr a, s'))"
  "rx_ready X = Inr () \<Longrightarrow> fcall_unit X f s = (Inr (), f s)"
  "rx_ready X = Inr () \<Longrightarrow> fcall_prog X p s = p s"
  by (simp_all add: fcall_def fcall_unit_def fcall_prog_def)

fun loads_entry :: "rvalue \<Rightarrow> queue_entry result" where
  "loads_entry (VDoc d) = from_dict d"
| "loads_entry _ = Inl ValueError"

text \<open>\<^verbatim>\<open>round(seconds * MICROSECONDS_PER_SECOND)\<close>.\<close>

definition to_us :: "pynum \<Rightarrow> int result" where
  "to_us n = py_round (num_scale n MICROSECONDS_PER_SECOND)"

definition timestamp_us :: "clock_time \<Rightarrow> int result" where
  "timestamp_us t = bindR (to_timestamp t) to_us"

section \<open>Entry records\<close>

definition rp_astore :: "'s redis_context \<Rightarrow> queue_entry \<Rightarrow> (unit, 's) prog" where
  "rp_astore X e =
     (if qe_status e = TERMINATED then raise TypeError
      else bindE (lift_result (wire e)) (\<lambda>d s. (Inr (), r_set (rx_server X) (EntryKey (qe_id e)) (VDoc d) s)))"

text \<open>The instant an event expires at while nobody has claimed it, in microseconds.\<close>

definition event_deadline_us :: "queue_entry \<Rightarrow> pynum \<Rightarrow> int result" where
  "event_deadline_us e lifetime = bindR (clock_add (qe_queued_at e) lifetime) timestamp_us"

definition rp_astore_event :: "'s redis_context \<Rightarrow> queue_entry \<Rightarrow> (unit, 's) prog" where
  "rp_astore_event X e =
     (case qe_timeout_seconds e of
        None \<Rightarrow> raise ValueError
      | Some lifetime \<Rightarrow>
          bindE (lift_result (wire e)) (\<lambda>d s.
            bindE (lift_result (event_deadline_us e lifetime))
              (\<lambda>deadline s. (Inr (), r_zadd (rx_server X) UnclaimedDeadlinesKey (qe_id e) deadline s))
              (r_set (rx_server X) (EntryKey (qe_id e)) (VDoc d) s)))"

definition rp_astore_and_push :: "'s redis_context \<Rightarrow> queue_entry \<Rightarrow> (unit, 's) prog" where
  "rp_astore_and_push X e =
     (if qe_status e = TERMINATED then raise TypeError
      else bindE (lift_result (wire e)) (\<lambda>d.
        fcall_unit X (lua_store_and_push (rx_server X) (EntryKey (qe_id e)) PendingKey d (qe_id e))))"

definition rp_astore_and_push_priority :: "'s redis_context \<Rightarrow> queue_entry \<Rightarrow> (unit, 's) prog" where
  "rp_astore_and_push_priority X e =
     (if qe_status e = TERMINATED then raise TypeError
      else bindE (lift_result (validate_redis_priority_magnitude (qe_priority e))) (\<lambda>p.
        bindE (lift_result (wire e)) (\<lambda>d.
          fcall_unit X (lua_store_and_push_priority (rx_server X) (EntryKey (qe_id e)) PriorityKey SequenceKey d (qe_id e)
            (dbl (qe_priority e * PRIORITY_SEQUENCE_SPACE))))))"

definition rp_astore_available ::
    "'s redis_context \<Rightarrow> int \<times> int \<Rightarrow> queue_entry \<Rightarrow> clock_time \<Rightarrow> bool \<Rightarrow> (unit, 's) prog" where
  "rp_astore_available X now e available_at priority =
     (if qe_status e = TERMINATED then raise TypeError
      else bindE (lift_result (if priority then validate_redis_priority_magnitude (qe_priority e) else Inr (qe_priority e))) (\<lambda>_.
        bindE (lift_result (wire e)) (\<lambda>d.
          fcall_unit X (lua_store_available (rx_server X) now (EntryKey (qe_id e)) PendingKey ScheduledKey PriorityKey SequenceKey
            d (qe_id e) (seconds available_at * MICROSECONDS_PER_SECOND + microseconds available_at)
            (dbl (qe_priority e * PRIORITY_SEQUENCE_SPACE)) priority))))"

definition rp_astore_and_discard :: "'s redis_context \<Rightarrow> queue_entry \<Rightarrow> (unit, 's) prog" where
  "rp_astore_and_discard X e =
     bindE (lift_result (wire e)) (\<lambda>d.
       fcall_unit X (lua_store_and_discard (rx_server X) (EntryKey (qe_id e)) PendingKey PriorityKey SequenceKey ScheduledKey
         d (qe_id e)))"

definition rp_astore_event_and_push :: "'s redis_context \<Rightarrow> queue_entry \<Rightarrow> (unit, 's) prog" where
  "rp_astore_event_and_push X e =
     (case qe_timeout_seconds e of
        None \<Rightarrow> raise ValueError
      | Some lifetime \<Rightarrow>
          bindE (lift_result (wire e)) (\<lambda>d.
          bindE (lift_result (event_deadline_us e lifetime)) (\<lambda>deadline.
            fcall_unit X (lua_store_event_and_push (rx_server X) (EntryKey (qe_id e)) UnclaimedDeadlinesKey PendingKey
              d (qe_id e) deadline))))"

definition rp_afind :: "'s redis_context \<Rightarrow> uuid \<Rightarrow> (queue_entry, 's) prog" where
  "rp_afind X i s =
     (case r_get (rx_server X) s (EntryKey i) of
        None \<Rightarrow> (Inl (QueueEntryNotFoundError i), s)
      | Some raw \<Rightarrow> (loads_entry raw, s))"

definition rp_adelete :: "'s redis_context \<Rightarrow> uuid \<Rightarrow> (unit, 's) prog" where
  "rp_adelete X i =
     fcall_unit X (lua_delete (rx_server X) (EntryKey i) PendingKey DelayedKey ClaimDeadlinesKey UnclaimedDeadlinesKey
       (ClaimKey i) PriorityKey SequenceKey ScheduledKey i)"

definition rp_aexpire :: "'s redis_context \<Rightarrow> int \<times> int \<Rightarrow> uuid \<Rightarrow> (bool, 's) prog" where
  "rp_aexpire X now i =
     bindE (fcall X (lua_expire (rx_server X) now (ClaimKey i) (EntryKey i) PendingKey DelayedKey ClaimDeadlinesKey
       UnclaimedDeadlinesKey i)) (\<lambda>n. ok (n \<noteq> 0))"

text \<open>\<open>clocks\<close> are the replies of \<^verbatim>\<open>TIME\<close> inside the successive calls.\<close>

fun expire_each :: "'s redis_context \<Rightarrow> (nat \<Rightarrow> int \<times> int) \<Rightarrow> uuid list \<Rightarrow> uuid list \<Rightarrow> (uuid list, 's) prog" where
  "expire_each X clocks [] expired = ok (rev expired)"
| "expire_each X clocks (i # is) expired =
     bindE (rp_aexpire X (clocks (length is)) i) (\<lambda>gone. expire_each X clocks is (if gone then i # expired else expired))"

definition rp_aexpire_due ::
    "'s redis_context \<Rightarrow> clock_time result \<Rightarrow> (nat \<Rightarrow> int \<times> int) \<Rightarrow> (uuid list, 's) prog" where
  "rp_aexpire_due X now clocks =
     bindE (lift_result (bindR now timestamp_us)) (\<lambda>us s.
       expire_each X clocks (map fst (zrange_by_score (rx_server X) UnclaimedDeadlinesKey us s)) [] s)"

text \<open>\<open>scanned\<close> are the ids of the record keys that \<^verbatim>\<open>SCAN\<close> reported.\<close>

fun load_each :: "'s redis_context \<Rightarrow> 's \<Rightarrow> uuid list \<Rightarrow> queue_entry list result" where
  "load_each X s [] = Inr []"
| "load_each X s (i # is) =
     (case r_get (rx_server X) s (EntryKey i) of
        None \<Rightarrow> load_each X s is
      | Some raw \<Rightarrow> bindR (loads_entry raw) (\<lambda>e. bindR (load_each X s is) (\<lambda>es. Inr (e # es))))"

definition rp_alist :: "'s redis_context \<Rightarrow> uuid list \<Rightarrow> (queue_entry list, 's) prog" where
  "rp_alist X scanned s = (load_each X s scanned, s)"

section \<open>Dispatch order\<close>

definition rp_apush :: "'s redis_context \<Rightarrow> uuid \<Rightarrow> (unit, 's) prog" where
  "rp_apush X i s = (Inr (), r_rpush (rx_server X) PendingKey i s)"

definition rp_apromote_scheduled :: "'s redis_context \<Rightarrow> int \<times> int \<Rightarrow> (unit, 's) prog" where
  "rp_apromote_scheduled X now =
     fcall_unit X (promote_one_scheduled (rx_server X) ScheduledKey EntryKey PendingKey (now_us now))"

definition rp_apromote_scheduled_priority :: "'s redis_context \<Rightarrow> int \<times> int \<Rightarrow> (unit, 's) prog" where
  "rp_apromote_scheduled_priority X now =
     fcall_unit X (promote_one_scheduled_priority (rx_server X) ScheduledKey EntryKey PriorityKey SequenceKey
       PRIORITY_SEQUENCE_SPACE (now_us now))"

definition find_popped :: "'s redis_context \<Rightarrow> uuid option \<Rightarrow> (queue_entry, 's) prog" where
  "find_popped X popped = (case popped of None \<Rightarrow> raise QueueEmptyException | Some i \<Rightarrow> rp_afind X i)"

definition rp_apop :: "'s redis_context \<Rightarrow> (queue_entry, 's) prog" where
  "rp_apop X s =
     (let (popped, s1) = (if rx_stack X then r_rpop (rx_server X) PendingKey s else r_lpop (rx_server X) PendingKey s)
      in find_popped X popped s1)"

definition rp_apop_scheduled :: "'s redis_context \<Rightarrow> int \<times> int \<Rightarrow> (queue_entry, 's) prog" where
  "rp_apop_scheduled X now =
     bindE (fcall X (lua_dequeue (rx_server X) now ScheduledKey EntryKey PendingKey (rx_stack X))) (find_popped X)"

definition rp_apop_scheduled_priority :: "'s redis_context \<Rightarrow> int \<times> int \<Rightarrow> (queue_entry, 's) prog" where
  "rp_apop_scheduled_priority X now =
     bindE (fcall X (lua_dequeue_priority (rx_server X) now ScheduledKey EntryKey PriorityKey SequenceKey
       PRIORITY_SEQUENCE_SPACE)) (find_popped X)"

definition rp_adiscard :: "'s redis_context \<Rightarrow> uuid \<Rightarrow> (unit, 's) prog" where
  "rp_adiscard X i s = (Inr (), r_lrem (rx_server X) PendingKey i s)"

definition rp_adiscard_scheduled :: "'s redis_context \<Rightarrow> uuid \<Rightarrow> (unit, 's) prog" where
  "rp_adiscard_scheduled X i s = (Inr (), r_zrem (rx_server X) ScheduledKey i s)"

definition rp_apush_priority :: "'s redis_context \<Rightarrow> uuid \<Rightarrow> int \<Rightarrow> (unit, 's) prog" where
  "rp_apush_priority X i priority =
     bindE (lift_result (validate_redis_priority_magnitude priority)) (\<lambda>_.
       fcall_unit X (push_priority (rx_server X) PriorityKey SequenceKey (dbl (priority * PRIORITY_SEQUENCE_SPACE)) i))"

definition rp_apop_priority :: "'s redis_context \<Rightarrow> (queue_entry, 's) prog" where
  "rp_apop_priority X =
     bindE (fcall X (lua_pop_priority (rx_server X) PriorityKey SequenceKey)) (find_popped X)"

definition rp_adiscard_priority :: "'s redis_context \<Rightarrow> uuid \<Rightarrow> (unit, 's) prog" where
  "rp_adiscard_priority X i = fcall_unit X (lua_discard_priority (rx_server X) PriorityKey SequenceKey i)"

definition rp_ahas_pending :: "'s redis_context \<Rightarrow> 's \<Rightarrow> bool" where
  "rp_ahas_pending X s \<longleftrightarrow>
     r_list (rx_server X) s PendingKey \<noteq> [] \<or> zcard (rx_server X) DelayedKey s \<noteq> 0 \<or>
     zcard (rx_server X) ScheduledKey s \<noteq> 0 \<or> zcard (rx_server X) PriorityKey s \<noteq> 0"

section \<open>Claims\<close>

text \<open>The lease in microseconds: ten minutes unless one is given.\<close>

definition lease_us :: "pyval \<Rightarrow> int result" where
  "lease_us lease_seconds =
     bindR (if lease_seconds = PNone then Inr (PyFloat (Fin 600)) else validate_budget lease_seconds) to_us"

definition claim_result :: "'s redis_context \<Rightarrow> claim_outcome \<Rightarrow> (queue_entry, 's) prog" where
  "claim_result X outcome s =
     (case outcome of
        ClaimEmpty \<Rightarrow> (Inl QueueEmptyException, s)
      | ClaimConflict i \<Rightarrow> (Inl (QueueClaimConflictError i), s)
      | ClaimExpired i \<Rightarrow> (Inl (QueueEntryExpiredError i), s)
      | Claimed i \<Rightarrow>
          (case rp_afind X i s of
             (Inl (QueueEntryNotFoundError _), s') \<Rightarrow> (Inl (QueueEntryMissingError i), s')
           | r \<Rightarrow> r))"

definition rp_aclaim_with ::
    "'s redis_context \<Rightarrow> bool \<Rightarrow> int \<times> int \<Rightarrow> uuid \<Rightarrow> pyval \<Rightarrow> (queue_entry, 's) prog" where
  "rp_aclaim_with X expire_unclaimed now worker_id lease_seconds =
     bindE (lift_result (lease_us lease_seconds)) (\<lambda>us.
     bindE (fcall X (lua_claim (rx_server X) (rx_cjson X) now PendingKey DelayedKey ClaimKey ClaimDeadlinesKey EntryKey
       UnclaimedDeadlinesKey ScheduledKey worker_id us (rx_stack X) expire_unclaimed)) (claim_result X))"

definition rp_aclaim :: "'s redis_context \<Rightarrow> int \<times> int \<Rightarrow> uuid \<Rightarrow> pyval \<Rightarrow> (queue_entry, 's) prog" where
  "rp_aclaim X = rp_aclaim_with X False"

definition rp_aclaim_unexpired :: "'s redis_context \<Rightarrow> int \<times> int \<Rightarrow> uuid \<Rightarrow> pyval \<Rightarrow> (queue_entry, 's) prog" where
  "rp_aclaim_unexpired X = rp_aclaim_with X True"

definition rp_aclaim_priority_with ::
    "'s redis_context \<Rightarrow> bool \<Rightarrow> int \<times> int \<Rightarrow> uuid \<Rightarrow> pyval \<Rightarrow> (queue_entry, 's) prog" where
  "rp_aclaim_priority_with X expire_unclaimed now worker_id lease_seconds =
     bindE (lift_result (lease_us lease_seconds)) (\<lambda>us.
     bindE (fcall X (lua_claim_priority (rx_server X) (rx_cjson X) now PendingKey DelayedKey ClaimKey ClaimDeadlinesKey EntryKey
       UnclaimedDeadlinesKey PriorityKey SequenceKey ScheduledKey worker_id us (rx_stack X) expire_unclaimed
       PRIORITY_SEQUENCE_SPACE)) (claim_result X))"

definition rp_aclaim_priority :: "'s redis_context \<Rightarrow> int \<times> int \<Rightarrow> uuid \<Rightarrow> pyval \<Rightarrow> (queue_entry, 's) prog" where
  "rp_aclaim_priority X = rp_aclaim_priority_with X False"

definition rp_aclaim_priority_unexpired ::
    "'s redis_context \<Rightarrow> int \<times> int \<Rightarrow> uuid \<Rightarrow> pyval \<Rightarrow> (queue_entry, 's) prog" where
  "rp_aclaim_priority_unexpired X = rp_aclaim_priority_with X True"

definition rp_adequeue :: "'s redis_context \<Rightarrow> int \<times> int \<Rightarrow> (queue_entry, 's) prog" where
  "rp_adequeue X now =
     bindE (fcall X (lua_dequeue_event (rx_server X) now PendingKey DelayedKey ClaimKey ClaimDeadlinesKey EntryKey
       UnclaimedDeadlinesKey (rx_stack X)))
     (\<lambda>raw. case raw of None \<Rightarrow> raise QueueEmptyException | Some v \<Rightarrow> lift_result (loads_entry v))"

definition rp_arenew :: "'s redis_context \<Rightarrow> int \<times> int \<Rightarrow> uuid \<Rightarrow> uuid \<Rightarrow> pyval \<Rightarrow> (bool, 's) prog" where
  "rp_arenew X now i worker_id lease_seconds =
     bindE (lift_result (bindR (validate_budget lease_seconds) to_us)) (\<lambda>us.
     bindE (fcall X (lua_renew (rx_server X) (rx_cjson X) now (ClaimKey i) ClaimDeadlinesKey worker_id us i))
       (\<lambda>n. ok (n \<noteq> 0)))"

definition rp_arelease :: "'s redis_context \<Rightarrow> int \<times> int \<Rightarrow> uuid \<Rightarrow> uuid \<Rightarrow> pyval \<Rightarrow> (bool, 's) prog" where
  "rp_arelease X now i worker_id delay_seconds =
     bindE (lift_result (bindR (validate_budget delay_seconds) to_us)) (\<lambda>us.
     bindE (fcall X (lua_release (rx_server X) now (ClaimKey i) ClaimDeadlinesKey DelayedKey UnclaimedDeadlinesKey worker_id i us))
       (\<lambda>n. ok (n \<noteq> 0)))"

definition rp_arelease_priority :: "'s redis_context \<Rightarrow> int \<times> int \<Rightarrow> uuid \<Rightarrow> uuid \<Rightarrow> pyval \<Rightarrow> (bool, 's) prog" where
  "rp_arelease_priority X now i worker_id delay_seconds =
     bindE (lift_result (validate_budget delay_seconds)) (\<lambda>_.
     bindE (fcall X (lua_release_priority (rx_server X) now (ClaimKey i) ClaimDeadlinesKey UnclaimedDeadlinesKey PriorityKey
       (EntryKey i) SequenceKey worker_id i PRIORITY_SEQUENCE_SPACE)) (\<lambda>n. ok (n \<noteq> 0)))"

definition rp_aremove :: "'s redis_context \<Rightarrow> uuid \<Rightarrow> uuid \<Rightarrow> (bool, 's) prog" where
  "rp_aremove X i worker_id =
     bindE (fcall X (lua_remove (rx_server X) (ClaimKey i) ClaimDeadlinesKey DelayedKey PendingKey (EntryKey i)
       UnclaimedDeadlinesKey worker_id i)) (\<lambda>n. ok (n \<noteq> 0))"

definition rp_aack :: "'s redis_context \<Rightarrow> uuid \<Rightarrow> uuid \<Rightarrow> (bool, 's) prog" where
  "rp_aack X i worker_id =
     bindE (fcall X (lua_ack (rx_server X) (ClaimKey i) ClaimDeadlinesKey worker_id i)) (\<lambda>n. ok (n \<noteq> 0))"

definition rp_amark_running :: "'s redis_context \<Rightarrow> uuid \<Rightarrow> queue_entry \<Rightarrow> (bool, 's) prog" where
  "rp_amark_running X worker_id e =
     bindE (lift_result (wire e)) (\<lambda>d.
     bindE (fcall X (lua_mark_running (rx_server X) (ClaimKey (qe_id e)) (EntryKey (qe_id e)) worker_id d))
       (\<lambda>n. ok (n \<noteq> 0)))"

definition rp_asettle :: "'s redis_context \<Rightarrow> uuid \<Rightarrow> queue_entry \<Rightarrow> (bool, 's) prog" where
  "rp_asettle X worker_id e =
     bindE (lift_result (wire e)) (\<lambda>d.
     bindE (fcall X (lua_settle (rx_server X) (ClaimKey (qe_id e)) ClaimDeadlinesKey (EntryKey (qe_id e)) worker_id (qe_id e) d))
       (\<lambda>n. ok (n \<noteq> 0)))"

definition validate_batch_size :: "pyval \<Rightarrow> nat result" where
  "validate_batch_size batch_size =
     (case is_int batch_size of None \<Rightarrow> Inl ValueError | Some n \<Rightarrow> if n \<le> 0 then Inl ValueError else Inr (nat n))"

definition rp_arecover :: "'s redis_context \<Rightarrow> int \<times> int \<Rightarrow> pyval \<Rightarrow> (int \<times> int, 's) prog" where
  "rp_arecover X now batch_size =
     bindE (lift_result (validate_batch_size batch_size)) (\<lambda>n.
       fcall_prog X (lua_recover (rx_server X) (rx_cjson X) now ClaimDeadlinesKey ClaimKey PendingKey EntryKey
         UnclaimedDeadlinesKey n))"

definition rp_arecover_priority :: "'s redis_context \<Rightarrow> int \<times> int \<Rightarrow> pyval \<Rightarrow> (int \<times> int, 's) prog" where
  "rp_arecover_priority X now batch_size =
     bindE (lift_result (validate_batch_size batch_size)) (\<lambda>n.
       fcall_prog X (lua_recover_priority (rx_server X) (rx_cjson X) now ClaimDeadlinesKey ClaimKey EntryKey
         UnclaimedDeadlinesKey PriorityKey SequenceKey n PRIORITY_SEQUENCE_SPACE))"

definition rp_aprune :: "'s redis_context \<Rightarrow> uuid \<Rightarrow> (queue_entry, 's) prog" where
  "rp_aprune X i =
     bindE (rp_afind X i) (\<lambda>e.
       if TERMINATED \<notin> next_state (qe_status e) then raise ValueError
       else bindE (fcall X (lua_prune (rx_server X) (EntryKey i) PendingKey i)) (\<lambda>outcome.
         case outcome of
           PruneMissing \<Rightarrow> raise (QueueEntryNotFoundError i)
         | PruneNonTerminal \<Rightarrow> raise ValueError
         | Pruned d \<Rightarrow> lift_result (from_dict d)))"

section \<open>Notifications\<close>

text \<open>The result of storing is the document every connected receiver is sent.\<close>

definition rp_astore_notification ::
    "'s redis_context \<Rightarrow> int \<times> int \<Rightarrow> queue_entry \<Rightarrow> ((string, pyval) pydict, 's) prog" where
  "rp_astore_notification X now e =
     (case qe_timeout_seconds e of
        None \<Rightarrow> raise ValueError
      | Some lifetime \<Rightarrow>
          bindE (lift_result (wire e)) (\<lambda>d.
          bindE (lift_result (to_us lifetime)) (\<lambda>us.
            fcall X (lua_notification_store (rx_server X) now (NotificationKey (qe_id e)) NotificationDeadlinesKey d (qe_id e) us))))"

definition rp_aget_notification :: "'s redis_context \<Rightarrow> uuid \<Rightarrow> (queue_entry, 's) prog" where
  "rp_aget_notification X i =
     bindE (fcall X (\<lambda>s. (lua_notification_get (rx_server X) (NotificationLeaseKey i) (NotificationKey i) s, s)))
       (\<lambda>raw. case raw of None \<Rightarrow> raise (QueueEntryNotFoundError i) | Some v \<Rightarrow> lift_result (loads_entry v))"

definition rp_ahas_notification :: "'s redis_context \<Rightarrow> 's \<Rightarrow> bool" where
  "rp_ahas_notification X s \<longleftrightarrow> zcard (rx_server X) NotificationDeadlinesKey s \<noteq> 0"

definition rp_aexpire_due_notifications :: "'s redis_context \<Rightarrow> int \<times> int \<Rightarrow> (uuid list, 's) prog" where
  "rp_aexpire_due_notifications X now =
     bindE (fcall X (lua_notification_expire (rx_server X) now NotificationDeadlinesKey NotificationLeaseKey NotificationKey))
       (\<lambda>r. ok (case r of None \<Rightarrow> [] | Some i \<Rightarrow> [i]))"

definition rp_aclear_notifications :: "'s redis_context \<Rightarrow> (unit, 's) prog" where
  "rp_aclear_notifications X =
     fcall_unit X (lua_notification_clear (rx_server X) NotificationDeadlinesKey NotificationLeaseKey NotificationKey)"

end
