(* ===== verification/Redis_Protocol.thy ===== *)
theory Redis_Protocol
  imports Redis_Provider
begin

text \<open>
  The claim protocol of the Redis backend: what each function of the library does to the places
  an entry can be in, who may change a claimed entry, and an invariant of all the states that
  producers, workers and recovery can reach together, for queues and stacks.
\<close>

section \<open>Where an entry is\<close>

definition entry_status :: "'s redis \<Rightarrow> 's \<Rightarrow> uuid \<Rightarrow> QueueEntryStatus option" where
  "entry_status R s i = Option.bind (decode_document (r_get R s (EntryKey i))) doc_status"

definition in_zset :: "'s redis \<Rightarrow> 's \<Rightarrow> rkey \<Rightarrow> uuid \<Rightarrow> nat" where
  "in_zset R s k i = (if r_zscore R s k i = None then 0 else 1)"

definition is_claimed :: "'s redis \<Rightarrow> 's \<Rightarrow> uuid \<Rightarrow> nat" where
  "is_claimed R s i = (if r_get R s (ClaimKey i) = None then 0 else 1)"

definition places :: "'s redis \<Rightarrow> 's \<Rightarrow> uuid \<Rightarrow> nat" where
  "places R s i =
     count_list (r_list R s PendingKey) i + in_zset R s DelayedKey i + in_zset R s ScheduledKey i + is_claimed R s i"

text \<open>
  No entry is in two places; one that still has to be worked on is in exactly one; a running one
  is claimed; and the index of lease deadlines lists exactly the claims.
\<close>

definition place_inv :: "'s redis \<Rightarrow> 's \<Rightarrow> uuid \<Rightarrow> bool" where
  "place_inv R s i \<longleftrightarrow>
     places R s i \<le> 1 \<and>
     (entry_status R s i \<in> {Some QUEUED, Some RUNNING} \<longrightarrow> places R s i = 1) \<and>
     (entry_status R s i = Some RUNNING \<longrightarrow> r_get R s (ClaimKey i) \<noteq> None) \<and>
     (r_get R s (ClaimKey i) = None \<longleftrightarrow> r_zscore R s ClaimDeadlinesKey i = None) \<and>
     (\<forall>v. r_get R s (ClaimKey i) = Some v \<longrightarrow> (\<exists>c d. v = VClaim c \<and> cl_lease_deadline c = Some d))"

definition proto_inv :: "'s redis \<Rightarrow> 's \<Rightarrow> bool" where
  "proto_inv R s \<longleftrightarrow> (\<forall>i. place_inv R s i)"

lemmas place_defs = place_inv_def places_def in_zset_def is_claimed_def entry_status_def

lemma doc_is_status: "doc_is (r_get R s (EntryKey i)) st \<longleftrightarrow> entry_status R s i = Some st"
  by (auto simp: doc_is_def entry_status_def split: option.splits bind_splits)

lemma place_inv_cong:
  assumes "r_get R s' (EntryKey i) = r_get R s (EntryKey i)" "r_get R s' (ClaimKey i) = r_get R s (ClaimKey i)"
    "count_list (r_list R s' PendingKey) i + in_zset R s' DelayedKey i + in_zset R s' ScheduledKey i =
     count_list (r_list R s PendingKey) i + in_zset R s DelayedKey i + in_zset R s ScheduledKey i"
    "r_zscore R s' ClaimDeadlinesKey i = r_zscore R s ClaimDeadlinesKey i"
  shows "place_inv R s' i = place_inv R s i"
  using assms by (simp add: place_inv_def places_def is_claimed_def entry_status_def)

text \<open>A script that touches one id only: the others keep their places.\<close>

definition only_touches :: "'s redis \<Rightarrow> uuid \<Rightarrow> 's \<Rightarrow> 's \<Rightarrow> bool" where
  "only_touches R i s s' \<longleftrightarrow>
     (\<forall>j. j \<noteq> i \<longrightarrow> r_get R s' (EntryKey j) = r_get R s (EntryKey j) \<and> r_get R s' (ClaimKey j) = r_get R s (ClaimKey j) \<and>
       count_list (r_list R s' PendingKey) j = count_list (r_list R s PendingKey) j \<and>
       (\<forall>k. r_zscore R s' k j = r_zscore R s k j))"

text \<open>
  What the JSON codec of the server is relied on for: a document keeps its status, and a plain
  document (finite numbers, nested at most 1000 deep) can be encoded. A record whose requeued
  document can be encoded is \<open>encodable\<close>.
\<close>

definition keeps_status :: "cjson \<Rightarrow> bool" where
  "keeps_status cj \<longleftrightarrow> (\<forall>d d'. cj_document cj d = Some d' \<longrightarrow> doc_status d' = doc_status d)"

definition encodes_plain :: "cjson \<Rightarrow> bool" where
  "encodes_plain cj \<longleftrightarrow> (\<forall>d. document_plain d \<longrightarrow> cj_document cj d \<noteq> None)"

definition encodable :: "'s redis \<Rightarrow> cjson \<Rightarrow> 's \<Rightarrow> uuid \<Rightarrow> bool" where
  "encodable R cj s i \<longleftrightarrow>
     (\<forall>d. decode_document (r_get R s (EntryKey i)) = Some d \<longrightarrow> cj_document cj (requeued_document d) \<noteq> None)"

lemma document_plain_set: "document_plain d \<Longrightarrow> plain_value 999 v \<Longrightarrow> document_plain (dict_set k v d)"
  by (induction d) (auto simp: document_plain_def)

lemma requeued_plain: "document_plain d \<Longrightarrow> document_plain (requeued_document d)"
  by (simp add: requeued_document_def document_plain_set)

lemma plain_encodable:
  "encodes_plain cj \<Longrightarrow> (\<And>d. decode_document (r_get R s (EntryKey i)) = Some d \<Longrightarrow> document_plain d) \<Longrightarrow> encodable R cj s i"
  by (simp add: encodable_def encodes_plain_def requeued_plain)

lemma exact_encodes: "encodes_plain exact_cjson"
  by (simp add: encodes_plain_def exact_cjson_def)

lemma exact_keeps_status: "keeps_status exact_cjson"
  by (simp add: keeps_status_def exact_cjson_def)

lemma requeued_status [simp]: "doc_status (requeued_document d) = Some QUEUED"
  by (simp add: requeued_document_def doc_status_def status_of_value_def)

text \<open>The lease on an id: its owner and the end of the lease, as the claim record has them.\<close>

definition lease_of :: "'s redis \<Rightarrow> 's \<Rightarrow> uuid \<Rightarrow> (uuid \<times> int option) option" where
  "lease_of R s i = map_option (\<lambda>c. (cl_worker_id c, cl_lease_deadline c)) (decode_claim (r_get R s (ClaimKey i)))"

text \<open>What recovery at time \<open>t\<close> may do to a claim, and what it did to an entry whose lease was over.\<close>

definition lease_kept :: "'s redis \<Rightarrow> int \<Rightarrow> 's \<Rightarrow> 's \<Rightarrow> uuid \<Rightarrow> bool" where
  "lease_kept R t s s' i \<longleftrightarrow>
     lease_of R s' i = lease_of R s i \<or>
     lease_of R s' i = None \<and> (\<exists>w d. lease_of R s i = Some (w, Some d) \<and> d \<le> t)"

definition put_back :: "'s redis \<Rightarrow> int \<Rightarrow> 's \<Rightarrow> 's \<Rightarrow> uuid \<Rightarrow> bool" where
  "put_back R t s s' i \<longleftrightarrow>
     (\<forall>w d. lease_of R s i = Some (w, Some d) \<longrightarrow> d \<le> t \<longrightarrow>
        lease_of R s' i = None \<and>
        (entry_status R s i \<in> {Some QUEUED, Some RUNNING} \<longrightarrow>
           entry_status R s' i = Some QUEUED \<and> i \<in> set (r_list R s' PendingKey)))"

definition same_at :: "'s redis \<Rightarrow> 's \<Rightarrow> 's \<Rightarrow> uuid \<Rightarrow> bool" where
  "same_at R s s' j \<longleftrightarrow>
     lease_of R s' j = lease_of R s j \<and> entry_status R s' j = entry_status R s j \<and>
     (j \<in> set (r_list R s' PendingKey) \<longleftrightarrow> j \<in> set (r_list R s PendingKey))"

context redis_server
begin

section \<open>Moving ids between lists and sets\<close>

lemma release_fold:
  fixes ds :: "(uuid \<times> int) list" and pk dk :: rkey
  defines "f \<equiv> \<lambda>(i, _) s. r_zrem R dk i (r_rpush R pk i s)"
  shows "r_get R (fold f ds s) = r_get R s"
    and "r_list R (fold f ds s) k = (if k = pk then r_list R s k @ map fst ds else r_list R s k)"
    and "r_zscore R (fold f ds s) k i = (if k = dk \<and> i \<in> fst ` set ds then None else r_zscore R s k i)"
  by (induction ds arbitrary: s) (auto simp: f_def split: prod.splits)

lemma release_delayed_effect:
  fixes s and dk :: rkey and now :: int
  defines "ds \<equiv> map fst (zrange_by_score R dk now s)"
  shows "r_get R (release_delayed R pk dk now s) = r_get R s"
    and "r_list R (release_delayed R pk dk now s) k = (if k = pk then r_list R s k @ ds else r_list R s k)"
    and "r_zscore R (release_delayed R pk dk now s) k i = (if k = dk \<and> i \<in> set ds then None else r_zscore R s k i)"
    and "distinct ds" and "\<And>i. i \<in> set ds \<Longrightarrow> r_zscore R s dk i \<noteq> None"
proof -
  show "distinct ds"
    using zrange_distinct[of s dk] by (simp add: ds_def zrange_by_score_def distinct_map_filter)
  show "\<And>i. i \<in> set ds \<Longrightarrow> r_zscore R s dk i \<noteq> None"
    by (auto simp: ds_def zrange_by_score_iff)
qed (simp_all add: release_delayed_def release_fold ds_def)

lemma release_delayed_place:
  "place_inv R (release_delayed R PendingKey DelayedKey now s) i = place_inv R s i"
proof (rule place_inv_cong)
  let ?ds = "map fst (zrange_by_score R DelayedKey now s)"
  have "count_list ?ds i = (if i \<in> set ?ds then 1 else 0)"
    using release_delayed_effect(4) by (rule count_list_distinct)
  then show "count_list (r_list R (release_delayed R PendingKey DelayedKey now s) PendingKey) i +
      in_zset R (release_delayed R PendingKey DelayedKey now s) DelayedKey i +
      in_zset R (release_delayed R PendingKey DelayedKey now s) ScheduledKey i =
      count_list (r_list R s PendingKey) i + in_zset R s DelayedKey i + in_zset R s ScheduledKey i"
    using release_delayed_effect(5)[of i DelayedKey now s]
    by (simp add: release_delayed_effect(2,3) in_zset_def)
qed (simp_all add: release_delayed_effect(1,3))

text \<open>Promotion: the first queued id of the group becomes pending; it and those before it leave the schedule.\<close>

lemma promote_group_effect:
  fixes s and ek :: "uuid \<Rightarrow> rkey"
  defines "q \<equiv> \<lambda>i. doc_is (r_get R s (ek i)) QUEUED"
  shows "r_get R (promote_group R sk ek pk is s) = r_get R s"
    and "r_list R (promote_group R sk ek pk is s) k =
      (if k = pk then r_list R s k @ (case find q is of None \<Rightarrow> [] | Some j \<Rightarrow> [j]) else r_list R s k)"
    and "r_zscore R (promote_group R sk ek pk is s) k j =
      (if k = sk \<and> (j \<in> set (takeWhile (\<lambda>i. \<not> q i) is) \<or> find q is = Some j) then None else r_zscore R s k j)"
  unfolding q_def by (induction "is" arbitrary: s) (auto simp: doc_is_def)

lemma earliest_group_scheduled: "i \<in> set (earliest_group R k now s) \<Longrightarrow> r_zscore R s k i \<noteq> None"
  by (auto simp: earliest_group_def zrange_scores split: list.splits)

lemma promote_place:
  assumes "place_inv R s i"
  shows "place_inv R (promote_one_scheduled R ScheduledKey EntryKey PendingKey now s) i"
proof -
  let ?is = "earliest_group R ScheduledKey now s" and ?q = "\<lambda>i. entry_status R s i = Some QUEUED"
  let ?s' = "promote_one_scheduled R ScheduledKey EntryKey PendingKey now s"
  have out: "r_zscore R s ScheduledKey i \<noteq> None" if "i \<in> set ?is" using earliest_group_scheduled[OF that] .
  have sched: "i \<in> set (takeWhile (\<lambda>i. \<not> ?q i) ?is) \<Longrightarrow> i \<in> set ?is \<and> \<not> ?q i" by (auto dest: set_takeWhileD)
  have found: "find ?q ?is = Some j \<Longrightarrow> j \<in> set ?is \<and> ?q j" for j by (auto simp: find_Some_iff)
  note eff = promote_one_scheduled_def promote_group_effect doc_is_status
  have st: "entry_status R ?s' i = entry_status R s i" by (simp add: entry_status_def eff)
  note defs = place_inv_def places_def in_zset_def is_claimed_def
  show ?thesis
  proof (cases "find ?q ?is = Some i")
    case True
    then show ?thesis using assms out found[OF True]
      unfolding defs st by (auto simp: eff split: if_splits)
  next
    case False
    then have "count_list (case find ?q ?is of None \<Rightarrow> [] | Some j \<Rightarrow> [j]) i = 0" by (auto split: option.splits)
    then show ?thesis using assms out sched False
      unfolding defs st by (auto simp: eff split: if_splits)
  qed
qed

section \<open>What each script does to the places\<close>

lemma pop_pending_effect:
  assumes "pop_pending R k stack s = (p, s1)"
  shows "r_get R s1 = r_get R s" "r_zscore R s1 = r_zscore R s"
    and "k' \<noteq> k \<Longrightarrow> r_list R s1 k' = r_list R s k'"
    and "count_list (r_list R s k) j = count_list (r_list R s1 k) j + (if p = Some j then 1 else 0)"
proof -
  have s1: "s1 = (if stack then snd (r_rpop R k s) else snd (r_lpop R k s))"
    and p: "p = (if stack then fst (r_rpop R k s) else fst (r_lpop R k s))"
    using arg_cong[OF assms, of snd] arg_cong[OF assms, of fst]
    by (simp_all only: pop_pending_def fst_conv snd_conv if_distrib[of snd] if_distrib[of fst])
  show "r_get R s1 = r_get R s" "r_zscore R s1 = r_zscore R s" "k' \<noteq> k \<Longrightarrow> r_list R s1 k' = r_list R s k'"
    by (simp_all add: s1)
  show "count_list (r_list R s k) j = count_list (r_list R s1 k) j + (if p = Some j then 1 else 0)"
  proof (cases "r_list R s k" rule: rev_cases)
    case (snoc xs x)
    then show ?thesis by (cases xs) (auto simp: s1 p)
  qed (simp add: s1 p)
qed

lemma claim_effect:
  assumes inv: "proto_inv R s"
    and run: "lua_claim R cj now PendingKey DelayedKey ClaimKey ClaimDeadlinesKey EntryKey UnclaimedDeadlinesKey ScheduledKey
      w us stack False s = (out, s')"
  shows "proto_inv R s' \<and>
    (case out of
       ClaimEmpty \<Rightarrow> \<forall>k. r_get R s' k = r_get R s k
     | Claimed i \<Rightarrow> r_get R s (ClaimKey i) = None \<and>
         r_get R s' = (r_get R s)(ClaimKey i \<mapsto> VClaim (new_claim cj now w (now_us now + us) None))
     | _ \<Rightarrow> False)"
proof -
  let ?s1 = "promote_one_scheduled R ScheduledKey EntryKey PendingKey (now_us now) s"
  let ?s2 = "release_delayed R PendingKey DelayedKey (now_us now) ?s1"
  have inv2: "place_inv R ?s2 i" for i
    using inv by (simp add: proto_inv_def release_delayed_place promote_place)
  have get2: "r_get R ?s2 = r_get R s"
    by (simp add: release_delayed_effect promote_one_scheduled_def promote_group_effect)
  obtain p s3 where pop: "pop_pending R PendingKey stack ?s2 = (p, s3)" by fastforce
  note eff = pop_pending_effect[OF pop]
  show ?thesis
  proof (cases p)
    case None
    then have "s' = s3" "out = ClaimEmpty" using run pop by (auto simp: lua_claim_def)
    moreover have "place_inv R s3 i" for i
      using inv2[of i] by (subst place_inv_cong[of _ _ _ ?s2]) (use eff(4)[of i] None in \<open>simp_all add: eff in_zset_def\<close>)
    ultimately show ?thesis by (simp add: proto_inv_def eff get2)
  next
    case (Some i)
    let ?c = "VClaim (new_claim cj now w (now_us now + us) None)"
    let ?nx = "r_set_nx R (ClaimKey i) ?c s3"
    have "count_list (r_list R ?s2 PendingKey) i > 0" using eff(4)[of i] Some by simp
    then have free: "r_get R s (ClaimKey i) = None" "count_list (r_list R s3 PendingKey) i = 0"
        "r_zscore R ?s2 DelayedKey i = None" "r_zscore R ?s2 ScheduledKey i = None"
      using inv2[of i] eff(4)[of i] Some by (auto simp: place_inv_def places_def is_claimed_def in_zset_def get2 split: if_splits)
    have out: "out = Claimed i" "s' = r_zadd R ClaimDeadlinesKey i (now_us now + us) (snd ?nx)"
      using run pop Some free(1) by (auto simp: lua_claim_def claim_popped_def Let_def case_prod_unfold eff get2)
    have "place_inv R s' j" for j
    proof (cases "j = i")
      case True
      then show ?thesis using inv2[of i] free
        by (auto simp: out(2) eff get2 place_defs new_claim_def)
    next
      case False
      then show ?thesis using inv2[of j]
        by (subst place_inv_cong[of _ _ _ ?s2]) (use eff(4)[of j] Some in \<open>simp_all add: out(2) eff in_zset_def\<close>)
    qed
    then show ?thesis by (auto simp: proto_inv_def out eff get2 free(1) fun_eq_iff)
  qed
qed

lemma proto_invI: "(\<And>i. place_inv R s i) \<Longrightarrow> proto_inv R s"
  by (simp add: proto_inv_def)

lemma proto_invD: "proto_inv R s \<Longrightarrow> place_inv R s i"
  by (simp add: proto_inv_def)

lemma only_touches_inv: "only_touches R i s s' \<Longrightarrow> proto_inv R s \<Longrightarrow> place_inv R s' i \<Longrightarrow> proto_inv R s'"
  unfolding only_touches_def proto_inv_def
  by (metis place_inv_cong in_zset_def)

lemma count_list_filter_neq: "j \<noteq> i \<Longrightarrow> count_list (filter (\<lambda>x. x \<noteq> i) xs) j = count_list xs j"
  "count_list (filter (\<lambda>x. x \<noteq> i) xs) i = 0"
  by (induction xs) auto

lemma owned_by_Some: "owned_by v w = Some c \<longleftrightarrow> v = Some (VClaim c) \<and> cl_worker_id c = w"
  by (cases "(v)" rule: decode_claim.cases) (auto simp: owned_by_def)

lemma restore_state [simp]:
  "r_get R (restore_unclaimed R k n c i s) = r_get R s"
  "r_list R (restore_unclaimed R k n c i s) = r_list R s"
  "k' \<noteq> k \<or> j \<noteq> i \<Longrightarrow> r_zscore R (restore_unclaimed R k n c i s) k' j = r_zscore R s k' j"
  by (auto simp: restore_unclaimed_def split: option.splits)

lemma reset_state [simp]:
  "k' \<noteq> sk \<Longrightarrow> r_get R (reset_sequence R pk sk s) k' = r_get R s k'"
  "r_list R (reset_sequence R pk sk s) = r_list R s"
  "r_zscore R (reset_sequence R pk sk s) = r_zscore R s"
  by (simp_all add: reset_sequence_def)

lemma store_and_push_inv:
  assumes "proto_inv R s" "places R s i = 0" "doc_status d \<noteq> Some RUNNING"
  shows "proto_inv R (lua_store_and_push R (EntryKey i) PendingKey d i s)"
  by (rule only_touches_inv[OF _ assms(1), of i])
    (use proto_invD[OF assms(1), of i] assms(2,3) in \<open>auto simp: lua_store_and_push_def only_touches_def place_defs split: if_splits\<close>)

lemma store_available_inv:
  assumes "proto_inv R s" "places R s i = 0" "doc_status d \<noteq> Some RUNNING"
  shows "proto_inv R (lua_store_available R now (EntryKey i) PendingKey ScheduledKey pk sk d i t b False s)"
  by (rule only_touches_inv[OF _ assms(1), of i])
    (use proto_invD[OF assms(1), of i] assms(2,3) in \<open>auto simp: lua_store_available_def Let_def only_touches_def place_defs split: if_splits\<close>)

lemma store_and_discard_inv:
  assumes "proto_inv R s" "doc_status d \<notin> {Some QUEUED, Some RUNNING}"
  shows "proto_inv R (lua_store_and_discard R (EntryKey i) PendingKey PriorityKey SequenceKey ScheduledKey d i s)"
  by (rule only_touches_inv[OF _ assms(1), of i])
    (use proto_invD[OF assms(1), of i] assms(2) in
      \<open>auto simp: lua_store_and_discard_def only_touches_def place_defs count_list_filter_neq split: if_splits\<close>)

lemma renew_inv:
  assumes "proto_inv R s"
  shows "proto_inv R (snd (lua_renew R cj now (ClaimKey i) ClaimDeadlinesKey w us i s))"
  by (rule only_touches_inv[OF _ assms, of i])
    (use proto_invD[OF assms, of i] in
      \<open>auto simp: lua_renew_def Let_def only_touches_def place_defs owned_by_Some split: option.splits if_splits\<close>)

lemma release_inv:
  assumes "proto_inv R s" "entry_status R s i \<noteq> Some RUNNING"
  shows "proto_inv R (snd (lua_release R now (ClaimKey i) ClaimDeadlinesKey DelayedKey UnclaimedDeadlinesKey w i us s))"
  by (rule only_touches_inv[OF _ assms(1), of i])
    (use proto_invD[OF assms(1), of i] assms(2) in
      \<open>auto simp: lua_release_def only_touches_def place_defs owned_by_Some split: option.splits if_splits\<close>)

lemma ack_inv:
  assumes "proto_inv R s" "entry_status R s i \<notin> {Some QUEUED, Some RUNNING}"
  shows "proto_inv R (snd (lua_ack R (ClaimKey i) ClaimDeadlinesKey w i s))"
  by (rule only_touches_inv[OF _ assms(1), of i])
    (use proto_invD[OF assms(1), of i] assms(2) in
      \<open>auto simp: lua_ack_def only_touches_def place_defs owned_by_Some split: option.splits if_splits\<close>)

lemma mark_running_inv:
  assumes "proto_inv R s"
  shows "proto_inv R (snd (lua_mark_running R (ClaimKey i) (EntryKey i) w d s))"
  by (rule only_touches_inv[OF _ assms(1), of i])
    (use proto_invD[OF assms(1), of i] in
      \<open>auto simp: lua_mark_running_def only_touches_def place_defs owned_by_Some split: option.splits if_splits\<close>)

lemma settle_inv:
  assumes "proto_inv R s" "doc_status d \<notin> {Some QUEUED, Some RUNNING}"
  shows "proto_inv R (snd (lua_settle R (ClaimKey i) ClaimDeadlinesKey (EntryKey i) w i d s))"
  by (rule only_touches_inv[OF _ assms(1), of i])
    (use proto_invD[OF assms(1), of i] assms(2) in
      \<open>auto simp: lua_settle_def only_touches_def place_defs owned_by_Some split: option.splits if_splits\<close>)

lemma prune_inv:
  assumes "proto_inv R s"
  shows "proto_inv R (snd (lua_prune R (EntryKey i) PendingKey i s))"
  by (rule only_touches_inv[OF _ assms(1), of i])
    (use proto_invD[OF assms(1), of i] in
      \<open>auto simp: lua_prune_def Let_def case_prod_unfold only_touches_def place_defs count_list_filter_neq split: option.splits if_splits\<close>)

lemma giving_up_claims:
  "r_get R (snd (lua_release R now (ClaimKey i) claims_key delayed_key unclaimed_key w i us s)) (ClaimKey j) =
     (if j = i \<and> owned_by (r_get R s (ClaimKey i)) w \<noteq> None then None else r_get R s (ClaimKey j))"
  "r_get R (snd (lua_ack R (ClaimKey i) claims_key w i s)) (ClaimKey j) =
     (if j = i \<and> owned_by (r_get R s (ClaimKey i)) w \<noteq> None then None else r_get R s (ClaimKey j))"
  "r_get R (snd (lua_settle R (ClaimKey i) claims_key (EntryKey i) w i d s)) (ClaimKey j) =
     (if j = i \<and> owned_by (r_get R s (ClaimKey i)) w \<noteq> None \<and> doc_is (r_get R s (EntryKey i)) RUNNING then None
      else r_get R s (ClaimKey j))"
  by (auto simp: lua_release_def lua_ack_def lua_settle_def split: option.splits)

lemma other_scripts_claims:
  "r_get R (lua_store_and_push R (EntryKey i) pk d i s) (ClaimKey j) = r_get R s (ClaimKey j)"
  "r_get R (lua_store_available R now (EntryKey i) pk sk prk SequenceKey d i t b p s) (ClaimKey j) = r_get R s (ClaimKey j)"
  "r_get R (lua_store_and_discard R (EntryKey i) pk prk SequenceKey sk d i s) (ClaimKey j) = r_get R s (ClaimKey j)"
  "r_get R (snd (lua_mark_running R (ClaimKey i) (EntryKey i) w d s)) (ClaimKey j) = r_get R s (ClaimKey j)"
  "r_get R (snd (lua_prune R (EntryKey i) pk i s)) (ClaimKey j) = r_get R s (ClaimKey j)"
  by (auto simp: lua_store_and_push_def lua_store_available_def lua_store_and_discard_def lua_mark_running_def lua_prune_def
      push_priority_def Let_def case_prod_unfold split: option.splits)

section \<open>Recovery\<close>

abbreviation recover_at :: "cjson \<Rightarrow> int \<Rightarrow> uuid \<Rightarrow> (int \<times> int, 's) prog" where
  "recover_at cj t \<equiv> recover_one R cj t ClaimDeadlinesKey ClaimKey EntryKey UnclaimedDeadlinesKey (\<lambda>_ i. r_rpush R PendingKey i)"

lemma claimed_shape:
  assumes "proto_inv R s" "r_zscore R s ClaimDeadlinesKey i \<noteq> None"
  obtains c d where "r_get R s (ClaimKey i) = Some (VClaim c)" "cl_lease_deadline c = Some d"
    "count_list (r_list R s PendingKey) i = 0" "r_zscore R s DelayedKey i = None" "r_zscore R s ScheduledKey i = None"
  using proto_invD[OF assms(1), of i] assms(2) by (auto simp: place_inv_def places_def is_claimed_def in_zset_def split: if_splits)

lemma recover_one_effect:
  assumes inv: "proto_inv R s" and cl: "r_zscore R s ClaimDeadlinesKey i \<noteq> None"
    and run: "recover_at cj t i s = (r, s')" and cj: "keeps_status cj"
  shows "proto_inv R s'" "only_touches R i s s'" "lease_kept R t s s' i"
    and "encodable R cj s i \<Longrightarrow> (\<exists>n. r = Inr n) \<and> put_back R t s s' i"
proof -
  obtain c d where c: "r_get R s (ClaimKey i) = Some (VClaim c)" "cl_lease_deadline c = Some d"
    "count_list (r_list R s PendingKey) i = 0" "r_zscore R s DelayedKey i = None" "r_zscore R s ScheduledKey i = None"
    using claimed_shape[OF inv cl] .
  show touch: "only_touches R i s s'"
    using run c by (auto simp: recover_one_def recover_due_def Let_def only_touches_def split: if_splits option.splits)
  have "place_inv R s' i"
    using run c proto_invD[OF inv, of i] cj
    by (auto simp: recover_one_def recover_due_def Let_def place_defs keeps_status_def split: if_splits option.splits)
  then show "proto_inv R s'" by (rule only_touches_inv[OF touch inv])
  show "lease_kept R t s s' i"
    using run c by (auto simp: recover_one_def recover_due_def Let_def lease_kept_def lease_of_def split: if_splits option.splits)
  show "(\<exists>n. r = Inr n) \<and> put_back R t s s' i" if "encodable R cj s i"
    using run c cj that
    by (auto simp: encodable_def recover_one_def recover_due_def Let_def put_back_def lease_of_def entry_status_def keeps_status_def
        split: if_splits option.splits)
qed

lemma set_count_list: "j \<in> set xs \<longleftrightarrow> count_list xs j \<noteq> 0"
  by (simp add: count_list_0_iff)

lemma only_touches_keeps: "only_touches R i s s' \<Longrightarrow> j \<noteq> i \<Longrightarrow> same_at R s s' j"
  by (simp add: only_touches_def same_at_def lease_of_def entry_status_def set_count_list)

lemma recover_each_effect:
  assumes "proto_inv R s" "distinct is" "\<forall>i \<in> set is. r_zscore R s ClaimDeadlinesKey i \<noteq> None"
    and "recover_each (recover_at cj t) is n s = (r, s')" and "keeps_status cj"
  shows "proto_inv R s' \<and> (\<forall>j. lease_kept R t s s' j) \<and> (\<forall>j. j \<notin> set is \<longrightarrow> same_at R s s' j) \<and>
    ((\<forall>j \<in> set is. encodable R cj s j) \<longrightarrow> (\<exists>m. r = Inr m) \<and> (\<forall>j \<in> set is. put_back R t s s' j))"
  using assms(1-4)
proof (induction "is" arbitrary: s n)
  case Nil
  then show ?case by (auto simp: lease_kept_def same_at_def)
next
  case (Cons i "is")
  obtain r1 s1 where one: "recover_at cj t i s = (r1, s1)" by fastforce
  have z: "r_zscore R s ClaimDeadlinesKey i \<noteq> None" using Cons.prems by simp
  note eff = recover_one_effect[OF Cons.prems(1) z one assms(5)]
  have same1: "same_at R s s1 j" if "j \<noteq> i" for j using only_touches_keeps[OF eff(2) that] .
  have kept1: "lease_kept R t s s1 j" for j
    using same1[of j] eff(3) by (cases "j = i") (auto simp: lease_kept_def same_at_def)
  show ?case
  proof (cases r1)
    case (Inl e)
    then have "r = Inl e" "s' = s1" using Cons.prems(4) one by (auto simp: bindE_def)
    then show ?thesis using eff same1 kept1 Inl by auto
  next
    case (Inr m)
    then obtain m' where rest: "recover_each (recover_at cj t) is m' s1 = (r, s')"
      using Cons.prems(4) one by (auto simp: bindE_def split: prod.splits)
    have "\<forall>j \<in> set is. r_zscore R s1 ClaimDeadlinesKey j \<noteq> None"
      using Cons.prems(2,3) eff(2) by (auto simp: only_touches_def)
    from Cons.IH[OF eff(1) _ this rest] Cons.prems(2)
    have ih: "proto_inv R s'" "\<And>j. lease_kept R t s1 s' j" "\<And>j. j \<notin> set is \<Longrightarrow> same_at R s1 s' j" "i \<notin> set is"
      "(\<forall>j \<in> set is. encodable R cj s1 j) \<longrightarrow> (\<exists>m. r = Inr m) \<and> (\<forall>j \<in> set is. put_back R t s1 s' j)" by auto
    have enc: "encodable R cj s1 j" if "j \<in> set is" "encodable R cj s j" for j
      using that eff(2) ih(4) by (auto simp: encodable_def only_touches_def)
    have "lease_kept R t s s' j" for j
      using kept1[of j] ih(2)[of j] unfolding lease_kept_def by metis
    moreover have "same_at R s s' j" if "j \<notin> set (i # is)" for j
      using same1[of j] ih(3)[of j] that by (simp add: same_at_def)
    moreover have "put_back R t s s' j" if "j \<in> set (i # is)" "\<forall>j \<in> set (i # is). encodable R cj s j" for j
      using eff(4) that ih(3)[of i] ih(4,5) same1[of j] enc by (cases "j = i") (auto simp: put_back_def same_at_def)
    ultimately show ?thesis using ih(1,5) enc by simp
  qed
qed

lemma recover_effect:
  assumes "proto_inv R s" "keeps_status cj"
    and "lua_recover R cj now ClaimDeadlinesKey ClaimKey PendingKey EntryKey UnclaimedDeadlinesKey m s = (r, s')"
  shows "proto_inv R s'" "lease_kept R (now_us now) s s' j"
    and "(\<And>i sc. r_zscore R s ClaimDeadlinesKey i = Some sc \<Longrightarrow> sc \<le> now_us now \<Longrightarrow> encodable R cj s i) \<Longrightarrow>
      (\<exists>n. r = Inr n)"
    and "(\<And>i sc. r_zscore R s ClaimDeadlinesKey i = Some sc \<Longrightarrow> sc \<le> now_us now \<Longrightarrow> encodable R cj s i) \<Longrightarrow>
      i \<in> set (map fst (take m (zrange_by_score R ClaimDeadlinesKey (now_us now) s))) \<Longrightarrow>
      put_back R (now_us now) s s' i"
proof -
  let ?is = "map fst (take m (zrange_by_score R ClaimDeadlinesKey (now_us now) s))"
  have "distinct (map fst (zrange_by_score R ClaimDeadlinesKey (now_us now) s))"
    using release_delayed_effect(4) .
  then have d: "distinct ?is" by (metis distinct_take take_map)
  have z: "\<forall>i \<in> set ?is. r_zscore R s ClaimDeadlinesKey i \<noteq> None"
    by (auto dest!: in_set_takeD simp: zrange_by_score_iff)
  note eff = recover_each_effect[OF assms(1) d z assms(3)[unfolded lua_recover_def] assms(2)]
  show "proto_inv R s'" "lease_kept R (now_us now) s s' j" using eff by blast+
  have enc: "\<forall>j \<in> set ?is. encodable R cj s j"
    if "\<And>i sc. r_zscore R s ClaimDeadlinesKey i = Some sc \<Longrightarrow> sc \<le> now_us now \<Longrightarrow> encodable R cj s i"
    using that by (auto dest!: in_set_takeD simp: zrange_by_score_iff)
  show "\<exists>n. r = Inr n"
    if "\<And>i sc. r_zscore R s ClaimDeadlinesKey i = Some sc \<Longrightarrow> sc \<le> now_us now \<Longrightarrow> encodable R cj s i"
    using eff enc that by blast
  show "put_back R (now_us now) s s' i"
    if "\<And>i sc. r_zscore R s ClaimDeadlinesKey i = Some sc \<Longrightarrow> sc \<le> now_us now \<Longrightarrow> encodable R cj s i" "i \<in> set ?is"
    using eff enc that by blast
qed

end

section \<open>Producers, workers and maintenance together\<close>

text \<open>
  The operations that go on against one queue or stack, each a method of the provider. Enqueuing
  and scheduling are the producer's; claim, renew, begin (\<^verbatim>\<open>amark_running\<close>), release, settle and
  acknowledge are the worker's, with the worker's id; fail, recover and prune are maintenance.
\<close>

datatype redis_op =
    ROEnqueue queue_entry
  | ROSchedule queue_entry clock_time
  | ROClaim uuid pyval
  | RORenew uuid uuid pyval
  | ROBegin uuid queue_entry
  | RORelease uuid uuid pyval
  | ROSettle uuid queue_entry
  | ROAck uuid uuid
  | ROFail queue_entry
  | RORecover pyval
  | ROPrune uuid

fun redis_run :: "'s redis_context \<Rightarrow> redis_op \<Rightarrow> int \<times> int \<Rightarrow> 's \<Rightarrow> 's" where
  "redis_run X (ROEnqueue e) now s = snd (rp_astore_and_push X e s)"
| "redis_run X (ROSchedule e t) now s = snd (rp_astore_available X now e t False s)"
| "redis_run X (ROClaim w lease) now s = snd (rp_aclaim X now w lease s)"
| "redis_run X (RORenew i w lease) now s = snd (rp_arenew X now i w lease s)"
| "redis_run X (ROBegin w e) now s = snd (rp_amark_running X w e s)"
| "redis_run X (RORelease i w delay) now s = snd (rp_arelease X now i w delay s)"
| "redis_run X (ROSettle w e) now s = snd (rp_asettle X w e s)"
| "redis_run X (ROAck i w) now s = snd (rp_aack X i w s)"
| "redis_run X (ROFail e) now s = snd (rp_astore_and_discard X e s)"
| "redis_run X (RORecover n) now s = snd (rp_arecover X now n s)"
| "redis_run X (ROPrune i) now s = snd (rp_aprune X i s)"

text \<open>
  What the callers guarantee: a new entry has an id that is nowhere yet; settled and failed
  entries are terminal; an entry is released by its worker before it runs
  (\<^verbatim>\<open>RedisQueueWorker._mark_running\<close>), and acknowledged only when its record is gone
  (\<^verbatim>\<open>_discard_missing\<close>).
\<close>

fun redis_guard :: "'s redis \<Rightarrow> redis_op \<Rightarrow> 's \<Rightarrow> bool" where
  "redis_guard R (ROEnqueue e) s \<longleftrightarrow> qe_status e = QUEUED \<and> places R s (qe_id e) = 0"
| "redis_guard R (ROSchedule e t) s \<longleftrightarrow> qe_status e = QUEUED \<and> places R s (qe_id e) = 0"
| "redis_guard R (RORelease i w delay) s \<longleftrightarrow> entry_status R s i \<noteq> Some RUNNING"
| "redis_guard R (ROSettle w e) s \<longleftrightarrow> terminal (qe_status e)"
| "redis_guard R (ROAck i w) s \<longleftrightarrow> r_get R s (EntryKey i) = None"
| "redis_guard R (ROFail e) s \<longleftrightarrow> terminal (qe_status e)"
| "redis_guard R op s \<longleftrightarrow> True"

inductive redis_reachable :: "'s redis_context \<Rightarrow> 's \<Rightarrow> 's \<Rightarrow> bool" for X s0 where
  redis_init: "redis_reachable X s0 s0"
| redis_next: "redis_reachable X s0 s \<Longrightarrow> redis_guard (rx_server X) op s \<Longrightarrow> redis_reachable X s0 (redis_run X op now s)"

lemma wire_status: "wire e = Inr d \<Longrightarrow> doc_status d = Some (qe_status e)"
  by (auto simp: wire_def to_dict_def doc_status_def bindR_Inr_iff)

lemma terminal_wire: "terminal (qe_status e) \<Longrightarrow> wire e = Inr d \<Longrightarrow> doc_status d \<notin> {Some QUEUED, Some RUNNING}"
  by (auto simp: wire_status terminal_def)

lemma fcall_cases: "fcall X f s = (case rx_ready X of Inl e \<Rightarrow> (Inl e, s) | Inr _ \<Rightarrow> (Inr (fst (f s)), snd (f s)))"
  by (simp add: fcall_def bindE_lift Let_def case_prod_unfold split: sum.splits)

lemma fcall_unit_cases: "fcall_unit X f s = (case rx_ready X of Inl e \<Rightarrow> (Inl e, s) | Inr _ \<Rightarrow> (Inr (), f s))"
  by (simp add: fcall_unit_def fcall_cases split: sum.splits)

lemma fcall_prog_cases: "fcall_prog X p s = (case rx_ready X of Inl e \<Rightarrow> (Inl e, s) | Inr _ \<Rightarrow> p s)"
  by (simp add: fcall_prog_def bindE_lift split: sum.splits)

lemma snd_claim_result [simp]: "snd (claim_result X c s) = s"
  by (auto simp: claim_result_def rp_afind_def split: claim_outcome.splits option.splits sum.splits pyerror.splits)

lemma rp_afind_state: "rp_afind X i s = (r, s') \<Longrightarrow> s' = s"
  by (auto simp: rp_afind_def split: option.splits)

lemma snd_bind_ok: "snd (bindE m (\<lambda>n. ok (f n)) s) = snd (m s)"
  by (auto simp: bindE_def split: prod.splits sum.splits)

lemmas run_cases = fcall_cases fcall_unit_cases fcall_prog_cases snd_bind_ok bindE_lift

lemma aprune_state:
  "snd (rp_aprune X i s) \<in> {s, snd (lua_prune (rx_server X) (EntryKey i) PendingKey i s)}"
  by (auto simp: rp_aprune_def bindE_def fcall_cases split: prod.splits sum.splits prune_outcome.splits dest!: rp_afind_state)

lemma aclaim_state:
  "snd (rp_aclaim X now w l s) = s \<or>
   (\<exists>us. lease_us l = Inr us \<and> snd (rp_aclaim X now w l s) =
      snd (lua_claim (rx_server X) (rx_cjson X) now PendingKey DelayedKey ClaimKey ClaimDeadlinesKey EntryKey
        UnclaimedDeadlinesKey ScheduledKey w us (rx_stack X) False s))"
  by (auto simp: rp_aclaim_def rp_aclaim_with_def bindE_lift bindE_def fcall_cases split: sum.splits)

lemma redis_run_inv:
  assumes R: "redis_server (rx_server X)" and cj: "keeps_status (rx_cjson X)"
    and inv: "proto_inv (rx_server X) s" and g: "redis_guard (rx_server X) op s"
  shows "proto_inv (rx_server X) (redis_run X op now s)"
proof (cases op)
  case (ROEnqueue e)
  then show ?thesis using inv g redis_server.store_and_push_inv[OF R inv]
    by (auto simp: rp_astore_and_push_def run_cases wire_status split: sum.splits)
next
  case (ROSchedule e at_time)
  then show ?thesis using inv g redis_server.store_available_inv[OF R inv]
    by (auto simp: rp_astore_available_def run_cases wire_status split: sum.splits)
next
  case (ROClaim w l)
  have "proto_inv (rx_server X) (snd (lua_claim (rx_server X) (rx_cjson X) now PendingKey DelayedKey ClaimKey ClaimDeadlinesKey
      EntryKey UnclaimedDeadlinesKey ScheduledKey w us (rx_stack X) False s))" for us
    using redis_server.claim_effect[OF R inv prod.collapse[symmetric]] by simp
  then show ?thesis using inv ROClaim aclaim_state[of X now w l s] by auto
next
  case (RORenew i w l)
  then show ?thesis using inv redis_server.renew_inv[OF R inv] by (simp add: rp_arenew_def run_cases split: sum.splits)
next
  case (ROBegin w e)
  then show ?thesis using inv redis_server.mark_running_inv[OF R inv] by (simp add: rp_amark_running_def run_cases split: sum.splits)
next
  case (RORelease i w l)
  then show ?thesis using inv g redis_server.release_inv[OF R inv] by (simp add: rp_arelease_def run_cases split: sum.splits)
next
  case (ROSettle w e)
  then show ?thesis using inv g redis_server.settle_inv[OF R inv terminal_wire]
    by (auto simp: rp_asettle_def run_cases split: sum.splits)
next
  case (ROAck i w)
  then show ?thesis using inv g redis_server.ack_inv[OF R inv] by (simp add: rp_aack_def run_cases entry_status_def split: sum.splits)
next
  case (ROFail e)
  then show ?thesis using inv g redis_server.store_and_discard_inv[OF R inv terminal_wire]
    by (auto simp: rp_astore_and_discard_def run_cases split: sum.splits)
next
  case (RORecover n)
  have "proto_inv (rx_server X) (snd (lua_recover (rx_server X) (rx_cjson X) now ClaimDeadlinesKey ClaimKey PendingKey EntryKey
      UnclaimedDeadlinesKey m s))" for m
    using redis_server.recover_effect(1)[OF R inv cj prod.collapse[symmetric]] .
  then show ?thesis using inv RORecover by (simp add: rp_arecover_def run_cases split: sum.splits)
next
  case (ROPrune i)
  then show ?thesis using inv redis_server.prune_inv[OF R inv, of i] aprune_state[of X i s] by auto
qed

lemma redis_reachable_inv:
  assumes "redis_reachable X s0 s" "redis_server (rx_server X)" "keeps_status (rx_cjson X)" "proto_inv (rx_server X) s0"
  shows "proto_inv (rx_server X) s"
  using assms(1) by induction (use assms redis_run_inv in auto)

section \<open>Leases as an abstract machine\<close>

text \<open>
  What a lease on an id may do when an operation is carried out at time \<open>t\<close>: nothing; be taken
  while it is free; be renewed by its owner before it ends; be given up by its owner; be taken
  away by recovery after it ended. No other worker's operation changes it.
\<close>

inductive lease_move :: "cjson \<Rightarrow> redis_op \<Rightarrow> int \<Rightarrow> uuid \<Rightarrow> (uuid \<times> int option) option \<Rightarrow> (uuid \<times> int option) option \<Rightarrow> bool"
  for cj where
  lease_stay: "lease_move cj op t i l l"
| lease_take: "lease_us lease = Inr us \<Longrightarrow> lease_move cj (ROClaim w lease) t i None (Some (w, Some (cj_number cj (t + us))))"
| lease_renew: "t < d \<Longrightarrow> bindR (validate_budget lease) to_us = Inr us \<Longrightarrow>
    lease_move cj (RORenew i w lease) t i (Some (w, Some d)) (Some (w, Some (cj_number cj (t + us))))"
| lease_release: "lease_move cj (RORelease i w delay) t i (Some (w, d)) None"
| lease_settle: "lease_move cj (ROSettle w e) t (qe_id e) (Some (w, d)) None"
| lease_ack: "lease_move cj (ROAck i w) t i (Some (w, d)) None"
| lease_recover: "d \<le> t \<Longrightarrow> lease_move cj (RORecover n) t i (Some (w, Some d)) None"

lemma lease_stay_get:
  "r_get R s' (ClaimKey i) = r_get R s (ClaimKey i) \<Longrightarrow> lease_move cj op t i (lease_of R s i) (lease_of R s' i)"
  by (simp add: lease_of_def lease_stay)

lemma owned_lease: "owned_by (r_get R s (ClaimKey i)) w = Some c \<Longrightarrow> lease_of R s i = Some (w, cl_lease_deadline c)"
  by (auto simp: owned_by_def lease_of_def split: option.splits if_splits)

lemma lease_kept_move: "lease_kept R t s s' i \<Longrightarrow> lease_move cj (RORecover n) t i (lease_of R s i) (lease_of R s' i)"
  unfolding lease_kept_def by (metis lease_stay lease_recover)

lemma claim_leases:
  assumes R: "redis_server (rx_server X)" and inv: "proto_inv (rx_server X) s"
  shows "lease_move (rx_cjson X) (ROClaim w l) (now_us now) i (lease_of (rx_server X) s i)
    (lease_of (rx_server X) (snd (rp_aclaim X now w l s)) i)"
proof (cases "snd (rp_aclaim X now w l s) = s")
  case False
  then obtain us where us: "lease_us l = Inr us" and s': "snd (rp_aclaim X now w l s) =
      snd (lua_claim (rx_server X) (rx_cjson X) now PendingKey DelayedKey ClaimKey ClaimDeadlinesKey EntryKey
        UnclaimedDeadlinesKey ScheduledKey w us (rx_stack X) False s)"
    using aclaim_state by metis
  show ?thesis
    using redis_server.claim_effect[OF R inv prod.collapse[symmetric], of "rx_cjson X" now w us "rx_stack X"] lease_take[OF us]
    unfolding s' by (auto simp: lease_of_def new_claim_def lease_stay split: claim_outcome.splits if_splits)
qed (simp add: lease_stay)

lemma recover_leases:
  assumes R: "redis_server (rx_server X)" and inv: "proto_inv (rx_server X) s" and cj: "keeps_status (rx_cjson X)"
  shows "lease_move (rx_cjson X) (RORecover n) (now_us now) i (lease_of (rx_server X) s i)
    (lease_of (rx_server X) (snd (rp_arecover X now n s)) i)"
proof -
  have "lease_kept (rx_server X) (now_us now) s (snd (lua_recover (rx_server X) (rx_cjson X) now ClaimDeadlinesKey ClaimKey
      PendingKey EntryKey UnclaimedDeadlinesKey m s)) i" for m
    using redis_server.recover_effect(2)[OF R inv cj prod.collapse[symmetric]] .
  from lease_kept_move[OF this] show ?thesis
    by (simp add: rp_arecover_def run_cases lease_stay split: sum.splits)
qed

lemma renew_leases:
  assumes "redis_server (rx_server X)"
  shows "lease_move (rx_cjson X) (RORenew j w l) (now_us now) i (lease_of (rx_server X) s i)
    (lease_of (rx_server X) (snd (rp_arenew X now j w l s)) i)"
  using redis_server.owned_by_Some[OF assms]
  by (auto simp: rp_arenew_def run_cases lua_renew_def Let_def lease_of_def redis_server.get_set[OF assms]
      redis_server.get_zadd[OF assms] intro: lease_renew lease_stay split: sum.splits option.splits)

lemma giving_up_leases:
  assumes "redis_server (rx_server X)"
  shows "lease_move (rx_cjson X) (RORelease j w l) t i (lease_of (rx_server X) s i)
      (lease_of (rx_server X) (snd (rp_arelease X now j w l s)) i)"
    and "lease_move (rx_cjson X) (ROAck j w) t i (lease_of (rx_server X) s i) (lease_of (rx_server X) (snd (rp_aack X j w s)) i)"
    and "lease_move (rx_cjson X) (ROSettle w e) t i (lease_of (rx_server X) s i) (lease_of (rx_server X) (snd (rp_asettle X w e s)) i)"
  using owned_lease[of "rx_server X" s i w]
  by (auto simp: rp_arelease_def rp_aack_def rp_asettle_def run_cases lease_of_def redis_server.giving_up_claims[OF assms]
      lease_stay lease_release lease_ack lease_settle split: sum.splits)

lemma other_leases:
  assumes "redis_server (rx_server X)" "\<And>w l. op \<noteq> ROClaim w l" "\<And>i w l. op \<noteq> RORenew i w l" "\<And>i w l. op \<noteq> RORelease i w l"
    "\<And>w e. op \<noteq> ROSettle w e" "\<And>i w. op \<noteq> ROAck i w" "\<And>n. op \<noteq> RORecover n"
  shows "r_get (rx_server X) (redis_run X op now s) (ClaimKey i) = r_get (rx_server X) s (ClaimKey i)"
proof (cases op)
  case (ROPrune j)
  then show ?thesis using aprune_state[of X j s] redis_server.other_scripts_claims[OF assms(1)] by auto
qed (use assms in \<open>auto simp: rp_astore_and_push_def rp_astore_available_def rp_amark_running_def rp_astore_and_discard_def
  run_cases redis_server.other_scripts_claims[OF assms(1)] split: sum.splits\<close>)

section \<open>Properties\<close>

text \<open>An empty server, and a concrete run on the map-based one: one entry, claimed for ten seconds.\<close>

definition redis_blank :: "'s redis \<Rightarrow> 's \<Rightarrow> bool" where
  "redis_blank R s \<longleftrightarrow> (\<forall>k. r_get R s k = None) \<and> (\<forall>k. r_list R s k = []) \<and> (\<forall>k i. r_zscore R s k i = None)"

lemma blank_inv: "redis_blank R s \<Longrightarrow> proto_inv R s"
  by (simp add: redis_blank_def proto_inv_def place_defs)

definition sample_redis :: "redis_db redis_context" where
  "sample_redis = \<lparr>rx_server = map_redis, rx_cjson = exact_cjson, rx_stack = False, rx_ready = Inr ()\<rparr>"

abbreviation sample_job :: queue_entry where
  "sample_job \<equiv> sample_entry 1 (ClockTime 1000 0) 60"

definition sample_queued :: redis_db where
  "sample_queued = redis_run sample_redis (ROEnqueue sample_job) (1000, 0) db_empty"

definition sample_claimed :: redis_db where
  "sample_claimed = redis_run sample_redis (ROClaim 7 (PNum (PyInt 10))) (1000, 0) sample_queued"

lemma sample_redis_sel [simp]:
  "rx_server sample_redis = map_redis" "rx_cjson sample_redis = exact_cjson" "rx_ready sample_redis = Inr ()"
  "rx_stack sample_redis = False"
  by (simp_all add: sample_redis_def)

lemma db_blank: "redis_blank map_redis db_empty"
  by (simp add: redis_blank_def map_redis_def db_empty_def)

lemma sample_wire: "\<exists>d. wire sample_job = Inr d \<and> doc_status d = Some QUEUED"
proof -
  have "entry_wire_safe sample_job" by (simp add: entry_wire_safe_def clock_ok_def sample_entry_def)
  then obtain d where "wire sample_job = Inr d"
    using entry_wire_roundtrip[OF sample_entry_valid[of 60]] by (auto simp: bindR_Inr_iff)
  then show ?thesis using wire_status by fastforce
qed

lemma sample_wire_plain:
  assumes "wire sample_job = Inr d"
  shows "document_plain d"
proof -
  obtain x where "to_timestamp (ClockTime 1000 0) = Inr (PyFloat (Fin x))"
    using timestamp_float[of "ClockTime 1000 0"] by (simp add: clock_ok_def)
  with assms show ?thesis
    by (auto simp: wire_def to_dict_def bindR_Inr_iff sample_entry_def document_plain_def budget_value_def encode_time_opt_def)
qed

lemma sample_lease: "lease_us (PNum (PyInt 10)) = Inr 10000000"
  by (simp add: lease_us_def validate_budget_def to_us_def int_to_float_exact)

lemma redis_sample_reachable:
  "redis_reachable sample_redis db_empty sample_queued" "redis_reachable sample_redis db_empty sample_claimed"
proof -
  have "redis_guard map_redis (ROEnqueue sample_job) db_empty"
    by (simp add: places_def in_zset_def is_claimed_def db_empty_def map_redis_def)
  then show q: "redis_reachable sample_redis db_empty sample_queued"
    unfolding sample_queued_def by (intro redis_next redis_init) simp
  show "redis_reachable sample_redis db_empty sample_claimed"
    unfolding sample_claimed_def by (rule redis_next[OF q]) simp
qed

text \<open>
  C1. Whatever producers, workers and maintenance do to a queue or stack on Redis, in any
  interleaving of the atomic functions, no entry is in two places at once (pending, delayed,
  scheduled, claimed); an entry that still has to be worked on is in exactly one, so it can be
  neither lost nor worked on twice at a time; and a running entry has an owner.
\<close>

theorem redis_keeps_every_entry:
  assumes "redis_server (rx_server X)" "keeps_status (rx_cjson X)" "redis_blank (rx_server X) s0" "redis_reachable X s0 s"
  shows "places (rx_server X) s i \<le> 1 \<and>
    (entry_status (rx_server X) s i \<in> {Some QUEUED, Some RUNNING} \<longrightarrow> places (rx_server X) s i = 1) \<and>
    (entry_status (rx_server X) s i = Some RUNNING \<longrightarrow> lease_of (rx_server X) s i \<noteq> None)"
proof -
  have "place_inv (rx_server X) s i"
    using redis_reachable_inv[OF assms(4,1,2) blank_inv[OF assms(3)]] by (simp add: proto_inv_def)
  then show ?thesis by (auto simp: place_inv_def lease_of_def)
qed

theorem redis_keeps_every_entry_witness:
  "places map_redis sample_queued (sample_id 1) = 1"
proof -
  obtain d where "wire sample_job = Inr d" "doc_status d = Some QUEUED" using sample_wire by blast
  then have "entry_status map_redis sample_queued (sample_id 1) = Some QUEUED"
    by (simp add: sample_queued_def rp_astore_and_push_def lua_store_and_push_def entry_status_def run_cases)
  then show ?thesis
    using redis_keeps_every_entry[of sample_redis db_empty sample_queued "sample_id 1"] redis_sample_reachable(1)
      map_server.redis_server_axioms exact_keeps_status db_blank by simp
qed

text \<open>
  C2. The claims of the Redis backend refine the abstract machine of leases: whatever operation is
  carried out in a reachable state, the lease of every id stays as it is, or is taken while free,
  renewed or given up by its owner, or taken away by recovery after its end. No worker can
  shorten, extend or take over the lease of another.
\<close>

theorem redis_refines_leases:
  assumes "redis_server (rx_server X)" "keeps_status (rx_cjson X)" "redis_blank (rx_server X) s0" "redis_reachable X s0 s"
  shows "lease_move (rx_cjson X) op (now_us now) i (lease_of (rx_server X) s i)
    (lease_of (rx_server X) (redis_run X op now s) i)"
proof -
  have inv: "proto_inv (rx_server X) s" using redis_reachable_inv[OF assms(4,1,2) blank_inv[OF assms(3)]] .
  show ?thesis
    by (cases op; simp add: claim_leases[OF assms(1) inv] recover_leases[OF assms(1) inv assms(2)] renew_leases[OF assms(1)]
        giving_up_leases[OF assms(1)]; (rule lease_stay_get, use other_leases[OF assms(1), of op now s i] in simp))
qed

theorem redis_refines_leases_witness:
  "lease_move exact_cjson (RORecover (PNum (PyInt 100))) 1005000000 (sample_id 1) (lease_of map_redis sample_claimed (sample_id 1))
     (lease_of map_redis (redis_run sample_redis (RORecover (PNum (PyInt 100))) (1005, 0) sample_claimed) (sample_id 1))"
  using redis_refines_leases[of sample_redis db_empty sample_claimed "RORecover (PNum (PyInt 100))" "(1005, 0)" "sample_id 1"]
    redis_sample_reachable(2) map_server.redis_server_axioms exact_keeps_status db_blank by (simp add: now_us_def)

text \<open>
  C3. Abandoned work comes back: when recovery runs with room for the due claims, every one of
  them whose lease is over loses its claim, and an entry that was queued or running under it is
  queued again and on the pending list. The server's encoder must accept the records of the due
  claims: it accepts documents with finite numbers that nest at most 1000 deep, and the script
  aborts at a record that is not such a document.
\<close>

theorem redis_recovers_abandoned:
  assumes "redis_server (rx_server X)" "keeps_status (rx_cjson X)" "encodes_plain (rx_cjson X)" "rx_ready X = Inr ()"
    "redis_blank (rx_server X) s0" "redis_reachable X s0 s"
    "validate_batch_size n = Inr m" "zcard (rx_server X) ClaimDeadlinesKey s \<le> m"
    "\<And>i sc d. r_zscore (rx_server X) s ClaimDeadlinesKey i = Some sc \<Longrightarrow> sc \<le> now_us now \<Longrightarrow>
       decode_document (r_get (rx_server X) s (EntryKey i)) = Some d \<Longrightarrow> document_plain d"
  shows "(\<exists>counts. fst (rp_arecover X now n s) = Inr counts) \<and>
    (\<forall>i w d sc. lease_of (rx_server X) s i = Some (w, Some d) \<and> d \<le> now_us now \<and>
       r_zscore (rx_server X) s ClaimDeadlinesKey i = Some sc \<and> sc \<le> now_us now \<longrightarrow>
       lease_of (rx_server X) (snd (rp_arecover X now n s)) i = None \<and>
       (entry_status (rx_server X) s i \<in> {Some QUEUED, Some RUNNING} \<longrightarrow>
          entry_status (rx_server X) (snd (rp_arecover X now n s)) i = Some QUEUED \<and>
          i \<in> set (r_list (rx_server X) (snd (rp_arecover X now n s)) PendingKey)))"
proof -
  let ?R = "rx_server X"
  have inv: "proto_inv ?R s" using redis_reachable_inv[OF assms(6,1,2) blank_inv[OF assms(5)]] .
  let ?run = "lua_recover ?R (rx_cjson X) now ClaimDeadlinesKey ClaimKey PendingKey EntryKey UnclaimedDeadlinesKey m s"
  have run: "rp_arecover X now n s = ?run" using assms(4,7) by (simp add: rp_arecover_def run_cases)
  have all: "take m (zrange_by_score ?R ClaimDeadlinesKey (now_us now) s) = zrange_by_score ?R ClaimDeadlinesKey (now_us now) s"
    using assms(8) by (simp add: zrange_by_score_def zcard_def le_trans[OF length_filter_le])
  note eff = redis_server.recover_effect[OF assms(1) inv assms(2) prod.collapse[symmetric], where now = now and m = m]
  have enc: "encodable ?R (rx_cjson X) s i" if "r_zscore ?R s ClaimDeadlinesKey i = Some sc" "sc \<le> now_us now" for i sc
    by (rule plain_encodable[OF assms(3)]) (rule assms(9)[OF that])
  have "put_back ?R (now_us now) s (snd ?run) i" if "r_zscore ?R s ClaimDeadlinesKey i = Some sc" "sc \<le> now_us now" for i sc
  proof -
    have "(i, sc) \<in> set (zrange_by_score ?R ClaimDeadlinesKey (now_us now) s)"
      using that by (simp add: redis_server.zrange_by_score_iff[OF assms(1)])
    from imageI[OF this, of fst] have "i \<in> set (map fst (take m (zrange_by_score ?R ClaimDeadlinesKey (now_us now) s)))"
      by (simp add: all)
    from eff(4)[OF enc this] show ?thesis .
  qed
  moreover have "\<exists>counts. fst ?run = Inr counts" by (rule eff(3)[OF enc])
  ultimately show ?thesis unfolding run put_back_def by blast
qed

lemma sample_claimed_lease:
  "lease_of map_redis sample_claimed (sample_id 1) = Some (7, Some 1010000000)"
  "entry_status map_redis sample_claimed (sample_id 1) = Some QUEUED"
  "r_zscore map_redis sample_claimed ClaimDeadlinesKey (sample_id 1) = Some 1010000000"
  "zcard map_redis ClaimDeadlinesKey sample_claimed = 1"
  "r_zscore map_redis sample_claimed ClaimDeadlinesKey i = Some sc \<Longrightarrow> decode_document (r_get map_redis sample_claimed (EntryKey i)) = Some d \<Longrightarrow>
    document_plain d"
proof -
  obtain d where d: "wire sample_job = Inr d" "doc_status d = Some QUEUED" using sample_wire by blast
  then have q: "sample_queued = db_empty\<lparr>db_values := [EntryKey (sample_id 1) \<mapsto> VDoc d],
      db_lists := (\<lambda>_. [])(PendingKey := [sample_id 1])\<rparr>"
    by (simp add: sample_queued_def rp_astore_and_push_def lua_store_and_push_def run_cases map_redis_def db_empty_def)
  have c: "sample_claimed = sample_queued\<lparr>db_values := (db_values sample_queued)(ClaimKey (sample_id 1) \<mapsto>
        VClaim (new_claim exact_cjson (1000, 0) 7 1010000000 None)),
      db_lists := (db_lists sample_queued)(PendingKey := []), db_zsets := (\<lambda>_. [])(ClaimDeadlinesKey := [(sample_id 1, 1010000000)])\<rparr>"
    unfolding sample_claimed_def redis_run.simps rp_aclaim_def rp_aclaim_with_def bindE_lift sample_lease
    by (simp add: q bindE_def fcall_cases lua_claim_def promote_one_scheduled_def earliest_group_def
        release_delayed_def zrange_by_score_def pop_pending_def claim_popped_def now_us_def Let_def map_redis_def db_empty_def fun_eq_iff)
  show "lease_of map_redis sample_claimed (sample_id 1) = Some (7, Some 1010000000)"
    "entry_status map_redis sample_claimed (sample_id 1) = Some QUEUED"
    "r_zscore map_redis sample_claimed ClaimDeadlinesKey (sample_id 1) = Some 1010000000"
    "zcard map_redis ClaimDeadlinesKey sample_claimed = 1"
    using d by (simp_all add: c q lease_of_def entry_status_def new_claim_def exact_cjson_def zcard_def map_redis_def db_empty_def)
  show "document_plain d" if "r_zscore map_redis sample_claimed ClaimDeadlinesKey i = Some sc"
      "decode_document (r_get map_redis sample_claimed (EntryKey i)) = Some d" for d
    using that d sample_wire_plain[OF d(1)] by (auto simp: c q map_redis_def db_empty_def split: if_splits)
qed

theorem redis_recovers_abandoned_witness:
  "sample_id 1 \<in> set (r_list map_redis (snd (rp_arecover sample_redis (1011, 0) (PNum (PyInt 100)) sample_claimed)) PendingKey)"
proof -
  have "validate_batch_size (PNum (PyInt 100)) = Inr 100" by (simp add: validate_batch_size_def)
  then show ?thesis
    using redis_recovers_abandoned[of sample_redis db_empty sample_claimed "PNum (PyInt 100)" 100 "(1011, 0)"] redis_sample_reachable(2)
      map_server.redis_server_axioms exact_keeps_status exact_encodes db_blank sample_claimed_lease(1-4) sample_claimed_lease(5)
    by (simp add: now_us_def)
qed

text \<open>
  C6. Only the owner acts on a claim: for every worker that does not hold the claim of an id,
  renewing, releasing, removing, acknowledging, starting and settling change nothing on the
  server and none of them reports success.
\<close>

theorem only_the_owner_acts:
  assumes "owned_by (r_get (rx_server X) s (ClaimKey i)) w = None"
  shows "(\<forall>p \<in> {rp_arenew X now i w v, rp_arelease X now i w v, rp_arelease_priority X now i w v, rp_aremove X i w, rp_aack X i w}.
      snd (p s) = s \<and> fst (p s) \<noteq> Inr True) \<and>
    (\<forall>e. qe_id e = i \<longrightarrow> (\<forall>p \<in> {rp_amark_running X w e, rp_asettle X w e}. snd (p s) = s \<and> fst (p s) \<noteq> Inr True))"
  using assms
  by (auto simp: rp_arenew_def rp_arelease_def rp_arelease_priority_def rp_aremove_def rp_aack_def rp_amark_running_def rp_asettle_def
      lua_renew_def lua_release_def lua_release_priority_def lua_remove_def lua_ack_def lua_mark_running_def lua_settle_def
      bindE_lift bindE_def fcall_cases split: sum.splits)

theorem only_the_owner_acts_witness:
  "snd (rp_asettle sample_redis 8 (sample_job\<lparr>qe_status := SUCCEEDED\<rparr>) sample_claimed) = sample_claimed"
proof -
  have "owned_by (r_get map_redis sample_claimed (ClaimKey (sample_id 1))) 8 = None"
    using sample_claimed_lease(1) by (auto simp: lease_of_def owned_by_def)
  then show ?thesis using only_the_owner_acts[of sample_redis sample_claimed "sample_id 1" 8]
    by (simp add: sample_entry_def)
qed

end
