(* ===== verification/Redis_Priority.thy ===== *)
theory Redis_Priority
  imports Redis_Protocol
begin

text \<open>
  The priority store of the Redis backend. A priority and an arrival number are packed into one
  score of a sorted set, a double on the server; the lemmas show that the packing is exact within
  the bound the provider checks, and that the sorted set with its counter refines a plain list of
  entries in order of arrival, served by highest priority first and oldest first among equals.
\<close>

section \<open>The packed score\<close>

definition packed_score :: "int \<Rightarrow> int \<Rightarrow> int" where
  "packed_score priority sequence = dbl (dbl (priority * PRIORITY_SEQUENCE_SPACE) - sequence)"

lemma packed_exact:
  assumes "\<bar>p\<bar> \<le> MAX_PRIORITY_MAGNITUDE" "0 \<le> n" "n < PRIORITY_SEQUENCE_SPACE"
  shows "packed_score p n = p * PRIORITY_SEQUENCE_SPACE - n"
proof -
  have "\<bar>p * PRIORITY_SEQUENCE_SPACE\<bar> < 2 ^ 53" using assms(1) by (simp add: abs_mult)
  moreover have "\<bar>p * PRIORITY_SEQUENCE_SPACE - n\<bar> < 2 ^ 53" using assms by (auto simp: abs_if split: if_splits)
  ultimately show ?thesis by (simp add: packed_score_def dbl_exact)
qed

lemma packed_le:
  fixes p q m n :: int
  assumes "q * PRIORITY_SEQUENCE_SPACE - m \<le> p * PRIORITY_SEQUENCE_SPACE - n"
    "0 < n" "m < PRIORITY_SEQUENCE_SPACE"
  shows "q \<le> p \<and> (q = p \<longrightarrow> n \<le> m)"
  using assms by auto

section \<open>The list of waiting entries it stands for\<close>

definition next_prio :: "(uuid \<times> int) list \<Rightarrow> (uuid \<times> int) option" where
  "next_prio q = find (\<lambda>(_, p). list_all (\<lambda>(_, r). r \<le> p) q) q"

definition sequence_of :: "'s redis \<Rightarrow> 's \<Rightarrow> int" where
  "sequence_of R s = (case r_get R s SequenceKey of Some (VInt n) \<Rightarrow> n | _ \<Rightarrow> 0)"

definition stamped :: "'s redis \<Rightarrow> 's \<Rightarrow> (uuid \<times> int \<times> int) list \<Rightarrow> bool" where
  "stamped R s ts \<longleftrightarrow>
     (\<exists>v. r_get R s SequenceKey \<in> {None, Some (VInt v)}) \<and> 0 \<le> sequence_of R s \<and> sequence_of R s < PRIORITY_SEQUENCE_SPACE \<and>
     distinct (map fst ts) \<and> sorted_wrt (<) (map (snd \<circ> snd) ts) \<and>
     (\<forall>(i, p, n) \<in> set ts. \<bar>p\<bar> \<le> MAX_PRIORITY_MAGNITUDE \<and> 0 < n \<and> n \<le> sequence_of R s) \<and>
     (\<forall>i sc. r_zscore R s PriorityKey i = Some sc \<longleftrightarrow> (\<exists>p n. (i, p, n) \<in> set ts \<and> sc = p * PRIORITY_SEQUENCE_SPACE - n))"

definition waiting :: "'s redis \<Rightarrow> 's \<Rightarrow> (uuid \<times> int) list \<Rightarrow> bool" where
  "waiting R s q \<longleftrightarrow> (\<exists>ts. stamped R s ts \<and> q = map (\<lambda>(i, p, _). (i, p)) ts)"

lemma stampedD:
  "stamped R s ts \<Longrightarrow> (i, p, n) \<in> set ts \<Longrightarrow>
     \<bar>p\<bar> \<le> MAX_PRIORITY_MAGNITUDE \<and> 0 < n \<and> n \<le> sequence_of R s \<and> n < PRIORITY_SEQUENCE_SPACE"
  by (fastforce simp: stamped_def)

lemma next_prio_split:
  fixes ts :: "(uuid \<times> int \<times> int) list"
  assumes ts: "ts = us @ (i, p, n) # vs" and srt: "sorted_wrt (<) (map (snd \<circ> snd) ts)"
    and best: "\<forall>(j, r, m) \<in> set ts. r \<le> p \<and> (r = p \<longrightarrow> n \<le> m)"
  shows "next_prio (map (\<lambda>(i, p, _). (i, p)) ts) = Some (i, p)"
proof -
  let ?top = "\<lambda>(_, x). list_all (\<lambda>(_, r). r \<le> x) (map (\<lambda>(i, p, _). (i, p)) ts)"
  have "\<not> ?top (j, r)" if "(j, r, m) \<in> set us" for j r m
  proof -
    have "m < n" using srt that by (force simp: ts sorted_wrt_append)
    then have "r < p" using bspec[OF best, of "(j, r, m)"] that by (cases "r = p") (auto simp: ts)
    then show ?thesis by (auto simp: ts)
  qed
  then have "find ?top (map (\<lambda>(i, p, _). (i, p)) us) = None" by (force simp: find_None_iff)
  moreover have "?top (i, p)" using best by (auto simp: list_all_iff)
  moreover have "find P (xs @ ys) = (case find P xs of None \<Rightarrow> find P ys | z \<Rightarrow> z)" for P and xs ys :: "(uuid \<times> int) list"
    by (induction xs) auto
  ultimately show ?thesis by (simp add: next_prio_def ts)
qed

context redis_server
begin

lemma zrev_top_max:
  assumes "zrev_top R k s = Some (i, sc)"
  shows "r_zscore R s k i = Some sc" "r_zscore R s k j = Some sd \<Longrightarrow> sd \<le> sc"
proof -
  obtain xs where xs: "r_zrange R s k = xs @ [(i, sc)]"
    using assms by (auto simp: zrev_top_def rev_eq_Cons_iff split: list.splits)
  then show "r_zscore R s k i = Some sc" using zrange_scores by fastforce
  show "sd \<le> sc" if "r_zscore R s k j = Some sd"
  proof -
    have "(j, sd) \<in> set (xs @ [(i, sc)])" using that zrange_scores xs by metis
    moreover have "sorted (map (\<lambda>(i, sc). (sc, i)) (xs @ [(i, sc)]))" using zrange_sorted xs by metis
    ultimately show ?thesis by (force simp: sorted_append)
  qed
qed

lemma zrev_top_None: "zrev_top R k s = None \<longleftrightarrow> (\<forall>i. r_zscore R s k i = None)"
proof -
  have "zrev_top R k s = None \<longleftrightarrow> zcard R k s = 0" by (auto simp: zrev_top_def zcard_def split: list.splits)
  then show ?thesis by (simp add: zcard_0)
qed

lemma push_waiting:
  assumes "waiting R s q" "i \<notin> fst ` set q" "\<bar>p\<bar> \<le> MAX_PRIORITY_MAGNITUDE" "sequence_of R s + 1 < PRIORITY_SEQUENCE_SPACE"
  shows "waiting R (push_priority R PriorityKey SequenceKey (dbl (p * PRIORITY_SEQUENCE_SPACE)) i s) (q @ [(i, p)])"
proof -
  obtain ts where ts: "stamped R s ts" "q = map (\<lambda>(i, p, _). (i, p)) ts" using assms(1) by (auto simp: waiting_def)
  let ?n = "sequence_of R s + 1" and ?s1 = "snd (r_incr R SequenceKey s)"
  let ?s' = "push_priority R PriorityKey SequenceKey (dbl (p * PRIORITY_SEQUENCE_SPACE)) i s"
  obtain v where v: "r_get R s SequenceKey \<in> {None, Some (VInt v)}" and n0: "0 \<le> sequence_of R s" using ts(1) by (auto simp: stamped_def)
  have reply: "fst (r_incr R SequenceKey s) = ?n"
    using incr_reply[OF v] v by (auto simp: sequence_of_def)
  have "dbl (dbl (p * PRIORITY_SEQUENCE_SPACE) - ?n) = p * PRIORITY_SEQUENCE_SPACE - ?n"
    using packed_exact[of p ?n] assms(3,4) n0 by (simp add: packed_score_def)
  then have s': "?s' = r_zadd R PriorityKey i (p * PRIORITY_SEQUENCE_SPACE - ?n) ?s1"
    by (simp add: push_priority_def case_prod_unfold reply)
  have seq: "sequence_of R ?s' = ?n" "r_get R ?s' SequenceKey = Some (VInt ?n)"
    unfolding s' using get_incr[OF v] reply by (simp_all add: sequence_of_def)
  have fresh: "i \<notin> fst ` set ts" using assms(2) ts(2) by (auto simp: image_iff)
  have score: "r_zscore R ?s' PriorityKey j =
      (if j = i then Some (p * PRIORITY_SEQUENCE_SPACE - ?n) else r_zscore R s PriorityKey j)" for j
    unfolding s' by simp
  have "(r_zscore R ?s' PriorityKey j = Some sc) =
      (\<exists>r m. (j, r, m) \<in> set (ts @ [(i, p, ?n)]) \<and> sc = r * PRIORITY_SEQUENCE_SPACE - m)" for j sc
    unfolding score using ts(1) fresh by (cases "j = i") (force simp: stamped_def)+
  moreover have "sorted_wrt (<) (map (snd \<circ> snd) (ts @ [(i, p, ?n)]))"
    using ts(1) stampedD[OF ts(1)] by (fastforce simp: stamped_def sorted_wrt_append)
  moreover have "\<forall>(j, r, m) \<in> set (ts @ [(i, p, ?n)]). \<bar>r\<bar> \<le> MAX_PRIORITY_MAGNITUDE \<and> 0 < m \<and> m \<le> ?n"
    using stampedD[OF ts(1)] assms(3) n0 by fastforce
  moreover have "distinct (map fst (ts @ [(i, p, ?n)]))" using ts(1) fresh by (simp add: stamped_def)
  ultimately have "stamped R ?s' (ts @ [(i, p, ?n)])"
    unfolding stamped_def seq using n0 assms(4) by simp
  moreover have "q @ [(i, p)] = map (\<lambda>(i, p, _). (i, p)) (ts @ [(i, p, ?n)])" using ts(2) by simp
  ultimately show ?thesis unfolding waiting_def by blast
qed

lemma pop_waiting:
  assumes "waiting R s q"
  shows "fst (lua_pop_priority R PriorityKey SequenceKey s) = map_option fst (next_prio q) \<and>
    waiting R (snd (lua_pop_priority R PriorityKey SequenceKey s))
      (case next_prio q of None \<Rightarrow> q | Some (i, _) \<Rightarrow> filter (\<lambda>(j, _). j \<noteq> i) q)"
proof -
  obtain ts where ts: "stamped R s ts" "q = map (\<lambda>(i, p, _). (i, p)) ts" using assms by (auto simp: waiting_def)
  show ?thesis
  proof (cases "zrev_top R PriorityKey s")
    case None
    then have "ts = []" using ts(1) zrev_top_None by (cases ts) (fastforce simp: stamped_def)+
    then show ?thesis using None assms ts(2) by (simp add: lua_pop_priority_def next_prio_def)
  next
    case (Some m)
    then obtain i sc where top: "zrev_top R PriorityKey s = Some (i, sc)" by (cases m) auto
    obtain p n where pn: "(i, p, n) \<in> set ts" "sc = p * PRIORITY_SEQUENCE_SPACE - n"
      using zrev_top_max(1)[OF top] ts(1) by (auto simp: stamped_def)
    have best: "r \<le> p \<and> (r = p \<longrightarrow> n \<le> m)" if "(j, r, m) \<in> set ts" for j r m
    proof (rule packed_le)
      show "r * PRIORITY_SEQUENCE_SPACE - m \<le> p * PRIORITY_SEQUENCE_SPACE - n"
        using zrev_top_max(2)[OF top] ts(1) that pn(2) by (auto simp: stamped_def)
    qed (use stampedD[OF ts(1)] that pn(1) in force)+
    obtain us vs where "ts = us @ (i, p, n) # vs" using pn(1) by (auto simp: in_set_conv_decomp)
    then have nxt: "next_prio q = Some (i, p)"
      unfolding ts(2) by (rule next_prio_split) (use ts(1) best in \<open>auto simp: stamped_def\<close>)
    let ?s1 = "r_zrem R PriorityKey i s" and ?s' = "snd (lua_pop_priority R PriorityKey SequenceKey s)"
    let ?ts' = "filter (\<lambda>(j, _). j \<noteq> i) ts"
    have s': "?s' = reset_sequence R PriorityKey SequenceKey ?s1" using top by (simp add: lua_pop_priority_def)
    have "stamped R ?s' ?ts'"
    proof (cases "?ts' = []")
      case True
      have none: "r_zscore R ?s1 PriorityKey j = None" for j
      proof (rule ccontr)
        assume "r_zscore R ?s1 PriorityKey j \<noteq> None"
        then obtain r m where "(j, r, m) \<in> set ts" "j \<noteq> i" using ts(1) by (auto simp: stamped_def split: if_splits)
        then have "(j, r, m) \<in> set ?ts'" by simp
        then show False using True by simp
      qed
      then have "zcard R PriorityKey ?s1 = 0" by (simp add: zcard_0)
      then show ?thesis using ts(1) True none
        unfolding s' by (auto simp: stamped_def reset_sequence_def sequence_of_def)
    next
      case False
      then obtain j r m where "(j, r, m) \<in> set ts" "j \<noteq> i" by (auto simp: filter_empty_conv)
      then have "zcard R PriorityKey ?s1 \<noteq> 0" using ts(1) by (auto simp: zcard_0 stamped_def)
      then have keep: "?s' = ?s1" by (simp add: s' reset_sequence_def)
      show ?thesis unfolding keep using ts(1)
        by (auto simp: stamped_def sequence_of_def distinct_map_filter sorted_wrt_map sorted_wrt_filter)
    qed
    moreover have "filter (\<lambda>(j, _). j \<noteq> i) q = map (\<lambda>(i, p, _). (i, p)) ?ts'"
      by (simp add: ts(2) filter_map comp_def case_prod_unfold)
    ultimately show ?thesis using nxt top by (auto simp: waiting_def lua_pop_priority_def)
  qed
qed

end

lemma next_prio_Some:
  "next_prio q = Some (i, p) \<Longrightarrow> (i, p) \<in> set q \<and> (\<forall>(j, r) \<in> set q. r \<le> p)"
  by (auto simp: next_prio_def find_Some_iff list_all_iff) (metis nth_mem)

lemma next_prio_None: "next_prio q = None \<Longrightarrow> q = []"
proof (rule ccontr)
  assume none: "next_prio q = None" and "q \<noteq> []"
  then have m: "Max (snd ` set q) \<in> snd ` set q" by (intro Max_in) auto
  then obtain i where "(i, Max (snd ` set q)) \<in> set q" by auto
  moreover have "\<forall>(j, r) \<in> set q. r \<le> Max (snd ` set q)" by (force intro: Max_ge)
  ultimately show False using none by (auto simp: next_prio_def find_None_iff list_all_iff) blast
qed

section \<open>Properties\<close>

text \<open>
  Within the bound on priorities and with fewer than \<open>2 ^ 32\<close> arrivals since the store was last
  empty, the packed score of the priority store is exact although the server computes with
  doubles, and comparing scores compares priorities first and arrivals, oldest first, second.
\<close>

theorem packed_scores_order:
  assumes "\<bar>p\<bar> \<le> MAX_PRIORITY_MAGNITUDE" "\<bar>q\<bar> \<le> MAX_PRIORITY_MAGNITUDE"
    "0 < m" "m < PRIORITY_SEQUENCE_SPACE" "0 < n" "n < PRIORITY_SEQUENCE_SPACE"
  shows "packed_score p m = p * PRIORITY_SEQUENCE_SPACE - m \<and>
    (packed_score p m < packed_score q n \<longleftrightarrow> p < q \<or> p = q \<and> n < m)"
  using assms by (auto simp: packed_exact)

theorem packed_scores_order_witness:
  "packed_score 100000 1 = 429496729599999 \<and> packed_score 99999 1 < packed_score 100000 4294967295"
  using packed_scores_order[of 100000 100000 1 1] packed_scores_order[of 99999 100000 1 4294967295] by simp

lemma waiting_blank: "redis_blank R s \<Longrightarrow> waiting R s []"
  by (auto simp: waiting_def stamped_def redis_blank_def sequence_of_def intro!: exI[of _ "[]"])

text \<open>
  C17. Adding to the priority store appends to the list of waiting entries; a priority beyond the
  bound is refused before anything is written.
\<close>

theorem redis_priority_push:
  assumes "redis_server (rx_server X)" "rx_ready X = Inr ()" "waiting (rx_server X) s q" "i \<notin> fst ` set q"
    "sequence_of (rx_server X) s + 1 < PRIORITY_SEQUENCE_SPACE"
  shows "if \<bar>p\<bar> \<le> MAX_PRIORITY_MAGNITUDE
    then fst (rp_apush_priority X i p s) = Inr () \<and> waiting (rx_server X) (snd (rp_apush_priority X i p s)) (q @ [(i, p)])
    else rp_apush_priority X i p s = (Inl ValueError, s)"
  using redis_server.push_waiting[OF assms(1,3,4) _ assms(5)] assms(2)
  by (simp add: rp_apush_priority_def bindE_lift validate_redis_priority_magnitude_def)

theorem redis_priority_push_witness:
  "waiting map_redis (snd (rp_apush_priority sample_redis 5 3 db_empty)) [(5, 3)]"
  using redis_priority_push[of sample_redis db_empty "[]" 5 3] map_server.redis_server_axioms waiting_blank[OF db_blank]
  by (simp add: sequence_of_def db_empty_def map_redis_def)

text \<open>
  C16. Taking from the priority store serves the highest priority, the oldest among equals, and
  leaves the others waiting in their order; an empty store raises \<^verbatim>\<open>QueueEmptyException\<close>.
\<close>

theorem redis_priority_pop:
  assumes "redis_server (rx_server X)" "rx_ready X = Inr ()" "waiting (rx_server X) s q"
  shows "(case next_prio q of
      None \<Rightarrow> q = [] \<and> fst (rp_apop_priority X s) = Inl QueueEmptyException
    | Some (i, p) \<Rightarrow> (i, p) \<in> set q \<and> (\<forall>(j, r) \<in> set q. r \<le> p) \<and>
        waiting (rx_server X) (snd (rp_apop_priority X s)) (filter (\<lambda>(j, _). j \<noteq> i) q) \<and>
        fst (rp_apop_priority X s) = fst (rp_afind X i (snd (rp_apop_priority X s))))"
proof -
  let ?pop = "lua_pop_priority (rx_server X) PriorityKey SequenceKey s"
  note eff = redis_server.pop_waiting[OF assms(1,3)]
  have run: "rp_apop_priority X s = find_popped X (fst ?pop) (snd ?pop)"
    using assms(2) by (simp add: rp_apop_priority_def bindE_def fcall_cases)
  have "snd (rp_afind X i s') = s'" for i s' by (simp add: rp_afind_def split: option.splits)
  then show ?thesis using eff next_prio_None[of q] next_prio_Some[of q]
    by (auto simp: run find_popped_def split: option.splits)
qed

theorem redis_priority_pop_witness:
  "let s = snd (rp_apush_priority sample_redis 6 4 (snd (rp_apush_priority sample_redis 5 3 db_empty)))
   in waiting map_redis (snd (rp_apop_priority sample_redis s)) [(5, 3)]"
proof -
  note push = redis_server.push_waiting[OF map_server.redis_server_axioms]
  have "waiting map_redis (snd (rp_apush_priority sample_redis 6 4 (snd (rp_apush_priority sample_redis 5 3 db_empty)))) [(5, 3), (6, 4)]"
    using push[OF push[OF waiting_blank[OF db_blank]], of 5 3 6 4]
    by (simp add: rp_apush_priority_def bindE_lift validate_redis_priority_magnitude_def sequence_of_def push_priority_def
        db_empty_def map_redis_def db_incr_def Let_def)
  from redis_priority_pop[OF _ _ this[folded sample_redis_sel(1)]] show ?thesis
    using map_server.redis_server_axioms by (simp add: next_prio_def Let_def)
qed

end
