(* ===== verification/Redis_Worker.thy ===== *)
theory Redis_Worker
  imports Redis_Priority Queue_Worker
begin

text \<open>
  \<^verbatim>\<open>django_queue/backends/redis/worker.py\<close> and the queue classes of
  \<^verbatim>\<open>django_queue/backends/redis\<close>: the worker that claims its entries. The three operations in which
  a plain and a priority queue differ are a record; the worker class is the generic worker with
  fetching, starting, settling and discarding replaced.
\<close>

section \<open>Queues\<close>

record 's redis_queue_ops =
  rq_aclaim :: "int \<times> int \<Rightarrow> uuid \<Rightarrow> pyval \<Rightarrow> (queue_entry, 's) prog"
  rq_arecover :: "int \<times> int \<Rightarrow> pyval \<Rightarrow> (int \<times> int, 's) prog"
  rq_arelease :: "int \<times> int \<Rightarrow> uuid \<Rightarrow> uuid \<Rightarrow> pyval \<Rightarrow> (bool, 's) prog"

definition redis_queue_claims :: "'s redis_context \<Rightarrow> 's redis_queue_ops" where
  "redis_queue_claims X = \<lparr>rq_aclaim = rp_aclaim X, rq_arecover = rp_arecover X, rq_arelease = rp_arelease X\<rparr>"

definition redis_pqueue_claims :: "'s redis_context \<Rightarrow> 's redis_queue_ops" where
  "redis_pqueue_claims X =
     \<lparr>rq_aclaim = rp_aclaim_priority X, rq_arecover = rp_arecover_priority X, rq_arelease = rp_arelease_priority X\<rparr>"

text \<open>
  The hooks \<^verbatim>\<open>AsyncQueue\<close> calls, for the queue and for the priority queue; storing and pushing is
  one atomic function. The server's clock reading is an argument.
\<close>

definition redis_astore_and_push ::
    "'s redis_context \<Rightarrow> bool \<Rightarrow> int \<times> int \<Rightarrow> queue_entry \<Rightarrow> clock_time option \<Rightarrow> (unit, 's) prog" where
  "redis_astore_and_push X priority now e available_at =
     (case available_at of
        None \<Rightarrow> if priority then rp_astore_and_push_priority X e else rp_astore_and_push X e
      | Some t \<Rightarrow> rp_astore_available X now e t priority)"

definition redis_apop :: "'s redis_context \<Rightarrow> bool \<Rightarrow> int \<times> int \<Rightarrow> (queue_entry, 's) prog" where
  "redis_apop X priority now = (if priority then rp_apop_scheduled_priority X now else rp_apop_scheduled X now)"

text \<open>
  The operations of the base class, where the override of \<^verbatim>\<open>_apop\<close> replaces promotion and pop
  together, and failing a queued entry is one function. The provider has no \<^verbatim>\<open>aschedule\<close>.
  \<open>scanned\<close> are the ids a key scan reports.
\<close>

definition redis_async_ops :: "'s redis_context \<Rightarrow> bool \<Rightarrow> int \<times> int \<Rightarrow> uuid list \<Rightarrow> 's async_ops" where
  "redis_async_ops X priority now scanned =
     \<lparr>op_astore = rp_astore X,
      op_apush = (\<lambda>e. if priority then rp_apush_priority X (qe_id e) (qe_priority e) else rp_apush X (qe_id e)),
      op_aschedule = (\<lambda>i t. raise AttributeError),
      op_apromote_scheduled = (\<lambda>_. ok ()),
      op_apop = redis_apop X priority now,
      op_astore_and_discard = rp_astore_and_discard X,
      op_afind = rp_afind X,
      op_alist = rp_alist X scanned,
      op_aprune = rp_aprune X,
      op_ahas_pending = (\<lambda>s. (Inr (rp_ahas_pending X s), s))\<rparr>"

definition redis_aenqueue ::
    "'s redis_context \<Rightarrow> bool \<Rightarrow> int \<times> int \<Rightarrow> string \<Rightarrow> uuid \<Rightarrow> clock_time result \<Rightarrow>
     pyval \<Rightarrow> pyval \<Rightarrow> pyval \<Rightarrow> pyval \<Rightarrow> (uuid, 's) prog" where
  "redis_aenqueue X priority now = async_aenqueue_with (redis_astore_and_push X priority now)"

section \<open>The worker\<close>

abbreviation default_claim_lease_seconds :: pyval where
  "default_claim_lease_seconds \<equiv> PNum (PyInt 600)"

abbreviation recovery_batch_size :: pyval where
  "recovery_batch_size \<equiv> PNum (PyInt 100)"

text \<open>Readings of one pass: the event loop's clock and the server's clock in the successive calls.\<close>

record redis_readings =
  rr_loop :: rat
  rr_recover :: "int \<times> int"
  rr_claim :: "int \<times> int"
  rr_renew :: "int \<times> int"
  rr_release :: "int \<times> int"

definition recover_expired :: "'s redis_queue_ops \<Rightarrow> redis_readings \<Rightarrow> 's worker_queue \<Rightarrow> (unit, worker_state \<times> 's) prog" where
  "recover_expired Q t q =
     with_worker (\<lambda>w.
       if \<not> interval_over (wk_last_recovery_at w) (wq_key q) (rr_loop t) 1 then ok ()
       else
         bindE (set_worker (\<lambda>w. w\<lparr>wk_last_recovery_at := dict_set (wq_key q) (rr_loop t) (wk_last_recovery_at w)\<rparr>)) (\<lambda>_.
         bindE (on_queue (rq_arecover Q (rr_recover t) recovery_batch_size)) (\<lambda>_. ok ())))"

text \<open>Claim, then renew at once for the time the entry may take; a claim lost in between is dropped.\<close>

definition redis_next ::
    "'s redis_context \<Rightarrow> 's redis_queue_ops \<Rightarrow> redis_readings \<Rightarrow> 's worker_queue \<Rightarrow>
     ((queue_entry \<times> pynum option) option, worker_state \<times> 's) prog" where
  "redis_next X Q t q =
     bindE (recover_expired Q t q) (\<lambda>_. with_worker (\<lambda>w.
     bindE (on_queue (rq_aclaim Q (rr_claim t) (wk_worker_id w) default_claim_lease_seconds)) (\<lambda>e.
     bindE (lift_result (num_add (budget_for w q e) (wk_cancellation_grace_period w))) (\<lambda>lease_seconds.
     bindE (on_queue (rp_arenew X (rr_renew t) (qe_id e) (wk_worker_id w) (PNum lease_seconds))) (\<lambda>renewed.
       if \<not> renewed then ok None
       else
         bindE (set_worker (\<lambda>w. w\<lparr>wk_last_claim_conflict_at := dict_pop (qe_id e) (wk_last_claim_conflict_at w)\<rparr>)) (\<lambda>_.
           ok (Some (e, Some lease_seconds))))))))"

definition redis_discard_missing :: "'s redis_context \<Rightarrow> uuid \<Rightarrow> uuid \<Rightarrow> (unit, 's) prog" where
  "redis_discard_missing X worker_id i =
     except_Exception (bindE (rp_aack X i worker_id) (\<lambda>_. ok ())) (\<lambda>_. ok ())"

text \<open>One microsecond, as a float: \<^verbatim>\<open>1 / MICROSECONDS_PER_SECOND\<close>.\<close>

definition immediate_release_delay :: pyval where
  "immediate_release_delay = PNum (PyFloat (to_double (1 / 1000000)))"

definition redis_mark_running ::
    "'s redis_context \<Rightarrow> 's redis_queue_ops \<Rightarrow> redis_readings \<Rightarrow> clock_time result \<Rightarrow> uuid \<Rightarrow> queue_entry \<Rightarrow>
     (queue_entry option, 's) prog" where
  "redis_mark_running X Q t now worker_id e =
     bindE (rp_afind X (qe_id e)) (\<lambda>queued_entry.
     bindE (lift_result now) (\<lambda>dispatched_at.
     bindE (lift_result (replace queued_entry
       (a_dispatched_at_update (\<lambda>_. PClock dispatched_at) \<circ> a_status_update (\<lambda>_. PStatus RUNNING)))) (\<lambda>running_entry.
     bindE (rp_amark_running X worker_id running_entry) (\<lambda>marked.
       if \<not> marked then
         bindE (rq_arelease Q (rr_release t) (qe_id e) worker_id immediate_release_delay) (\<lambda>_. ok None)
       else ok (Some running_entry)))))"

definition redis_worker :: "'s redis_context \<Rightarrow> 's redis_queue_ops \<Rightarrow> redis_readings \<Rightarrow> 's worker_class" where
  "redis_worker X Q t =
     \<lparr>wc_next = redis_next X Q t,
      wc_mark_running = (\<lambda>_. redis_mark_running X Q t),
      wc_settle = (\<lambda>_. rp_asettle X),
      wc_discard_missing = (\<lambda>_. redis_discard_missing X)\<rparr>"

text \<open>The pause before a lease is renewed: a half, two thirds or three quarters of it.\<close>

definition renewal_delay :: "pynum \<Rightarrow> pynum result" where
  "renewal_delay lease_seconds =
     (if num_le lease_seconds (PyInt 60) then num_truediv lease_seconds 2
      else if num_le lease_seconds (PyInt 600) then num_truediv (num_scale lease_seconds 2) 3
      else num_truediv (num_scale lease_seconds 3) 4)"

text \<open>
  The renewal task: one renewal per reading of the server's clock, until one is refused or fails.
  The readings run out when the dispatch ends and the task is stopped.
\<close>

fun renew_claim :: "'s redis_context \<Rightarrow> (int \<times> int) list \<Rightarrow> uuid \<Rightarrow> uuid \<Rightarrow> pynum \<Rightarrow> (bool, 's) prog" where
  "renew_claim X [] i worker_id lease_seconds s = (Inl CancelledError, s)"
| "renew_claim X (now # readings) i worker_id lease_seconds s =
     (case rp_arenew X now i worker_id (PNum lease_seconds) s of
        (Inl CancelledError, s') \<Rightarrow> (Inl CancelledError, s')
      | (Inl _, s') \<Rightarrow> (Inr False, s')
      | (Inr renewed, s') \<Rightarrow> if renewed then renew_claim X readings i worker_id lease_seconds s' else (Inr False, s'))"

section \<open>What the claiming worker keeps\<close>

lemma redis_next_counts: "counted 0 (redis_next X Q t q)"
proof -
  have set: "counted 0 (set_worker f)" if "\<And>w. terminal_count (f w) = terminal_count w \<and>
      wk_dispatch_count (f w) = wk_dispatch_count w \<and> wk_worker_id (f w) = wk_worker_id w" for f
    using that by (simp add: counted_def)
  have "counted 0 (recover_expired Q t q)"
    unfolding recover_expired_def by (rule counted_with) (auto simp: terminal_count_def intro!: counted_bind0 set)
  then show ?thesis unfolding redis_next_def
    by (intro counted_bind0 counted_with) (auto simp: terminal_count_def intro!: counted_bind0 set)
qed

interpretation redis_dispatcher: queue_worker "redis_worker X Q t" for X Q t
  by unfold_locales (simp add: redis_worker_def redis_next_counts)

text \<open>The owner of a claim, as the scripts read it.\<close>

abbreviation owns :: "'s redis_context \<Rightarrow> 's \<Rightarrow> uuid \<Rightarrow> uuid \<Rightarrow> bool" where
  "owns X s i worker_id \<equiv> owned_by (r_get (rx_server X) s (ClaimKey i)) worker_id \<noteq> None"

text \<open>A record is filed under the id it carries.\<close>

definition filed :: "'s redis_context \<Rightarrow> 's \<Rightarrow> uuid \<Rightarrow> bool" where
  "filed X s i \<longleftrightarrow> (\<forall>raw e. r_get (rx_server X) s (EntryKey i) = Some raw \<longrightarrow> loads_entry raw = Inr e \<longrightarrow> qe_id e = i)"

lemma unowned_scripts:
  assumes "\<not> owns X s i worker_id"
  shows "qe_id e = i \<Longrightarrow> snd (rp_asettle X worker_id e s) = s \<and> fst (rp_asettle X worker_id e s) \<noteq> Inr True"
    "snd (redis_discard_missing X worker_id i s) = s"
  using assms
  by (auto simp: rp_asettle_def rp_aack_def redis_discard_missing_def except_Exception_def tryE_def lua_settle_def lua_ack_def
      bindE_lift bindE_def fcall_cases split: sum.splits pyerror.splits)

lemma find_filed: "filed X s i \<Longrightarrow> fst (rp_afind X i s) = Inr e \<Longrightarrow> qe_id e = i"
  by (auto simp: rp_afind_def filed_def split: option.splits)

lemma terminal_replace_id: "replace e (terminal_fields st v err t) = Inr e' \<Longrightarrow> qe_id e' = qe_id e"
  using replace_fields[of "a_result_update (\<lambda>_. v) \<circ> a_error_update (\<lambda>_. err) \<circ> a_finished_at_update (\<lambda>_. PClock t)" e st e']
  by (simp add: terminal_fields_def field_changes_def)

lemma failure_replace_id:
  "replace e ((a_error_update (\<lambda>_. err) \<circ> a_finished_at_update (\<lambda>_. PClock t)) \<circ> a_status_update (\<lambda>_. PStatus st)) = Inr e' \<Longrightarrow> qe_id e' = qe_id e"
  using replace_fields[of "a_error_update (\<lambda>_. err) \<circ> a_finished_at_update (\<lambda>_. PClock t)" e st e']
  by (simp add: field_changes_def)

text \<open>\<open>still c p\<close>: started in \<open>c\<close>, the program \<open>p\<close> changes neither the worker nor the store, on any branch.\<close>

definition still :: "'c \<Rightarrow> ('a, 'c) prog \<Rightarrow> bool" where
  "still c p \<longleftrightarrow> snd (p c) = c"

lemma still_bind: "still c p \<Longrightarrow> (\<And>x. fst (p c) = Inr x \<Longrightarrow> still c (f x)) \<Longrightarrow> still c (bindE p f)"
  by (cases "p c") (auto simp: still_def bindE_def split: sum.splits)

lemma still_try: "still c p \<Longrightarrow> (\<And>e. fst (p c) = Inl e \<Longrightarrow> still c (h e)) \<Longrightarrow> still c (tryE p h)"
  by (cases "p c") (auto simp: still_def tryE_def split: sum.splits)

lemma still_except: "still c p \<Longrightarrow> (\<And>e. fst (p c) = Inl e \<Longrightarrow> still c (h e)) \<Longrightarrow> still c (except_Exception p h)"
  unfolding except_Exception_def by (rule still_try) (auto simp: still_def)

lemma still_bind_fst: "still c p \<Longrightarrow> fst (bindE p f c) = Inr y \<Longrightarrow> \<exists>x. fst (p c) = Inr x \<and> fst (f x c) = Inr y"
  by (cases "p c") (auto simp: still_def bindE_def split: sum.splits)

lemma except_raise: "fst (except_Exception p (\<lambda>_. raise err) c) = Inr x \<Longrightarrow> fst (p c) = Inr x"
  by (cases "p c") (auto simp: except_Exception_def tryE_def split: sum.splits if_splits)

lemma still_basic [simp, intro]: "still c (ok x)" "still c (raise err)" "still c (lift_result r)"
  by (simp_all add: still_def)

lemma still_on_queue [intro]: "snd (p s) = s \<Longrightarrow> still (w, s) (on_queue p)"
  by (simp add: still_def on_queue_cases)

lemma still_find: "still (w, s) (on_queue (rp_afind X i))"
  by (rule still_on_queue) (auto simp: rp_afind_def split: option.splits)

lemma fst_on_queue [simp]: "fst (on_queue p (w, s)) = fst (p s)"
  by (simp add: on_queue_cases)

text \<open>Without the claim every attempt to settle an entry comes to nothing.\<close>

lemma attempt_lost:
  assumes "\<not> owns X s i worker_id" "\<And>f tm. rep tm = Inr f \<Longrightarrow> qe_id f = i"
  shows "still (w, s) (bindE (lift_result now) (\<lambda>tm. bindE (lift_result (rep tm)) (\<lambda>f.
      bindE (on_queue (rp_asettle X worker_id f)) (\<lambda>settled. ok (g settled f)))))"
    and "fst (bindE (lift_result now) (\<lambda>tm. bindE (lift_result (rep tm)) (\<lambda>f.
      bindE (on_queue (rp_asettle X worker_id f)) (\<lambda>settled. ok (g settled f)))) (w, s)) = Inr y \<Longrightarrow> \<exists>f. y = g False f"
proof -
  have set: "snd (rp_asettle X worker_id f s) = s" "fst (rp_asettle X worker_id f s) \<noteq> Inr True" if "rep tm = Inr f" for tm f
    using unowned_scripts(1)[OF assms(1) assms(2)[OF that]] by auto
  show "still (w, s) (bindE (lift_result now) (\<lambda>tm. bindE (lift_result (rep tm)) (\<lambda>f.
      bindE (on_queue (rp_asettle X worker_id f)) (\<lambda>settled. ok (g settled f)))))"
    by (intro still_bind still_basic still_on_queue) (auto intro: set)
  show "\<exists>f. y = g False f" if "fst (bindE (lift_result now) (\<lambda>tm. bindE (lift_result (rep tm)) (\<lambda>f.
      bindE (on_queue (rp_asettle X worker_id f)) (\<lambda>settled. ok (g settled f)))) (w, s)) = Inr y"
    using that set(2) by (auto simp: bindE_def on_queue_cases split: sum.splits) (metis (full_types))+
qed

lemma claim_failure_lost:
  assumes lost: "\<not> owns X s (qe_id e) worker_id" and filed: "filed X s (qe_id e)" and found: "op_afind (wq_ops q) = rp_afind X"
  shows "still (w, s) (record_claim_persistence_failure (redis_worker X Q t) q ft worker_id e)"
proof -
  let ?find = "except_Exception (on_queue (rp_afind X (qe_id e))) (\<lambda>_. raise QueuePersistenceError)"
  have find: "still (w, s) ?find" by (intro still_except still_find) simp
  have id: "qe_id current = qe_id e" if "fst (?find (w, s)) = Inr current" for current
    using except_raise[OF that] find_filed[OF filed] by simp
  show ?thesis
    unfolding record_claim_persistence_failure_def async_afind_def found redis_worker_def worker_class.select_convs
  proof (rule still_bind[OF find])
    fix current assume cur: "fst (?find (w, s)) = Inr current"
    let ?rep = "\<lambda>tm. replace current ((a_error_update (\<lambda>_. error_document ''QueuePersistenceError'' persistence_message) \<circ>
        a_finished_at_update (\<lambda>_. PClock tm)) \<circ> a_status_update (\<lambda>_. PStatus FAILED))"
    let ?tried = "except_Exception (bindE (lift_result ft) (\<lambda>tm. bindE (lift_result (?rep tm)) (\<lambda>f.
        bindE (on_queue (rp_asettle X worker_id f)) (\<lambda>settled. ok (settled, f))))) (\<lambda>_. raise QueuePersistenceError)"
    have rep: "qe_id f = qe_id e" if "?rep tm = Inr f" for f tm
      using failure_replace_id[OF that] id[OF cur] by simp
    have quiet: "still (w, s) ?tried" by (rule still_except[OF attempt_lost(1)[OF lost rep]]) auto
    have no: "\<not> fst y" if "fst (?tried (w, s)) = Inr y" for y
    proof -
      have "fst (bindE (lift_result ft) (\<lambda>tm. bindE (lift_result (?rep tm)) (\<lambda>f.
        bindE (on_queue (rp_asettle X worker_id f)) (\<lambda>settled. ok (settled, f)))) (w, s)) = Inr y"
        by (rule except_raise[OF that])
      then show ?thesis using attempt_lost(2)[OF lost rep, where y = y] by fastforce
    qed
    show "still (w, s) (if qe_status current \<noteq> RUNNING then ok current
       else bindE ?tried (\<lambda>(settled, failure).
         if \<not> settled then raise QueuePersistenceError
         else bindE (apublish failure) (\<lambda>_. bindE (record_terminal failure) (\<lambda>_. ok failure))))"
      using no by (auto intro!: still_bind[OF quiet] split: prod.split)
  qed
qed

lemma settle_lost:
  assumes lost: "\<not> owns X s (qe_id e) worker_id" and filed: "filed X s (qe_id e)" and found: "op_afind (wq_ops q) = rp_afind X"
  shows "still (w, s) (settle_terminal (redis_worker X Q t) q now ft e worker_id st v err)"
proof -
  let ?rep = "\<lambda>current tm. replace current (terminal_fields st v err tm)"
  let ?att = "\<lambda>current. bindE (lift_result now) (\<lambda>tm. bindE (lift_result (?rep current tm)) (\<lambda>f.
      bindE (on_queue (rp_asettle X worker_id f)) (\<lambda>settled. ok (Inr (settled, f) :: queue_entry + bool \<times> queue_entry))))"
  let ?body = "bindE (on_queue (rp_afind X (qe_id e))) ?att"
  let ?h = "\<lambda>err. case err of
            QueueEntryNotFoundError _ \<Rightarrow> bindE (on_queue (redis_discard_missing X worker_id (qe_id e))) (\<lambda>_. ok (Inl e))
          | CancelledError \<Rightarrow> raise CancelledError
          | _ \<Rightarrow> bindE (record_claim_persistence_failure (redis_worker X Q t) q ft worker_id e) (\<lambda>r. ok (Inl r))"
  note id = find_filed[OF filed]
  have rep: "qe_id f = qe_id e" if "qe_id current = qe_id e" "?rep current tm = Inr f" for f tm current
    using terminal_replace_id[OF that(2)] that(1) by simp
  have body: "still (w, s) ?body"
    by (rule still_bind[OF still_find attempt_lost(1)[OF lost rep]]) (auto dest: id)
  have handler: "still (w, s) (?h err)" for err
    using unowned_scripts(2)[OF lost] claim_failure_lost[OF assms]
    by (auto split: pyerror.split intro!: still_bind)
  have no: "\<exists>f. y = Inr (False, f)" if out: "fst (?body (w, s)) = Inr y" for y
  proof -
    obtain current where c: "fst (rp_afind X (qe_id e) s) = Inr current" "fst (?att current (w, s)) = Inr y"
      using still_bind_fst[OF still_find out] by auto
    have "qe_id current = qe_id e" by (rule id[OF c(1)])
    from attempt_lost(2)[OF lost rep[OF this] c(2)] show ?thesis by auto
  qed
  have "still (w, s) (bindE (tryE ?body ?h) (\<lambda>attempt. case attempt of
          Inl returned \<Rightarrow> ok returned
        | Inr (settled, f) \<Rightarrow> if \<not> settled then ok e
            else bindE (apublish f) (\<lambda>_. bindE (record_terminal f) (\<lambda>_. ok f))))"
  proof (rule still_bind[OF still_try[OF body handler]])
    fix y assume y: "fst (tryE ?body ?h (w, s)) = Inr y"
    show "still (w, s) (case y of Inl returned \<Rightarrow> ok returned
        | Inr (settled, f) \<Rightarrow> if \<not> settled then ok e
            else bindE (apublish f) (\<lambda>_. bindE (record_terminal f) (\<lambda>_. ok f)))"
    proof (cases "fst (?body (w, s))")
      case (Inr z)
      then have "y = z" using y by (auto simp: tryE_def split: prod.splits)
      then show ?thesis using no[OF Inr] by auto
    next
      case (Inl err)
      then have "fst (?h err (w, s)) = Inr y" using y body by (auto simp: tryE_def still_def split: prod.splits)
      then have "isl y" by (auto simp: bindE_def split: pyerror.splits sum.splits prod.splits)
      then show ?thesis by (auto simp: isl_def)
    qed
  qed
  then show ?thesis unfolding settle_terminal_def async_afind_def found redis_worker_def worker_class.select_convs .
qed

lemma outcome_lost:
  assumes "\<not> owns X s (qe_id e) worker_id" "filed X s (qe_id e)" "op_afind (wq_ops q) = rp_afind X"
  shows "still (w, s) (handle_outcome (redis_worker X Q t) q env e (Some worker_id))"
  using settle_lost[OF assms]
  by (auto simp: handle_outcome_def finish_cancellation_def record_result_def record_failure_def abandon_unresponsive_handler_def
      intro!: still_bind split: handler_end.split grace_end.split sum.split)

lemma wire_total:
  assumes "\<forall>tm \<in> {qe_queued_at e} \<union> set_option (qe_dispatched_at e) \<union> set_option (qe_finished_at e). clock_ok tm \<and> seconds tm < 2 ^ 33"
  shows "\<exists>d. wire e = Inr d"
proof -
  have "\<exists>n. to_timestamp (qe_queued_at e) = Inr n" using assms to_timestamp_decode[of "qe_queued_at e"] by auto
  moreover have "\<exists>v. encode_time_opt (qe_dispatched_at e) = Inr v" "\<exists>v. encode_time_opt (qe_finished_at e) = Inr v"
    using assms encode_time_opt_decode[of "qe_dispatched_at e" "''dispatched_at''"]
      encode_time_opt_decode[of "qe_finished_at e" "''finished_at''"] by auto
  ultimately show ?thesis by (auto simp: wire_def to_dict_def)
qed

text \<open>The owner's running entry, as it is stored.\<close>

definition running_for_owner :: "'s redis_context \<Rightarrow> 's \<Rightarrow> uuid \<Rightarrow> queue_entry \<Rightarrow> bool" where
  "running_for_owner X s worker_id e \<longleftrightarrow>
     owns X s (qe_id e) worker_id \<and> entry_valid e \<and> entry_wire_safe e \<and> qe_status e = RUNNING \<and>
     (\<exists>d. wire e = Inr d \<and> r_get (rx_server X) s (EntryKey (qe_id e)) = Some (VDoc d))"

text \<open>The entry is stored as \<open>e'\<close> and its claim is gone.\<close>

definition released_as :: "'s redis_context \<Rightarrow> 's \<Rightarrow> queue_entry \<Rightarrow> bool" where
  "released_as X s e' \<longleftrightarrow>
     (\<exists>d. wire e' = Inr d \<and> r_get (rx_server X) s (EntryKey (qe_id e')) = Some (VDoc d)) \<and>
     r_get (rx_server X) s (ClaimKey (qe_id e')) = None \<and> r_zscore (rx_server X) s ClaimDeadlinesKey (qe_id e') = None"

lemma settle_owned:
  fixes e :: queue_entry and st :: QueueEntryStatus and v err :: pyval and tm :: clock_time
  assumes "redis_server (rx_server X)" "rx_ready X = Inr ()" "running_for_owner X s worker_id e" "op_afind (wq_ops q) = rp_afind X"
    "json_ok v" "json_ok err" "clock_ok tm" "seconds tm < 2 ^ 33"
  defines "e' \<equiv> e\<lparr>qe_status := st, qe_result := v, qe_error := err, qe_finished_at := Some tm\<rparr>"
  shows "\<exists>s'. settle_terminal (redis_worker X Q t) q (Inr tm) ft e worker_id st v err (w, s) = (Inr e', (after_record e' w, s')) \<and>
    released_as X s' e'"
proof -
  let ?R = "rx_server X" and ?i = "qe_id e"
  note own = assms(3)[unfolded running_for_owner_def]
  obtain d c where d: "wire e = Inr d" "r_get ?R s (EntryKey ?i) = Some (VDoc d)" and c: "owned_by (r_get ?R s (ClaimKey ?i)) worker_id = Some c"
    using own by auto
  have find: "rp_afind X ?i s = (Inr e, s)"
    using d entry_wire_roundtrip[of e] own by (simp add: rp_afind_def)
  have rep: "replace e (terminal_fields st v err tm) = Inr e'"
    using replace_ok(4)[of e v err tm st] own assms(5,6) by (simp add: terminal_fields_def e'_def)
  obtain d' where d': "wire e' = Inr d'"
    using wire_total[of e'] own assms(7,8) by (auto simp: e'_def entry_wire_safe_def)
  have run: "doc_is (r_get ?R s (EntryKey ?i)) RUNNING"
    using d own wire_status[OF d(1)] by (simp add: doc_is_def)
  have id: "qe_id e' = ?i" by (simp add: e'_def)
  define s' where "s' = snd (r_del ?R (ClaimKey ?i) (r_zrem ?R ClaimDeadlinesKey ?i (r_set ?R (EntryKey ?i) (VDoc d') s)))"
  have "r_get ?R s (ClaimKey ?i) \<noteq> None" using c by (simp add: redis_server.owned_by_Some[OF assms(1)])
  then have "fst (r_del ?R (ClaimKey ?i) (r_zrem ?R ClaimDeadlinesKey ?i (r_set ?R (EntryKey ?i) (VDoc d') s))) = 1"
    using redis_server.del_reply[OF assms(1)] redis_server.get_zrem[OF assms(1)] redis_server.get_set[OF assms(1)] by simp
  then have settle: "rp_asettle X worker_id e' s = (Inr True, s')"
    using c run assms(2) by (simp add: rp_asettle_def d' id lua_settle_def bindE_lift bindE_def fcall_cases s'_def)
  have "released_as X s' e'"
    unfolding released_as_def s'_def id
    using d' redis_server.get_del[OF assms(1)] redis_server.get_zrem[OF assms(1)] redis_server.get_set[OF assms(1)]
      redis_server.zscore_del[OF assms(1)] redis_server.zscore_zrem[OF assms(1)] by simp
  moreover have "settle_terminal (redis_worker X Q t) q (Inr tm) ft e worker_id st v err (w, s) = (Inr e', (after_record e' w, s'))"
    using find rep settle assms(4) by (simp add: settle_terminal_def async_afind_def redis_worker_def bindE_lift)
  ultimately show ?thesis by blast
qed

lemma outcome_owned:
  assumes "redis_server (rx_server X)" "rx_ready X = Inr ()" "running_for_owner X s worker_id e" "op_afind (wq_ops q) = rp_afind X"
    "de_finished env = Inr tm" "clock_ok tm" "seconds tm < 2 ^ 33" "settled_status (de_handler env) = Some st"
  shows "\<exists>e' s'. handle_outcome (redis_worker X Q t) q env e (Some worker_id) (w, s) =
      (dispatch_reply (de_handler env), (after_record e' w, s')) \<and>
    released_as X s' e' \<and> qe_id e' = qe_id e \<and> qe_status e' = st \<and> qe_finished_at e' = Some tm"
proof -
  note settle = settle_owned[OF assms(1-4) _ _ assms(6,7), where Q = Q and t = t and w = w and ft = "de_failed env"]
  note run = handle_outcome_def finish_cancellation_def record_result_def record_failure_def abandon_unresponsive_handler_def
    validate_json_value_def assms(5) dispatch_reply_def
  have fail: "\<exists>e' s'. settle_terminal (redis_worker X Q t) q (Inr tm) (de_failed env) e worker_id FAILED PNone (error_document ty m) (w, s) =
      (Inr e', (after_record e' w, s')) \<and> released_as X s' e' \<and> qe_id e' = qe_id e \<and> qe_status e' = FAILED \<and> qe_finished_at e' = Some tm" for ty m
    using settle[of PNone "error_document ty m" FAILED] by fastforce
  have late: "\<exists>e' s'. settle_terminal (redis_worker X Q t) q (Inr tm) (de_failed env) e worker_id TIMEOUT PNone PNone (w, s) =
      (Inr e', (after_record e' w, s')) \<and> released_as X s' e' \<and> qe_id e' = qe_id e \<and> qe_status e' = TIMEOUT \<and> qe_finished_at e' = Some tm"
    using settle[of PNone PNone TIMEOUT] by fastforce
  have good: "\<exists>e' s'. settle_terminal (redis_worker X Q t) q (Inr tm) (de_failed env) e worker_id SUCCEEDED v PNone (w, s) =
      (Inr e', (after_record e' w, s')) \<and> released_as X s' e' \<and> qe_id e' = qe_id e \<and> qe_status e' = SUCCEEDED \<and> qe_finished_at e' = Some tm"
    if "json_ok v" for v
    using settle[of v PNone SUCCEEDED] that by fastforce
  show ?thesis
  proof (cases "de_handler env")
    case (HandlerReturned v)
    then show ?thesis using assms(8) good[of v] fail[of "''TypeError''" json_message] by (cases "json_ok v") (auto simp: run)
  next
    case (HandlerRaised ty m)
    then show ?thesis using assms(8) fail[of ty m] by (auto simp: run)
  next
    case BudgetExpired
    then show ?thesis using assms(8) late by (auto simp: run)
  next
    case (WorkerCancelled g)
    show ?thesis
    proof (cases g)
      case (GraceReturned v)
      then show ?thesis using WorkerCancelled assms(8) good[of v] fail[of "''TypeError''" json_message]
        by (cases "json_ok v") (auto simp: run)
    next
      case (GraceRaised ty m)
      then show ?thesis using WorkerCancelled assms(8) fail[of ty m] by (auto simp: run)
    next
      case GraceExpired
      then show ?thesis using WorkerCancelled assms(8) late by (auto simp: run)
    qed (use WorkerCancelled assms(8) in simp)
  qed (use assms(8) in simp_all)
qed

section \<open>Properties\<close>

text \<open>The sample entry, claimed by worker 7 and then started by it.\<close>

definition sample_started :: queue_entry where
  "sample_started = sample_job\<lparr>qe_status := RUNNING, qe_dispatched_at := Some (ClockTime 1001 0)\<rparr>"

definition sample_running :: redis_db where
  "sample_running = snd (rp_amark_running sample_redis 7 sample_started sample_claimed)"

definition sample_worker_queue :: "redis_db worker_queue" where
  "sample_worker_queue =
     \<lparr>wq_key = 0, wq_ops = redis_async_ops sample_redis False (1001, 0) [], wq_timeout_seconds = None,
      wq_retention_timeout = None, wq_is_async = True, wq_provider_kind = ''redis'', wq_compatible = True\<rparr>"

definition sample_readings :: redis_readings where
  "sample_readings = \<lparr>rr_loop = 1, rr_recover = (1001, 0), rr_claim = (1001, 0), rr_renew = (1001, 0), rr_release = (1001, 0)\<rparr>"

lemma sample_started_safe: "entry_valid sample_started" "entry_wire_safe sample_started" "qe_status sample_started = RUNNING"
  "qe_id sample_started = sample_id 1"
  using sample_entry_valid[of 60 "ClockTime 1000 0"]
  by (simp_all add: sample_started_def entry_valid_def entry_wire_safe_def clock_ok_def sample_entry_def)

lemma sample_running_owner: "running_for_owner sample_redis sample_running 7 sample_started"
proof -
  obtain d where d: "wire sample_started = Inr d"
    using entry_wire_roundtrip[OF sample_started_safe(1,2)] by (auto simp: bindR_Inr_iff)
  obtain c where c: "owned_by (r_get map_redis sample_claimed (ClaimKey (sample_id 1))) 7 = Some c"
    using sample_claimed_lease(1) by (auto simp: lease_of_def owned_by_def)
  have "doc_is (r_get map_redis sample_claimed (EntryKey (sample_id 1))) QUEUED"
    using sample_claimed_lease(2) by (simp add: doc_is_status)
  then have run: "sample_running = r_set map_redis (EntryKey (sample_id 1)) (VDoc d) sample_claimed"
    using d c by (simp add: sample_running_def rp_amark_running_def lua_mark_running_def bindE_lift bindE_def fcall_cases sample_started_safe)
  show ?thesis unfolding running_for_owner_def run using d c by (simp add: sample_started_safe)
qed

lemma sample_afind: "op_afind (wq_ops sample_worker_queue) = rp_afind sample_redis"
  by (simp add: sample_worker_queue_def redis_async_ops_def)

text \<open>
  C4. A worker that lost its claim leaves no trace: however its handler ended, without the claim
  nothing is stored, published or counted for the entry, so the worker the entry was handed to
  records its outcome alone.
\<close>

theorem lost_claim_leaves_no_trace:
  assumes "owned_by (r_get (rx_server X) s (ClaimKey (qe_id e))) worker_id = None" "filed X s (qe_id e)"
    "op_afind (wq_ops q) = rp_afind X"
  shows "snd (handle_outcome (redis_worker X Q t) q env e (Some worker_id) (w, s)) = (w, s)"
  using outcome_lost[of X s e worker_id q w Q t env] assms by (simp add: still_def)

theorem lost_claim_leaves_no_trace_witness:
  "snd (handle_outcome (redis_worker sample_redis (redis_queue_claims sample_redis) sample_readings) sample_worker_queue
      (sample_env (HandlerReturned PNone)) sample_started (Some 8) (sample_worker, sample_running)) = (sample_worker, sample_running)"
proof -
  note own = sample_running_owner[unfolded running_for_owner_def]
  obtain d where d: "wire sample_started = Inr d" "r_get map_redis sample_running (EntryKey (sample_id 1)) = Some (VDoc d)"
    using own by (auto simp: sample_started_safe)
  have "owned_by (r_get map_redis sample_running (ClaimKey (sample_id 1))) 8 = None"
    using own by (auto simp: owned_by_def sample_started_safe split: option.splits if_splits)
  moreover have "filed sample_redis sample_running (sample_id 1)"
    using d entry_wire_roundtrip[OF sample_started_safe(1,2)] by (auto simp: filed_def sample_started_safe)
  ultimately show ?thesis by (intro lost_claim_leaves_no_trace) (simp_all add: sample_started_safe sample_afind)
qed

text \<open>
  C5. The owner's outcome is recorded once and the claim ends with it: whatever the handler did,
  unless it was cancelled itself or the claim was lost, the stored record has the terminal status
  that fits and the time it ended, the claim and its deadline are gone, and exactly this record is
  published and counted.
\<close>

theorem owner_records_outcome:
  assumes "redis_server (rx_server X)" "rx_ready X = Inr ()" "running_for_owner X s worker_id e" "op_afind (wq_ops q) = rp_afind X"
    "de_finished env = Inr tm" "clock_ok tm" "seconds tm < 2 ^ 33" "settled_status (de_handler env) = Some st"
  shows "\<exists>e' w' s'. handle_outcome (redis_worker X Q t) q env e (Some worker_id) (w, s) = (dispatch_reply (de_handler env), (w', s')) \<and>
    qe_id e' = qe_id e \<and> qe_status e' = st \<and> qe_finished_at e' = Some tm \<and>
    (\<exists>d. wire e' = Inr d \<and> r_get (rx_server X) s' (EntryKey (qe_id e)) = Some (VDoc d)) \<and>
    lease_of (rx_server X) s' (qe_id e) = None \<and> r_zscore (rx_server X) s' ClaimDeadlinesKey (qe_id e) = None \<and>
    wk_published w' = wk_published w @ [e'] \<and> terminal_count w' = terminal_count w + 1"
proof -
  obtain e' s' where out: "handle_outcome (redis_worker X Q t) q env e (Some worker_id) (w, s) =
      (dispatch_reply (de_handler env), (after_record e' w, s'))" "released_as X s' e'"
    "qe_id e' = qe_id e" "qe_status e' = st" "qe_finished_at e' = Some tm"
    using outcome_owned[OF assms, of Q t w] by auto
  have "st \<in> {SUCCEEDED, FAILED, TIMEOUT}"
    using assms(8) by (cases "de_handler env" rule: settled_status.cases) (auto split: if_splits elim!: grace_status.elims)
  then have "wk_published (after_record e' w) = wk_published w @ [e'] \<and> terminal_count (after_record e' w) = terminal_count w + 1"
    using out(4) by (auto simp: after_record_def record_terminal_def clear_active_def count_terminal_def terminal_count_def)
  then show ?thesis using out by (auto simp: released_as_def lease_of_def)
qed

theorem owner_records_outcome_witness:
  "\<exists>e' w' s'. handle_outcome (redis_worker sample_redis (redis_queue_claims sample_redis) sample_readings) sample_worker_queue
      (sample_env BudgetExpired) sample_started (Some 7) (sample_worker, sample_running) = (Inr (), (w', s')) \<and>
     wk_published w' = [e'] \<and> qe_status e' = TIMEOUT \<and> lease_of map_redis s' (sample_id 1) = None"
  using owner_records_outcome[of sample_redis sample_running 7 sample_started sample_worker_queue
      "sample_env BudgetExpired" "ClockTime 1002 0" TIMEOUT "redis_queue_claims sample_redis" sample_readings sample_worker]
    map_server.redis_server_axioms sample_running_owner sample_afind
  by (auto simp: clock_ok_def dispatch_reply_def sample_started_safe sample_env_def sample_worker_def)

text \<open>
  C15. Renewal is in time: the pause before a lease is renewed, computed in doubles, is positive and
  leaves at least a sixth of the lease to spare, for every lease from one second up to \<open>2 ^ 48\<close>.
\<close>

theorem renewal_in_time:
  assumes "num_value lease = Some x" "1 \<le> x" "x < 2 ^ 48"
  shows "\<exists>d. renewal_delay lease = Inr (PyFloat (Fin d)) \<and> 0 < d \<and> 6 * d \<le> 5 * x"
proof -
  have near: "\<exists>d. to_double y = Fin d \<and> 16 * d \<le> 16 * y + 1 \<and> 16 * y \<le> 16 * d + 1" if "0 \<le> y" "y < 2 ^ 50" for y :: rat
  proof -
    have "\<bar>fl y - y\<bar> \<le> 1 / 16" "to_double y = Fin (fl y)" using fl_error_nat[of y 50] that to_double_small[of y] by auto
    then show ?thesis by (intro exI[of _ "fl y"]) linarith
  qed
  show ?thesis
  proof (cases lease)
    case (PyInt n)
    have step: "\<exists>d. num_truediv (PyInt m) k = Inr (PyFloat (Fin d)) \<and> 16 * d \<le> 16 * y + 1 \<and> 16 * y \<le> 16 * d + 1"
      if "of_int m / of_int k = y" "0 \<le> y" "y < 2 ^ 50" for m k y
      using near[OF that(2,3)] that(1) by (auto simp: int_truediv_def)
    have x: "of_int n = x" using PyInt assms(1) by simp
    show ?thesis
      using step[of n 2 "x / 2"] step[of "n * 2" 3 "x * 2 / 3"] step[of "n * 3" 4 "x * 3 / 4"] assms(2,3) x
      by (fastforce simp: renewal_delay_def PyInt)
  next
    case (PyFloat f)
    then have f: "f = Fin x" using assms(1) by (cases f) auto
    have step: "\<exists>d. num_truediv (num_scale (PyFloat (Fin x)) m) k = Inr (PyFloat (Fin d)) \<and>
        16 * d \<le> 16 * x * of_int m / of_int k + 2 \<and> 16 * x * of_int m / of_int k \<le> 16 * d + 2"
      if mk: "(m, k) \<in> {(2, 3), (3, 4)}" for m k :: int
    proof -
      have "0 \<le> x * of_int m" "x * of_int m < 2 ^ 50" using assms(2,3) mk by auto
      then obtain a where a: "to_double (x * of_int m) = Fin a" "16 * a \<le> 16 * (x * of_int m) + 1" "16 * (x * of_int m) \<le> 16 * a + 1"
        using near by blast
      then have "0 \<le> a / of_int k" "a / of_int k < 2 ^ 50" using assms(2,3) mk by auto
      then obtain d where "to_double (a / of_int k) = Fin d" "16 * d \<le> 16 * (a / of_int k) + 1" "16 * (a / of_int k) \<le> 16 * d + 1"
        using near by blast
      then show ?thesis using a mk by auto
    qed
    show ?thesis using step[of 2 3] step[of 3 4] near[of "x / 2"] assms(2,3) by (fastforce simp: renewal_delay_def PyFloat f)
  qed
qed

theorem renewal_in_time_witness:
  "\<exists>d. renewal_delay (PyInt 630) = Inr (PyFloat (Fin d)) \<and> 0 < d \<and> 6 * d \<le> 5 * 630"
  by (rule renewal_in_time) simp_all

end
