(* ===== verification/Queue_Registry.thy ===== *)
theory Queue_Registry
  imports Queue_Worker Redis_Server
begin

text \<open>
  \<^verbatim>\<open>django_queue/__init__.py\<close> and the worker resolution of \<^verbatim>\<open>backends/base.py\<close>: from the
  \<^verbatim>\<open>QUEUES\<close> setting to configured queues. Importing by dotted path (Django) and constructing a
  backend are parameters; a class is known by its name, the names of all its bases (its own
  included) and the two attributes a worker class has. Messages are left out.
\<close>

section \<open>Classes and settings\<close>

record klass =
  k_name :: string
  k_bases :: "string list"
  k_provider_kind :: string
  k_provider_type :: string

datatype cfg_value =
    CfgVal pyval
  | CfgClass klass
  | CfgMap "(string, cfg_value) pydict"

definition issubclass :: "klass \<Rightarrow> string \<Rightarrow> bool" where
  "issubclass k base \<longleftrightarrow> base \<in> set (k_bases k)"

text \<open>
  \<open>import_string path\<close> is \<^verbatim>\<open>None\<close> when the import raises \<^verbatim>\<open>ImportError\<close>; \<open>queue_class\<close> has the
  attributes of a queue class that the registry reads.
\<close>

datatype queue_kind = AsyncKind | EventKind | NotificationKind | OtherKind

record queue_class =
  qc_kind :: queue_kind
  qc_process_scope :: bool
  qc_entry_class_at_construction :: bool
  qc_worker_class :: cfg_value
  qc_compatible_worker :: string
  qc_provider_kind :: string
  qc_provider_type :: string

record configured_queue =
  cq_name :: string
  cq_class :: queue_class
  cq_params :: "(string, cfg_value) pydict"
  cq_location :: cfg_value
  cq_entry_class :: klass
  cq_timeout_seconds :: "pynum option"
  cq_retention_timeout :: "pynum option"
  cq_worker_class :: cfg_value

section \<open>Options\<close>

definition resolve_timeout :: "cfg_value \<Rightarrow> pynum result" where
  "resolve_timeout value =
     (case (case value of CfgVal v \<Rightarrow> validate_budget v | _ \<Rightarrow> Inl TypeError) of
        Inl TypeError \<Rightarrow> Inl InvalidQueueBackendError
      | Inl ValueError \<Rightarrow> Inl InvalidQueueBackendError
      | r \<Rightarrow> r)"

text \<open>\<^verbatim>\<open>float(value)\<close> of the checked number.\<close>

definition to_float :: "pynum \<Rightarrow> pynum result" where
  "to_float n = (case n of PyInt i \<Rightarrow> bindR (int_to_float i) (\<lambda>r. Inr (PyFloat (Fin r))) | PyFloat f \<Rightarrow> Inr (PyFloat f))"

definition resolve_retention_timeout :: "cfg_value \<Rightarrow> pynum option result" where
  "resolve_retention_timeout value =
     (case value of
        CfgVal PNone \<Rightarrow> Inr None
      | CfgVal (PNum n) \<Rightarrow>
          bindR (math_isfinite n) (\<lambda>fin.
            if \<not> fin \<or> \<not> num_le (PyInt 0) n then Inl InvalidQueueBackendError
            else bindR (to_float n) (\<lambda>r. Inr (Some r)))
      | _ \<Rightarrow> Inl InvalidQueueBackendError)"

definition resolve_extension_class ::
    "(string \<Rightarrow> cfg_value option) \<Rightarrow> klass \<Rightarrow> cfg_value \<Rightarrow> klass result" where
  "resolve_extension_class import_string base_class value =
     (let check = (\<lambda>v. case v of
                CfgClass k \<Rightarrow> if issubclass k (k_name base_class) then Inr k else Inl InvalidQueueBackendError
              | _ \<Rightarrow> Inl InvalidQueueBackendError)
      in case value of
           CfgVal PNone \<Rightarrow> Inr base_class
         | CfgVal (PStr path) \<Rightarrow>
             if path = [] then Inl InvalidQueueBackendError
             else (case import_string path of None \<Rightarrow> Inl InvalidQueueBackendError | Some v \<Rightarrow> check v)
         | _ \<Rightarrow> check value)"

text \<open>
  The worker class of a queue: imported when it is a path, then checked against the required base,
  the provider kind, and the class the queue is compatible with.
\<close>

definition worker_class_is_compatible :: "configured_queue \<Rightarrow> klass \<Rightarrow> bool" where
  "worker_class_is_compatible q k \<longleftrightarrow>
     issubclass k (qc_compatible_worker (cq_class q)) \<and> k_provider_type k = qc_provider_type (cq_class q)"

definition resolve_worker ::
    "(string \<Rightarrow> cfg_value option) \<Rightarrow> string \<Rightarrow> configured_queue \<Rightarrow> klass result" where
  "resolve_worker import_string required_base q =
     (let check = (\<lambda>v. case v of
                CfgClass k \<Rightarrow>
                  if \<not> issubclass k required_base then Inl InvalidQueueBackendError
                  else if k_provider_kind k \<noteq> qc_provider_kind (cq_class q) then Inl InvalidQueueBackendError
                  else if \<not> worker_class_is_compatible q k then Inl InvalidQueueBackendError
                  else Inr k
              | _ \<Rightarrow> Inl InvalidQueueBackendError)
      in case cq_worker_class q of
           CfgVal (PStr path) \<Rightarrow>
             if path = [] then Inl InvalidQueueBackendError
             else (case import_string path of None \<Rightarrow> Inl InvalidQueueBackendError | Some v \<Rightarrow> check v)
         | v \<Rightarrow> check v)"

fun required_worker_base :: "queue_kind \<Rightarrow> string" where
  "required_worker_base AsyncKind = ''AsyncQueueWorker''"
| "required_worker_base EventKind = ''EventQueueWorker''"
| "required_worker_base NotificationKind = ''NotificationQueueWorker''"
| "required_worker_base OtherKind = []"

section \<open>Settings\<close>

definition entry_base :: klass where
  "entry_base = \<lparr>k_name = ''QueueEntry'', k_bases = [''QueueEntry''], k_provider_kind = [], k_provider_type = []\<rparr>"

definition option_or :: "(string, cfg_value) pydict \<Rightarrow> string \<Rightarrow> cfg_value \<Rightarrow> cfg_value" where
  "option_or options name fallback = (case dict_get options name of None \<Rightarrow> fallback | Some v \<Rightarrow> v)"

definition configure_alias ::
    "(string \<Rightarrow> cfg_value option) \<Rightarrow> pyval \<times> cfg_value \<Rightarrow> (string \<times> (string, cfg_value) pydict) result" where
  "configure_alias import_string entry =
     bindR (validate_queue_alias (fst entry)) (\<lambda>alias.
     case snd entry of
       CfgMap options \<Rightarrow>
         (case option_or options ''BACKEND'' (CfgVal PNone) of
            CfgVal (PStr backend) \<Rightarrow>
              if backend = [] then Inl InvalidQueueBackendError
              else
                bindR (resolve_extension_class import_string entry_base (option_or options ''ENTRY_CLASS'' (CfgVal PNone))) (\<lambda>_.
                bindR (case dict_get options ''TIMEOUT'' of None \<Rightarrow> Inr () | Some v \<Rightarrow> bindR (resolve_timeout v) (\<lambda>_. Inr ())) (\<lambda>_.
                bindR (case dict_get options ''RETENTION_TIMEOUT'' of None \<Rightarrow> Inr () | Some v \<Rightarrow> bindR (resolve_retention_timeout v) (\<lambda>_. Inr ())) (\<lambda>_.
                  Inr (alias, options))))
          | _ \<Rightarrow> Inl InvalidQueueBackendError)
     | _ \<Rightarrow> Inl InvalidQueueBackendError)"

text \<open>The setting as a list of items, in order; anything but a mapping is refused.\<close>

fun configure_items ::
    "(string \<Rightarrow> cfg_value option) \<Rightarrow> (pyval \<times> cfg_value) list \<Rightarrow> (string, (string, cfg_value) pydict) pydict result" where
  "configure_items import_string [] = Inr []"
| "configure_items import_string (entry # entries) =
     bindR (configure_alias import_string entry) (\<lambda>(alias, options).
     bindR (configure_items import_string entries) (\<lambda>rest. Inr ((alias, options) # rest)))"

definition configure_settings ::
    "(string \<Rightarrow> cfg_value option) \<Rightarrow> (pyval \<times> cfg_value) list option \<Rightarrow> (string, (string, cfg_value) pydict) pydict result" where
  "configure_settings import_string settings =
     (case settings of None \<Rightarrow> Inl InvalidQueueBackendError | Some items \<Rightarrow> configure_items import_string items)"

section \<open>Building a queue\<close>

text \<open>
  \<open>construct_backend\<close> is the call of the backend class with the location and the remaining options; of
  its exceptions three are turned into a configuration error.
\<close>

definition configuration_error :: "pyerror \<Rightarrow> pyerror" where
  "configuration_error err = (if err \<in> {AttributeError, TypeError, ValueError} then InvalidQueueBackendError else err)"

definition build_queue ::
    "(string \<Rightarrow> cfg_value option) \<Rightarrow> (cfg_value \<Rightarrow> (string, cfg_value) pydict \<Rightarrow> unit result) \<Rightarrow> string \<Rightarrow> queue_class \<Rightarrow>
     (string, cfg_value) pydict \<Rightarrow> cfg_value \<Rightarrow> (string, cfg_value) pydict \<Rightarrow> klass \<Rightarrow> configured_queue result" where
  "build_queue import_string construct_backend alias backend_cls options location params entry_class =
     bindR (case construct_backend location params of Inl err \<Rightarrow> Inl (configuration_error err) | Inr u \<Rightarrow> Inr u) (\<lambda>_.
     bindR (case dict_get options ''TIMEOUT'' of None \<Rightarrow> Inr None | Some v \<Rightarrow> bindR (resolve_timeout v) (\<lambda>n. Inr (Some n))) (\<lambda>timeout_seconds.
     bindR (resolve_retention_timeout (option_or options ''RETENTION_TIMEOUT'' (CfgVal (PNum (PyInt 600))))) (\<lambda>retention.
     let handler = option_or options ''HANDLER'' (CfgVal PNone);
         worker_class = option_or options ''WORKER'' (CfgVal PNone);
         q = \<lparr>cq_name = alias, cq_class = backend_cls, cq_params = params, cq_location = location,
              cq_entry_class = entry_class, cq_timeout_seconds = timeout_seconds,
              cq_retention_timeout = (if qc_kind backend_cls = AsyncKind then retention else None),
              cq_worker_class = (if worker_class = CfgVal PNone then qc_worker_class backend_cls else worker_class)\<rparr>
     in if qc_kind backend_cls \<in> {EventKind, NotificationKind} \<and> handler \<noteq> CfgVal PNone then Inl InvalidQueueBackendError
        else if qc_kind backend_cls = OtherKind then Inr q
        else bindR (resolve_worker import_string (required_worker_base (qc_kind backend_cls)) q) (\<lambda>_. Inr q))))"

text \<open>
  One queue per alias and process for the backends that ask for it; the others are built anew
  for every thread. The state is the registry's table of process-wide queues; \<open>backend\<close> finds the
  class behind the dotted path.
\<close>

definition backend_options :: "string list" where
  "backend_options = [''queue_name'', ''BACKEND'', ''LOCATION'', ''HANDLER'', ''WORKER'', ''TIMEOUT'', ''RETENTION_TIMEOUT'', ''ENTRY_CLASS'']"

definition queue_params :: "string \<Rightarrow> (string, cfg_value) pydict \<Rightarrow> (string, cfg_value) pydict" where
  "queue_params alias options =
     filter (\<lambda>(k, _). k \<notin> set backend_options) options @ [(''queue_name'', CfgVal (PStr alias))]"

definition registered_queue ::
    "bool \<Rightarrow> string \<Rightarrow> configured_queue result \<Rightarrow> (configured_queue, (string, configured_queue) pydict) prog" where
  "registered_queue process_scope alias build table =
     (if process_scope then
        (case dict_get table alias of
           Some q \<Rightarrow> (Inr q, table)
         | None \<Rightarrow> (case build of Inl err \<Rightarrow> (Inl err, table) | Inr q \<Rightarrow> (Inr q, dict_set alias q table)))
      else (build, table))"

definition create_connection ::
    "(string \<Rightarrow> cfg_value option) \<Rightarrow> (string \<Rightarrow> queue_class option) \<Rightarrow>
     (cfg_value \<Rightarrow> (string, cfg_value) pydict \<Rightarrow> unit result) \<Rightarrow> string \<Rightarrow> (string, cfg_value) pydict \<Rightarrow>
     (configured_queue, (string, configured_queue) pydict) prog" where
  "create_connection import_string backend construct_backend alias options =
     bindE (lift_result (resolve_extension_class import_string entry_base (option_or options ''ENTRY_CLASS'' (CfgVal PNone)))) (\<lambda>entry_class.
     case option_or options ''BACKEND'' (CfgVal PNone) of
       CfgVal (PStr path) \<Rightarrow>
         (case backend path of
            None \<Rightarrow> raise InvalidQueueBackendError
          | Some backend_cls \<Rightarrow>
              registered_queue (qc_process_scope backend_cls) alias
                (build_queue import_string construct_backend alias backend_cls options
                  (option_or options ''LOCATION'' (CfgVal (PStr [])))
                  (if qc_entry_class_at_construction backend_cls
                   then dict_set ''entry_class'' (CfgClass entry_class) (queue_params alias options)
                   else queue_params alias options)
                  entry_class))
     | _ \<Rightarrow> raise InvalidQueueBackendError)"

section \<open>Facts\<close>

lemma resolve_timeout_Inr: "resolve_timeout v = Inr n \<longleftrightarrow> v = CfgVal (PNum n) \<and> budget_ok n"
proof -
  have "resolve_timeout v = Inr n \<longleftrightarrow> (\<exists>x. v = CfgVal x \<and> validate_budget x = Inr n)"
    by (auto simp: resolve_timeout_def split: cfg_value.splits sum.splits pyerror.splits)
  then show ?thesis by (auto simp: validate_budget_Inr)
qed

lemma num_le_zero_value: "num_value n = Some x \<Longrightarrow> num_le (PyInt 0) n \<longleftrightarrow> 0 \<le> x"
  by (cases n rule: num_value.cases) auto

lemma math_isfinite_False: "math_isfinite n = Inr fin \<Longrightarrow> fin \<longleftrightarrow> (\<exists>x. num_value n = Some x)"
  by (cases n rule: math_isfinite.cases) (auto simp: bindR_Inr_iff)

lemma rne_nonneg: "0 \<le> x \<Longrightarrow> 0 \<le> rne x"
  by (simp add: rne_def Let_def)

lemma fl_nonneg: "0 \<le> x \<Longrightarrow> 0 \<le> fl x"
  using rne_nonneg[of "x / quantum x"] quantum_pos[of x] by (simp add: fl_def zero_le_divide_iff less_imp_le)

text \<open>A retention period is a finite float that is not negative.\<close>

definition retention_ok :: "pynum option \<Rightarrow> bool" where
  "retention_ok r \<longleftrightarrow> (\<forall>n. r = Some n \<longrightarrow> (\<exists>x. n = PyFloat (Fin x) \<and> 0 \<le> x))"

lemma to_float_nonneg:
  assumes "num_value n = Some x" "0 \<le> x" "to_float n = Inr r"
  shows "\<exists>y. r = PyFloat (Fin y) \<and> 0 \<le> y"
proof (cases n)
  case (PyInt i)
  then obtain y where "to_double (of_int i) = Fin y" "r = PyFloat (Fin y)"
    using assms(3) by (auto simp: to_float_def int_to_float_def bindR_Inr_iff split: pyfloat.splits)
  moreover have "0 \<le> fl (of_int i)" using assms(1,2) PyInt by (intro fl_nonneg) simp
  ultimately show ?thesis by (auto simp: to_double_def Let_def split: if_splits)
next
  case (PyFloat f)
  then show ?thesis using assms by (cases f) (auto simp: to_float_def)
qed

lemma resolve_retention_ok: "resolve_retention_timeout v = Inr r \<Longrightarrow> retention_ok r"
proof -
  assume r: "resolve_retention_timeout v = Inr r"
  show ?thesis
  proof (cases r)
    case (Some m)
    then obtain n where n: "math_isfinite n = Inr True" "num_le (PyInt 0) n" "to_float n = Inr m"
      using r by (auto simp: resolve_retention_timeout_def bindR_Inr_iff split: cfg_value.splits pyval.splits if_splits)
    then obtain x where "num_value n = Some x" using isfinite_value by blast
    then show ?thesis using n to_float_nonneg[of n x m] by (auto simp: num_le_zero_value retention_ok_def Some)
  qed (simp add: retention_ok_def)
qed

lemma resolve_worker_Inr:
  "resolve_worker import_string base q = Inr k \<Longrightarrow>
    issubclass k base \<and> k_provider_kind k = qc_provider_kind (cq_class q) \<and> worker_class_is_compatible q k"
  by (auto simp: resolve_worker_def Let_def split: cfg_value.splits pyval.splits option.splits if_splits)

text \<open>Which errors the settings can fail with, for integers that fit a double exactly.\<close>

definition small_numbers :: "(string, cfg_value) pydict \<Rightarrow> bool" where
  "small_numbers options \<longleftrightarrow>
     (\<forall>name i. dict_get options name = Some (CfgVal (PNum (PyInt i))) \<longrightarrow> \<bar>i\<bar> < 2 ^ 53)"

lemma isfinite_small: "(\<And>i. n = PyInt i \<Longrightarrow> \<bar>i\<bar> < 2 ^ 53) \<Longrightarrow> \<exists>b. math_isfinite n = Inr b"
  by (cases n rule: math_isfinite.cases) (auto simp: int_to_float_exact)

lemma resolve_timeout_error:
  assumes "resolve_timeout v = Inl err" "\<And>i. v = CfgVal (PNum (PyInt i)) \<Longrightarrow> \<bar>i\<bar> < 2 ^ 53"
  shows "err = InvalidQueueBackendError"
proof -
  have "validate_budget x \<noteq> Inl e" if "e \<notin> {TypeError, ValueError}" "v = CfgVal x" for x e
  proof (cases x)
    case (PNum n)
    then obtain b where "math_isfinite n = Inr b" using isfinite_small[of n] assms(2) \<open>v = CfgVal x\<close> by blast
    then show ?thesis using that PNum by (auto simp: validate_budget_def)
  qed (use that in \<open>auto simp: validate_budget_def\<close>)
  then show ?thesis using assms(1)
    by (cases v) (auto simp: resolve_timeout_def split: sum.splits pyerror.splits)
qed

lemma resolve_retention_error:
  assumes "resolve_retention_timeout v = Inl err" "\<And>i. v = CfgVal (PNum (PyInt i)) \<Longrightarrow> \<bar>i\<bar> < 2 ^ 53"
  shows "err = InvalidQueueBackendError"
proof (cases "\<exists>n. v = CfgVal (PNum n)")
  case True
  then obtain n where v: "v = CfgVal (PNum n)" by blast
  then obtain b where b: "math_isfinite n = Inr b" using isfinite_small[of n] assms(2) by blast
  have "\<exists>r. to_float n = Inr r"
    using assms(2) v by (cases n) (auto simp: to_float_def int_to_float_exact)
  then show ?thesis using assms(1) v b by (auto simp: resolve_retention_timeout_def split: if_splits)
qed (use assms(1) in \<open>auto simp: resolve_retention_timeout_def split: cfg_value.splits pyval.splits\<close>)

lemma resolve_extension_error: "resolve_extension_class imp k v = Inl err \<Longrightarrow> err = InvalidQueueBackendError"
  by (auto simp: resolve_extension_class_def Let_def split: cfg_value.splits pyval.splits option.splits if_splits)

lemma validate_alias_error: "validate_queue_alias a = Inl err \<Longrightarrow> err = InvalidQueueBackendError"
  by (auto simp: validate_queue_alias_def split: sum.splits if_splits)

lemma configure_alias_error:
  assumes "configure_alias imp entry = Inl err" "\<And>options. snd entry = CfgMap options \<Longrightarrow> small_numbers options"
  shows "err = InvalidQueueBackendError"
proof (cases "validate_queue_alias (fst entry)")
  case (Inr name)
  show ?thesis
  proof (cases "\<exists>options backend. snd entry = CfgMap options \<and> option_or options ''BACKEND'' (CfgVal PNone) = CfgVal (PStr backend) \<and> backend \<noteq> []")
    case True
    then obtain options backend where opts: "snd entry = CfgMap options" "option_or options ''BACKEND'' (CfgVal PNone) = CfgVal (PStr backend)" "backend \<noteq> []"
      by blast
    have small: "dict_get options name = Some (CfgVal (PNum (PyInt i))) \<Longrightarrow> \<bar>i\<bar> < 2 ^ 53" for name i
      using assms(2)[OF opts(1)] unfolding small_numbers_def by blast
    show ?thesis
      using assms(1) Inr opts small[of "''TIMEOUT''"] small[of "''RETENTION_TIMEOUT''"]
      by (auto simp: configure_alias_def bindR_Inl_iff split: option.splits
          dest!: resolve_timeout_error resolve_retention_error resolve_extension_error)
  next
    case False
    then show ?thesis using assms(1) Inr
      by (auto simp: configure_alias_def split: cfg_value.splits pyval.splits if_splits)
  qed
qed (use assms(1) validate_alias_error in \<open>auto simp: configure_alias_def\<close>)

lemma build_queue_Inr:
  assumes "build_queue imp cb alias cls options location params entry_class = Inr q"
  shows "cq_name q = alias" "cq_class q = cls" "cq_params q = params"
    "\<And>n. cq_timeout_seconds q = Some n \<Longrightarrow> budget_ok n" "retention_ok (cq_retention_timeout q)"
    "qc_kind cls \<in> {EventKind, NotificationKind} \<Longrightarrow> option_or options ''HANDLER'' (CfgVal PNone) = CfgVal PNone"
    "qc_kind cls \<noteq> OtherKind \<Longrightarrow> \<exists>k. resolve_worker imp (required_worker_base (qc_kind cls)) q = Inr k"
  using assms
  by (auto simp: build_queue_def bindR_Inr_iff Let_def resolve_timeout_Inr retention_ok_def
      dest!: resolve_retention_ok[unfolded retention_ok_def] split: if_splits option.splits sum.splits)

lemma registered_fresh:
  "registered_queue scope alias build table = (Inr q, table') \<Longrightarrow> dict_get table alias = None \<Longrightarrow> build = Inr q"
  by (auto simp: registered_queue_def split: if_splits sum.splits simp del: dict_get_None)

lemma registered_again:
  "registered_queue True alias build table = (Inr q, table') \<Longrightarrow> registered_queue True alias build' table' = (Inr q, table')"
  by (cases "dict_get table alias") (auto simp: registered_queue_def split: sum.splits simp del: dict_get_None)

lemma create_connection_Inr:
  assumes "create_connection imp backends cb alias options table = (Inr q, table')"
  shows "\<exists>k path cls. resolve_extension_class imp entry_base (option_or options ''ENTRY_CLASS'' (CfgVal PNone)) = Inr k \<and>
    option_or options ''BACKEND'' (CfgVal PNone) = CfgVal (PStr path) \<and> backends path = Some cls \<and>
    registered_queue (qc_process_scope cls) alias
      (build_queue imp cb alias cls options (option_or options ''LOCATION'' (CfgVal (PStr [])))
        (if qc_entry_class_at_construction cls then dict_set ''entry_class'' (CfgClass k) (queue_params alias options)
         else queue_params alias options) k) table = (Inr q, table')"
proof (cases "resolve_extension_class imp entry_base (option_or options ''ENTRY_CLASS'' (CfgVal PNone))")
  case (Inr k)
  show ?thesis
  proof (cases "\<exists>path. option_or options ''BACKEND'' (CfgVal PNone) = CfgVal (PStr path)")
    case True
    then obtain path where path: "option_or options ''BACKEND'' (CfgVal PNone) = CfgVal (PStr path)" by blast
    then show ?thesis using assms Inr by (cases "backends path") (auto simp: create_connection_def bindE_lift)
  next
    case False
    then show ?thesis using assms Inr by (auto simp: create_connection_def bindE_lift split: cfg_value.splits pyval.splits)
  qed
qed (use assms in \<open>simp add: create_connection_def bindE_lift\<close>)

text \<open>
  An integer beyond the range of a double is no configuration error: the finiteness test itself
  overflows, and the exception is not among the ones that are translated.
\<close>

lemma fl_half:
  assumes "1 \<le> x"
  shows "x / 2 \<le> fl x"
proof -
  have e: "2 powi (expo x) \<le> x" "0 \<le> expo x"
  proof -
    show "2 powi (expo x) \<le> x" using expo_bounds[of x] assms by simp
    have "\<not> expo x + 1 \<le> 0"
    proof
      assume "expo x + 1 \<le> 0"
      then have "(2 :: rat) powi (expo x + 1) \<le> 2 powi 0" by (rule power_int_increasing) simp
      then show False using expo_bounds[of x] assms by simp
    qed
    then show "0 \<le> expo x" by simp
  qed
  then have "max (expo x - 52) (- 1074) \<le> expo x" by simp
  then have "(2 :: rat) powi max (expo x - 52) (- 1074) \<le> 2 powi expo x" by (rule power_int_increasing) simp
  then have "quantum x \<le> x" using e assms by (simp add: quantum_def)
  then show ?thesis using fl_error[of x] by linarith
qed

lemma timeout_overflow_escapes: "resolve_timeout (CfgVal (PNum (PyInt (2 ^ 1025)))) = Inl OverflowError"
proof -
  have "(2 :: rat) ^ 1024 \<le> fl (2 ^ 1025)" using fl_half[of "2 ^ 1025"] by simp
  then have "to_double (2 ^ 1025) = PosInf" by (simp add: to_double_def Let_def)
  then have "int_to_float (2 ^ 1025) = Inl OverflowError" by (simp add: int_to_float_def)
  then show ?thesis by (simp add: resolve_timeout_def validate_budget_def)
qed

section \<open>Properties\<close>

text \<open>A process-wide event queue with its own worker class.\<close>

definition sample_worker_class :: klass where
  "sample_worker_class = \<lparr>k_name = ''MemoryEventQueueWorker'', k_bases = [''MemoryEventQueueWorker'', ''EventQueueWorker''],
     k_provider_kind = ''memory'', k_provider_type = ''memory''\<rparr>"

definition sample_backend :: queue_class where
  "sample_backend = \<lparr>qc_kind = EventKind, qc_process_scope = True, qc_entry_class_at_construction = False,
     qc_worker_class = CfgVal (PStr ''MemoryEventQueueWorker''), qc_compatible_worker = ''MemoryEventQueueWorker'',
     qc_provider_kind = ''memory'', qc_provider_type = ''memory''\<rparr>"

definition sample_options :: "(string, cfg_value) pydict" where
  "sample_options = [(''BACKEND'', CfgVal (PStr ''events'')), (''queue_name'', CfgVal (PStr ''other''))]"

definition sample_import :: "string \<Rightarrow> cfg_value option" where
  "sample_import path = (if path = ''MemoryEventQueueWorker'' then Some (CfgClass sample_worker_class) else None)"

definition sample_backends :: "string \<Rightarrow> queue_class option" where
  "sample_backends path = (if path = ''events'' then Some sample_backend else None)"

definition sample_connection ::
    "(string, configured_queue) pydict \<Rightarrow> configured_queue result \<times> (string, configured_queue) pydict" where
  "sample_connection = create_connection sample_import sample_backends (\<lambda>_ _. Inr ()) ''alerts'' sample_options"

lemma sample_connection_built:
  "\<exists>q table. sample_connection [] = (Inr q, table) \<and> qc_kind (cq_class q) = EventKind"
  by (auto simp: sample_connection_def create_connection_def sample_options_def sample_backends_def sample_backend_def option_or_def
      resolve_extension_class_def Let_def registered_queue_def build_queue_def resolve_retention_timeout_def to_float_def int_to_float_exact
      resolve_worker_def sample_import_def sample_worker_class_def issubclass_def worker_class_is_compatible_def)

text \<open>
  C29. A queue that the registry builds is fit for use: it carries the alias as its only name,
  whatever the options say; its execution budget is absent or a finite positive number, its
  retention absent or a finite number that is not negative; an event or notification queue has no
  handler; and its worker class exists, derives from the worker its kind requires, and matches the
  provider.
\<close>

theorem configured_queue_fits:
  assumes "create_connection imp backends cb alias options table = (Inr q, table')" "dict_get table alias = None"
  shows "cq_name q = alias \<and> dict_get (cq_params q) ''queue_name'' = Some (CfgVal (PStr alias)) \<and>
    (\<forall>n. cq_timeout_seconds q = Some n \<longrightarrow> budget_ok n) \<and> retention_ok (cq_retention_timeout q) \<and>
    (qc_kind (cq_class q) \<in> {EventKind, NotificationKind} \<longrightarrow> option_or options ''HANDLER'' (CfgVal PNone) = CfgVal PNone) \<and>
    (qc_kind (cq_class q) \<noteq> OtherKind \<longrightarrow> (\<exists>k. resolve_worker imp (required_worker_base (qc_kind (cq_class q))) q = Inr k \<and>
       issubclass k (required_worker_base (qc_kind (cq_class q))) \<and> k_provider_kind k = qc_provider_kind (cq_class q) \<and>
       worker_class_is_compatible q k))"
proof -
  obtain cls k params where params: "params = (if qc_entry_class_at_construction cls
        then dict_set ''entry_class'' (CfgClass k) (queue_params alias options) else queue_params alias options)"
    and build: "build_queue imp cb alias cls options (option_or options ''LOCATION'' (CfgVal (PStr []))) params k = Inr q"
    using create_connection_Inr[OF assms(1)] registered_fresh[OF _ assms(2)] by blast
  note q = build_queue_Inr[OF build]
  have "dict_get (filter (\<lambda>(k, _). k \<notin> set backend_options) options) ''queue_name'' = None"
    by (auto simp: map_of_eq_None_iff backend_options_def simp del: dict_get_None)
  then have "dict_get (queue_params alias options) ''queue_name'' = Some (CfgVal (PStr alias))"
    by (simp add: queue_params_def map_add_def del: dict_get_None)
  then have "dict_get params ''queue_name'' = Some (CfgVal (PStr alias))" by (simp add: params)
  then show ?thesis using q resolve_worker_Inr by blast
qed

theorem configured_queue_fits_witness:
  "\<exists>q table. sample_connection [] = (Inr q, table) \<and> cq_name q = ''alerts'' \<and>
     dict_get (cq_params q) ''queue_name'' = Some (CfgVal (PStr ''alerts''))"
proof -
  obtain q table where q: "sample_connection [] = (Inr q, table)" using sample_connection_built by blast
  then show ?thesis using configured_queue_fits[OF q[unfolded sample_connection_def]] by (simp add: sample_connection_def)
qed

text \<open>
  A process has one queue per alias on a process-wide backend: once it is built, every later
  resolution of the alias, from whatever thread, answers the same queue, builds nothing and leaves
  the table as it is.
\<close>

theorem process_queue_built_once:
  assumes "create_connection imp backends cb alias options table = (Inr q, table')"
    "option_or options ''BACKEND'' (CfgVal PNone) = CfgVal (PStr path)" "backends path = Some cls" "qc_process_scope cls"
  shows "create_connection imp backends cb' alias options table' = (Inr q, table')"
proof -
  obtain k where "resolve_extension_class imp entry_base (option_or options ''ENTRY_CLASS'' (CfgVal PNone)) = Inr k"
    "\<And>build'. registered_queue True alias build' table' = (Inr q, table')"
    using create_connection_Inr[OF assms(1)] registered_again assms(2-4) by fastforce
  then show ?thesis using assms(2-4) by (simp add: create_connection_def bindE_lift)
qed

theorem process_queue_built_once_witness:
  "\<exists>q table. sample_connection [] = (Inr q, table) \<and> sample_connection table = (Inr q, table)"
proof -
  obtain q table where q: "sample_connection [] = (Inr q, table)" using sample_connection_built by blast
  have "sample_connection table = (Inr q, table)"
    unfolding sample_connection_def
    by (rule process_queue_built_once[OF q[unfolded sample_connection_def], of "''events''" sample_backend])
      (simp_all add: sample_options_def option_or_def sample_backends_def sample_backend_def)
  then show ?thesis using q by blast
qed

text \<open>
  What the settings of one alias must be: an alias of letters, digits, underscores and hyphens, a
  mapping with the path of a backend, an entry class that is absent, a class derived from
  \<^verbatim>\<open>QueueEntry\<close> or the path of one, a budget that is finite and positive, and a retention that is
  \<^verbatim>\<open>None\<close> or finite and not negative.
\<close>

definition entry_class_ok :: "(string \<Rightarrow> cfg_value option) \<Rightarrow> cfg_value \<Rightarrow> bool" where
  "entry_class_ok imp v \<longleftrightarrow>
     v = CfgVal PNone \<or>
     (\<exists>k. issubclass k ''QueueEntry'' \<and>
        (v = CfgClass k \<or> (\<exists>path. path \<noteq> [] \<and> v = CfgVal (PStr path) \<and> imp path = Some (CfgClass k))))"

definition setting_ok :: "(string \<Rightarrow> cfg_value option) \<Rightarrow> pyval \<times> cfg_value \<Rightarrow> bool" where
  "setting_ok imp entry \<longleftrightarrow>
     (\<exists>name options backend. as_str (fst entry) = Inr name \<and> name \<noteq> [] \<and> set name \<subseteq> queue_alias_characters \<and>
        snd entry = CfgMap options \<and> dict_get options ''BACKEND'' = Some (CfgVal (PStr backend)) \<and> backend \<noteq> [] \<and>
        (\<forall>v. dict_get options ''ENTRY_CLASS'' = Some v \<longrightarrow> entry_class_ok imp v) \<and>
        (\<forall>v. dict_get options ''TIMEOUT'' = Some v \<longrightarrow> (\<exists>n. v = CfgVal (PNum n) \<and> budget_ok n)) \<and>
        (\<forall>v. dict_get options ''RETENTION_TIMEOUT'' = Some v \<longrightarrow>
           v = CfgVal PNone \<or> (\<exists>n x. v = CfgVal (PNum n) \<and> num_value n = Some x \<and> 0 \<le> x)))"

definition setting_of :: "pyval \<times> cfg_value \<Rightarrow> string \<times> (string, cfg_value) pydict" where
  "setting_of entry =
     ((case as_str (fst entry) of Inr name \<Rightarrow> name | Inl _ \<Rightarrow> []), (case snd entry of CfgMap options \<Rightarrow> options | _ \<Rightarrow> []))"

lemma validate_alias_Inr: "validate_queue_alias a = Inr name \<longleftrightarrow>
    as_str a = Inr name \<and> name \<noteq> [] \<and> set name \<subseteq> queue_alias_characters"
  by (auto simp: validate_queue_alias_def list_ex_iff split: sum.splits)

lemma resolve_extension_accepts: "(\<exists>k. resolve_extension_class imp entry_base v = Inr k) \<longleftrightarrow> entry_class_ok imp v"
  by (auto simp: resolve_extension_class_def entry_class_ok_def entry_base_def Let_def
      split: cfg_value.splits pyval.splits option.splits if_splits)

lemma resolve_retention_accepts:
  assumes "\<And>i. v = CfgVal (PNum (PyInt i)) \<Longrightarrow> \<bar>i\<bar> < 2 ^ 53"
  shows "(\<exists>r. resolve_retention_timeout v = Inr r) \<longleftrightarrow>
    v = CfgVal PNone \<or> (\<exists>n x. v = CfgVal (PNum n) \<and> num_value n = Some x \<and> 0 \<le> x)"
proof (cases "\<exists>n. v = CfgVal (PNum n)")
  case True
  then obtain n where v: "v = CfgVal (PNum n)" by blast
  then obtain b where b: "math_isfinite n = Inr b" using isfinite_small[of n] assms by blast
  have "\<exists>r. to_float n = Inr r"
    using assms v by (cases n) (auto simp: to_float_def int_to_float_exact)
  then show ?thesis using v b math_isfinite_False[OF b] num_le_zero_value[of n]
    by (auto simp: resolve_retention_timeout_def)
qed (auto simp: resolve_retention_timeout_def split: cfg_value.splits pyval.splits)

lemma configure_alias_accepts:
  assumes "\<And>options. snd entry = CfgMap options \<Longrightarrow> small_numbers options"
  shows "configure_alias imp entry = Inr c \<longleftrightarrow> setting_ok imp entry \<and> c = setting_of entry"
proof (cases "\<exists>name options backend. validate_queue_alias (fst entry) = Inr name \<and> snd entry = CfgMap options \<and>
    dict_get options ''BACKEND'' = Some (CfgVal (PStr backend)) \<and> backend \<noteq> []")
  case True
  then obtain name options backend where opts: "validate_queue_alias (fst entry) = Inr name" "snd entry = CfgMap options"
    "dict_get options ''BACKEND'' = Some (CfgVal (PStr backend))" "backend \<noteq> []" by blast
  have small: "dict_get options name = Some (CfgVal (PNum (PyInt i))) \<Longrightarrow> \<bar>i\<bar> < 2 ^ 53" for name i
    using assms[OF opts(2)] unfolding small_numbers_def by blast
  let ?ext = "\<forall>v. dict_get options ''ENTRY_CLASS'' = Some v \<longrightarrow> entry_class_ok imp v"
  let ?time = "\<forall>v. dict_get options ''TIMEOUT'' = Some v \<longrightarrow> (\<exists>n. v = CfgVal (PNum n) \<and> budget_ok n)"
  let ?ret = "\<forall>v. dict_get options ''RETENTION_TIMEOUT'' = Some v \<longrightarrow>
    v = CfgVal PNone \<or> (\<exists>n x. v = CfgVal (PNum n) \<and> num_value n = Some x \<and> 0 \<le> x)"
  have ext: "(\<exists>k. resolve_extension_class imp entry_base (option_or options ''ENTRY_CLASS'' (CfgVal PNone)) = Inr k) \<longleftrightarrow> ?ext"
    unfolding resolve_extension_accepts option_or_def
    by (cases "dict_get options ''ENTRY_CLASS''") (simp_all add: entry_class_ok_def del: dict_get_None)
  have time: "(case dict_get options ''TIMEOUT'' of None \<Rightarrow> Inr () | Some v \<Rightarrow> bindR (resolve_timeout v) (\<lambda>_. Inr ())) = Inr () \<longleftrightarrow> ?time"
    by (cases "dict_get options ''TIMEOUT''") (auto simp: bindR_Inr_iff resolve_timeout_Inr simp del: dict_get_None)
  have ret: "(case dict_get options ''RETENTION_TIMEOUT'' of None \<Rightarrow> Inr () | Some v \<Rightarrow> bindR (resolve_retention_timeout v) (\<lambda>_. Inr ())) = Inr () \<longleftrightarrow> ?ret"
  proof (cases "dict_get options ''RETENTION_TIMEOUT''")
    case (Some v)
    then show ?thesis using resolve_retention_accepts[of v] small[of "''RETENTION_TIMEOUT''"] by (simp add: bindR_Inr_iff)
  qed (simp del: dict_get_None)
  have "configure_alias imp entry = Inr c \<longleftrightarrow> ?ext \<and> ?time \<and> ?ret \<and> c = (name, options)"
    unfolding ext[symmetric] time[symmetric] ret[symmetric] using opts
    by (auto simp: configure_alias_def option_or_def[of _ "''BACKEND''"] bindR_Inr_iff)
  moreover have "setting_ok imp entry \<longleftrightarrow> ?ext \<and> ?time \<and> ?ret"
    using opts by (simp add: setting_ok_def validate_alias_Inr)
  moreover have "setting_of entry = (name, options)" using opts by (simp add: setting_of_def validate_alias_Inr)
  ultimately show ?thesis by (simp only: conj_assoc)
next
  case False
  then have "\<not> setting_ok imp entry" unfolding setting_ok_def validate_alias_Inr by blast
  moreover have "configure_alias imp entry \<noteq> Inr c"
    using False by (auto simp: configure_alias_def bindR_Inr_iff option_or_def split: cfg_value.splits pyval.splits option.splits if_splits)
  ultimately show ?thesis by blast
qed

lemma configure_items_run:
  assumes "\<And>a options. (a, CfgMap options) \<in> set items \<Longrightarrow> small_numbers options"
  shows "configure_items imp items =
    (if list_all (setting_ok imp) items then Inr (map setting_of items) else Inl InvalidQueueBackendError)"
  using assms
proof (induction items)
  case (Cons entry items)
  have small: "small_numbers options" if "snd entry = CfgMap options" for options
    using Cons.prems[of "fst entry" options] that by (metis list.set_intros(1) prod.collapse)
  have IH: "configure_items imp items =
    (if list_all (setting_ok imp) items then Inr (map setting_of items) else Inl InvalidQueueBackendError)"
    using Cons.IH Cons.prems by (meson list.set_intros(2))
  show ?case
  proof (cases "configure_alias imp entry")
    case (Inl err)
    then have "\<not> setting_ok imp entry" using configure_alias_accepts[of entry imp "setting_of entry", OF small] by auto
    moreover have "err = InvalidQueueBackendError" using configure_alias_error[OF Inl small] by blast
    ultimately show ?thesis using Inl by simp
  next
    case (Inr c)
    then have "setting_ok imp entry" "c = setting_of entry" using configure_alias_accepts[of entry imp c, OF small] by auto
    then show ?thesis using Inr by (cases "setting_of entry") (simp add: IH)
  qed
qed simp

text \<open>
  C30. The settings are accepted exactly if every alias in them has correct settings, and then they
  are kept as they are; otherwise the registry fails with its configuration error and no other. The
  integers in the settings are exact doubles (below \<open>2 ^ 53\<close>): one beyond the range of doubles
  escapes as an \<^verbatim>\<open>OverflowError\<close>.
\<close>

theorem settings_fail_as_configuration_errors:
  assumes "\<And>a options. (a, CfgMap options) \<in> set items \<Longrightarrow> small_numbers options"
  shows "configure_settings imp (Some items) =
    (if list_all (setting_ok imp) items then Inr (map setting_of items) else Inl InvalidQueueBackendError)"
  using configure_items_run[OF assms] by (simp add: configure_settings_def)

theorem settings_fail_as_configuration_errors_witness:
  "configure_settings sample_import (Some [(PStr ''jobs'', CfgMap [(''BACKEND'', CfgVal (PStr ''events'')), (''TIMEOUT'', CfgVal (PNum (PyInt 0)))])]) =
     Inl InvalidQueueBackendError"
proof -
  let ?items = "[(PStr ''jobs'', CfgMap [(''BACKEND'', CfgVal (PStr ''events'')), (''TIMEOUT'', CfgVal (PNum (PyInt 0)))])]"
  have "\<not> list_all (setting_ok sample_import) ?items"
    by (simp add: setting_ok_def budget_ok_def)
  moreover have "small_numbers options" if "(a, CfgMap options) \<in> set ?items" for a options
    using that by (auto simp: small_numbers_def split: if_splits)
  ultimately show ?thesis using settings_fail_as_configuration_errors[of ?items sample_import] by (simp only: if_False)
qed

end
