(* ===== verification/Queue_Observers.thy ===== *)
theory Queue_Observers
  imports Queue_Base
begin

text \<open>
  \<^verbatim>\<open>django_queue/observers.py\<close>: the observers of one queue alias. Registrations are objects that
  the registering thread, the publishing threads and the dispatcher share; an object is known by a
  number. Every block under the lock and every operation on the bounded delivery queue is one
  step, so the steps of \<open>observer_step\<close> interleave the way the threads do; what a thread still has
  to do after it released the lock is kept in \<open>ob_publishing\<close> and \<open>ob_bootstrapping\<close>. Calls of
  callbacks are kept in \<open>ob_invoked\<close>; what a callback does or raises has no effect here.
\<close>

section \<open>State\<close>

record registration =
  rg_entry_id :: "uuid option"
  rg_active :: bool
  rg_initialising :: bool
  rg_pending :: "queue_entry list"
  rg_started_at_sequence :: nat
  rg_bootstrapped_through_sequence :: nat

record delivery =
  dl_entry :: queue_entry
  dl_target :: "nat option"
  dl_sequence :: nat

record queue_observers =
  ob_objects :: "nat \<rightharpoonup> registration"
  ob_registrations :: "nat list"
  ob_events :: "delivery list"
  ob_drop_logged :: bool
  ob_sequence :: nat
  ob_invoked :: "(nat \<times> delivery) list"
  ob_publishing :: "(delivery \<times> nat list) list"
  ob_bootstrapping :: "(nat \<times> queue_entry list) list"

definition observers_init :: queue_observers where
  "observers_init = \<lparr>ob_objects = Map.empty, ob_registrations = [], ob_events = [], ob_drop_logged = False, ob_sequence = 0,
     ob_invoked = [], ob_publishing = [], ob_bootstrapping = []\<rparr>"

abbreviation EVENT_QUEUE_SIZE :: nat where
  "EVENT_QUEUE_SIZE \<equiv> 128"

section \<open>Operations\<close>

definition new_registration :: "uuid option \<Rightarrow> nat \<Rightarrow> registration" where
  "new_registration entry_id sequence =
     \<lparr>rg_entry_id = entry_id, rg_active = True, rg_initialising = True, rg_pending = [],
      rg_started_at_sequence = sequence, rg_bootstrapped_through_sequence = 0\<rparr>"

definition observers_register :: "nat \<Rightarrow> uuid option \<Rightarrow> queue_observers \<Rightarrow> queue_observers" where
  "observers_register r entry_id s =
     s\<lparr>ob_objects := (ob_objects s)(r \<mapsto> new_registration entry_id (ob_sequence s)), ob_registrations := ob_registrations s @ [r]\<rparr>"

definition observers_unregister :: "nat \<Rightarrow> queue_observers \<Rightarrow> queue_observers" where
  "observers_unregister r s =
     s\<lparr>ob_objects := (ob_objects s)(r := map_option (rg_active_update (\<lambda>_. False)) (ob_objects s r)),
       ob_registrations := remove1 r (ob_registrations s)\<rparr>"

definition is_initialising :: "queue_observers \<Rightarrow> nat \<Rightarrow> bool" where
  "is_initialising s r \<longleftrightarrow> (\<exists>g. ob_objects s r = Some g \<and> rg_initialising g)"

definition queue_event :: "delivery \<Rightarrow> queue_observers \<Rightarrow> queue_observers" where
  "queue_event d s =
     (if length (ob_events s) < EVENT_QUEUE_SIZE then s\<lparr>ob_events := ob_events s @ [d]\<rparr>
      else s\<lparr>ob_drop_logged := True\<rparr>)"

text \<open>The two halves of \<^verbatim>\<open>publish\<close>: under the lock, and after it.\<close>

definition publish_locked :: "queue_entry \<Rightarrow> queue_observers \<Rightarrow> queue_observers" where
  "publish_locked e s =
     (let sequence = ob_sequence s + 1;
          pend = (\<lambda>g. if rg_initialising g then g\<lparr>rg_pending := rg_pending g @ [e]\<rparr> else g)
      in s\<lparr>ob_sequence := sequence,
           ob_objects := (\<lambda>r. if r \<in> set (ob_registrations s) then map_option pend (ob_objects s r) else ob_objects s r),
           ob_publishing := ob_publishing s @ [(\<lparr>dl_entry = e, dl_target = None, dl_sequence = sequence\<rparr>, ob_registrations s)]\<rparr>)"

definition publish_unlocked :: "delivery \<times> nat list \<Rightarrow> queue_observers \<Rightarrow> queue_observers" where
  "publish_unlocked job s =
     (let s' = s\<lparr>ob_publishing := remove1 job (ob_publishing s)\<rparr>
      in if list_ex (\<lambda>r. \<not> is_initialising s r) (snd job) then queue_event (fst job) s' else s')"

text \<open>The order of a bootstrap batch: by entry, by lifecycle, by the time of the snapshot.\<close>

definition status_rank :: "QueueEntryStatus \<Rightarrow> nat" where
  "status_rank st = (case st of QUEUED \<Rightarrow> 0 | RUNNING \<Rightarrow> 1 | TERMINATED \<Rightarrow> 3 | _ \<Rightarrow> 2)"

definition state_timestamp :: "queue_entry \<Rightarrow> clock_time" where
  "state_timestamp e =
     (case qe_finished_at e of Some t \<Rightarrow> t | None \<Rightarrow> case qe_dispatched_at e of Some t \<Rightarrow> t | None \<Rightarrow> qe_queued_at e)"

definition order_snapshots :: "queue_entry list \<Rightarrow> queue_entry list" where
  "order_snapshots snapshots = sort_key (\<lambda>e. (qe_id e, status_rank (qe_status e), state_timestamp e)) snapshots"

text \<open>The two halves of \<^verbatim>\<open>activate\<close>: under the lock, and queueing one snapshot of the batch after it.\<close>

definition activate_locked :: "nat \<Rightarrow> queue_entry list \<Rightarrow> queue_observers \<Rightarrow> queue_observers" where
  "activate_locked r snapshots s =
     (case ob_objects s r of
        None \<Rightarrow> s
      | Some g \<Rightarrow>
          s\<lparr>ob_objects := (ob_objects s)(r \<mapsto> g\<lparr>rg_pending := [], rg_bootstrapped_through_sequence := ob_sequence s, rg_initialising := False\<rparr>),
            ob_bootstrapping := ob_bootstrapping s @ [(r, order_snapshots (snapshots @ rg_pending g))]\<rparr>)"

definition activate_unlocked :: "nat \<times> queue_entry list \<Rightarrow> queue_observers \<Rightarrow> queue_observers" where
  "activate_unlocked job s =
     (case job of
        (r, []) \<Rightarrow> s\<lparr>ob_bootstrapping := remove1 job (ob_bootstrapping s)\<rparr>
      | (r, e # rest) \<Rightarrow>
          queue_event \<lparr>dl_entry = e, dl_target = Some r, dl_sequence = 0\<rparr>
            (s\<lparr>ob_bootstrapping := (r, rest) # remove1 job (ob_bootstrapping s)\<rparr>))"

text \<open>
  One turn of the dispatcher: whom a delivery is for, and the calls it makes. The turn is one
  step here. In the code the lock is held only while the registrations are copied, and the flags of
  a registration are read just before its callback is called, so that a registration whose flags
  change during a turn may be served as if the turn had come before or after the change. A callback
  that raises something other than an \<^verbatim>\<open>Exception\<close> ends the dispatcher's thread and is left out.
\<close>

definition receives :: "queue_observers \<Rightarrow> delivery \<Rightarrow> nat \<Rightarrow> bool" where
  "receives s d r =
     (case ob_objects s r of
        None \<Rightarrow> False
      | Some g \<Rightarrow>
          rg_active g \<and> \<not> rg_initialising g \<and>
          \<not> (dl_target d = None \<and> rg_started_at_sequence g < dl_sequence d \<and> dl_sequence d \<le> rg_bootstrapped_through_sequence g) \<and>
          (case rg_entry_id g of None \<Rightarrow> True | Some i \<Rightarrow> i = qe_id (dl_entry d)))"

definition dispatch_delivery :: "queue_observers \<Rightarrow> queue_observers" where
  "dispatch_delivery s =
     (case ob_events s of
        [] \<Rightarrow> s
      | d # rest \<Rightarrow>
          (let registrations = (case dl_target d of None \<Rightarrow> ob_registrations s | Some r \<Rightarrow> [r])
           in s\<lparr>ob_events := rest, ob_invoked := ob_invoked s @ map (\<lambda>r. (r, d)) (filter (receives s d) registrations)\<rparr>))"

section \<open>Interleavings\<close>

text \<open>
  All the interleavings of the threads, together with what was published so far and, for every
  registration, the snapshots its bootstrap listed.
\<close>

record history =
  hi_published :: "queue_entry list"
  hi_listed :: "nat \<Rightarrow> queue_entry list"

inductive observer_reachable :: "queue_observers \<times> history \<Rightarrow> bool" where
  start: "observer_reachable (observers_init, \<lparr>hi_published = [], hi_listed = (\<lambda>_. [])\<rparr>)"
| register: "observer_reachable (s, h) \<Longrightarrow> ob_objects s r = None \<Longrightarrow> observer_reachable (observers_register r i s, h)"
| unregister: "observer_reachable (s, h) \<Longrightarrow> observer_reachable (observers_unregister r s, h)"
| publish: "observer_reachable (s, h) \<Longrightarrow> observer_reachable (publish_locked e s, h\<lparr>hi_published := hi_published h @ [e]\<rparr>)"
| queue_published: "observer_reachable (s, h) \<Longrightarrow> job \<in> set (ob_publishing s) \<Longrightarrow> observer_reachable (publish_unlocked job s, h)"
| activate: "observer_reachable (s, h) \<Longrightarrow> is_initialising s r \<Longrightarrow>
    observer_reachable (activate_locked r snapshots s, h\<lparr>hi_listed := (hi_listed h)(r := snapshots)\<rparr>)"
| queue_bootstrap: "observer_reachable (s, h) \<Longrightarrow> job \<in> set (ob_bootstrapping s) \<Longrightarrow> observer_reachable (activate_unlocked job s, h)"
| deliver: "observer_reachable (s, h) \<Longrightarrow> observer_reachable (dispatch_delivery s, h)"

section \<open>Accounting\<close>

text \<open>
  Where the snapshots a registration is to receive can be: already received, in the delivery
  queue, in a batch being queued, or published and about to be queued. A snapshot published
  before the bootstrap was taken is part of the batch and not counted a second time.
\<close>

definition wants :: "registration \<Rightarrow> queue_entry \<Rightarrow> bool" where
  "wants g e \<longleftrightarrow> (case rg_entry_id g of None \<Rightarrow> True | Some i \<Rightarrow> i = qe_id e)"

definition received :: "queue_observers \<Rightarrow> nat \<Rightarrow> registration \<Rightarrow> queue_entry multiset" where
  "received s r g = image_mset (dl_entry \<circ> snd)
     (filter_mset (\<lambda>(r', d). r' = r \<and> (dl_target d = Some r \<or> rg_started_at_sequence g < dl_sequence d)) (mset (ob_invoked s)))"

definition queued_for_it :: "queue_observers \<Rightarrow> nat \<Rightarrow> registration \<Rightarrow> queue_entry multiset" where
  "queued_for_it s r g = image_mset dl_entry
     (filter_mset (\<lambda>d. dl_target d = Some r \<or> dl_target d = None \<and> rg_bootstrapped_through_sequence g < dl_sequence d) (mset (ob_events s)))"

definition in_batches :: "queue_observers \<Rightarrow> nat \<Rightarrow> queue_entry multiset" where
  "in_batches s r = \<Sum>\<^sub># (image_mset (mset \<circ> snd) (filter_mset (\<lambda>(r', _). r' = r) (mset (ob_bootstrapping s))))"

definition being_published :: "queue_observers \<Rightarrow> registration \<Rightarrow> queue_entry multiset" where
  "being_published s g = image_mset (dl_entry \<circ> fst)
     (filter_mset (\<lambda>(d, _). rg_bootstrapped_through_sequence g < dl_sequence d) (mset (ob_publishing s)))"

definition owed :: "history \<Rightarrow> nat \<Rightarrow> registration \<Rightarrow> queue_entry multiset" where
  "owed h r g = mset (hi_listed h r) + mset (drop (rg_started_at_sequence g) (hi_published h))"

definition accounted_for :: "queue_observers \<Rightarrow> history \<Rightarrow> nat \<Rightarrow> registration \<Rightarrow> bool" where
  "accounted_for s h r g \<longleftrightarrow>
     filter_mset (wants g) (received s r g + queued_for_it s r g + in_batches s r + being_published s g) = filter_mset (wants g) (owed h r g)"

definition unseen :: "queue_observers \<Rightarrow> nat \<Rightarrow> bool" where
  "unseen s r \<longleftrightarrow> (\<forall>d \<in> set (ob_events s). dl_target d \<noteq> Some r) \<and> (\<forall>b \<in> set (ob_bootstrapping s). fst b \<noteq> r)"

definition registration_inv :: "queue_observers \<Rightarrow> history \<Rightarrow> nat \<Rightarrow> registration \<Rightarrow> bool" where
  "registration_inv s h r g \<longleftrightarrow>
     r \<in> set (ob_registrations s) \<and> rg_started_at_sequence g \<le> ob_sequence s \<and>
     (if rg_initialising g then
        rg_pending g = drop (rg_started_at_sequence g) (hi_published h) \<and> received s r g = {#} \<and> unseen s r
      else
        rg_started_at_sequence g \<le> rg_bootstrapped_through_sequence g \<and> rg_bootstrapped_through_sequence g \<le> ob_sequence s \<and>
        (\<forall>(d, rs) \<in> set (ob_publishing s). rg_bootstrapped_through_sequence g < dl_sequence d \<longrightarrow> r \<in> set rs) \<and>
        (\<not> ob_drop_logged s \<longrightarrow> accounted_for s h r g))"

definition observers_wf :: "queue_observers \<Rightarrow> history \<Rightarrow> bool" where
  "observers_wf s h \<longleftrightarrow>
     ob_sequence s = length (hi_published h) \<and>
     distinct (ob_registrations s) \<and> set (ob_registrations s) \<subseteq> dom (ob_objects s) \<and>
     (\<forall>(d, rs) \<in> set (ob_publishing s). dl_target d = None \<and> dl_sequence d \<le> ob_sequence s) \<and>
     (\<forall>d \<in> set (ob_events s). dl_target d = None \<longrightarrow> dl_sequence d \<le> ob_sequence s) \<and>
     (\<forall>r. ob_objects s r = None \<longrightarrow> unseen s r \<and> (\<forall>c \<in> set (ob_invoked s). fst c \<noteq> r) \<and> hi_listed h r = [])"

definition observers_inv :: "queue_observers \<Rightarrow> history \<Rightarrow> bool" where
  "observers_inv s h \<longleftrightarrow> observers_wf s h \<and>
     (\<forall>r g. ob_objects s r = Some g \<longrightarrow> rg_active g \<longrightarrow> registration_inv s h r g)"

lemmas account_defs = accounted_for_def received_def queued_for_it_def in_batches_def being_published_def owed_def

lemma observers_invI:
  "observers_wf s h \<Longrightarrow> (\<And>r g. ob_objects s r = Some g \<Longrightarrow> rg_active g \<Longrightarrow> registration_inv s h r g) \<Longrightarrow> observers_inv s h"
  by (simp add: observers_inv_def)

lemma registration_inv_cong:
  assumes "registration_inv s h r g" "ob_events s' = ob_events s" "ob_invoked s' = ob_invoked s" "ob_publishing s' = ob_publishing s"
    "ob_bootstrapping s' = ob_bootstrapping s" "ob_sequence s' = ob_sequence s" "ob_drop_logged s' = ob_drop_logged s"
    "r \<in> set (ob_registrations s')"
  shows "registration_inv s' h r g"
proof -
  have "received s' r g = received s r g" "queued_for_it s' r g = queued_for_it s r g" "in_batches s' r = in_batches s r"
    "being_published s' g = being_published s g" "unseen s' r = unseen s r"
    using assms(2-7) by (simp_all add: received_def queued_for_it_def in_batches_def being_published_def unseen_def)
  then show ?thesis using assms by (simp add: registration_inv_def accounted_for_def split: if_splits)
qed

lemma register_inv:
  assumes "observers_inv s h" "ob_objects s r = None"
  shows "observers_inv (observers_register r i s) h"
proof (rule observers_invI)
  have wf: "observers_wf s h" using assms(1) by (simp add: observers_inv_def)
  have new: "r \<notin> set (ob_registrations s)" using wf assms(2) by (auto simp: observers_wf_def)
  show "observers_wf (observers_register r i s) h"
    using wf new by (auto simp: observers_wf_def observers_register_def unseen_def split: if_splits)
  fix r' g assume g: "ob_objects (observers_register r i s) r' = Some g" "rg_active g"
  show "registration_inv (observers_register r i s) h r' g"
  proof (cases "r' = r")
    case True
    have "\<forall>c \<in> set (ob_invoked s). fst c \<noteq> r" "unseen s r" using wf assms(2) by (auto simp: observers_wf_def)
    moreover from this have "received s r g = {#}" by (force simp: received_def)
    ultimately have "received s r g = {#}" "unseen s r" by auto
    then show ?thesis using g True wf
      by (auto simp: registration_inv_def observers_register_def new_registration_def received_def unseen_def observers_wf_def)
  next
    case False
    then have "registration_inv s h r' g" using g assms(1) by (simp add: observers_inv_def observers_register_def)
    then show ?thesis by (rule registration_inv_cong) (use \<open>registration_inv s h r' g\<close> in \<open>simp_all add: observers_register_def registration_inv_def\<close>)
  qed
qed

lemma unregister_inv:
  assumes "observers_inv s h"
  shows "observers_inv (observers_unregister r s) h"
proof (rule observers_invI)
  have wf: "observers_wf s h" using assms(1) by (simp add: observers_inv_def)
  then show "observers_wf (observers_unregister r s) h"
    by (auto simp: observers_wf_def observers_unregister_def unseen_def split: if_splits)
  fix r' g assume g: "ob_objects (observers_unregister r s) r' = Some g" "rg_active g"
  then have r: "r' \<noteq> r" "ob_objects s r' = Some g" by (auto simp: observers_unregister_def split: if_splits)
  then have "registration_inv s h r' g" using assms g(2) by (simp add: observers_inv_def)
  then show "registration_inv (observers_unregister r s) h r' g"
    by (rule registration_inv_cong)
      (use r(1) \<open>registration_inv s h r' g\<close> in \<open>simp_all add: observers_unregister_def registration_inv_def\<close>)
qed

lemma publish_inv:
  assumes "observers_inv s h"
  shows "observers_inv (publish_locked e s) (h\<lparr>hi_published := hi_published h @ [e]\<rparr>)" (is "observers_inv ?s ?h")
proof (rule observers_invI)
  have wf: "observers_wf s h" using assms(1) by (simp add: observers_inv_def)
  then show "observers_wf ?s ?h"
    by (auto simp: observers_wf_def publish_locked_def Let_def unseen_def split: if_splits)
  have len: "ob_sequence s = length (hi_published h)" using wf by (simp add: observers_wf_def)
  fix r g' assume g': "ob_objects ?s r = Some g'" "rg_active g'"
  let ?pend = "\<lambda>g. if rg_initialising g then g\<lparr>rg_pending := rg_pending g @ [e]\<rparr> else g"
  obtain g where g: "ob_objects s r = Some g" "rg_active g" "g' = (if r \<in> set (ob_registrations s) then ?pend g else g)"
  proof (cases "ob_objects s r")
    case (Some g)
    then show ?thesis using g' that[of g] by (auto simp: publish_locked_def Let_def split: if_splits)
  qed (use g' in \<open>auto simp: publish_locked_def Let_def split: if_splits\<close>)
  then have old: "registration_inv s h r g" using assms by (simp add: observers_inv_def)
  then have g'': "g' = ?pend g" using g by (simp add: registration_inv_def)
  show "registration_inv ?s ?h r g'"
  proof (cases "rg_initialising g")
    case True
    then show ?thesis using old len g''
      by (auto simp: registration_inv_def publish_locked_def Let_def received_def unseen_def)
  next
    case False
    then have g: "g' = g" using g'' by simp
    have "received ?s r g = received s r g" "queued_for_it ?s r g = queued_for_it s r g" "in_batches ?s r = in_batches s r"
      by (simp_all add: received_def queued_for_it_def in_batches_def publish_locked_def Let_def)
    moreover have "being_published ?s g = add_mset e (being_published s g)" "owed ?h r g = add_mset e (owed h r g)"
      using old False len by (simp_all add: being_published_def owed_def publish_locked_def Let_def registration_inv_def)
    ultimately have "accounted_for s h r g \<Longrightarrow> accounted_for ?s ?h r g" by (simp add: accounted_for_def)
    then show ?thesis using old False len unfolding g
      by (auto simp: registration_inv_def publish_locked_def Let_def)
  qed
qed

lemma queue_event_fields [simp]:
  "ob_objects (queue_event d s) = ob_objects s" "ob_registrations (queue_event d s) = ob_registrations s"
  "ob_sequence (queue_event d s) = ob_sequence s" "ob_invoked (queue_event d s) = ob_invoked s"
  "ob_publishing (queue_event d s) = ob_publishing s" "ob_bootstrapping (queue_event d s) = ob_bootstrapping s"
  by (simp_all add: queue_event_def)

lemma queue_event_cases:
  "ob_drop_logged (queue_event d s) \<and> ob_events (queue_event d s) = ob_events s \<or>
   ob_drop_logged (queue_event d s) = ob_drop_logged s \<and> ob_events (queue_event d s) = ob_events s @ [d]"
  by (simp add: queue_event_def)

text \<open>What queueing a delivery, with its source taken away, does to the account of one registration.\<close>

lemma queued_moves:
  assumes "\<not> ob_drop_logged (queue_event d s)"
  shows "queued_for_it (queue_event d s) r g = queued_for_it s r g +
    (if dl_target d = Some r \<or> dl_target d = None \<and> rg_bootstrapped_through_sequence g < dl_sequence d then {#dl_entry d#} else {#})"
  using assms by (cases "length (ob_events s) < EVENT_QUEUE_SIZE") (auto simp: queue_event_def queued_for_it_def)

lemma wf_flow:
  assumes "observers_wf s h" "ob_sequence s' = ob_sequence s" "ob_registrations s' = ob_registrations s" "ob_objects s' = ob_objects s"
    "ob_invoked s' = ob_invoked s" "set (ob_publishing s') \<subseteq> set (ob_publishing s)"
    "\<And>d. d \<in> set (ob_events s') \<Longrightarrow> dl_target d = None \<Longrightarrow> d \<in> set (ob_events s) \<or> dl_sequence d \<le> ob_sequence s"
    "\<And>r. ob_objects s r = None \<Longrightarrow> unseen s r \<Longrightarrow> unseen s' r"
  shows "observers_wf s' h"
proof -
  have "\<forall>(d, rs) \<in> set (ob_publishing s'). dl_target d = None \<and> dl_sequence d \<le> ob_sequence s'"
    using assms(1,2,6) unfolding observers_wf_def by fastforce
  moreover have "\<forall>d \<in> set (ob_events s'). dl_target d = None \<longrightarrow> dl_sequence d \<le> ob_sequence s'"
    using assms(1,2,7) unfolding observers_wf_def by metis
  ultimately show ?thesis using assms(1-5,8) by (simp add: observers_wf_def)
qed

lemma flow_queue_event [simp]:
  "received (queue_event d s) = received s" "in_batches (queue_event d s) = in_batches s" "being_published (queue_event d s) = being_published s"
  by (simp_all add: received_def in_batches_def being_published_def fun_eq_iff)

lemma drop_queue_event: "\<not> ob_drop_logged (queue_event d s) \<Longrightarrow> \<not> ob_drop_logged s"
  by (simp add: queue_event_def split: if_splits)

lemma queue_published_inv:
  assumes "observers_inv s h" "job \<in> set (ob_publishing s)"
  shows "observers_inv (publish_unlocked job s) h" (is "observers_inv ?s h")
proof (rule observers_invI)
  have wf: "observers_wf s h" using assms(1) by (simp add: observers_inv_def)
  obtain d rs where job: "job = (d, rs)" by (cases job)
  have d: "dl_target d = None" "dl_sequence d \<le> ob_sequence s" using wf assms(2) by (auto simp: observers_wf_def job)
  define s1 where "s1 = s\<lparr>ob_publishing := remove1 job (ob_publishing s)\<rparr>"
  let ?any = "list_ex (\<lambda>r. \<not> is_initialising s r) rs"
  have run: "?s = (if ?any then queue_event d s1 else s1)" by (simp add: publish_unlocked_def Let_def job s1_def)
  have pub: "mset (ob_publishing s) = add_mset job (mset (ob_publishing s1))" using assms(2) by (simp add: s1_def)
  have sub: "set (ob_publishing s1) \<subseteq> set (ob_publishing s)" by (auto simp: s1_def dest: set_remove1_subset[THEN subsetD])
  have seen: "unseen ?s r = unseen s r" for r
    using queue_event_cases[of d s1] d by (auto simp: run unseen_def s1_def)
  show "observers_wf ?s h"
    by (rule wf_flow[OF wf]) (use d sub seen queue_event_cases[of d s1] in \<open>auto simp: run s1_def split: if_splits\<close>)
  fix r g assume "ob_objects ?s r = Some g" "rg_active g"
  then have r: "ob_objects s r = Some g" "rg_active g" by (auto simp: run s1_def split: if_splits)
  then have old: "registration_inv s h r g" using assms(1) by (simp add: observers_inv_def)
  show "registration_inv ?s h r g"
  proof (cases "rg_initialising g")
    case True
    have "received ?s r g = received s r g" by (simp add: run received_def s1_def)
    then show ?thesis using old True seen by (auto simp: registration_inv_def run s1_def)
  next
    case False
    have acc: "accounted_for ?s h r g" if "\<not> ob_drop_logged ?s"
    proof -
      have "\<not> ob_drop_logged s" using that drop_queue_event[of d s1] by (auto simp: run s1_def split: if_splits)
      then have "accounted_for s h r g" using old False by (simp add: registration_inv_def)
      moreover have "?any" if "rg_bootstrapped_through_sequence g < dl_sequence d"
      proof -
        have "r \<in> set rs" using old False assms(2) that by (auto simp: registration_inv_def job)
        moreover have "\<not> is_initialising s r" using r(1) False by (simp add: is_initialising_def)
        ultimately show ?thesis by (auto simp: list_ex_iff)
      qed
      moreover have "being_published s g = being_published s1 g + (if rg_bootstrapped_through_sequence g < dl_sequence d then {#dl_entry d#} else {#})"
        by (simp add: being_published_def pub job)
      moreover have "received s1 = received s" "in_batches s1 = in_batches s" "queued_for_it s1 = queued_for_it s"
        by (simp_all add: received_def in_batches_def queued_for_it_def s1_def fun_eq_iff)
      ultimately show ?thesis using that queued_moves[of d s1 r g] d
        by (auto simp: run accounted_for_def split: if_splits)
    qed
    then show ?thesis using old False sub by (auto simp: registration_inv_def run s1_def)
  qed
qed

lemma mset_order_snapshots [simp]: "mset (order_snapshots es) = mset es"
  by (simp add: order_snapshots_def)

lemma activate_inv:
  assumes "observers_inv s h" "is_initialising s r"
  shows "observers_inv (activate_locked r snapshots s) (h\<lparr>hi_listed := (hi_listed h)(r := snapshots)\<rparr>)" (is "observers_inv ?s ?h")
proof (rule observers_invI)
  have wf: "observers_wf s h" using assms(1) by (simp add: observers_inv_def)
  obtain g0 where g0: "ob_objects s r = Some g0" "rg_initialising g0" using assms(2) by (auto simp: is_initialising_def)
  let ?batch = "order_snapshots (snapshots @ rg_pending g0)"
  let ?g1 = "g0\<lparr>rg_pending := [], rg_bootstrapped_through_sequence := ob_sequence s, rg_initialising := False\<rparr>"
  have run: "?s = s\<lparr>ob_objects := (ob_objects s)(r \<mapsto> ?g1), ob_bootstrapping := ob_bootstrapping s @ [(r, ?batch)]\<rparr>"
    using g0 by (simp add: activate_locked_def)
  show "observers_wf ?s ?h" using wf g0 unfolding run by (auto simp: observers_wf_def unseen_def)
  fix r' g assume g: "ob_objects ?s r' = Some g" "rg_active g"
  have same: "received ?s = received s" "queued_for_it ?s = queued_for_it s" "being_published ?s = being_published s"
    by (simp_all add: run received_def queued_for_it_def being_published_def fun_eq_iff)
  have batches: "in_batches ?s r' = in_batches s r' + (if r' = r then mset ?batch else {#})"
    by (simp add: run in_batches_def del: mset_order_snapshots)
  show "registration_inv ?s ?h r' g"
  proof (cases "r' = r")
    case True
    then have g1: "g = ?g1" "rg_active g0" using g by (auto simp: run)
    then have old: "registration_inv s h r g0" using assms(1) g0 by (simp add: observers_inv_def)
    then have init: "rg_pending g0 = drop (rg_started_at_sequence g0) (hi_published h)" "received s r g0 = {#}" "unseen s r"
      using g0(2) by (simp_all add: registration_inv_def)
    have "received s r g = {#}" using init(2) g1 by (simp add: received_def)
    moreover have "queued_for_it s r g = {#}" using init(3) wf g1 by (fastforce simp: queued_for_it_def unseen_def observers_wf_def)
    moreover have "being_published s g = {#}" using wf g1 by (fastforce simp: being_published_def observers_wf_def)
    moreover have "in_batches s r = {#}" using init(3) by (auto simp: in_batches_def unseen_def)
    ultimately have "accounted_for ?s ?h r g"
      using init(1) g1 True batches by (simp add: accounted_for_def same owed_def)
    then show ?thesis using old g1 True wf unfolding run
      by (fastforce simp: registration_inv_def observers_wf_def)
  next
    case False
    then have "ob_objects s r' = Some g" using g by (simp add: run)
    then have old: "registration_inv s h r' g" using assms(1) g by (simp add: observers_inv_def)
    have seen: "unseen ?s r' = unseen s r'" using False by (auto simp: run unseen_def)
    have acc: "accounted_for ?s ?h r' g = accounted_for s h r' g" using False batches by (simp add: accounted_for_def same owed_def)
    have fields: "ob_registrations ?s = ob_registrations s" "ob_sequence ?s = ob_sequence s" "ob_publishing ?s = ob_publishing s"
      "ob_drop_logged ?s = ob_drop_logged s" by (simp_all add: run)
    show ?thesis using old unfolding registration_inv_def fields seen acc same by simp
  qed
qed

lemma queue_bootstrap_inv:
  assumes "observers_inv s h" "job \<in> set (ob_bootstrapping s)"
  shows "observers_inv (activate_unlocked job s) h" (is "observers_inv ?s h")
proof (rule observers_invI)
  have wf: "observers_wf s h" using assms(1) by (simp add: observers_inv_def)
  obtain r0 es where job: "job = (r0, es)" by (cases job)
  define jobs where "jobs = remove1 job (ob_bootstrapping s)"
  have boot: "mset (ob_bootstrapping s) = add_mset job (mset jobs)" using assms(2) by (simp add: jobs_def)
  have "\<not> unseen s r0" using assms(2) by (force simp: unseen_def job)
  then have r0: "ob_objects s r0 \<noteq> None" using wf by (auto simp: observers_wf_def)
  define s1 where "s1 = s\<lparr>ob_bootstrapping := (if es = [] then [] else [(r0, tl es)]) @ jobs\<rparr>"
  have run: "?s = (case es of [] \<Rightarrow> s1 | e # _ \<Rightarrow> queue_event \<lparr>dl_entry = e, dl_target = Some r0, dl_sequence = 0\<rparr> s1)"
    by (cases es) (simp_all add: activate_unlocked_def job s1_def jobs_def)
  have sub: "set (ob_bootstrapping s1) \<subseteq> insert (r0, tl es) (set (ob_bootstrapping s))"
    by (auto simp: s1_def jobs_def dest: set_remove1_subset[THEN subsetD])
  have seen: "r \<noteq> r0 \<Longrightarrow> unseen s r \<Longrightarrow> unseen ?s r" for r
    using sub queue_event_cases[of _ s1] by (cases es) (fastforce simp: run unseen_def s1_def queue_event_def split: if_splits)+
  have fields: "ob_sequence ?s = ob_sequence s" "ob_registrations ?s = ob_registrations s" "ob_objects ?s = ob_objects s"
    "ob_invoked ?s = ob_invoked s" "ob_publishing ?s = ob_publishing s"
    by (cases es; simp add: run s1_def)+
  have events: "d \<in> set (ob_events s)" if "d \<in> set (ob_events ?s)" "dl_target d = None" for d
    using that by (cases es) (auto simp: run s1_def queue_event_def split: if_splits)
  have "unseen ?s r" if "ob_objects s r = None" "unseen s r" for r using seen[of r] r0 that by metis
  then show "observers_wf ?s h" using fields events by (intro wf_flow[OF wf]) auto
  fix r g assume "ob_objects ?s r = Some g" "rg_active g"
  then have r: "ob_objects s r = Some g" "rg_active g" using fields by auto
  then have old: "registration_inv s h r g" using assms(1) by (simp add: observers_inv_def)
  show "registration_inv ?s h r g"
  proof (cases "rg_initialising g")
    case True
    then have "r \<noteq> r0" using old assms(2) by (auto simp: registration_inv_def unseen_def job)
    moreover have "received ?s r g = received s r g" by (simp add: received_def fields)
    ultimately show ?thesis using old True seen by (auto simp: registration_inv_def fields)
  next
    case False
    have acc: "accounted_for ?s h r g" if drop: "\<not> ob_drop_logged ?s"
    proof -
      have "\<not> ob_drop_logged s" using drop drop_queue_event[of _ s1] by (cases es) (auto simp: run s1_def)
      then have "accounted_for s h r g" using old False by (simp add: registration_inv_def)
      moreover have "received ?s = received s" "being_published ?s = being_published s"
        by (simp_all add: received_def being_published_def fields fun_eq_iff)
      moreover have "queued_for_it ?s r g + in_batches ?s r = queued_for_it s r g + in_batches s r"
      proof (cases es)
        case (Cons e rest)
        have "in_batches s r = in_batches s1 r + (if r = r0 then {#e#} else {#})" "queued_for_it s1 r g = queued_for_it s r g"
          by (auto simp: in_batches_def queued_for_it_def s1_def boot job Cons)
        then show ?thesis using drop queued_moves[of "\<lparr>dl_entry = e, dl_target = Some r0, dl_sequence = 0\<rparr>" s1 r g] Cons
          by (auto simp: run)
      next
        case Nil
        then have "?s = s1" by (simp add: run)
        then show ?thesis using Nil by (auto simp: in_batches_def queued_for_it_def s1_def boot job)
      qed
      ultimately show ?thesis by (simp add: accounted_for_def add.assoc)
    qed
    then show ?thesis using old False by (auto simp: registration_inv_def fields)
  qed
qed

lemma deliver_inv:
  assumes "observers_inv s h"
  shows "observers_inv (dispatch_delivery s) h"
proof (cases "ob_events s")
  case Nil
  then show ?thesis using assms by (simp add: dispatch_delivery_def)
next
  case (Cons d rest)
  let ?s = "dispatch_delivery s"
  have wf: "observers_wf s h" using assms(1) by (simp add: observers_inv_def)
  define calls where "calls = filter (receives s d) (case dl_target d of None \<Rightarrow> ob_registrations s | Some r \<Rightarrow> [r])"
  have run: "?s = s\<lparr>ob_events := rest, ob_invoked := ob_invoked s @ map (\<lambda>r. (r, d)) calls\<rparr>"
    by (simp add: dispatch_delivery_def Cons calls_def)
  have known: "ob_objects s r \<noteq> None" if "r \<in> set calls" for r
    using that by (auto simp: calls_def receives_def split: option.splits)
  have seen: "unseen s r \<Longrightarrow> unseen ?s r" for r by (auto simp: run unseen_def Cons)
  have wf': "observers_wf ?s h"
  proof -
    have "unseen ?s r \<and> (\<forall>c \<in> set (ob_invoked ?s). fst c \<noteq> r) \<and> hi_listed h r = []" if "ob_objects s r = None" for r
    proof -
      have "unseen s r" "\<forall>c \<in> set (ob_invoked s). fst c \<noteq> r" "hi_listed h r = []" using wf that by (simp_all add: observers_wf_def)
      moreover have "r \<notin> set calls" using known that by blast
      ultimately show ?thesis using seen[of r] by (auto simp: run)
    qed
    then show ?thesis using wf by (auto simp: observers_wf_def run Cons)
  qed
  have single: "filter (\<lambda>x. x = r) calls = (if r \<in> set calls then [r] else [])" for r
  proof -
    have "distinct calls" using wf by (auto simp: calls_def observers_wf_def split: option.splits)
    then show ?thesis by (induction calls) auto
  qed
  have member: "r \<in> set calls \<longleftrightarrow> receives s d r \<and> (dl_target d = None \<and> r \<in> set (ob_registrations s) \<or> dl_target d = Some r)" for r
    by (auto simp: calls_def split: option.splits)
  have got: "received ?s r g = received s r g +
      (if r \<in> set calls \<and> (dl_target d = Some r \<or> rg_started_at_sequence g < dl_sequence d) then {#dl_entry d#} else {#})" for r g
  proof -
    let ?C = "dl_target d = Some r \<or> rg_started_at_sequence g < dl_sequence d"
    have "filter (\<lambda>(r', d). r' = r \<and> (dl_target d = Some r \<or> rg_started_at_sequence g < dl_sequence d)) (map (\<lambda>r. (r, d)) calls) =
        (if r \<in> set calls \<and> ?C then [(r, d)] else [])"
      using single[of r] by (simp add: filter_map comp_def)
    then show ?thesis
      unfolding received_def run mset_filter[symmetric] by simp
  qed
  show ?thesis
  proof (rule observers_invI[OF wf'])
    fix r g assume "ob_objects ?s r = Some g" "rg_active g"
    then have r: "ob_objects s r = Some g" "rg_active g" by (auto simp: run)
    then have old: "registration_inv s h r g" using assms by (simp add: observers_inv_def)
    show "registration_inv ?s h r g"
    proof (cases "rg_initialising g")
      case True
      then have "r \<notin> set calls" using r by (simp add: member receives_def)
      then have "received ?s r g = received s r g" by (simp add: got)
      then show ?thesis using old True seen by (simp add: registration_inv_def run)
    next
      case False
      have queued: "queued_for_it s r g = queued_for_it ?s r g +
          (if dl_target d = Some r \<or> dl_target d = None \<and> rg_bootstrapped_through_sequence g < dl_sequence d then {#dl_entry d#} else {#})"
        by (simp add: queued_for_it_def run Cons)
      have calls: "r \<in> set calls \<longleftrightarrow> wants g (dl_entry d) \<and> (dl_target d = Some r \<or>
          dl_target d = None \<and> (dl_sequence d \<le> rg_started_at_sequence g \<or> rg_bootstrapped_through_sequence g < dl_sequence d))"
        using old r False by (auto simp: member receives_def wants_def registration_inv_def)
      have "filter_mset (wants g) (received ?s r g + queued_for_it ?s r g) = filter_mset (wants g) (received s r g + queued_for_it s r g)"
        using old False by (auto simp: got queued calls registration_inv_def)
      moreover have "in_batches ?s = in_batches s" "being_published ?s = being_published s"
        by (simp_all add: in_batches_def being_published_def run fun_eq_iff)
      ultimately have "accounted_for ?s h r g = accounted_for s h r g" by (simp add: accounted_for_def)
      then show ?thesis using old False by (simp add: registration_inv_def run)
    qed
  qed
qed

lemma observer_reachable_inv: "observer_reachable (s, h) \<Longrightarrow> observers_inv s h"
proof (induction "(s, h)" arbitrary: s h rule: observer_reachable.induct)
  case start
  show ?case by (simp add: observers_inv_def observers_wf_def observers_init_def unseen_def)
qed (auto intro: register_inv unregister_inv publish_inv queue_published_inv activate_inv queue_bootstrap_inv deliver_inv)

section \<open>Properties\<close>

text \<open>A registration, a snapshot published while it is being set up, its bootstrap and the delivery.\<close>

abbreviation sample_snapshot :: queue_entry where
  "sample_snapshot \<equiv> sample_entry 1 (ClockTime 1000 0) 60"

definition sample_observed :: queue_observers where
  "sample_observed = dispatch_delivery (activate_unlocked (0, [sample_snapshot]) (activate_locked 0 []
     (publish_unlocked (\<lparr>dl_entry = sample_snapshot, dl_target = None, dl_sequence = 1\<rparr>, [0])
       (publish_locked sample_snapshot (observers_register 0 None observers_init)))))"

lemma sample_observed_state:
  "sample_observed = observers_init\<lparr>
     ob_objects := [0 \<mapsto> (new_registration None 0)\<lparr>rg_bootstrapped_through_sequence := 1, rg_initialising := False\<rparr>],
     ob_registrations := [0], ob_sequence := 1, ob_bootstrapping := [(0, [])],
     ob_invoked := [(0, \<lparr>dl_entry = sample_snapshot, dl_target = Some 0, dl_sequence = 0\<rparr>)]\<rparr>"
  by (simp add: sample_observed_def dispatch_delivery_def activate_unlocked_def queue_event_def activate_locked_def publish_unlocked_def
      publish_locked_def observers_register_def observers_init_def new_registration_def is_initialising_def receives_def
      order_snapshots_def Let_def fun_eq_iff)

lemma sample_observed_reachable:
  "observer_reachable (sample_observed, \<lparr>hi_published = [sample_snapshot], hi_listed = (\<lambda>_. [])\<rparr>)"
proof -
  let ?h = "\<lparr>hi_published = [], hi_listed = (\<lambda>_. [])\<rparr>" and ?h1 = "\<lparr>hi_published = [sample_snapshot], hi_listed = (\<lambda>_. [])\<rparr>"
  let ?job = "(\<lparr>dl_entry = sample_snapshot, dl_target = None, dl_sequence = 1\<rparr>, [0])"
  note defs = activate_locked_def publish_unlocked_def publish_locked_def observers_register_def observers_init_def
    new_registration_def is_initialising_def order_snapshots_def Let_def
  have "observer_reachable (observers_register 0 None observers_init, ?h)"
    by (rule observer_reachable.register[OF observer_reachable.start]) (simp add: observers_init_def)
  from observer_reachable.publish[OF this, of sample_snapshot]
  have p: "observer_reachable (publish_locked sample_snapshot (observers_register 0 None observers_init), ?h1)" by simp
  have u: "observer_reachable (publish_unlocked ?job (publish_locked sample_snapshot (observers_register 0 None observers_init)), ?h1)"
    by (rule observer_reachable.queue_published[OF p]) (simp add: defs)
  have "observer_reachable (activate_locked 0 [] (publish_unlocked ?job (publish_locked sample_snapshot (observers_register 0 None observers_init))),
      ?h1\<lparr>hi_listed := (hi_listed ?h1)(0 := [])\<rparr>)"
    by (rule observer_reachable.activate[OF u]) (simp add: defs)
  then have a: "observer_reachable (activate_locked 0 [] (publish_unlocked ?job (publish_locked sample_snapshot (observers_register 0 None observers_init))), ?h1)"
    by (simp add: fun_upd_def)
  show ?thesis unfolding sample_observed_def
    by (intro observer_reachable.deliver observer_reachable.queue_bootstrap a) (simp add: defs)
qed

text \<open>
  C24. An observer misses nothing and sees nothing twice: in whatever order the registering thread,
  the publishers and the dispatcher take their steps, once everything queued is delivered and
  nothing had to be dropped, an active observer has been called, among the snapshots it wants,
  exactly once with every snapshot listed at its registration and exactly once with every snapshot
  published since, whether that was before, during or after its bootstrap.
\<close>

theorem observers_receive_each_once:
  assumes "observer_reachable (s, h)" "ob_objects s r = Some g" "rg_active g" "\<not> rg_initialising g" "\<not> ob_drop_logged s"
    "ob_events s = []" "ob_publishing s = []" "\<forall>b \<in> set (ob_bootstrapping s). snd b = []"
  shows "filter_mset (wants g) (received s r g) =
    filter_mset (wants g) (mset (hi_listed h r @ drop (rg_started_at_sequence g) (hi_published h)))"
proof -
  have "registration_inv s h r g" using observer_reachable_inv[OF assms(1)] assms(2,3) by (simp add: observers_inv_def)
  then have "accounted_for s h r g" using assms(4,5) by (simp add: registration_inv_def)
  moreover have "queued_for_it s r g = {#}" "being_published s g = {#}"
    using assms(6,7) by (simp_all add: queued_for_it_def being_published_def)
  moreover have "in_batches s r = {#}" using assms(8) by (auto simp: in_batches_def)
  ultimately show ?thesis by (simp add: accounted_for_def owed_def)
qed

theorem observers_receive_each_once_witness:
  "received sample_observed 0 ((new_registration None 0)\<lparr>rg_bootstrapped_through_sequence := 1, rg_initialising := False\<rparr>) = {#sample_snapshot#}"
proof -
  let ?g = "(new_registration None 0)\<lparr>rg_bootstrapped_through_sequence := 1, rg_initialising := False\<rparr>"
  have all: "filter_mset (wants ?g) M = M" for M by (simp add: multiset_eq_iff wants_def new_registration_def)
  show ?thesis
    using observers_receive_each_once[OF sample_observed_reachable, of 0 ?g, unfolded all]
    by (simp add: sample_observed_state new_registration_def observers_init_def)
qed

text \<open>
  The bootstrap batch is queued after ordinary delivery is enabled, not before: a snapshot that is
  published in between overtakes it, and the observer sees an entry run before it sees it queued.
\<close>

lemma bootstrap_may_be_overtaken:
  "\<exists>s h. observer_reachable (s, h) \<and> hi_listed h 0 = [sample_snapshot] \<and>
     map (\<lambda>(r, d). qe_status (dl_entry d)) (ob_invoked s) = [RUNNING, QUEUED]"
proof -
  let ?run = "sample_snapshot\<lparr>qe_status := RUNNING\<rparr>"
  let ?h = "\<lparr>hi_published = [], hi_listed = (\<lambda>_. [])(0 := [sample_snapshot])\<rparr>" and ?h1 = "\<lparr>hi_published = [?run], hi_listed = (\<lambda>_. [])(0 := [sample_snapshot])\<rparr>"
  let ?job = "(\<lparr>dl_entry = ?run, dl_target = None, dl_sequence = 1\<rparr>, [0])"
  let ?a = "activate_locked 0 [sample_snapshot] (observers_register 0 None observers_init)"
  let ?s = "activate_unlocked (0, [sample_snapshot]) (publish_unlocked ?job (publish_locked ?run ?a))"
  note defs = activate_locked_def publish_unlocked_def publish_locked_def observers_register_def observers_init_def
    new_registration_def is_initialising_def order_snapshots_def Let_def queue_event_def
  have r: "observer_reachable (observers_register 0 None observers_init, \<lparr>hi_published = [], hi_listed = (\<lambda>_. [])\<rparr>)"
    by (rule observer_reachable.register[OF observer_reachable.start]) (simp add: observers_init_def)
  have "observer_reachable (?a, \<lparr>hi_published = [], hi_listed = (\<lambda>_. [])\<rparr>\<lparr>hi_listed := (\<lambda>_. [])(0 := [sample_snapshot])\<rparr>)"
    using observer_reachable.activate[OF r, of 0 "[sample_snapshot]"] by (simp add: defs)
  then have "observer_reachable (?a, ?h)" by simp
  from observer_reachable.publish[OF this, of ?run] have p: "observer_reachable (publish_locked ?run ?a, ?h1)" by simp
  have u: "observer_reachable (publish_unlocked ?job (publish_locked ?run ?a), ?h1)"
    by (rule observer_reachable.queue_published[OF p]) (simp add: defs)
  have "observer_reachable (?s, ?h1)"
    by (rule observer_reachable.queue_bootstrap[OF u]) (simp add: defs)
  then have "observer_reachable (dispatch_delivery (dispatch_delivery ?s), ?h1)" by (intro observer_reachable.deliver)
  moreover have "map (\<lambda>(r, d). qe_status (dl_entry d)) (ob_invoked (dispatch_delivery (dispatch_delivery ?s))) = [RUNNING, QUEUED]"
    by (simp add: defs activate_unlocked_def dispatch_delivery_def receives_def)
  ultimately show ?thesis by (intro exI[of _ "dispatch_delivery (dispatch_delivery ?s)"] exI[of _ ?h1]) simp
qed

end
