(* ===== verification/Observer_Activation.thy ===== *)
theory Observer_Activation
  imports Queue_Observers
begin

text \<open>
  \<^verbatim>\<open>django_queue/observers.py\<close>: observers registered with the decorator, which wait for the
  runtime to activate them. The theory models one alias: the pending registrations recorded for
  it, the threads that activate them (a nested activation, reached through the runtime while an
  outer one is under way, is a thread of its own), and the unsubscribing of a decorated observer
  at any time. Every block under the lock, and every call of \<open>Queue_Observers\<close>, is one step.
\<close>

section \<open>State\<close>

record pending_registration =
  pr_entry_id :: "uuid option"
  pr_cancelled :: bool
  pr_activating :: bool
  pr_subscription :: "nat option"

text \<open>
  Where an activating thread stands: it looks through the recorded registrations and claims some
  of them; it registered one and lists the queue's entries; it activated it and tells the
  runtime; it takes back one that was unsubscribed meanwhile. The last component is what it still
  has to activate.
\<close>

datatype activation =
    Scanning "nat list" "nat list"
  | Registered nat nat "nat list"
  | Activated nat nat "nat list"
  | TearingDown nat "nat list"

text \<open>
  Pending registrations, registrations and threads are objects, known by numbers. \<open>ac_owner\<close>
  tells for which pending registration a registration was made, \<open>ac_unsubscribed\<close> which ones a
  caller unsubscribed, and \<open>ac_leaked\<close> the registrations whose activation failed after they had
  been activated.
\<close>

record activation_state =
  ac_pending_by_alias :: "nat list"
  ac_objects :: "nat \<rightharpoonup> pending_registration"
  ac_threads :: "nat \<rightharpoonup> activation"
  ac_unsubscribing :: "nat set"
  ac_observers :: queue_observers
  ac_owner :: "nat \<rightharpoonup> nat"
  ac_unsubscribed :: "nat set"
  ac_leaked :: "nat set"

definition activation_init :: activation_state where
  "activation_init = \<lparr>ac_pending_by_alias = [], ac_objects = Map.empty, ac_threads = Map.empty, ac_unsubscribing = {},
     ac_observers = observers_init, ac_owner = Map.empty, ac_unsubscribed = {}, ac_leaked = {}\<rparr>"

section \<open>Recording and unsubscribing\<close>

definition register_deferred :: "nat \<Rightarrow> uuid option \<Rightarrow> activation_state \<Rightarrow> activation_state" where
  "register_deferred p entry_id s =
     s\<lparr>ac_objects := (ac_objects s)(p \<mapsto> \<lparr>pr_entry_id = entry_id, pr_cancelled = False, pr_activating = False, pr_subscription = None\<rparr>),
       ac_pending_by_alias := ac_pending_by_alias s @ [p]\<rparr>"

text \<open>The two halves of unsubscribing: under the lock, and at the subscription.\<close>

definition decorator_unsubscribe :: "nat \<Rightarrow> activation_state \<Rightarrow> activation_state" where
  "decorator_unsubscribe p s =
     (case ac_objects s p of
        None \<Rightarrow> s
      | Some g \<Rightarrow>
          (case pr_subscription g of
             None \<Rightarrow> s\<lparr>ac_objects := (ac_objects s)(p \<mapsto> g\<lparr>pr_cancelled := True\<rparr>), ac_unsubscribed := insert p (ac_unsubscribed s)\<rparr>
           | Some r \<Rightarrow> s\<lparr>ac_unsubscribing := insert r (ac_unsubscribing s), ac_unsubscribed := insert p (ac_unsubscribed s)\<rparr>))"

definition subscription_unsubscribe :: "nat \<Rightarrow> activation_state \<Rightarrow> activation_state" where
  "subscription_unsubscribe r s =
     s\<lparr>ac_unsubscribing := ac_unsubscribing s - {r}, ac_observers := observers_unregister r (ac_observers s)\<rparr>"

section \<open>Activation\<close>

definition activate_begin :: "nat \<Rightarrow> activation_state \<Rightarrow> activation_state" where
  "activate_begin t s = s\<lparr>ac_threads := (ac_threads s)(t \<mapsto> Scanning (ac_pending_by_alias s) [])\<rparr>"

definition set_activating :: "nat \<Rightarrow> bool \<Rightarrow> activation_state \<Rightarrow> activation_state" where
  "set_activating p b s = s\<lparr>ac_objects := (ac_objects s)(p := map_option (pr_activating_update (\<lambda>_. b)) (ac_objects s p))\<rparr>"

text \<open>Claiming the next registration, unless it is cancelled, claimed or already active.\<close>

definition claimable :: "activation_state \<Rightarrow> nat \<Rightarrow> bool" where
  "claimable s p =
     (case ac_objects s p of
        None \<Rightarrow> False
      | Some g \<Rightarrow> \<not> (pr_cancelled g \<or> pr_activating g \<or> pr_subscription g \<noteq> None))"

text \<open>Whether the runtime has anything to do for the alias: a registration, or one to be activated.\<close>

definition alias_has_observer_registration :: "activation_state \<Rightarrow> bool" where
  "alias_has_observer_registration s \<longleftrightarrow>
     ob_registrations (ac_observers s) \<noteq> [] \<or> list_ex (claimable s) (ac_pending_by_alias s)"

definition claim_pending :: "nat \<Rightarrow> activation_state \<Rightarrow> activation_state" where
  "claim_pending t s =
     (case ac_threads s t of
        Some (Scanning (p # ps) claimed) \<Rightarrow>
          if claimable s p
          then (set_activating p True s)\<lparr>ac_threads := (ac_threads s)(t \<mapsto> Scanning ps (claimed @ [p]))\<rparr>
          else s\<lparr>ac_threads := (ac_threads s)(t \<mapsto> Scanning ps claimed)\<rparr>
      | _ \<Rightarrow> s)"

text \<open>
  \<^verbatim>\<open>_register_now\<close> for the next claimed registration: register, list the queue's entries (which
  may fail, and then takes the registration back), activate, tell the runtime (which may fail in
  a nested activation).
\<close>

definition register_next :: "nat \<Rightarrow> nat \<Rightarrow> activation_state \<Rightarrow> activation_state" where
  "register_next t r s =
     (case ac_threads s t of
        Some (Scanning [] (p # rest)) \<Rightarrow>
          s\<lparr>ac_threads := (ac_threads s)(t \<mapsto> Registered p r rest),
            ac_observers := observers_register r (Option.bind (ac_objects s p) pr_entry_id) (ac_observers s),
            ac_owner := (ac_owner s)(r \<mapsto> p)\<rparr>
      | _ \<Rightarrow> s)"

definition list_failed :: "nat \<Rightarrow> activation_state \<Rightarrow> activation_state" where
  "list_failed t s =
     (case ac_threads s t of
        Some (Registered p r rest) \<Rightarrow>
          (set_activating p False s)\<lparr>ac_threads := (ac_threads s)(t := None), ac_observers := observers_unregister r (ac_observers s)\<rparr>
      | _ \<Rightarrow> s)"

definition list_succeeded :: "nat \<Rightarrow> queue_entry list \<Rightarrow> activation_state \<Rightarrow> activation_state" where
  "list_succeeded t snapshots s =
     (case ac_threads s t of
        Some (Registered p r rest) \<Rightarrow>
          s\<lparr>ac_threads := (ac_threads s)(t \<mapsto> Activated p r rest), ac_observers := activate_locked r snapshots (ac_observers s)\<rparr>
      | _ \<Rightarrow> s)"

definition start_failed :: "nat \<Rightarrow> activation_state \<Rightarrow> activation_state" where
  "start_failed t s =
     (case ac_threads s t of
        Some (Activated p r rest) \<Rightarrow>
          (set_activating p False s)\<lparr>ac_threads := (ac_threads s)(t := None), ac_leaked := insert r (ac_leaked s)\<rparr>
      | _ \<Rightarrow> s)"

text \<open>The block after a successful registration, and taking it back if it was cancelled meanwhile.\<close>

definition start_succeeded :: "nat \<Rightarrow> activation_state \<Rightarrow> activation_state" where
  "start_succeeded t s =
     (case ac_threads s t of
        Some (Activated p r rest) \<Rightarrow>
          (case ac_objects s p of
             None \<Rightarrow> s
           | Some g \<Rightarrow>
               s\<lparr>ac_objects := (ac_objects s)(p \<mapsto> g\<lparr>pr_activating := False, pr_subscription := Some r\<rparr>),
                 ac_threads := (ac_threads s)(t \<mapsto> (if pr_cancelled g then TearingDown r rest else Scanning [] rest))\<rparr>)
      | _ \<Rightarrow> s)"

definition tear_down :: "nat \<Rightarrow> activation_state \<Rightarrow> activation_state" where
  "tear_down t s =
     (case ac_threads s t of
        Some (TearingDown r rest) \<Rightarrow>
          s\<lparr>ac_threads := (ac_threads s)(t \<mapsto> Scanning [] rest), ac_observers := observers_unregister r (ac_observers s)\<rparr>
      | _ \<Rightarrow> s)"

definition activate_end :: "nat \<Rightarrow> activation_state \<Rightarrow> activation_state" where
  "activate_end t s =
     (case ac_threads s t of Some (Scanning [] []) \<Rightarrow> s\<lparr>ac_threads := (ac_threads s)(t := None)\<rparr> | _ \<Rightarrow> s)"

section \<open>Interleavings\<close>

inductive activation_reaches :: "activation_state \<Rightarrow> activation_state \<Rightarrow> bool" for s0 where
  a_start: "activation_reaches s0 s0"
| a_record: "activation_reaches s0 s \<Longrightarrow> ac_objects s p = None \<Longrightarrow> activation_reaches s0 (register_deferred p i s)"
| a_unsubscribe: "activation_reaches s0 s \<Longrightarrow> activation_reaches s0 (decorator_unsubscribe p s)"
| a_finish_unsubscribe: "activation_reaches s0 s \<Longrightarrow> r \<in> ac_unsubscribing s \<Longrightarrow> activation_reaches s0 (subscription_unsubscribe r s)"
| a_begin: "activation_reaches s0 s \<Longrightarrow> ac_threads s t = None \<Longrightarrow> activation_reaches s0 (activate_begin t s)"
| a_claim: "activation_reaches s0 s \<Longrightarrow> activation_reaches s0 (claim_pending t s)"
| a_register: "activation_reaches s0 s \<Longrightarrow> ob_objects (ac_observers s) r = None \<Longrightarrow> activation_reaches s0 (register_next t r s)"
| a_list_failed: "activation_reaches s0 s \<Longrightarrow> activation_reaches s0 (list_failed t s)"
| a_list_succeeded: "activation_reaches s0 s \<Longrightarrow> activation_reaches s0 (list_succeeded t snapshots s)"
| a_start_failed: "activation_reaches s0 s \<Longrightarrow> activation_reaches s0 (start_failed t s)"
| a_start_succeeded: "activation_reaches s0 s \<Longrightarrow> activation_reaches s0 (start_succeeded t s)"
| a_tear_down: "activation_reaches s0 s \<Longrightarrow> activation_reaches s0 (tear_down t s)"
| a_end: "activation_reaches s0 s \<Longrightarrow> activation_reaches s0 (activate_end t s)"
| a_observers: "activation_reaches s0 s \<Longrightarrow>
    obs \<in> {publish_locked e (ac_observers s), dispatch_delivery (ac_observers s)} \<union>
      (\<lambda>job. publish_unlocked job (ac_observers s)) ` set (ob_publishing (ac_observers s)) \<union>
      (\<lambda>job. activate_unlocked job (ac_observers s)) ` set (ob_bootstrapping (ac_observers s)) \<Longrightarrow>
    activation_reaches s0 (s\<lparr>ac_observers := obs\<rparr>)"

abbreviation activation_reachable :: "activation_state \<Rightarrow> bool" where
  "activation_reachable \<equiv> activation_reaches activation_init"

section \<open>The invariant\<close>

text \<open>What a thread has claimed and not yet finished.\<close>

fun claims :: "activation \<Rightarrow> nat list" where
  "claims (Scanning ps claimed) = claimed"
| "claims (Registered p r rest) = p # rest"
| "claims (Activated p r rest) = p # rest"
| "claims (TearingDown r rest) = rest"

definition claims_inv :: "activation_state \<Rightarrow> bool" where
  "claims_inv s \<longleftrightarrow>
     (\<forall>t a. ac_threads s t = Some a \<longrightarrow> distinct (claims a)) \<and>
     (\<forall>t a p. ac_threads s t = Some a \<longrightarrow> p \<in> set (claims a) \<longrightarrow>
        (\<exists>g. ac_objects s p = Some g \<and> pr_activating g \<and> pr_subscription g = None)) \<and>
     (\<forall>t t' a a' p. ac_threads s t = Some a \<longrightarrow> ac_threads s t' = Some a' \<longrightarrow>
        p \<in> set (claims a) \<longrightarrow> p \<in> set (claims a') \<longrightarrow> t = t')"

text \<open>The registration a thread is making, and the one it is taking back.\<close>

fun flight :: "activation \<Rightarrow> (nat \<times> nat) option" where
  "flight (Registered p r rest) = Some (p, r)"
| "flight (Activated p r rest) = Some (p, r)"
| "flight _ = None"

fun removing :: "activation \<Rightarrow> nat option" where
  "removing (TearingDown r rest) = Some r"
| "removing _ = None"

definition in_flight :: "activation_state \<Rightarrow> nat \<Rightarrow> nat \<Rightarrow> bool" where
  "in_flight s p r \<longleftrightarrow> (\<exists>t. Option.bind (ac_threads s t) flight = Some (p, r))"

definition being_removed :: "activation_state \<Rightarrow> nat \<Rightarrow> bool" where
  "being_removed s r \<longleftrightarrow> r \<in> ac_unsubscribing s \<or> (\<exists>t. Option.bind (ac_threads s t) removing = Some r)"

definition live :: "activation_state \<Rightarrow> nat \<Rightarrow> bool" where
  "live s r \<longleftrightarrow> r \<in> set (ob_registrations (ac_observers s)) \<and> r \<notin> ac_leaked s"

definition owner_inv :: "activation_state \<Rightarrow> nat \<Rightarrow> nat \<Rightarrow> bool" where
  "owner_inv s r p \<longleftrightarrow>
     in_flight s p r \<or>
     (\<exists>g. ac_objects s p = Some g \<and> pr_subscription g = Some r \<and> (p \<in> ac_unsubscribed s \<longrightarrow> being_removed s r))"

definition activation_inv :: "activation_state \<Rightarrow> bool" where
  "activation_inv s \<longleftrightarrow>
     claims_inv s \<and>
     distinct (ob_registrations (ac_observers s)) \<and> set (ob_registrations (ac_observers s)) \<subseteq> dom (ob_objects (ac_observers s)) \<and>
     dom (ac_owner s) \<subseteq> dom (ob_objects (ac_observers s)) \<and>
     (\<forall>p \<in> ac_unsubscribed s. \<exists>g. ac_objects s p = Some g \<and> (pr_cancelled g \<or> pr_subscription g \<noteq> None)) \<and>
     (\<forall>r p. ac_owner s r = Some p \<longrightarrow> live s r \<longrightarrow> owner_inv s r p)"

lemma observers_fields [simp]:
  "ob_registrations (observers_unregister r obs) = remove1 r (ob_registrations obs)"
  "dom (ob_objects (observers_unregister r obs)) = dom (ob_objects obs)"
  "ob_registrations (observers_register r i obs) = ob_registrations obs @ [r]"
  "dom (ob_objects (observers_register r i obs)) = insert r (dom (ob_objects obs))"
  "ob_registrations (activate_locked r snapshots obs) = ob_registrations obs"
  "dom (ob_objects (activate_locked r snapshots obs)) = dom (ob_objects obs)"
  by (auto simp: observers_unregister_def observers_register_def activate_locked_def dom_def split: option.splits if_splits)

lemma traffic_fields:
  assumes "obs' \<in> {publish_locked e obs, dispatch_delivery obs} \<union> (\<lambda>job. publish_unlocked job obs) ` J \<union> (\<lambda>job. activate_unlocked job obs) ` B"
  shows "ob_registrations obs' = ob_registrations obs" "dom (ob_objects obs') = dom (ob_objects obs)"
  using assms
  by (auto simp: publish_locked_def dispatch_delivery_def publish_unlocked_def activate_unlocked_def queue_event_def Let_def dom_def
      split: if_splits list.splits)

lemma claims_invD:
  assumes "claims_inv s" "ac_threads s t = Some a" "p \<in> set (claims a)"
  obtains g where "ac_objects s p = Some g" "pr_activating g" "pr_subscription g = None"
  using assms unfolding claims_inv_def by blast

text \<open>A thread that goes on with less than it had claimed.\<close>

lemma claims_inv_shrink:
  assumes inv: "claims_inv s" and t: "ac_threads s t = Some a" and s': "ac_threads s' = (ac_threads s)(t := x)"
    and less: "\<And>a'. x = Some a' \<Longrightarrow> distinct (claims a') \<and> set (claims a') \<subseteq> set (claims a) - D"
    and D: "D \<subseteq> set (claims a)" and objects: "\<And>q. q \<notin> D \<Longrightarrow> ac_objects s' q = ac_objects s q"
  shows "claims_inv s'"
proof -
  have out: "q \<notin> D" if "ac_threads s' u = Some b" "q \<in> set (claims b)" for u b q
  proof (cases "u = t")
    case True
    then show ?thesis using that s' less by auto
  next
    case False
    then show ?thesis using that s' inv t D unfolding claims_inv_def by (metis fun_upd_other subsetD)
  qed
  have old: "\<exists>b'. ac_threads s u = Some b' \<and> set (claims b) \<subseteq> set (claims b')" if "ac_threads s' u = Some b" for u b
    using that s' t less by (cases "u = t") auto
  have "distinct (claims b)" if "ac_threads s' u = Some b" for u b
    using that s' less inv by (cases "u = t") (auto simp: claims_inv_def)
  moreover have "\<exists>g. ac_objects s' q = Some g \<and> pr_activating g \<and> pr_subscription g = None"
    if "ac_threads s' u = Some b" "q \<in> set (claims b)" for u b q
    using old[OF that(1)] that(2) objects[OF out[OF that]] inv by (metis claims_invD subsetD)
  moreover have "u = u'" if "ac_threads s' u = Some b" "ac_threads s' u' = Some b'" "q \<in> set (claims b)" "q \<in> set (claims b')" for u u' b b' q
    using old[OF that(1)] old[OF that(2)] that(3,4) inv unfolding claims_inv_def by blast
  ultimately show ?thesis unfolding claims_inv_def by blast
qed

lemma claims_inv_objects:
  assumes "claims_inv s" "ac_threads s' = ac_threads s"
    "\<And>p g. ac_objects s p = Some g \<Longrightarrow>
      \<exists>g'. ac_objects s' p = Some g' \<and> pr_activating g' = pr_activating g \<and> pr_subscription g' = pr_subscription g"
  shows "claims_inv s'"
proof -
  have "\<exists>g. ac_objects s' p = Some g \<and> pr_activating g \<and> pr_subscription g = None"
    if "ac_threads s t = Some a" "p \<in> set (claims a)" for t a p
    using claims_invD[OF assms(1) that] assms(3) by metis
  with assms(1,2) show ?thesis unfolding claims_inv_def by simp
qed

section \<open>Preservation\<close>

lemma activation_invI:
  assumes "claims_inv s" "distinct (ob_registrations (ac_observers s))"
    "set (ob_registrations (ac_observers s)) \<subseteq> dom (ob_objects (ac_observers s))"
    "dom (ac_owner s) \<subseteq> dom (ob_objects (ac_observers s))"
    "\<And>p. p \<in> ac_unsubscribed s \<Longrightarrow> \<exists>g. ac_objects s p = Some g \<and> (pr_cancelled g \<or> pr_subscription g \<noteq> None)"
    "\<And>r p. ac_owner s r = Some p \<Longrightarrow> live s r \<Longrightarrow> owner_inv s r p"
  shows "activation_inv s"
  using assms by (simp add: activation_inv_def)

lemma activation_invD:
  assumes "activation_inv s"
  shows "claims_inv s" "distinct (ob_registrations (ac_observers s))"
    "set (ob_registrations (ac_observers s)) \<subseteq> dom (ob_objects (ac_observers s))"
    "dom (ac_owner s) \<subseteq> dom (ob_objects (ac_observers s))"
    "\<And>p. p \<in> ac_unsubscribed s \<Longrightarrow> \<exists>g. ac_objects s p = Some g \<and> (pr_cancelled g \<or> pr_subscription g \<noteq> None)"
    "\<And>r p. ac_owner s r = Some p \<Longrightarrow> live s r \<Longrightarrow> owner_inv s r p"
  using assms by (simp_all add: activation_inv_def)

lemmas owner_defs = owner_inv_def in_flight_def being_removed_def live_def

lemma owner_inv_quiet:
  assumes "owner_inv s r p" "\<And>u. Option.bind (ac_threads s' u) flight = Option.bind (ac_threads s u) flight"
    "\<And>u. Option.bind (ac_threads s' u) removing = Option.bind (ac_threads s u) removing"
    "ac_unsubscribing s' = ac_unsubscribing s" "ac_unsubscribed s' = ac_unsubscribed s"
    "map_option pr_subscription (ac_objects s' p) = map_option pr_subscription (ac_objects s p)"
  shows "owner_inv s' r p"
  using assms by (auto simp: owner_inv_def in_flight_def being_removed_def)

lemma claims_distinct: "claims_inv s \<Longrightarrow> ac_threads s t = Some a \<Longrightarrow> distinct (claims a)"
  by (simp add: claims_inv_def)

lemma in_flight_other:
  assumes "ac_threads s t = Some a" "ac_threads s' = (ac_threads s)(t := x)" "in_flight s q r"
  shows "flight a = Some (q, r) \<or> in_flight s' q r"
  using assms by (metis bind.bind_lunit fun_upd_other in_flight_def)

lemma being_removed_other:
  assumes "ac_threads s t = Some a" "ac_threads s' = (ac_threads s)(t := x)" "ac_unsubscribing s' = ac_unsubscribing s" "being_removed s r"
  shows "removing a = Some r \<or> being_removed s' r"
  using assms by (metis bind.bind_lunit fun_upd_other being_removed_def)

text \<open>
  A step of a thread: the registrations it is not about keep their account, as long as their
  objects do.
\<close>

lemma owner_inv_thread:
  assumes "owner_inv s r q" "ac_threads s t = Some a" "ac_threads s' = (ac_threads s)(t := x)" "ac_unsubscribing s' = ac_unsubscribing s"
    "ac_unsubscribed s' = ac_unsubscribed s" "flight a \<noteq> Some (q, r)" "removing a \<noteq> Some r"
    "\<And>g. ac_objects s q = Some g \<Longrightarrow> pr_subscription g \<noteq> None \<Longrightarrow>
      map_option pr_subscription (ac_objects s' q) = Some (pr_subscription g)"
  shows "owner_inv s' r q"
  using assms(1) unfolding owner_inv_def
proof (elim disjE exE conjE)
  assume "in_flight s q r"
  then show "in_flight s' q r \<or> (\<exists>g. ac_objects s' q = Some g \<and> pr_subscription g = Some r \<and> (q \<in> ac_unsubscribed s' \<longrightarrow> being_removed s' r))"
    using in_flight_other[OF assms(2,3)] assms(6) by blast
next
  fix g assume g: "ac_objects s q = Some g" "pr_subscription g = Some r" "q \<in> ac_unsubscribed s \<longrightarrow> being_removed s r"
  then obtain g' where "ac_objects s' q = Some g'" "pr_subscription g' = Some r" using assms(8)[of g] by auto
  with g(3) show "in_flight s' q r \<or> (\<exists>g. ac_objects s' q = Some g \<and> pr_subscription g = Some r \<and> (q \<in> ac_unsubscribed s' \<longrightarrow> being_removed s' r))"
    using being_removed_other[OF assms(2,3,4)] assms(5,7) by auto
qed

lemma record_inv:
  assumes "activation_inv s" "ac_objects s p = None"
  shows "activation_inv (register_deferred p i s)"
proof (rule activation_invI)
  note inv = activation_invD[OF assms(1)]
  show "claims_inv (register_deferred p i s)"
    by (rule claims_inv_objects[OF inv(1)]) (use assms(2) in \<open>auto simp: register_deferred_def\<close>)
  show "\<exists>g. ac_objects (register_deferred p i s) q = Some g \<and> (pr_cancelled g \<or> pr_subscription g \<noteq> None)"
    if "q \<in> ac_unsubscribed (register_deferred p i s)" for q
    using inv(5)[of q] that assms(2) by (auto simp: register_deferred_def)
  show "owner_inv (register_deferred p i s) r q" if "ac_owner (register_deferred p i s) r = Some q" "live (register_deferred p i s) r" for r q
    using inv(6)[of r q] that assms(2) by (auto simp: register_deferred_def owner_defs)
qed (use activation_invD[OF assms(1)] in \<open>simp_all add: register_deferred_def\<close>)

lemma unsubscribe_inv:
  assumes "activation_inv s"
  shows "activation_inv (decorator_unsubscribe p s)"
proof (cases "ac_objects s p")
  case (Some g)
  note inv = activation_invD[OF assms]
  show ?thesis
  proof (rule activation_invI)
    show "claims_inv (decorator_unsubscribe p s)"
      by (rule claims_inv_objects[OF inv(1)]) (use Some in \<open>auto simp: decorator_unsubscribe_def split: option.splits\<close>)
    show "\<exists>g. ac_objects (decorator_unsubscribe p s) q = Some g \<and> (pr_cancelled g \<or> pr_subscription g \<noteq> None)"
      if "q \<in> ac_unsubscribed (decorator_unsubscribe p s)" for q
      using inv(5)[of q] that Some by (auto simp: decorator_unsubscribe_def split: option.splits if_splits)
    show "owner_inv (decorator_unsubscribe p s) r q" if "ac_owner (decorator_unsubscribe p s) r = Some q" "live (decorator_unsubscribe p s) r" for r q
      using inv(6)[of r q] that Some by (auto simp: decorator_unsubscribe_def owner_defs split: option.splits if_splits)
  qed (use inv Some in \<open>simp_all add: decorator_unsubscribe_def split: option.splits\<close>)
qed (use assms in \<open>simp add: decorator_unsubscribe_def\<close>)

lemma finish_unsubscribe_inv:
  assumes "activation_inv s"
  shows "activation_inv (subscription_unsubscribe r s)"
proof (rule activation_invI)
  note inv = activation_invD[OF assms]
  show "claims_inv (subscription_unsubscribe r s)"
    by (rule claims_inv_objects[OF inv(1)]) (auto simp: subscription_unsubscribe_def)
  show "owner_inv (subscription_unsubscribe r s) r' q"
    if "ac_owner (subscription_unsubscribe r s) r' = Some q" "live (subscription_unsubscribe r s) r'" for r' q
    using inv(6)[of r' q] that inv(2) by (auto simp: subscription_unsubscribe_def owner_defs)
qed (use activation_invD[OF assms] in \<open>auto simp: subscription_unsubscribe_def\<close>)

lemma begin_inv:
  assumes "activation_inv s" "ac_threads s t = None"
  shows "activation_inv (activate_begin t s)"
proof (rule activation_invI)
  note inv = activation_invD[OF assms(1)]
  show "claims_inv (activate_begin t s)"
    using inv(1) by (auto simp: claims_inv_def activate_begin_def)
  show "owner_inv (activate_begin t s) r q" if "ac_owner (activate_begin t s) r = Some q" "live (activate_begin t s) r" for r q
    by (rule owner_inv_quiet[OF inv(6)[of r q]]) (use that assms(2) in \<open>auto simp: activate_begin_def live_def\<close>)
qed (use activation_invD[OF assms(1)] in \<open>simp_all add: activate_begin_def\<close>)

lemma claim_claims_inv:
  assumes inv: "claims_inv s" and t: "ac_threads s t = Some (Scanning (p # ps) claimed)" and p: "claimable s p"
  shows "claims_inv ((set_activating p True s)\<lparr>ac_threads := (ac_threads s)(t \<mapsto> Scanning ps (claimed @ [p]))\<rparr>)" (is "claims_inv ?s")
proof -
  obtain g where g: "ac_objects s p = Some g" "\<not> pr_activating g" "pr_subscription g = None"
    using p by (auto simp: claimable_def split: option.splits)
  have new: "p \<notin> set (claims a)" if "ac_threads s u = Some a" for u a
    using claims_invD[OF inv that, of p] g by auto
  have obj: "ac_objects ?s q = (if q = p then Some (g\<lparr>pr_activating := True\<rparr>) else ac_objects s q)" for q
    using g by (simp add: set_activating_def)
  have "distinct (claims b)" if "ac_threads ?s u = Some b" for u b
    using that claims_distinct[OF inv] claims_distinct[OF inv t] new[OF t] by (auto split: if_splits)
  moreover have "\<exists>g. ac_objects ?s q = Some g \<and> pr_activating g \<and> pr_subscription g = None"
    if th: "ac_threads ?s u = Some b" "q \<in> set (claims b)" for u b q
  proof (cases "q = p")
    case True
    then show ?thesis using g by (simp add: set_activating_def)
  next
    case False
    then obtain a where "ac_threads s u = Some a" "q \<in> set (claims a)" using th t by (cases "u = t") auto
    then show ?thesis using claims_invD[OF inv] False by (metis obj)
  qed
  moreover have "u = u'"
    if "ac_threads ?s u = Some b" "ac_threads ?s u' = Some b'" "q \<in> set (claims b)" "q \<in> set (claims b')" for u u' b b' q
  proof (cases "q = p")
    case True
    then show ?thesis using that new by (auto split: if_splits)
  next
    case False
    have "\<exists>a. ac_threads s v = Some a \<and> q \<in> set (claims a)" if "ac_threads ?s v = Some c" "q \<in> set (claims c)" for v c
      using that t False by (cases "v = t") auto
    then show ?thesis using that inv unfolding claims_inv_def by meson
  qed
  ultimately show ?thesis unfolding claims_inv_def by blast
qed

lemma claim_inv:
  assumes "activation_inv s"
  shows "activation_inv (claim_pending t s)"
proof (cases "\<exists>p ps claimed. ac_threads s t = Some (Scanning (p # ps) claimed)")
  case True
  then obtain p ps claimed where t: "ac_threads s t = Some (Scanning (p # ps) claimed)" by blast
  note inv = activation_invD[OF assms]
  show ?thesis
  proof (cases "claimable s p")
    case claim: True
    let ?s = "(set_activating p True s)\<lparr>ac_threads := (ac_threads s)(t \<mapsto> Scanning ps (claimed @ [p]))\<rparr>"
    have "activation_inv ?s"
    proof (rule activation_invI)
      show "claims_inv ?s" by (rule claim_claims_inv[OF inv(1) t claim])
      show "\<exists>g. ac_objects ?s q = Some g \<and> (pr_cancelled g \<or> pr_subscription g \<noteq> None)" if "q \<in> ac_unsubscribed ?s" for q
        using inv(5)[of q] that by (auto simp: set_activating_def)
      show "owner_inv ?s r q" if "ac_owner ?s r = Some q" "live ?s r" for r q
        by (rule owner_inv_quiet[OF inv(6)[of r q]]) (use that t in \<open>auto simp: set_activating_def live_def option.map_comp comp_def\<close>)
    qed (use inv in \<open>simp_all add: set_activating_def\<close>)
    then show ?thesis using t claim by (simp add: claim_pending_def)
  next
    case False
    let ?s = "s\<lparr>ac_threads := (ac_threads s)(t \<mapsto> Scanning ps claimed)\<rparr>"
    have "activation_inv ?s"
    proof (rule activation_invI)
      show "claims_inv ?s"
        by (rule claims_inv_shrink[OF inv(1) t, of _ "Some (Scanning ps claimed)" "{}"]) (use claims_distinct[OF inv(1) t] in auto)
      show "owner_inv ?s r q" if "ac_owner ?s r = Some q" "live ?s r" for r q
        by (rule owner_inv_quiet[OF inv(6)[of r q]]) (use that t in \<open>auto simp: live_def\<close>)
    qed (use inv in simp_all)
    then show ?thesis using t False by (simp add: claim_pending_def)
  qed
qed (use assms in \<open>auto simp: claim_pending_def split: option.splits activation.splits list.splits\<close>)

text \<open>A thread's step that finishes with a registration, one way or another.\<close>

lemma register_next_inv:
  assumes "activation_inv s" "ob_objects (ac_observers s) r = None"
  shows "activation_inv (register_next t r s)"
proof (cases "\<exists>p rest. ac_threads s t = Some (Scanning [] (p # rest))")
  case True
  then obtain p rest where t: "ac_threads s t = Some (Scanning [] (p # rest))" by blast
  note inv = activation_invD[OF assms(1)]
  let ?s = "register_next t r s"
  have fresh: "r \<notin> set (ob_registrations (ac_observers s))" "ac_owner s r = None" using inv(3,4) assms(2) by auto
  show ?thesis
  proof (rule activation_invI)
    show "claims_inv ?s"
      by (rule claims_inv_shrink[OF inv(1) t, of _ "Some (Registered p r rest)" "{}"])
        (use claims_distinct[OF inv(1) t] t in \<open>auto simp: register_next_def\<close>)
    show "owner_inv ?s r' q" if "ac_owner ?s r' = Some q" "live ?s r'" for r' q
    proof (cases "r' = r")
      case True
      then show ?thesis using that t by (auto simp: register_next_def owner_inv_def in_flight_def intro: exI[of _ t])
    next
      case False
      then have "owner_inv s r' q" using inv(6)[of r' q] that t by (simp add: register_next_def live_def)
      then show ?thesis by (rule owner_inv_thread[OF _ t]) (use t in \<open>auto simp: register_next_def\<close>)
    qed
  qed (use inv t fresh in \<open>auto simp: register_next_def\<close>)
qed (use assms in \<open>auto simp: register_next_def split: option.splits activation.splits list.splits\<close>)

lemma list_failed_inv:
  assumes "activation_inv s"
  shows "activation_inv (list_failed t s)"
proof (cases "\<exists>p r rest. ac_threads s t = Some (Registered p r rest)")
  case True
  then obtain p r rest where t: "ac_threads s t = Some (Registered p r rest)" by blast
  note inv = activation_invD[OF assms]
  let ?s = "list_failed t s"
  show ?thesis
  proof (rule activation_invI)
    show "claims_inv ?s"
      by (rule claims_inv_shrink[OF inv(1) t, of _ None "{p}"]) (use t in \<open>auto simp: list_failed_def set_activating_def\<close>)
    show "\<exists>g. ac_objects ?s q = Some g \<and> (pr_cancelled g \<or> pr_subscription g \<noteq> None)" if "q \<in> ac_unsubscribed ?s" for q
      using inv(5)[of q] that t by (auto simp: list_failed_def set_activating_def)
    show "owner_inv ?s r' q" if "ac_owner ?s r' = Some q" "live ?s r'" for r' q
    proof -
      have "r' \<noteq> r" "owner_inv s r' q" using inv(2) inv(6)[of r' q] that t
        by (auto simp: list_failed_def live_def set_activating_def)
      moreover have "ac_threads ?s = (ac_threads s)(t := None)" "ac_unsubscribing ?s = ac_unsubscribing s"
        "ac_unsubscribed ?s = ac_unsubscribed s" "map_option pr_subscription (ac_objects ?s q) = map_option pr_subscription (ac_objects s q)"
        using t by (simp_all add: list_failed_def set_activating_def option.map_comp comp_def)
      ultimately show ?thesis using owner_inv_thread[OF _ t, of r' q ?s None] by simp
    qed
  qed (use inv t in \<open>auto simp: list_failed_def set_activating_def\<close>)
qed (use assms in \<open>auto simp: list_failed_def split: option.splits activation.splits\<close>)

lemma list_succeeded_inv:
  assumes "activation_inv s"
  shows "activation_inv (list_succeeded t snapshots s)"
proof (cases "\<exists>p r rest. ac_threads s t = Some (Registered p r rest)")
  case True
  then obtain p r rest where t: "ac_threads s t = Some (Registered p r rest)" by blast
  note inv = activation_invD[OF assms]
  let ?s = "list_succeeded t snapshots s"
  show ?thesis
  proof (rule activation_invI)
    show "claims_inv ?s"
      by (rule claims_inv_shrink[OF inv(1) t, of _ "Some (Activated p r rest)" "{}"])
        (use claims_distinct[OF inv(1) t] t in \<open>auto simp: list_succeeded_def\<close>)
    show "owner_inv ?s r' q" if "ac_owner ?s r' = Some q" "live ?s r'" for r' q
      by (rule owner_inv_quiet[OF inv(6)[of r' q]]) (use that t in \<open>auto simp: list_succeeded_def live_def\<close>)
  qed (use inv t in \<open>auto simp: list_succeeded_def\<close>)
qed (use assms in \<open>auto simp: list_succeeded_def split: option.splits activation.splits\<close>)

lemma start_failed_inv:
  assumes "activation_inv s"
  shows "activation_inv (start_failed t s)"
proof (cases "\<exists>p r rest. ac_threads s t = Some (Activated p r rest)")
  case True
  then obtain p r rest where t: "ac_threads s t = Some (Activated p r rest)" by blast
  note inv = activation_invD[OF assms]
  let ?s = "start_failed t s"
  show ?thesis
  proof (rule activation_invI)
    show "claims_inv ?s"
      by (rule claims_inv_shrink[OF inv(1) t, of _ None "{p}"]) (use t in \<open>auto simp: start_failed_def set_activating_def\<close>)
    show "\<exists>g. ac_objects ?s q = Some g \<and> (pr_cancelled g \<or> pr_subscription g \<noteq> None)" if "q \<in> ac_unsubscribed ?s" for q
      using inv(5)[of q] that t by (auto simp: start_failed_def set_activating_def)
    show "owner_inv ?s r' q" if "ac_owner ?s r' = Some q" "live ?s r'" for r' q
    proof -
      have "r' \<noteq> r" "owner_inv s r' q" using inv(6)[of r' q] that t by (auto simp: start_failed_def live_def set_activating_def)
      moreover have "ac_threads ?s = (ac_threads s)(t := None)" "ac_unsubscribing ?s = ac_unsubscribing s"
        "ac_unsubscribed ?s = ac_unsubscribed s" "map_option pr_subscription (ac_objects ?s q) = map_option pr_subscription (ac_objects s q)"
        using t by (simp_all add: start_failed_def set_activating_def option.map_comp comp_def)
      ultimately show ?thesis using owner_inv_thread[OF _ t, of r' q ?s None] by simp
    qed
  qed (use inv t in \<open>auto simp: start_failed_def set_activating_def\<close>)
qed (use assms in \<open>auto simp: start_failed_def split: option.splits activation.splits\<close>)

lemma start_succeeded_inv:
  assumes "activation_inv s"
  shows "activation_inv (start_succeeded t s)"
proof (cases "\<exists>p r rest. ac_threads s t = Some (Activated p r rest)")
  case True
  then obtain p r rest where t: "ac_threads s t = Some (Activated p r rest)" by blast
  note inv = activation_invD[OF assms]
  let ?s = "start_succeeded t s"
  obtain g where g: "ac_objects s p = Some g" "pr_subscription g = None" by (rule claims_invD[OF inv(1) t, of p]) auto
  let ?a = "if pr_cancelled g then TearingDown r rest else Scanning [] rest"
  have s': "ac_threads ?s = (ac_threads s)(t := Some ?a)" "ac_unsubscribing ?s = ac_unsubscribing s" "ac_unsubscribed ?s = ac_unsubscribed s"
      "ac_objects ?s = (ac_objects s)(p \<mapsto> g\<lparr>pr_activating := False, pr_subscription := Some r\<rparr>)"
      "ac_observers ?s = ac_observers s" "ac_owner ?s = ac_owner s" "ac_leaked ?s = ac_leaked s"
    using t g by (simp_all add: start_succeeded_def)
  show ?thesis
  proof (rule activation_invI)
    show "claims_inv ?s"
      by (rule claims_inv_shrink[OF inv(1) t s'(1), of "{p}"]) (use claims_distinct[OF inv(1) t] s'(4) in \<open>auto split: if_splits\<close>)
    show "\<exists>g. ac_objects ?s q = Some g \<and> (pr_cancelled g \<or> pr_subscription g \<noteq> None)" if "q \<in> ac_unsubscribed ?s" for q
      using inv(5)[of q] that by (auto simp: s')
    show "owner_inv ?s r' q" if own: "ac_owner ?s r' = Some q" "live ?s r'" for r' q
    proof (cases "q = p \<and> r' = r")
      case True
      have "being_removed ?s r" if "p \<in> ac_unsubscribed ?s"
      proof -
        have "pr_cancelled g" using inv(5)[of p] that g by (simp add: s')
        then show ?thesis by (auto simp: being_removed_def s' intro!: exI[of _ t])
      qed
      then show ?thesis using True by (simp add: owner_inv_def s')
    next
      case False
      have "owner_inv s r' q" using inv(6)[of r' q] own by (simp add: live_def s')
      then show ?thesis by (rule owner_inv_thread[OF _ t s'(1-3)]) (use False g in \<open>auto simp: s'(4)\<close>)
    qed
  qed (use inv in \<open>auto simp: s'\<close>)
qed (use assms in \<open>auto simp: start_succeeded_def split: option.splits activation.splits\<close>)

lemma tear_down_inv:
  assumes "activation_inv s"
  shows "activation_inv (tear_down t s)"
proof (cases "\<exists>r rest. ac_threads s t = Some (TearingDown r rest)")
  case True
  then obtain r rest where t: "ac_threads s t = Some (TearingDown r rest)" by blast
  note inv = activation_invD[OF assms]
  let ?s = "tear_down t s"
  have s': "ac_threads ?s = (ac_threads s)(t := Some (Scanning [] rest))" "ac_unsubscribing ?s = ac_unsubscribing s"
      "ac_unsubscribed ?s = ac_unsubscribed s" "ac_objects ?s = ac_objects s"
      "ac_observers ?s = observers_unregister r (ac_observers s)" "ac_owner ?s = ac_owner s" "ac_leaked ?s = ac_leaked s"
    using t by (simp_all add: tear_down_def)
  show ?thesis
  proof (rule activation_invI)
    show "claims_inv ?s"
      by (rule claims_inv_shrink[OF inv(1) t s'(1), of "{}"]) (use claims_distinct[OF inv(1) t] s'(4) in auto)
    show "owner_inv ?s r' q" if "ac_owner ?s r' = Some q" "live ?s r'" for r' q
    proof -
      have "r' \<noteq> r" "owner_inv s r' q" using inv(2) inv(6)[of r' q] that by (auto simp: live_def s')
      then show ?thesis by (intro owner_inv_thread[OF _ t s'(1-3)]) (auto simp: s'(4))
    qed
  qed (use inv in \<open>auto simp: s'\<close>)
qed (use assms in \<open>auto simp: tear_down_def split: option.splits activation.splits\<close>)

lemma end_inv:
  assumes "activation_inv s"
  shows "activation_inv (activate_end t s)"
proof (cases "ac_threads s t = Some (Scanning [] [])")
  case True
  note inv = activation_invD[OF assms]
  have s': "activate_end t s = s\<lparr>ac_threads := (ac_threads s)(t := None)\<rparr>" using True by (simp add: activate_end_def)
  show ?thesis unfolding s'
  proof (rule activation_invI)
    show "claims_inv (s\<lparr>ac_threads := (ac_threads s)(t := None)\<rparr>)"
      by (rule claims_inv_shrink[OF inv(1) True, of _ None "{}"]) auto
    show "owner_inv (s\<lparr>ac_threads := (ac_threads s)(t := None)\<rparr>) r q"
      if "ac_owner (s\<lparr>ac_threads := (ac_threads s)(t := None)\<rparr>) r = Some q" "live (s\<lparr>ac_threads := (ac_threads s)(t := None)\<rparr>) r" for r q
      by (rule owner_inv_quiet[OF inv(6)[of r q]]) (use that True in \<open>auto simp: live_def\<close>)
  qed (use inv in simp_all)
qed (use assms in \<open>auto simp: activate_end_def split: option.splits activation.splits list.splits\<close>)

lemma traffic_inv:
  assumes "activation_inv s" "ob_registrations obs = ob_registrations (ac_observers s)" "dom (ob_objects obs) = dom (ob_objects (ac_observers s))"
  shows "activation_inv (s\<lparr>ac_observers := obs\<rparr>)"
  using assms by (simp add: activation_inv_def claims_inv_def owner_defs)

lemma activation_init_inv: "activation_inv activation_init"
  by (simp add: activation_inv_def claims_inv_def activation_init_def observers_init_def)

lemma activation_reaches_inv: "activation_reaches s0 s \<Longrightarrow> activation_inv s0 \<Longrightarrow> activation_inv s"
proof (induction rule: activation_reaches.induct)
  case (a_observers s obs e)
  show ?case by (rule traffic_inv[OF a_observers.IH[OF a_observers.prems]]) (rule traffic_fields[OF a_observers.hyps(2)])+
qed (simp_all add: record_inv unsubscribe_inv finish_unsubscribe_inv begin_inv claim_inv register_next_inv list_failed_inv
    list_succeeded_inv start_failed_inv start_succeeded_inv tear_down_inv end_inv)

lemmas activation_reachable_inv = activation_reaches_inv[OF _ activation_init_inv]

section \<open>Registrations nobody activates any more\<close>

definition stranded :: "activation_state \<Rightarrow> nat \<Rightarrow> bool" where
  "stranded s q \<longleftrightarrow>
     (\<exists>g. ac_objects s q = Some g \<and> pr_activating g \<and> pr_subscription g = None) \<and>
     (\<forall>t a. ac_threads s t = Some a \<longrightarrow> q \<notin> set (claims a))"

lemma stranded_thread:
  assumes "stranded s q" "ac_threads s' = (ac_threads s)(t := x)" "\<And>a. x = Some a \<Longrightarrow> q \<notin> set (claims a)"
    "ac_objects s' q = ac_objects s q"
  shows "stranded s' q"
  using assms by (auto simp: stranded_def)

lemma strandedD: "stranded s q \<Longrightarrow> ac_threads s t = Some a \<Longrightarrow> q \<notin> set (claims a)"
  by (simp add: stranded_def)

lemma stranded_claim: "stranded s q \<Longrightarrow> stranded (claim_pending t s) q"
proof (cases "\<exists>p ps claimed. ac_threads s t = Some (Scanning (p # ps) claimed)")
  case True
  assume st: "stranded s q"
  then obtain p ps claimed where t: "ac_threads s t = Some (Scanning (p # ps) claimed)" using True by blast
  then have q: "q \<notin> set claimed" using strandedD[OF st] by fastforce
  show ?thesis
  proof (cases "claimable s p")
    case claim: True
    then have "p \<noteq> q" using st by (auto simp: stranded_def claimable_def)
    then show ?thesis using t claim q
      by (intro stranded_thread[OF st, of _ t "Some (Scanning ps (claimed @ [p]))"]) (auto simp: claim_pending_def set_activating_def)
  next
    case False
    then show ?thesis using t q
      by (intro stranded_thread[OF st, of _ t "Some (Scanning ps claimed)"]) (auto simp: claim_pending_def)
  qed
qed (auto simp: claim_pending_def split: option.splits activation.splits list.splits)

lemma stranded_steps:
  assumes "stranded s q"
  shows "ac_objects s p = None \<Longrightarrow> stranded (register_deferred p i s) q" "stranded (decorator_unsubscribe p s) q"
    "stranded (subscription_unsubscribe r s) q" "stranded (activate_begin t s) q" "stranded (s\<lparr>ac_observers := obs\<rparr>) q"
  using assms by (auto simp: stranded_def register_deferred_def decorator_unsubscribe_def subscription_unsubscribe_def activate_begin_def
      split: option.splits if_splits)

lemma stranded_thread_steps:
  assumes st: "stranded s q"
  shows "stranded (register_next t r s) q" "stranded (list_failed t s) q" "stranded (list_succeeded t snapshots s) q"
    "stranded (start_failed t s) q" "stranded (start_succeeded t s) q" "stranded (tear_down t s) q" "stranded (activate_end t s) q"
proof -
  have nq: "\<And>ps c. ac_threads s t = Some (Scanning ps c) \<Longrightarrow> q \<notin> set c"
    "\<And>p r rest. ac_threads s t = Some (Registered p r rest) \<Longrightarrow> q \<noteq> p \<and> q \<notin> set rest"
    "\<And>p r rest. ac_threads s t = Some (Activated p r rest) \<Longrightarrow> q \<noteq> p \<and> q \<notin> set rest"
    "\<And>r rest. ac_threads s t = Some (TearingDown r rest) \<Longrightarrow> q \<notin> set rest"
    using strandedD[OF st, of t] by force+
  from st show "stranded (register_next t r s) q" "stranded (list_failed t s) q" "stranded (list_succeeded t snapshots s) q"
    "stranded (start_failed t s) q" "stranded (start_succeeded t s) q" "stranded (tear_down t s) q" "stranded (activate_end t s) q"
  by (auto simp: register_next_def list_failed_def list_succeeded_def start_failed_def start_succeeded_def tear_down_def activate_end_def
      set_activating_def stranded_def split: option.splits activation.splits list.splits if_splits dest: nq)
qed

lemma stranded_forever: "activation_reaches s0 s \<Longrightarrow> stranded s0 q \<Longrightarrow> stranded s q"
  by (induction rule: activation_reaches.induct) (simp_all add: stranded_claim stranded_steps stranded_thread_steps)

lemma stranded_never_live:
  assumes "activation_inv s" "stranded s q" "ac_owner s r = Some q"
  shows "\<not> live s r"
proof
  assume "live s r"
  then have "owner_inv s r q" using activation_invD(6)[OF assms(1,3)] by blast
  then have "in_flight s q r" using assms(2) by (auto simp: owner_inv_def stranded_def)
  then obtain t a where a: "ac_threads s t = Some a" "flight a = Some (q, r)"
    by (auto simp: in_flight_def bind_eq_Some_conv)
  then have "q \<in> set (claims a)" by (cases a) auto
  then show False using strandedD[OF assms(2) a(1)] by blast
qed

section \<open>The guarantees of decorated observers\<close>

text \<open>
  C27. A decorated observer is registered at most once, however many threads activate its alias
  at the same time; and unsubscribing is final: whenever it happened, before, during or after
  the activation, once the threads are done no registration of it is left. Left out are
  registrations whose activation failed only after they had been activated.
\<close>

theorem decorated_observer_unsubscribes:
  assumes "activation_reachable s"
  shows "(\<forall>p r r'. ac_owner s r = Some p \<longrightarrow> ac_owner s r' = Some p \<longrightarrow> live s r \<longrightarrow> live s r' \<longrightarrow> r = r') \<and>
    (ac_threads s = Map.empty \<longrightarrow> ac_unsubscribing s = {} \<longrightarrow>
      (\<forall>p \<in> ac_unsubscribed s. \<forall>r. ac_owner s r = Some p \<longrightarrow> \<not> live s r))"
proof (intro conjI allI impI ballI)
  note inv = activation_invD[OF activation_reachable_inv[OF assms]]
  fix p r r' assume "ac_owner s r = Some p" "ac_owner s r' = Some p" "live s r" "live s r'"
  then have o: "owner_inv s r p" "owner_inv s r' p" using inv(6) by auto
  have claimed: "\<exists>t a. ac_threads s t = Some a \<and> p \<in> set (claims a) \<and> flight a = Some (p, r)" if fl: "in_flight s p r" for r
  proof -
    obtain t a where a: "ac_threads s t = Some a" "flight a = Some (p, r)" using fl by (auto simp: in_flight_def bind_eq_Some_conv)
    then have "p \<in> set (claims a)" by (cases a) auto
    with a show ?thesis by blast
  qed
  then have "pr_subscription g = None" if fl: "in_flight s p r" "ac_objects s p = Some g" for r g
  proof -
    obtain t a where a: "ac_threads s t = Some a" "p \<in> set (claims a)" using claimed[OF fl(1)] by blast
    show ?thesis by (rule claims_invD[OF inv(1) a]) (use fl(2) in simp)
  qed
  moreover have "in_flight s p r \<Longrightarrow> in_flight s p r' \<Longrightarrow> r = r'"
  proof -
    assume "in_flight s p r" "in_flight s p r'"
    then obtain t a t' a' where "ac_threads s t = Some a" "ac_threads s t' = Some a'" "p \<in> set (claims a)" "p \<in> set (claims a')"
        "flight a = Some (p, r)" "flight a' = Some (p, r')" using claimed by blast
    moreover from this have "t = t'" using inv(1) unfolding claims_inv_def by blast
    ultimately show ?thesis by simp
  qed
  ultimately show "r = r'" using o by (fastforce simp: owner_inv_def)
next
  note inv = activation_invD[OF activation_reachable_inv[OF assms]]
  fix p r assume "ac_threads s = Map.empty" "ac_unsubscribing s = {}" "p \<in> ac_unsubscribed s" "ac_owner s r = Some p"
  then show "\<not> live s r" using inv(6)[of r p] by (auto simp: owner_defs)
qed

lemmas activation_eval = register_deferred_def decorator_unsubscribe_def activate_begin_def claim_pending_def claimable_def
  set_activating_def register_next_def list_failed_def list_succeeded_def start_succeeded_def tear_down_def activate_end_def
  activation_init_def observers_init_def observers_register_def observers_unregister_def

text \<open>One thread activates an observer that is unsubscribed while the queue is being listed.\<close>

definition sample_unsubscribed :: activation_state where
  "sample_unsubscribed = activate_end 0 (tear_down 0 (start_succeeded 0 (list_succeeded 0 [] (decorator_unsubscribe 1
     (register_next 0 5 (claim_pending 0 (activate_begin 0 (register_deferred 1 None activation_init))))))))"

theorem decorated_observer_unsubscribes_witness:
  "activation_reachable sample_unsubscribed \<and> 1 \<in> ac_unsubscribed sample_unsubscribed \<and>
   ac_owner sample_unsubscribed 5 = Some 1 \<and> \<not> live sample_unsubscribed 5"
proof -
  have reach: "activation_reachable sample_unsubscribed"
    unfolding sample_unsubscribed_def
    by (intro activation_reaches.intros) (simp_all add: activation_eval)
  have "ac_threads sample_unsubscribed = Map.empty" "ac_unsubscribing sample_unsubscribed = {}"
      "ac_unsubscribed sample_unsubscribed = {1}" "ac_owner sample_unsubscribed 5 = Some 1"
    by (simp_all add: sample_unsubscribed_def activation_eval)
  with reach decorated_observer_unsubscribes[OF reach] show ?thesis by simp
qed

text \<open>
  When listing the queue's entries fails while a thread activates several decorated
  observers, the ones it had claimed and not yet come to are stranded: they stay marked as being
  activated, and whatever happens afterwards they are never registered.
\<close>

theorem failed_activation_strands_the_rest:
  assumes "activation_reachable s" "ac_threads s t = Some (Registered p r rest)" "q \<in> set rest"
    "activation_reaches (list_failed t s) s'"
  shows "stranded s' q \<and> \<not> claimable s' q \<and> (\<forall>r. ac_owner s' r = Some q \<longrightarrow> \<not> live s' r)"
proof -
  note inv = activation_reachable_inv[OF assms(1)]
  note claims = activation_invD(1)[OF inv]
  have pq: "p \<noteq> q" using claims_distinct[OF claims assms(2)] assms(3) by auto
  have "q \<in> set (claims (Registered p r rest))" using assms(3) by simp
  then obtain g where "ac_objects s q = Some g" "pr_activating g" "pr_subscription g = None"
    by (rule claims_invD[OF claims assms(2)])
  moreover have "q \<notin> set (claims a)" if "ac_threads s u = Some a" "u \<noteq> t" for u a
    using claims assms(2,3) that unfolding claims_inv_def by (metis claims.simps(2) list.set_intros(2))
  ultimately have "stranded (list_failed t s) q"
    using assms(2) pq by (auto simp: stranded_def list_failed_def set_activating_def)
  then have st: "stranded s' q" by (rule stranded_forever[OF assms(4)])
  have "activation_inv s'" using activation_reaches_inv[OF assms(4)] list_failed_inv[OF inv] by blast
  from stranded_never_live[OF this st] st show ?thesis by (auto simp: stranded_def claimable_def)
qed

definition sample_claiming :: activation_state where
  "sample_claiming = register_next 0 5 (claim_pending 0 (claim_pending 0 (activate_begin 0
     (register_deferred 2 None (register_deferred 1 None activation_init)))))"

theorem failed_activation_strands_the_rest_witness:
  "activation_reachable sample_claiming \<and> ac_threads sample_claiming 0 = Some (Registered 1 5 [2]) \<and>
   stranded (activate_begin 3 (list_failed 0 sample_claiming)) 2"
proof -
  have reach: "activation_reachable sample_claiming"
    unfolding sample_claiming_def by (intro activation_reaches.intros) (simp_all add: activation_eval)
  have t: "ac_threads sample_claiming 0 = Some (Registered 1 5 [2])" "ac_threads sample_claiming 3 = None"
    by (simp_all add: sample_claiming_def activation_eval)
  have "activation_reaches (list_failed 0 sample_claiming) (activate_begin 3 (list_failed 0 sample_claiming))"
    using t by (intro activation_reaches.intros) (simp add: list_failed_def set_activating_def)
  from failed_activation_strands_the_rest[OF reach t(1) _ this, of 2] reach t show ?thesis by simp
qed

end
