(* ===== verification/Queue_Runtime.thy ===== *)
theory Queue_Runtime
  imports Queue_Registry Observer_Activation
begin

text \<open>
  \<^verbatim>\<open>django_queue/queue_runtime.py\<close>: the process-wide runtime, one background event loop with at
  most one task per alias. Every block under the runtime's lock and every callback of the loop is
  one step. Tasks are numbered in the order of their creation; what a task does is its worker's
  business, here it only ends at some time, by itself or because it was cancelled, and its
  done-callback is then scheduled. The loop runs its callbacks in the order they were scheduled.
\<close>

section \<open>State\<close>

datatype task_kind = WorkerTask | NotificationTask | ReceiverTask

datatype loop_call =
    StartTask task_kind string nat
  | TaskDone string nat
  | StopLoop

record queue_runtime =
  qr_closed :: bool
  qr_thread :: bool
  qr_loop :: bool
  qr_ready :: bool
  qr_tasks :: "string \<rightharpoonup> nat"
  qr_queues :: "string \<rightharpoonup> nat"
  qr_calls :: "loop_call list"
  qr_stopped :: bool
  qr_live :: "nat \<rightharpoonup> string"
  qr_created :: nat

definition runtime_init :: queue_runtime where
  "runtime_init = \<lparr>qr_closed = False, qr_thread = False, qr_loop = False, qr_ready = False, qr_tasks = Map.empty, qr_queues = Map.empty,
     qr_calls = [], qr_stopped = False, qr_live = Map.empty, qr_created = 0\<rparr>"

section \<open>The thread\<close>

definition start_thread :: "queue_runtime \<Rightarrow> queue_runtime" where
  "start_thread s =
     (if qr_closed s then s
      else if \<not> qr_thread s then s\<lparr>qr_ready := False, qr_thread := True\<rparr>
      else s)"

definition run_loop_begin :: "queue_runtime \<Rightarrow> queue_runtime" where
  "run_loop_begin s = s\<lparr>qr_loop := True, qr_ready := True\<rparr>"

text \<open>The end of the loop, when every task it cancelled has ended.\<close>

definition run_loop_end :: "queue_runtime \<Rightarrow> queue_runtime" where
  "run_loop_end s = s\<lparr>qr_tasks := Map.empty, qr_queues := Map.empty, qr_loop := False, qr_thread := False, qr_calls := []\<rparr>"

definition runtime_shutdown :: "queue_runtime \<Rightarrow> queue_runtime" where
  "runtime_shutdown s = s\<lparr>qr_closed := True, qr_calls := qr_calls s @ (if qr_loop s then [StopLoop] else [])\<rparr>"

section \<open>Scheduling\<close>

text \<open>
  The kind of task an alias gets; a persistent queue only if somebody observes it, which
  activates the pending observers first.
\<close>

definition classify :: "queue_kind \<Rightarrow> bool \<Rightarrow> task_kind option" where
  "classify kind watched =
     (case kind of
        EventKind \<Rightarrow> Some WorkerTask
      | NotificationKind \<Rightarrow> Some NotificationTask
      | AsyncKind \<Rightarrow> if watched then Some ReceiverTask else None
      | OtherKind \<Rightarrow> None)"

definition calls_of :: "task_kind \<Rightarrow> (string \<times> queue_kind \<times> bool \<times> nat) list \<Rightarrow> loop_call list" where
  "calls_of k queues =
     map (\<lambda>(a, _, _, q). StartTask k a q) (filter (\<lambda>(_, kind, watched, _). classify kind watched = Some k) queues)"

definition start_classified :: "(string \<times> queue_kind \<times> bool \<times> nat) list \<Rightarrow> queue_runtime \<Rightarrow> queue_runtime" where
  "start_classified queues s =
     (let calls = calls_of WorkerTask queues @ calls_of NotificationTask queues @ calls_of ReceiverTask queues in
      if calls = [] then s
      else if qr_closed s \<or> \<not> qr_loop s then s
      else s\<lparr>qr_calls := qr_calls s @ calls\<rparr>)"

definition runtime_start :: "(string \<times> queue_kind \<times> bool \<times> nat) list \<Rightarrow> queue_runtime \<Rightarrow> queue_runtime" where
  "runtime_start queues s = (if qr_closed s then s else start_classified queues s)"

definition start_one :: "string \<Rightarrow> queue_kind \<Rightarrow> bool \<Rightarrow> nat \<Rightarrow> queue_runtime \<Rightarrow> queue_runtime" where
  "start_one a kind watched q s = (if qr_closed s then s else start_classified [(a, kind, watched, q)] s)"

section \<open>Callbacks of the loop\<close>

text \<open>A queue without a receiver of its own gets no observer task.\<close>

definition start_task :: "task_kind \<Rightarrow> string \<Rightarrow> nat \<Rightarrow> bool \<Rightarrow> queue_runtime \<Rightarrow> queue_runtime" where
  "start_task k a q has_receiver s =
     (if qr_closed s \<or> qr_tasks s a \<noteq> None then s
      else if k = ReceiverTask \<and> \<not> has_receiver then s
      else s\<lparr>qr_queues := (qr_queues s)(a \<mapsto> q), qr_tasks := (qr_tasks s)(a \<mapsto> qr_created s),
             qr_live := (qr_live s)(qr_created s \<mapsto> a), qr_created := qr_created s + 1\<rparr>)"

definition task_done :: "string \<Rightarrow> queue_runtime \<Rightarrow> queue_runtime" where
  "task_done a s = s\<lparr>qr_tasks := (qr_tasks s)(a := None)\<rparr>"

definition run_call :: "bool \<Rightarrow> queue_runtime \<Rightarrow> queue_runtime" where
  "run_call has_receiver s =
     (case qr_calls s of
        [] \<Rightarrow> s
      | c # rest \<Rightarrow>
          let s' = s\<lparr>qr_calls := rest\<rparr> in
          case c of
            StartTask k a q \<Rightarrow> start_task k a q has_receiver s'
          | TaskDone a t \<Rightarrow> task_done a s'
          | StopLoop \<Rightarrow> s'\<lparr>qr_stopped := True\<rparr>)"

text \<open>A task ends: by itself, cancelled by \<^verbatim>\<open>stop_one\<close>, or cancelled at the end of the loop.\<close>

definition task_ends :: "nat \<Rightarrow> queue_runtime \<Rightarrow> queue_runtime" where
  "task_ends t s =
     (case qr_live s t of
        None \<Rightarrow> s
      | Some a \<Rightarrow> s\<lparr>qr_live := (qr_live s)(t := None), qr_calls := qr_calls s @ [TaskDone a t]\<rparr>)"

text \<open>The task that \<^verbatim>\<open>stop_one\<close> cancels and waits for.\<close>

definition stop_one :: "string \<Rightarrow> queue_runtime \<Rightarrow> nat option" where
  "stop_one a s = (if qr_loop s then qr_tasks s a else None)"

inductive runtime_reachable :: "queue_runtime \<Rightarrow> bool" where
  r_init: "runtime_reachable runtime_init"
| r_thread: "runtime_reachable s \<Longrightarrow> runtime_reachable (start_thread s)"
| r_begin: "runtime_reachable s \<Longrightarrow> qr_thread s \<Longrightarrow> \<not> qr_loop s \<Longrightarrow> runtime_reachable (run_loop_begin s)"
| r_schedule: "runtime_reachable s \<Longrightarrow> runtime_reachable (start_classified queues s)"
| r_call: "runtime_reachable s \<Longrightarrow> qr_loop s \<Longrightarrow> runtime_reachable (run_call b s)"
| r_ends: "runtime_reachable s \<Longrightarrow> runtime_reachable (task_ends t s)"
| r_shutdown: "runtime_reachable s \<Longrightarrow> runtime_reachable (runtime_shutdown s)"
| r_end: "runtime_reachable s \<Longrightarrow> qr_stopped s \<Longrightarrow> qr_live s = Map.empty \<Longrightarrow> runtime_reachable (run_loop_end s)"

section \<open>Supervision\<close>

text \<open>
  A worker or notification receiver that stops, whether it raised or returned, is started again
  after a pause that doubles up to half a minute; only a cancellation ends the supervision. The
  result holds the pauses and tells whether the supervision was cancelled.
\<close>

datatype worker_end = RunCancelled | RunRaised | RunReturned

fun run_worker :: "rat \<Rightarrow> worker_end list \<Rightarrow> rat list \<times> bool" where
  "run_worker delay [] = ([], False)"
| "run_worker delay (RunCancelled # ends) = ([], True)"
| "run_worker delay (e # ends) = (case run_worker (min (fl (delay * 2)) 30) ends of (delays, cancelled) \<Rightarrow> (delay # delays, cancelled))"

abbreviation restart_initial_delay :: rat where
  "restart_initial_delay \<equiv> 1"

section \<open>The invariant\<close>

definition ended :: "queue_runtime \<Rightarrow> (string \<times> nat) list" where
  "ended s = concat (map (\<lambda>c. case c of TaskDone a t \<Rightarrow> [(a, t)] | _ \<Rightarrow> []) (qr_calls s))"

definition runtime_inv :: "queue_runtime \<Rightarrow> bool" where
  "runtime_inv s \<longleftrightarrow>
     distinct (ended s) \<and>
     (\<forall>a t. (a, t) \<in> set (ended s) \<longrightarrow> qr_tasks s a = Some t \<and> qr_live s t = None) \<and>
     (\<forall>t a. qr_live s t = Some a \<longrightarrow> qr_tasks s a = Some t \<and> t < qr_created s) \<and>
     (\<forall>a t. qr_tasks s a = Some t \<longrightarrow> t < qr_created s) \<and>
     (qr_stopped s \<or> StopLoop \<in> set (qr_calls s) \<longrightarrow> qr_closed s) \<and>
     (\<not> qr_thread s \<longrightarrow> \<not> qr_loop s \<and> qr_live s = Map.empty \<and> qr_tasks s = Map.empty \<and> qr_calls s = []) \<and>
     (\<not> qr_loop s \<longrightarrow> qr_live s = Map.empty \<and> qr_tasks s = Map.empty \<and> qr_calls s = [])"

lemma ended_no_starts: "concat (map (\<lambda>c. case c of TaskDone a t \<Rightarrow> [(a, t)] | _ \<Rightarrow> []) (calls_of k queues)) = []"
  by (auto simp: calls_of_def)

lemma no_stop_starts: "StopLoop \<notin> set (calls_of k queues)"
  by (auto simp: calls_of_def)

lemma schedule_inv:
  assumes "runtime_inv s"
  shows "runtime_inv (start_classified queues s)"
proof -
  have "ended (start_classified queues s) = ended s"
    by (simp add: start_classified_def Let_def ended_def ended_no_starts)
  with assms show ?thesis unfolding runtime_inv_def by (auto simp: start_classified_def Let_def no_stop_starts)
qed

lemma shutdown_inv:
  assumes "runtime_inv s"
  shows "runtime_inv (runtime_shutdown s)"
proof -
  have "ended (runtime_shutdown s) = ended s" by (simp add: runtime_shutdown_def ended_def)
  with assms show ?thesis unfolding runtime_inv_def by (auto simp: runtime_shutdown_def)
qed

lemma ends_inv:
  assumes "runtime_inv s"
  shows "runtime_inv (task_ends t s)"
proof (cases "qr_live s t")
  case (Some a)
  have "ended (task_ends t s) = ended s @ [(a, t)]" using Some by (simp add: task_ends_def ended_def)
  then show ?thesis using assms Some unfolding runtime_inv_def by (auto simp: task_ends_def)
qed (use assms in \<open>simp add: task_ends_def\<close>)

lemma call_inv:
  assumes "runtime_inv s" "qr_loop s"
  shows "runtime_inv (run_call b s)"
proof (cases "qr_calls s")
  case (Cons c rest)
  then show ?thesis
  proof (cases c)
    case (StartTask k a q)
    have e: "ended (run_call b s) = ended s"
      using Cons StartTask by (simp add: run_call_def start_task_def ended_def Let_def)
    have "(a', qr_created s) \<notin> set (ended s)" for a'
      using assms(1) unfolding runtime_inv_def by (metis less_irrefl)
    with assms Cons StartTask e show ?thesis unfolding runtime_inv_def
      by (auto simp: run_call_def start_task_def Let_def intro: less_SucI)
  next
    case (TaskDone a t)
    have e: "ended s = (a, t) # ended (run_call b s)"
      using Cons TaskDone by (simp add: run_call_def task_done_def ended_def)
    have mine: "qr_tasks s a = Some t" "qr_live s t = None" "distinct (ended s)"
      and known: "\<And>a' t'. (a', t') \<in> set (ended s) \<Longrightarrow> qr_tasks s a' = Some t' \<and> qr_live s t' = None"
      and alive: "\<And>a' t'. qr_live s t' = Some a' \<Longrightarrow> qr_tasks s a' = Some t'"
      using assms(1) e by (auto simp: runtime_inv_def)
    have "(a, t') \<notin> set (ended (run_call b s))" for t'
      using mine known[of a t'] e by auto
    moreover have "qr_live s t' \<noteq> Some a" for t' using alive[of t' a] mine by auto
    moreover have "ended (run_call b s) = ended (task_done a (s\<lparr>qr_calls := rest\<rparr>))" using Cons TaskDone by (simp add: run_call_def)
    ultimately show ?thesis using assms Cons TaskDone mine(3) known e unfolding runtime_inv_def
      by (auto simp: run_call_def task_done_def)
  next
    case StopLoop
    have e: "ended (run_call b s) = ended s" using Cons StopLoop by (simp add: run_call_def ended_def)
    show ?thesis using assms Cons StopLoop e unfolding runtime_inv_def by (auto simp: run_call_def)
  qed
qed (use assms in \<open>simp add: run_call_def\<close>)

lemma runtime_reachable_inv: "runtime_reachable s \<Longrightarrow> runtime_inv s"
proof (induction rule: runtime_reachable.induct)
  case r_init
  show ?case by (simp add: runtime_inv_def runtime_init_def ended_def)
next
  case (r_thread s)
  then show ?case by (auto simp: runtime_inv_def start_thread_def ended_def)
next
  case (r_begin s)
  then show ?case by (auto simp: runtime_inv_def run_loop_begin_def ended_def)
next
  case (r_end s)
  then show ?case by (auto simp: runtime_inv_def run_loop_end_def ended_def)
qed (simp_all add: schedule_inv call_inv ends_inv shutdown_inv)

section \<open>The guarantees of the runtime\<close>

text \<open>
  C25. However often and from wherever an alias is scheduled, and whenever tasks end, are
  stopped or the runtime is shut down, at most one task of an alias is alive, it is the one the
  runtime knows for it, and once a closed runtime has no thread any more there are no tasks.
\<close>

theorem one_task_per_alias:
  assumes "runtime_reachable s"
  shows "(\<forall>a t t'. qr_live s t = Some a \<longrightarrow> qr_live s t' = Some a \<longrightarrow> t = t') \<and>
    (\<forall>a t. qr_live s t = Some a \<longrightarrow> stop_one a s = Some t) \<and>
    (\<not> qr_thread s \<longrightarrow> qr_live s = Map.empty \<and> qr_tasks s = Map.empty)"
proof -
  have inv: "runtime_inv s" by (rule runtime_reachable_inv[OF assms])
  then have known: "qr_tasks s a = Some t" if "qr_live s t = Some a" for a t
    using that by (simp add: runtime_inv_def)
  have loop: "qr_loop s" if "qr_live s t = Some a" for a t
    using that inv by (auto simp: runtime_inv_def)
  show ?thesis
  proof (intro conjI allI impI)
    show "t = t'" if "qr_live s t = Some a" "qr_live s t' = Some a" for a t t'
      using known[OF that(1)] known[OF that(2)] by simp
    show "stop_one a s = Some t" if "qr_live s t = Some a" for a t
      using known[OF that] loop[OF that] by (simp add: stop_one_def)
  qed (use inv in \<open>simp_all add: runtime_inv_def\<close>)
qed

lemma start_reachable:
  "runtime_reachable s \<Longrightarrow> runtime_reachable (runtime_start queues s)"
  "runtime_reachable s \<Longrightarrow> runtime_reachable (start_one a k b q s)"
  by (simp_all add: runtime_start_def start_one_def r_schedule)

definition sample_runtime :: queue_runtime where
  "sample_runtime = run_call True (run_call True (start_one ''alerts'' EventKind False 3 (start_one ''alerts'' EventKind False 2
     (run_loop_begin (start_thread runtime_init)))))"

lemma sample_runtime_live: "qr_live sample_runtime = [0 \<mapsto> ''alerts'']" "qr_tasks sample_runtime = [''alerts'' \<mapsto> 0]"
    "qr_queues sample_runtime = [''alerts'' \<mapsto> 2]"
  by (simp_all add: sample_runtime_def runtime_init_def start_thread_def run_loop_begin_def start_one_def start_classified_def
      calls_of_def classify_def run_call_def start_task_def Let_def)

theorem one_task_per_alias_witness:
  "runtime_reachable sample_runtime \<and> qr_live sample_runtime 0 = Some ''alerts'' \<and> stop_one ''alerts'' sample_runtime = Some 0"
proof -
  have reach: "runtime_reachable sample_runtime"
    unfolding sample_runtime_def
    by (intro r_call start_reachable r_begin r_thread r_init)
      (simp_all add: start_thread_def run_loop_begin_def runtime_init_def start_one_def start_classified_def calls_of_def classify_def
        run_call_def start_task_def Let_def)
  have live: "qr_live sample_runtime 0 = Some ''alerts''" by (simp add: sample_runtime_live)
  then have "stop_one ''alerts'' sample_runtime = Some 0" using one_task_per_alias[OF reach] by blast
  with reach live show ?thesis by blast
qed

text \<open>
  A shutdown between the start of the thread and the start of its loop schedules nothing: the
  loop then runs on although the runtime is closed, and the shutdown waits for its thread.
\<close>

lemma early_shutdown_missed:
  "\<exists>s. runtime_reachable s \<and> qr_closed s \<and> qr_thread s \<and> qr_loop s \<and> \<not> qr_stopped s \<and> qr_calls s = []"
proof -
  let ?s = "run_loop_begin (runtime_shutdown (start_thread runtime_init))"
  have "runtime_reachable ?s"
    by (intro runtime_reachable.intros) (simp_all add: runtime_shutdown_def start_thread_def runtime_init_def)
  then show ?thesis
    by (intro exI[of _ ?s]) (simp add: runtime_shutdown_def start_thread_def runtime_init_def run_loop_begin_def)
qed

section \<open>Pauses before a restart\<close>

lemma run_worker_delays:
  assumes "RunCancelled \<notin> set ends"
  shows "run_worker (min (2 ^ n) 30) ends = (map (\<lambda>k. min (2 ^ k) 30) [n..<n + length ends], False)"
  using assms
proof (induction ends arbitrary: n)
  case (Cons e ends)
  have "min (fl (min (2 ^ n) 30 * 2)) 30 = (min (2 ^ Suc n) 30 :: rat)"
  proof (cases "n < 5")
    case True
    then have "n \<in> {0, 1, 2, 3, 4}" by auto
    then show ?thesis
      using fl_of_int[of 2] fl_of_int[of 4] fl_of_int[of 8] fl_of_int[of 16] fl_of_int[of 32] by auto
  next
    case False
    then have "(2::rat) ^ 5 \<le> 2 ^ n" by (intro power_increasing) auto
    then show ?thesis using fl_of_int[of 60] by simp
  qed
  moreover have "[n..<n + length (e # ends)] = n # [Suc n..<Suc n + length ends]" by (simp add: upt_conv_Cons del: upt_Suc)
  ultimately show ?case using Cons.IH[of "Suc n"] Cons.prems by (cases e) (simp_all del: upt_Suc)
qed simp

end
