(* ===== verification/Queue_Startup.thy ===== *)
theory Queue_Startup
  imports Queue_Runtime
begin

text \<open>
  From the settings to a running process: \<^verbatim>\<open>QueueRegistry.create_connection\<close> with the call of the runtime
  at its end, \<^verbatim>\<open>initialise_queues\<close> of \<^verbatim>\<open>__init__.py\<close>, and \<^verbatim>\<open>DjangoQueueConfig.ready\<close> of \<^verbatim>\<open>apps.py\<close>, which
  builds every queue, starts the runtime's thread and schedules the tasks. Looking up an alias is
  Django's connection handler, which keeps what it has created for the thread; it is the parameter
  \<open>getitem\<close>, with its documented behaviour as locale \<open>connection_handler\<close>.
\<close>

section \<open>Lookups\<close>

record startup_env =
  su_import :: "string \<Rightarrow> cfg_value option"
  su_backend :: "string \<Rightarrow> queue_class option"
  su_construct :: "cfg_value \<Rightarrow> (string, cfg_value) pydict \<Rightarrow> unit result"
  su_settings :: "(string, (string, cfg_value) pydict) pydict"
  su_watched :: "string \<Rightarrow> bool"
  su_number :: "string \<Rightarrow> nat"

record startup =
  su_process :: "(string, configured_queue) pydict"
  su_cache :: "(string, configured_queue) pydict"
  su_runtime :: queue_runtime

definition create_and_start :: "startup_env \<Rightarrow> string \<Rightarrow> (string, cfg_value) pydict \<Rightarrow> (configured_queue, startup) prog" where
  "create_and_start E alias options s =
     (case create_connection (su_import E) (su_backend E) (su_construct E) alias options (su_process s) of
        (Inl err, table) \<Rightarrow> (Inl err, s\<lparr>su_process := table\<rparr>)
      | (Inr q, table) \<Rightarrow>
          (Inr q, s\<lparr>su_process := table,
             su_runtime := start_one alias (qc_kind (cq_class q)) (su_watched E alias) (su_number E alias) (su_runtime s)\<rparr>))"

text \<open>What the package relies on of the handler: an alias is created when it is looked up first, and kept on success.\<close>

locale connection_handler =
  fixes E :: startup_env and getitem :: "string \<Rightarrow> (configured_queue, startup) prog"
  assumes cached: "dict_get (su_cache s) alias = Some q \<Longrightarrow> getitem alias s = (Inr q, s)"
    and fresh: "dict_get (su_cache s) alias = None \<Longrightarrow> dict_get (su_settings E) alias = Some options \<Longrightarrow>
      getitem alias s = (case create_and_start E alias options s of
          (Inl err, s') \<Rightarrow> (Inl err, s')
        | (Inr q, s') \<Rightarrow> (Inr q, s'\<lparr>su_cache := dict_set alias q (su_cache s')\<rparr>))"
    and unknown: "dict_get (su_cache s) alias = None \<Longrightarrow> dict_get (su_settings E) alias = None \<Longrightarrow>
      getitem alias s = (Inl InvalidQueueBackendError, s)"

section \<open>Startup\<close>

definition initialise_queues :: "(string \<Rightarrow> (configured_queue, startup) prog) \<Rightarrow> string list \<Rightarrow> (unit, startup) prog" where
  "initialise_queues getitem aliases = foreach (\<lambda>alias. bindE (getitem alias) (\<lambda>_. ok ())) aliases"

text \<open>\<^verbatim>\<open>start_thread\<close> returns when the loop of the thread has begun.\<close>

definition thread_started :: "queue_runtime \<Rightarrow> queue_runtime" where
  "thread_started r = (let r' = start_thread r in if qr_closed r' \<or> qr_loop r' then r' else run_loop_begin r')"

fun resolve_all ::
    "startup_env \<Rightarrow> (string \<Rightarrow> (configured_queue, startup) prog) \<Rightarrow> string list \<Rightarrow>
     ((string \<times> queue_kind \<times> bool \<times> nat) list, startup) prog" where
  "resolve_all E getitem [] s = (Inr [], s)"
| "resolve_all E getitem (alias # aliases) s =
     bindE (getitem alias) (\<lambda>q.
     bindE (resolve_all E getitem aliases) (\<lambda>rest.
       ok ((alias, qc_kind (cq_class q), su_watched E alias, su_number E alias) # rest))) s"

definition runtime_start_registry ::
    "startup_env \<Rightarrow> (string \<Rightarrow> (configured_queue, startup) prog) \<Rightarrow> string list \<Rightarrow> (unit, startup) prog" where
  "runtime_start_registry E getitem aliases s =
     (if qr_closed (su_runtime s) then (Inr (), s)
      else bindE (resolve_all E getitem aliases) (\<lambda>queues s'. (Inr (), s'\<lparr>su_runtime := start_classified queues (su_runtime s')\<rparr>)) s)"

definition app_ready :: "startup_env \<Rightarrow> (string \<Rightarrow> (configured_queue, startup) prog) \<Rightarrow> (unit, startup) prog" where
  "app_ready E getitem =
     bindE (initialise_queues getitem (map fst (su_settings E))) (\<lambda>_ s.
       if su_settings E = [] then (Inr (), s)
       else runtime_start_registry E getitem (map fst (su_settings E)) (s\<lparr>su_runtime := thread_started (su_runtime s)\<rparr>))"

section \<open>Every alias once\<close>

lemma start_one_no_loop: "\<not> qr_loop r \<Longrightarrow> start_one a k w q r = r"
  by (simp add: start_one_def start_classified_def Let_def)

definition needs_task :: "(string \<times> queue_kind \<times> bool \<times> nat) \<Rightarrow> bool" where
  "needs_task x \<longleftrightarrow> classify (fst (snd x)) (fst (snd (snd x))) \<noteq> None"

definition started_alias :: "loop_call \<Rightarrow> string" where
  "started_alias c = (case c of StartTask k a q \<Rightarrow> a | TaskDone a t \<Rightarrow> a | StopLoop \<Rightarrow> [])"

lemma calls_each_once:
  "mset (map started_alias (calls_of WorkerTask xs @ calls_of NotificationTask xs @ calls_of ReceiverTask xs)) =
     mset (map fst (filter needs_task xs))"
proof (induction xs)
  case (Cons x xs)
  obtain a k w q where x: "x = (a, k, w, q)" by (cases x)
  show ?case
    using Cons x by (cases k; cases w) (simp_all add: calls_of_def needs_task_def started_alias_def classify_def)
qed (simp add: calls_of_def)

context connection_handler
begin

text \<open>Without a loop, resolving an alias leaves the runtime alone and keeps the queues resolved before.\<close>

lemma getitem_run:
  assumes "getitem alias s = (r, s')" "\<not> qr_loop (su_runtime s)"
  shows "su_runtime s' = su_runtime s \<and> (\<forall>q. r = Inr q \<longrightarrow> dict_get (su_cache s') alias = Some q) \<and>
    (\<forall>a q. dict_get (su_cache s) a = Some q \<longrightarrow> dict_get (su_cache s') a = Some q)"
proof (cases "dict_get (su_cache s) alias")
  case (Some q)
  with assms cached[OF Some] show ?thesis by auto
next
  case None
  show ?thesis
  proof (cases "dict_get (su_settings E) alias")
    case None
    with assms unknown[OF \<open>dict_get (su_cache s) alias = None\<close> None] show ?thesis by auto
  next
    case (Some options)
    obtain c table where c: "create_connection (su_import E) (su_backend E) (su_construct E) alias options (su_process s) = (c, table)"
      by (metis surj_pair)
    show ?thesis using assms fresh[OF None Some] c None
      by (cases c) (auto simp: create_and_start_def start_one_no_loop simp del: dict_get_None split: if_splits)
  qed
qed

lemma initialise_run:
  "initialise_queues getitem aliases s = (r, s') \<Longrightarrow> \<not> qr_loop (su_runtime s) \<Longrightarrow>
     su_runtime s' = su_runtime s \<and> (\<forall>a q. dict_get (su_cache s) a = Some q \<longrightarrow> dict_get (su_cache s') a = Some q) \<and>
     (r = Inr () \<longrightarrow> (\<forall>a \<in> set aliases. \<exists>q. dict_get (su_cache s') a = Some q))"
proof (induction aliases arbitrary: s)
  case (Cons a aliases)
  obtain q u where u: "getitem a s = (q, u)" by (metis surj_pair)
  note g = getitem_run[OF u Cons.prems(2)]
  show ?case
  proof (cases q)
    case (Inl err)
    with u Cons.prems(1) g show ?thesis by (auto simp: initialise_queues_def bindE_def)
  next
    case (Inr x)
    with u Cons.prems(1) have "initialise_queues getitem aliases u = (r, s')" by (simp add: initialise_queues_def bindE_def)
    from Cons.IH[OF this] g Cons.prems(2) Inr show ?thesis by fastforce
  qed
qed (simp add: initialise_queues_def)

lemma resolve_cached:
  "\<forall>a \<in> set aliases. \<exists>q. dict_get (su_cache s) a = Some q \<Longrightarrow>
     resolve_all E getitem aliases s = (Inr (map (\<lambda>a. (a, qc_kind (cq_class (the (dict_get (su_cache s) a))), su_watched E a, su_number E a)) aliases), s)"
proof (induction aliases)
  case (Cons a aliases)
  then obtain q where "dict_get (su_cache s) a = Some q" by auto
  with Cons cached[of s a q] show ?case by simp
qed simp

end

lemma empty_runtime: "\<not> qr_loop runtime_init" "\<not> qr_closed runtime_init" "qr_calls runtime_init = []"
  by (simp_all add: runtime_init_def)

lemma thread_started_init: "qr_loop (thread_started runtime_init)" "\<not> qr_closed (thread_started runtime_init)" "qr_calls (thread_started runtime_init) = []"
  by (simp_all add: thread_started_def start_thread_def run_loop_begin_def runtime_init_def)

lemma start_classified_open:
  "qr_loop r \<Longrightarrow> \<not> qr_closed r \<Longrightarrow>
     qr_calls (start_classified xs r) = qr_calls r @ calls_of WorkerTask xs @ calls_of NotificationTask xs @ calls_of ReceiverTask xs \<and>
     qr_loop (start_classified xs r)"
  by (simp add: start_classified_def Let_def)

text \<open>
  C26. When the application is ready every configured alias has its queue, built from its settings, and
  the loop of the runtime runs with one start scheduled for every alias that needs a task, and only for
  those: event and notification queues, and persistent queues that are observed. When a queue cannot be
  built, \<^verbatim>\<open>ready\<close> raises and the thread of the runtime is not started.
\<close>

theorem startup_schedules_each_alias_once:
  assumes "connection_handler E getitem" "su_runtime s = runtime_init" "app_ready E getitem s = (r, s')"
  shows "(r = Inr () \<and> su_settings E \<noteq> [] \<longrightarrow>
      (\<forall>a \<in> dkeys (su_settings E). \<exists>q. dict_get (su_cache s') a = Some q) \<and> qr_loop (su_runtime s') \<and>
      mset (map started_alias (qr_calls (su_runtime s'))) =
        mset (filter (\<lambda>a. classify (qc_kind (cq_class (the (dict_get (su_cache s') a)))) (su_watched E a) \<noteq> None) (map fst (su_settings E)))) \<and>
    (r \<noteq> Inr () \<longrightarrow> su_runtime s' = runtime_init)"
proof -
  let ?aliases = "map fst (su_settings E)"
  obtain q u where u: "initialise_queues getitem ?aliases s = (q, u)" by (metis surj_pair)
  have i: "su_runtime u = runtime_init" "q = Inr () \<Longrightarrow> \<forall>a \<in> set ?aliases. \<exists>x. dict_get (su_cache u) a = Some x"
    using connection_handler.initialise_run[OF assms(1) u] assms(2) empty_runtime(1) by auto
  show ?thesis
  proof (cases "q = Inr () \<and> su_settings E \<noteq> []")
    case False
    then show ?thesis using assms(3) u i(1) by (cases q) (auto simp: app_ready_def bindE_def)
  next
    case True
    let ?v = "u\<lparr>su_runtime := thread_started (su_runtime u)\<rparr>"
    let ?xs = "map (\<lambda>a. (a, qc_kind (cq_class (the (dict_get (su_cache u) a))), su_watched E a, su_number E a)) ?aliases"
    have "\<forall>a \<in> set ?aliases. \<exists>x. dict_get (su_cache ?v) a = Some x" using i(2) True by simp
    from connection_handler.resolve_cached[OF assms(1) this]
    have run: "r = Inr ()" "s' = ?v\<lparr>su_runtime := start_classified ?xs (su_runtime ?v)\<rparr>"
      using assms(3) u True i(1) thread_started_init(2)
      by (auto simp: app_ready_def bindE_def runtime_start_registry_def)
    have "map fst (filter needs_task ?xs) =
        filter (\<lambda>a. classify (qc_kind (cq_class (the (dict_get (su_cache u) a)))) (su_watched E a) \<noteq> None) ?aliases"
      by (simp add: filter_map comp_def needs_task_def)
    moreover have "qr_calls (su_runtime s') = calls_of WorkerTask ?xs @ calls_of NotificationTask ?xs @ calls_of ReceiverTask ?xs \<and> qr_loop (su_runtime s')"
      using start_classified_open[of "thread_started runtime_init" ?xs] thread_started_init run(2) i(1) by simp
    moreover have "\<forall>a \<in> dkeys (su_settings E). \<exists>x. dict_get (su_cache s') a = Some x"
      using i(2) True run(2) by (auto simp: dkeys_def)
    ultimately show ?thesis using run calls_each_once[of ?xs] by simp
  qed
qed

section \<open>A handler\<close>

definition sample_handler :: "startup_env \<Rightarrow> string \<Rightarrow> (configured_queue, startup) prog" where
  "sample_handler E name s =
     (case dict_get (su_cache s) name of
        Some q \<Rightarrow> (Inr q, s)
      | None \<Rightarrow>
          (case dict_get (su_settings E) name of
             None \<Rightarrow> (Inl InvalidQueueBackendError, s)
           | Some options \<Rightarrow>
               (case create_and_start E name options s of
                  (Inl err, s') \<Rightarrow> (Inl err, s')
                | (Inr q, s') \<Rightarrow> (Inr q, s'\<lparr>su_cache := dict_set name q (su_cache s')\<rparr>))))"

interpretation plain_handler: connection_handler E "sample_handler E" for E
  by unfold_locales (simp_all add: sample_handler_def del: dict_get_None)

definition sample_startup_env :: startup_env where
  "sample_startup_env = \<lparr>su_import = sample_import, su_backend = sample_backends, su_construct = (\<lambda>_ _. Inr ()),
     su_settings = [(''alerts'', sample_options)], su_watched = (\<lambda>_. False), su_number = (\<lambda>_. 0)\<rparr>"

definition sample_startup :: startup where
  "sample_startup = \<lparr>su_process = [], su_cache = [], su_runtime = runtime_init\<rparr>"

lemma sample_startup_run: "\<exists>s'. app_ready sample_startup_env (sample_handler sample_startup_env) sample_startup = (Inr (), s') \<and>
    (\<exists>q. dict_get (su_cache s') ''alerts'' = Some q \<and> qc_kind (cq_class q) = EventKind)"
proof -
  obtain q table where q: "sample_connection [] = (Inr q, table)" "qc_kind (cq_class q) = EventKind" using sample_connection_built by blast
  then show ?thesis
    by (simp add: app_ready_def initialise_queues_def sample_startup_env_def sample_handler_def sample_startup_def create_and_start_def
        sample_connection_def bindE_def runtime_start_registry_def start_one_no_loop empty_runtime thread_started_init dkeys_def)
qed

theorem startup_schedules_each_alias_once_witness:
  "\<exists>s'. app_ready sample_startup_env (sample_handler sample_startup_env) sample_startup = (Inr (), s') \<and>
     map started_alias (qr_calls (su_runtime s')) = [''alerts'']"
proof -
  obtain s' q where run: "app_ready sample_startup_env (sample_handler sample_startup_env) sample_startup = (Inr (), s')"
    "dict_get (su_cache s') ''alerts'' = Some q" "qc_kind (cq_class q) = EventKind"
    using sample_startup_run by blast
  have init: "su_runtime sample_startup = runtime_init" by (simp add: sample_startup_def)
  from startup_schedules_each_alias_once[OF plain_handler.connection_handler_axioms init run(1)] run
  have "mset (map started_alias (qr_calls (su_runtime s'))) = {#''alerts''#}"
    by (simp add: sample_startup_env_def classify_def)
  then have "map started_alias (qr_calls (su_runtime s')) = [''alerts'']" by (simp only: mset_single_iff)
  with run(1) show ?thesis by (intro exI conjI)
qed

end
