(* ===== verification/Py_Text.thy ===== *)
theory Py_Text
  imports Py_Values
begin

text \<open>
  The operations of \<^verbatim>\<open>str\<close> and \<^verbatim>\<open>bytes\<close> that the Redis transport and the deployment commands
  use, and the truth value of an object. Text is given by its UTF-8 bytes.
\<close>

section \<open>Lines and prefixes\<close>

text \<open>\<^verbatim>\<open>splitlines\<close> of bytes: a line ends with a newline, a carriage return, or both.\<close>

fun split_lines :: "string \<Rightarrow> string \<Rightarrow> string list" where
  "split_lines acc [] = (if acc = [] then [] else [rev acc])"
| "split_lines acc (c # s) =
     (if c = CHR 0x0A then rev acc # split_lines [] s
      else if c = CHR 0x0D then
        (case s of d # s' \<Rightarrow> if d = CHR 0x0A then rev acc # split_lines [] s' else rev acc # split_lines [] s
         | [] \<Rightarrow> [rev acc])
      else split_lines (c # acc) s)"

definition splitlines :: "string \<Rightarrow> string list" where
  "splitlines s = split_lines [] s"

definition startswith :: "string \<Rightarrow> string \<Rightarrow> bool" where
  "startswith s p \<longleftrightarrow> take (length p) s = p"

definition removeprefix :: "string \<Rightarrow> string \<Rightarrow> string" where
  "removeprefix s p = (if startswith s p then drop (length p) s else s)"

definition ascii :: "string \<Rightarrow> bool" where
  "ascii s \<longleftrightarrow> (\<forall>c \<in> set s. of_char c < (128 :: nat))"

text \<open>\<^verbatim>\<open>int\<close> of bytes: surrounding blanks, a sign, digits with single underscores between them.\<close>

definition is_digit :: "char \<Rightarrow> bool" where
  "is_digit c \<longleftrightarrow> (48 :: nat) \<le> of_char c \<and> of_char c \<le> (57 :: nat)"

definition is_blank :: "char \<Rightarrow> bool" where
  "is_blank c \<longleftrightarrow> of_char c = (32 :: nat) \<or> (9 :: nat) \<le> of_char c \<and> of_char c \<le> (13 :: nat)"

fun digits_value :: "bool \<Rightarrow> nat \<Rightarrow> string \<Rightarrow> nat option" where
  "digits_value after_digit acc [] = (if after_digit then Some acc else None)"
| "digits_value after_digit acc (c # s) =
     (if is_digit c then digits_value True (acc * 10 + (of_char c - 48)) s
      else if c = CHR ''_'' \<and> after_digit then digits_value False acc s
      else None)"

definition strip :: "string \<Rightarrow> string" where
  "strip s = rev (dropWhile is_blank (rev (dropWhile is_blank s)))"

definition bytes_int :: "string \<Rightarrow> int option" where
  "bytes_int s =
     (case strip s of
        [] \<Rightarrow> None
      | c # r \<Rightarrow>
          if c = CHR ''-'' then map_option (\<lambda>n. - int n) (digits_value False 0 r)
          else if c = CHR ''+'' then map_option int (digits_value False 0 r)
          else map_option int (digits_value False 0 (c # r)))"

section \<open>Searching and splitting\<close>

fun contains :: "string \<Rightarrow> string \<Rightarrow> bool" where
  "contains p [] = (p = [])"
| "contains p (c # s) = (startswith (c # s) p \<or> contains p s)"

text \<open>\<^verbatim>\<open>s.partition(c)\<close>: what precedes the first \<open>c\<close>, whether there is one, and what follows it.\<close>

definition partition_at :: "char \<Rightarrow> string \<Rightarrow> string \<times> bool \<times> string" where
  "partition_at c s = (takeWhile (\<lambda>x. x \<noteq> c) s, c \<in> set s, tl (dropWhile (\<lambda>x. x \<noteq> c) s))"

text \<open>\<^verbatim>\<open>s.rpartition(c)\<close>: the same at the last \<open>c\<close>; without one, all of \<open>s\<close> comes last.\<close>

definition rpartition_at :: "char \<Rightarrow> string \<Rightarrow> string \<times> bool \<times> string" where
  "rpartition_at c s =
     (rev (tl (dropWhile (\<lambda>x. x \<noteq> c) (rev s))), c \<in> set s, rev (takeWhile (\<lambda>x. x \<noteq> c) (rev s)))"

lemma partition_at_absent [simp]: "c \<notin> set s \<Longrightarrow> partition_at c s = (s, False, [])"
  by (induction s) (auto simp: partition_at_def)

lemma partition_at_append [simp]: "c \<notin> set a \<Longrightarrow> partition_at c (a @ c # b) = (a, True, b)"
  by (induction a) (auto simp: partition_at_def)

lemma partition_at_join: "partition_at c s = (a, f, b) \<Longrightarrow> s = a @ (if f then c # b else []) \<and> c \<notin> set a \<and> (\<not> f \<longrightarrow> b = [])"
proof (cases "c \<in> set s")
  case True
  then obtain u v where "s = u @ c # v" "c \<notin> set u" by (meson split_list_first)
  then show "partition_at c s = (a, f, b) \<Longrightarrow> ?thesis" by auto
qed auto

lemma rpartition_at_last: "rpartition_at c s = (a, f, b) \<Longrightarrow> c \<notin> set b \<and> set b \<subseteq> set s \<and> f = (c \<in> set s)"
  unfolding rpartition_at_def using set_takeWhileD by fastforce

section \<open>Lower case\<close>

text \<open>
  \<^verbatim>\<open>s.lower()\<close>, as far as its ASCII letters: they come from the ASCII capitals and, as UTF-8 bytes
  E2 84 AA, from the Kelvin sign.
\<close>

definition ascii_lower :: "char \<Rightarrow> char" where
  "ascii_lower c = (if (65 :: nat) \<le> of_char c \<and> of_char c \<le> (90 :: nat) then char_of (of_char c + (32 :: nat)) else c)"

fun lower :: "string \<Rightarrow> string" where
  "lower [] = []"
| "lower (c # s) =
     (if c = CHR 0xE2 \<and> take 2 s = [CHR 0x84, CHR 0xAA] then CHR ''k'' # lower (drop 2 s)
      else ascii_lower c # lower s)"

definition is_alpha :: "char \<Rightarrow> bool" where
  "is_alpha c \<longleftrightarrow> (65 :: nat) \<le> of_char c \<and> of_char c \<le> (90 :: nat) \<or> (97 :: nat) \<le> of_char c \<and> of_char c \<le> (122 :: nat)"

lemma ascii_lower_new: "ascii_lower c = c \<or> is_alpha (ascii_lower c)"
  by (auto simp: ascii_lower_def is_alpha_def)

lemma ascii_lower_idem [simp]: "ascii_lower (ascii_lower c) = ascii_lower c"
  by (auto simp: ascii_lower_def)

lemma lower_ascii: "\<forall>c \<in> set s. of_char c < (128 :: nat) \<Longrightarrow> lower s = map ascii_lower s"
  by (induction s) auto

lemma lower_new: "c \<in> set (lower s) \<Longrightarrow> c \<in> set s \<or> is_alpha c"
proof (induction s rule: lower.induct)
  case (2 d s)
  then show ?case using ascii_lower_new[of d] set_drop_subset[of 2 s] by (auto simp: is_alpha_def split: if_splits)
qed simp

section \<open>Truth\<close>

text \<open>The truth value of a Python object.\<close>

fun truthy :: "pyval \<Rightarrow> bool" where
  "truthy PNone = False"
| "truthy (PBool b) = b"
| "truthy (PNum n) = (num_value n \<noteq> Some 0)"
| "truthy (PStr s) = (s \<noteq> [])"
| "truthy (PList xs) = (xs \<noteq> [])"
| "truthy (PTuple xs) = (xs \<noteq> [])"
| "truthy (PDict kvs) = (kvs \<noteq> [])"
| "truthy _ = True"

section \<open>Comparing values\<close>

text \<open>\<^verbatim>\<open>==\<close> on values: booleans are numbers, numbers compare by value, containers by their members.\<close>

fun as_number :: "pyval \<Rightarrow> pynum option" where
  "as_number (PBool b) = Some (PyInt (if b then 1 else 0))"
| "as_number (PNum n) = Some n"
| "as_number _ = None"

fun as_text :: "pyval \<Rightarrow> string option" where
  "as_text (PStr s) = Some s"
| "as_text (PStatus st) = Some (status_value st)"
| "as_text _ = None"

fun py_eq :: "pyval \<Rightarrow> pyval \<Rightarrow> bool" where
  "py_eq (PList xs) v = (case v of PList ys \<Rightarrow> list_all2 py_eq xs ys | _ \<Rightarrow> False)"
| "py_eq (PTuple xs) v = (case v of PTuple ys \<Rightarrow> list_all2 py_eq xs ys | _ \<Rightarrow> False)"
| "py_eq (PDict kvs) v =
     (case v of PDict kvs' \<Rightarrow> length kvs = length kvs' \<and>
        (\<forall>kv \<in> set kvs. \<exists>kv' \<in> set kvs'. py_eq (fst kv) (fst kv') \<and> py_eq (snd kv) (snd kv')) | _ \<Rightarrow> False)"
| "py_eq u v =
     (case (as_number u, as_number v) of
        (Some m, Some n) \<Rightarrow> num_le m n \<and> num_le n m
      | (None, None) \<Rightarrow> (case (as_text u, as_text v) of (Some s, Some t) \<Rightarrow> s = t | _ \<Rightarrow> u = v)
      | _ \<Rightarrow> False)"

text \<open>
  \<^verbatim>\<open><\<close> on values: numbers and texts with their like, lists with lists and tuples with tuples by the first
  members that differ, identifiers and instants with their own; everything else raises. An instance
  of another class is one that defines no order and no conversion to a number.
\<close>

definition num_lt :: "pynum \<Rightarrow> pynum \<Rightarrow> bool" where
  "num_lt m n \<longleftrightarrow> num_le m n \<and> \<not> num_le n m"

fun plain_lt :: "pyval \<Rightarrow> pyval \<Rightarrow> bool result" where
  "plain_lt (PUuid u) (PUuid v) = Inr (u < v)"
| "plain_lt (PClock t) (PClock t') = Inr (t < t')"
| "plain_lt u v =
     (case (as_number u, as_number v) of
        (Some m, Some n) \<Rightarrow> Inr (num_lt m n)
      | _ \<Rightarrow> (case (as_text u, as_text v) of (Some s, Some t) \<Rightarrow> Inr (s < t) | _ \<Rightarrow> Inl TypeError))"

fun py_lt :: "pyval \<Rightarrow> pyval \<Rightarrow> bool result" and seq_lt :: "pyval list \<Rightarrow> pyval list \<Rightarrow> bool result" where
  "py_lt (PList xs) v = (case v of PList ys \<Rightarrow> seq_lt xs ys | _ \<Rightarrow> Inl TypeError)"
| "py_lt (PTuple xs) v = (case v of PTuple ys \<Rightarrow> seq_lt xs ys | _ \<Rightarrow> Inl TypeError)"
| "py_lt u v = plain_lt u v"
| "seq_lt [] ys = Inr (ys \<noteq> [])"
| "seq_lt (x # xs) [] = Inr False"
| "seq_lt (x # xs) (y # ys) = (if py_eq x y then seq_lt xs ys else py_lt x y)"

text \<open>
  \<^verbatim>\<open>int\<close> of a value: numbers truncate, text is parsed. Of the blanks and digits of \<^verbatim>\<open>str\<close> these are the
  ones of ASCII.
\<close>

definition is_space :: "char \<Rightarrow> bool" where
  "is_space c \<longleftrightarrow> is_blank c \<or> (28 :: nat) \<le> of_char c \<and> of_char c \<le> (31 :: nat)"

definition text_int :: "string \<Rightarrow> int option" where
  "text_int s = bytes_int (rev (dropWhile is_space (rev (dropWhile is_space s))))"

fun py_int :: "pyval \<Rightarrow> int result" where
  "py_int (PUuid u) = Inr (uint u)"
| "py_int v =
     (case (as_number v, as_text v) of
        (Some (PyInt i), _) \<Rightarrow> Inr i
      | (Some (PyFloat (Fin r)), _) \<Rightarrow> Inr (if 0 \<le> r then \<lfloor>r\<rfloor> else \<lceil>r\<rceil>)
      | (Some (PyFloat NaN), _) \<Rightarrow> Inl ValueError
      | (Some (PyFloat _), _) \<Rightarrow> Inl OverflowError
      | (None, Some s) \<Rightarrow> (case text_int s of Some i \<Rightarrow> Inr i | None \<Rightarrow> Inl ValueError)
      | (None, None) \<Rightarrow> Inl TypeError)"

end
