(* ===== verification/Event_Worker.thy ===== *)
theory Event_Worker
  imports Memory_Events Redis_Priority Queue_Base Py_Text
begin

text \<open>
  Transient events and notifications: the queue classes \<^verbatim>\<open>EventQueue\<close> and \<^verbatim>\<open>NotificationQueue\<close> of
  \<^verbatim>\<open>backends/base.py\<close>, the listeners of \<^verbatim>\<open>listeners.py\<close>, the workers of \<^verbatim>\<open>event_worker.py\<close> and
  \<^verbatim>\<open>notification_worker.py\<close> and their in-process and Redis variants. What a listener or a filter
  does when it is called with an entry is a value of \<open>call_result\<close>; whether the renewal of the
  lease had failed by the time a listener returned is an argument.
\<close>

section \<open>Listeners\<close>

datatype call_result = Returned pyval | Raised | Cancelled

record listener =
  ls_filter :: "(queue_entry \<Rightarrow> call_result) option"
  ls_callback :: "queue_entry \<Rightarrow> call_result"

type_synonym listener_table = "(string, listener list) pydict"

text \<open>
  Registration. \<open>queue_kind\<close> tells whether the alias is a queue that has listeners; the last two
  flags tell whether the callback and the filter are callable.
\<close>

definition queue_listener :: "pyval \<Rightarrow> bool \<Rightarrow> bool \<Rightarrow> bool \<Rightarrow> listener \<Rightarrow> (unit, listener_table) prog" where
  "queue_listener queue_name filter_callable callback_callable has_listeners l table =
     (case queue_name of
        PStr name \<Rightarrow>
          if name = [] then (Inl ValueError, table)
          else if ls_filter l \<noteq> None \<and> \<not> filter_callable then (Inl TypeError, table)
          else if \<not> callback_callable then (Inl TypeError, table)
          else if \<not> has_listeners then (Inl TypeError, table)
          else (Inr (), dict_set name ((case dict_get table name of None \<Rightarrow> [] | Some ls \<Rightarrow> ls) @ [l]) table)
      | _ \<Rightarrow> (Inl ValueError, table))"

definition listeners_for :: "string \<Rightarrow> listener_table \<Rightarrow> listener list" where
  "listeners_for name table = (case dict_get table name of None \<Rightarrow> [] | Some ls \<Rightarrow> ls)"

definition reset_listeners :: "listener_table \<Rightarrow> listener_table" where
  "reset_listeners table = []"

text \<open>The filter, and the callback if the filter lets the entry through; nothing if it does not.\<close>

definition invoke_listener :: "listener \<Rightarrow> queue_entry \<Rightarrow> call_result option" where
  "invoke_listener l e =
     (case ls_filter l of
        None \<Rightarrow> Some (ls_callback l e)
      | Some f \<Rightarrow>
          (case f e of
             Returned v \<Rightarrow> if truthy v then Some (ls_callback l e) else None
           | r \<Rightarrow> Some r))"

section \<open>Event queues\<close>

definition resolve_lifetime :: "pyval \<Rightarrow> pynum option \<Rightarrow> pyval" where
  "resolve_lifetime timeout_seconds queue_timeout =
     (if timeout_seconds \<noteq> PNone then timeout_seconds
      else case queue_timeout of Some n \<Rightarrow> PNum n | None \<Rightarrow> PNum (PyInt 60))"

definition transient_aenqueue ::
    "(queue_entry \<Rightarrow> (unit, 's) prog) \<Rightarrow> pynum option \<Rightarrow> string \<Rightarrow> uuid \<Rightarrow> clock_time result \<Rightarrow> pyval \<Rightarrow> pyval \<Rightarrow> (uuid, 's) prog" where
  "transient_aenqueue store queue_timeout queue_name uuid7 created payload timeout_seconds =
     bindE (lift_result (validate_json_value payload)) (\<lambda>_.
     bindE (lift_result (validate_budget (resolve_lifetime timeout_seconds queue_timeout))) (\<lambda>lifetime.
     bindE (lift_result created) (\<lambda>queued_at.
     bindE (lift_result (entry_create uuid7 queued_at (PStr queue_name) payload (Some queued_at) (PNum lifetime) (PNum (PyInt 0)))) (\<lambda>e.
     bindE (store e) (\<lambda>_. ok (qe_id e))))))"

text \<open>The queues on the in-process provider and on Redis.\<close>

definition memory_event_aenqueue ::
    "pynum option \<Rightarrow> string \<Rightarrow> uuid \<Rightarrow> clock_time result \<Rightarrow> pyval \<Rightarrow> pyval \<Rightarrow> (uuid, provider_memory) prog" where
  "memory_event_aenqueue = transient_aenqueue astore_and_push_event"

definition redis_event_aenqueue ::
    "'s redis_context \<Rightarrow> pynum option \<Rightarrow> string \<Rightarrow> uuid \<Rightarrow> clock_time result \<Rightarrow> pyval \<Rightarrow> pyval \<Rightarrow> (uuid, 's) prog" where
  "redis_event_aenqueue X = transient_aenqueue (rp_astore_event_and_push X)"

definition memory_notification_aenqueue ::
    "pynum option \<Rightarrow> string \<Rightarrow> uuid \<Rightarrow> clock_time result \<Rightarrow> pyval \<Rightarrow> pyval \<Rightarrow> (uuid, provider_memory) prog" where
  "memory_notification_aenqueue = transient_aenqueue astore_notification"

definition event_aclear :: "provider_memory \<Rightarrow> provider_memory" where
  "event_aclear s = (let s' = aclear s in fold adelete (map qe_id (alist s')) s')"

definition event_ahas_pending :: "clock_time \<Rightarrow> provider_memory \<Rightarrow> bool \<times> provider_memory" where
  "event_ahas_pending now s = (let s' = snd (aexpire_due now s) in (ahas_pending s', s'))"

definition notification_aclear :: "provider_memory \<Rightarrow> provider_memory" where
  "notification_aclear s = aclear_notifications (aclear s)"

definition notification_adequeue :: "(queue_entry, 's) prog" where
  "notification_adequeue = raise TypeError"

text \<open>The identity of a queue's worker: stable within a process, new after a fork.\<close>

record event_identity =
  ei_worker_id :: "uuid option"
  ei_worker_pid :: "int option"

definition worker_id_for_runtime :: "int \<Rightarrow> uuid \<Rightarrow> event_identity \<Rightarrow> uuid \<times> event_identity" where
  "worker_id_for_runtime pid uuid7 w =
     (case ei_worker_id w of
        Some worker_id \<Rightarrow>
          if ei_worker_pid w = Some pid then (worker_id, w)
          else (uuid7, w\<lparr>ei_worker_id := Some uuid7, ei_worker_pid := Some pid\<rparr>)
      | None \<Rightarrow> (uuid7, w\<lparr>ei_worker_id := Some uuid7, ei_worker_pid := Some pid\<rparr>))"

section \<open>The event worker\<close>

record 's event_worker =
  ev_next :: "((queue_entry \<times> pynum option) option, 's) prog"
  ev_release :: "queue_entry \<Rightarrow> (bool, 's) prog"
  ev_remove :: "queue_entry \<Rightarrow> (bool, 's) prog"

text \<open>The constructor: the cursor starts before the first listener.\<close>

definition event_worker_init :: "bool \<Rightarrow> string \<Rightarrow> string \<Rightarrow> bool \<Rightarrow> int result" where
  "event_worker_init is_event_queue provider_kind queue_kind compatible =
     (if \<not> is_event_queue then Inl TypeError
      else if provider_kind \<noteq> queue_kind then Inl TypeError
      else if \<not> compatible then Inl TypeError
      else Inr (- 1))"

definition rotated :: "int \<Rightarrow> 'a list \<Rightarrow> (nat \<times> 'a) list" where
  "rotated cursor registrations =
     (if registrations = [] then []
      else
        let n = length registrations; start = nat ((cursor + 1) mod int n)
        in map (\<lambda>(offset, r). ((start + offset) mod n, r)) (enumerate 0 (drop start registrations @ take start registrations)))"

text \<open>An operation of the provider inside a dispatch, whose state is the cursor and the store.\<close>

definition on_store :: "(bool, 's) prog \<Rightarrow> (unit, int \<times> 's) prog" where
  "on_store p c = (case p (snd c) of (Inl err, s') \<Rightarrow> (Inl err, (fst c, s')) | (Inr _, s') \<Rightarrow> (Inr (), (fst c, s')))"

fun dispatch_listeners ::
    "(bool, 's) prog \<Rightarrow> (bool, 's) prog \<Rightarrow> (nat \<Rightarrow> bool) \<Rightarrow> queue_entry \<Rightarrow> (nat \<times> listener) list \<Rightarrow> (unit, int \<times> 's) prog" where
  "dispatch_listeners release remove lost e [] c = on_store release c"
| "dispatch_listeners release remove lost e ((i, l) # rest) c =
     (let c' = (int i, snd c) in
      case invoke_listener l e of
        None \<Rightarrow> dispatch_listeners release remove lost e rest c'
      | Some Raised \<Rightarrow> on_store release c'
      | Some Cancelled \<Rightarrow> bindE (on_store release) (\<lambda>_. raise CancelledError) c'
      | Some (Returned v) \<Rightarrow>
          if lost i then (Inr (), c')
          else if v = PBool True \<or> v = PBool False then on_store remove c'
          else dispatch_listeners release remove lost e rest c')"

definition event_dispatch ::
    "'s event_worker \<Rightarrow> listener list \<Rightarrow> (nat \<Rightarrow> bool) \<Rightarrow> queue_entry \<Rightarrow> pynum option \<Rightarrow> (unit, int \<times> 's) prog" where
  "event_dispatch W registrations renewal_lost e lease_seconds c =
     dispatch_listeners (ev_release W e) (ev_remove W e) (\<lambda>i. lease_seconds \<noteq> None \<and> renewal_lost i) e
       (rotated (fst c) registrations) c"

definition adispatch_once :: "'s event_worker \<Rightarrow> listener list \<Rightarrow> (nat \<Rightarrow> bool) \<Rightarrow> (bool, int \<times> 's) prog" where
  "adispatch_once W registrations renewal_lost c =
     (case ev_next W (snd c) of
        (Inl err, s') \<Rightarrow> (Inl err, (fst c, s'))
      | (Inr None, s') \<Rightarrow> (Inr False, (fst c, s'))
      | (Inr (Some (e, lease_seconds)), s') \<Rightarrow>
          bindE (event_dispatch W registrations renewal_lost e lease_seconds) (\<lambda>_. ok True) (fst c, s'))"

section \<open>Providers\<close>

text \<open>What the workers do about the exceptions of a claim; a claim without a record is removed.\<close>

definition no_delivery ::
    "(uuid \<Rightarrow> (unit, 's) prog) \<Rightarrow> pyerror \<Rightarrow> ((queue_entry \<times> pynum option) option, 's) prog" where
  "no_delivery discard err =
     (case err of
        QueueEmptyException \<Rightarrow> ok None
      | QueueClaimConflictError i \<Rightarrow> ok None
      | QueueEntryExpiredError i \<Rightarrow> ok None
      | QueueEntryMissingError i \<Rightarrow> bindE (discard i) (\<lambda>_. ok None)
      | QueueEntryNotFoundError i \<Rightarrow> ok None
      | _ \<Rightarrow> raise err)"

abbreviation release_delay :: pyval where
  "release_delay \<equiv> PNum (PyFloat (Fin 1))"

text \<open>The clock readings of one delivery: expiry, claim, promotion and release.\<close>

record event_readings =
  er_expire :: clock_time
  er_claim :: clock_time
  er_promote :: clock_time
  er_release :: clock_time

definition memory_event_worker :: "uuid \<Rightarrow> event_readings \<Rightarrow> provider_memory event_worker" where
  "memory_event_worker worker_id t =
     \<lparr>ev_next = (\<lambda>s.
        tryE (bindE (aclaim_unexpired (er_claim t) (er_promote t) worker_id PNone) (\<lambda>e. ok (Some (e, None))))
          (no_delivery (\<lambda>i s. (Inr (), snd (aremove i worker_id s))))
          (snd (aexpire_due (er_expire t) s))),
      ev_release = (\<lambda>e. arelease (er_release t) (qe_id e) worker_id release_delay),
      ev_remove = (\<lambda>e s. (Inr (fst (aremove (qe_id e) worker_id s)), snd (aremove (qe_id e) worker_id s)))\<rparr>"

text \<open>On Redis the worker also recovers abandoned claims, at most once per second, and renews at once.\<close>

record redis_event_readings =
  rer_now :: "clock_time result"
  rer_expire :: "nat \<Rightarrow> int \<times> int"
  rer_loop :: rat
  rer_recover :: "int \<times> int"
  rer_claim :: "int \<times> int"
  rer_renew :: "int \<times> int"
  rer_release :: "int \<times> int"

text \<open>
  The time of the latest recovery, which the worker keeps and sets before it recovers, stands
  beside the state of the server.
\<close>

definition on_server :: "('a, 's) prog \<Rightarrow> ('a, rat option \<times> 's) prog" where
  "on_server p c = (case p (snd c) of (r, s') \<Rightarrow> (r, (fst c, s')))"

definition recover_expired_events :: "'s redis_context \<Rightarrow> redis_event_readings \<Rightarrow> (unit, rat option \<times> 's) prog" where
  "recover_expired_events X t c =
     (if (case fst c of None \<Rightarrow> False | Some previous \<Rightarrow> fl (rer_loop t - previous) < 1) then (Inr (), c)
      else bindE (on_server (rp_arecover X (rer_recover t) (PNum (PyInt 100)))) (\<lambda>_. ok ()) (Some (rer_loop t), snd c))"

definition redis_event_worker ::
    "'s redis_context \<Rightarrow> uuid \<Rightarrow> redis_event_readings \<Rightarrow> (rat option \<times> 's) event_worker" where
  "redis_event_worker X worker_id t =
     \<lparr>ev_next =
        bindE (on_server (rp_aexpire_due X (rer_now t) (rer_expire t))) (\<lambda>_.
        bindE (recover_expired_events X t) (\<lambda>_.
        on_server (bindE
          (tryE (bindE (rp_aclaim_unexpired X (rer_claim t) worker_id (PNum (PyInt 600))) (\<lambda>e. ok (Some (e, Some (PyInt 600)))))
            (no_delivery (\<lambda>i. bindE (rp_aremove X i worker_id) (\<lambda>_. ok ()))))
          (\<lambda>d. case d of
             None \<Rightarrow> ok None
           | Some (e, lease) \<Rightarrow>
               bindE (rp_arenew X (rer_renew t) (qe_id e) worker_id (PNum (PyInt 600))) (\<lambda>renewed.
                 ok (if renewed then Some (e, lease) else None)))))),
      ev_release = (\<lambda>e. on_server (rp_arelease X (rer_release t) (qe_id e) worker_id release_delay)),
      ev_remove = (\<lambda>e. on_server (rp_aremove X (qe_id e) worker_id))\<rparr>"

section \<open>The notification worker\<close>

text \<open>
  The calls a worker makes into its listeners, in the order it makes them: each filter before
  its callback, and the callback only if the filter returned something true.
\<close>

datatype listener_call = FilterCall listener queue_entry | CallbackCall listener queue_entry

definition invoke_logged :: "listener \<Rightarrow> queue_entry \<Rightarrow> listener_call list \<Rightarrow> call_result option \<times> listener_call list" where
  "invoke_logged l e calls =
     (case ls_filter l of
        None \<Rightarrow> (Some (ls_callback l e), calls @ [CallbackCall l e])
      | Some f \<Rightarrow>
          let calls' = calls @ [FilterCall l e] in
          (case f e of
             Returned v \<Rightarrow>
               if truthy v then (Some (ls_callback l e), calls' @ [CallbackCall l e]) else (None, calls')
           | r \<Rightarrow> (Some r, calls')))"

text \<open>A filter or callback that raises is logged and passed over; a cancellation ends the dispatch.\<close>

fun notify_listeners :: "queue_entry \<Rightarrow> listener list \<Rightarrow> listener_call list \<Rightarrow> unit result \<times> listener_call list" where
  "notify_listeners e [] calls = (Inr (), calls)"
| "notify_listeners e (l # ls) calls =
     (case invoke_logged l e calls of
        (Some Cancelled, calls') \<Rightarrow> (Inl CancelledError, calls')
      | (_, calls') \<Rightarrow> notify_listeners e ls calls')"

definition memory_notification_once ::
    "clock_time \<Rightarrow> listener list \<Rightarrow> (bool, provider_memory \<times> listener_call list) prog" where
  "memory_notification_once now registrations c =
     (case asee_next_notification (snd (aexpire_due_notifications now (fst c))) of
        (None, s') \<Rightarrow> (Inr False, (s', snd c))
      | (Some e, s') \<Rightarrow>
          (case notify_listeners e registrations (snd c) of
             (Inl err, calls) \<Rightarrow> (Inl err, (s', calls))
           | (Inr _, calls) \<Rightarrow> (Inr True, (s', calls))))"

text \<open>
  On Redis the worker receives what the channel delivers to it, here an argument. A message that
  is no payload, or no valid one, is passed over.
\<close>

record pubsub_message =
  pm_type :: string
  pm_data :: rvalue

definition redis_notification_next :: "pubsub_message option \<Rightarrow> queue_entry option" where
  "redis_notification_next message =
     (case message of
        None \<Rightarrow> None
      | Some m \<Rightarrow>
          if pm_type m \<noteq> ''message'' then None
          else (case loads_entry (pm_data m) of Inl err \<Rightarrow> None | Inr e \<Rightarrow> Some e))"

definition redis_notification_once ::
    "'s redis_context \<Rightarrow> int \<times> int \<Rightarrow> pubsub_message option \<Rightarrow> listener list \<Rightarrow> (bool, 's \<times> listener_call list) prog" where
  "redis_notification_once X now message registrations c =
     (case rp_aexpire_due_notifications X now (fst c) of
        (Inl err, s') \<Rightarrow> (Inl err, (s', snd c))
      | (Inr _, s') \<Rightarrow>
          (case redis_notification_next message of
             None \<Rightarrow> (Inr False, (s', snd c))
           | Some e \<Rightarrow>
               (case notify_listeners e registrations (snd c) of
                  (Inl err, calls) \<Rightarrow> (Inl err, (s', calls))
                | (Inr _, calls) \<Rightarrow> (Inr True, (s', calls)))))"

section \<open>The rotation of listeners\<close>

lemma nat_mod_add: "0 < n \<Longrightarrow> nat ((a + int k) mod int n) = (nat (a mod int n) + k) mod n"
proof -
  assume "0 < n"
  then have "(a + int k) mod int n = int ((nat (a mod int n) + k) mod n)"
    by (simp add: zmod_int mod_add_left_eq)
  then show ?thesis by simp
qed

lemma rotated_nth:
  assumes "k < length regs"
  shows "rotated c regs ! k = (nat ((c + 1 + int k) mod int (length regs)), regs ! nat ((c + 1 + int k) mod int (length regs)))"
proof -
  let ?n = "length regs"
  let ?start = "nat ((c + 1) mod int ?n)"
  have n: "0 < ?n" "regs \<noteq> []" using assms by (cases regs; simp)+
  then have st: "?start < ?n" by (simp add: nat_less_iff)
  have "(drop ?start regs @ take ?start regs) ! k = regs ! ((?start + k) mod ?n)"
  proof (cases "k < ?n - ?start")
    case True
    then show ?thesis using st by (simp add: nth_append)
  next
    case False
    then have "(?start + k) mod ?n = ?start + k - ?n" using st assms by (simp add: le_mod_geq)
    then show ?thesis using False st assms by (simp add: nth_append add.commute)
  qed
  then show ?thesis using assms st n
    by (simp add: rotated_def Let_def nth_enumerate_eq nat_mod_add)
qed

lemma length_rotated [simp]: "length (rotated c regs) = length regs"
proof (cases "regs = []")
  case False
  then have "(c + 1) mod int (length regs) < int (length regs)" by simp
  then have "nat ((c + 1) mod int (length regs)) < length regs" using False by (simp add: nat_less_iff)
  then show ?thesis by (auto simp: rotated_def Let_def)
qed (simp add: rotated_def)

lemma rotated_rotate: "rotated c regs = rotate (nat ((c + 1) mod int (length regs))) (enumerate 0 regs)"
proof (rule nth_equalityI)
  fix k
  assume "k < length (rotated c regs)"
  then have k: "k < length regs" "0 < length regs" by (auto intro: le_less_trans)
  then have "(nat ((c + 1) mod int (length regs)) + k) mod length regs < length regs" by simp
  then show "rotated c regs ! k = rotate (nat ((c + 1) mod int (length regs))) (enumerate 0 regs) ! k"
    using k by (simp add: rotated_nth nth_rotate nth_enumerate_eq nat_mod_add)
qed simp

lemma rotated_index: "(i, l) \<in> set (rotated c regs) \<Longrightarrow> i < length regs \<and> l = regs ! i"
  by (auto simp: rotated_rotate in_set_conv_nth nth_enumerate_eq)

section \<open>One delivery\<close>

text \<open>A listener decides about an event by answering yes or no or by ending with an exception.\<close>

definition decides :: "queue_entry \<Rightarrow> listener \<Rightarrow> bool" where
  "decides e l =
     (case invoke_listener l e of
        None \<Rightarrow> False
      | Some (Returned v) \<Rightarrow> v = PBool True \<or> v = PBool False
      | Some _ \<Rightarrow> True)"

text \<open>The decision about an event, and where the cursor stands after it.\<close>

definition verdict :: "queue_entry \<Rightarrow> (nat \<times> listener) list \<Rightarrow> call_result option" where
  "verdict e xs = Option.bind (find (\<lambda>x. decides e (snd x)) xs) (\<lambda>x. invoke_listener (snd x) e)"

definition cursor_after :: "queue_entry \<Rightarrow> (nat \<times> listener) list \<Rightarrow> int \<Rightarrow> int" where
  "cursor_after e xs c =
     (case find (\<lambda>x. decides e (snd x)) xs of
        Some x \<Rightarrow> int (fst x)
      | None \<Rightarrow> if xs = [] then c else int (fst (last xs)))"

text \<open>
  How a delivery ends, where \<open>consumed\<close> and \<open>returned\<close> say what becomes of the event in the
  store: it is consumed exactly when the first listener to decide answered.
\<close>

definition settled ::
    "(queue_entry \<Rightarrow> 's \<Rightarrow> 's \<Rightarrow> bool) \<Rightarrow> (queue_entry \<Rightarrow> 's \<Rightarrow> 's \<Rightarrow> bool) \<Rightarrow> queue_entry \<Rightarrow> (nat \<times> listener) list \<Rightarrow>
     int \<times> 's \<Rightarrow> unit result \<times> int \<times> 's \<Rightarrow> bool" where
  "settled consumed returned e xs c c' \<longleftrightarrow>
     fst c' = (if verdict e xs = Some Cancelled then Inl CancelledError else Inr ()) \<and>
     fst (snd c') = cursor_after e xs (fst c) \<and>
     (case verdict e xs of
        Some (Returned v) \<Rightarrow> consumed e (snd c) (snd (snd c'))
      | _ \<Rightarrow> returned e (snd c) (snd (snd c')))"

text \<open>
  What the worker needs of a provider: the holder of an event can return it to the queue and
  can consume it.
\<close>

locale event_delivery =
  fixes W :: "'s event_worker"
    and held :: "queue_entry \<Rightarrow> 's \<Rightarrow> bool"
    and returned consumed :: "queue_entry \<Rightarrow> 's \<Rightarrow> 's \<Rightarrow> bool"
  assumes release: "held e s \<Longrightarrow> \<exists>s'. ev_release W e s = (Inr True, s') \<and> returned e s s'"
    and remove: "held e s \<Longrightarrow> \<exists>s'. ev_remove W e s = (Inr True, s') \<and> consumed e s s'"
begin

lemma listeners_decide:
  assumes "held e s" "\<And>i. \<not> lost i"
  shows "settled consumed returned e xs (c, s) (dispatch_listeners (ev_release W e) (ev_remove W e) lost e xs (c, s))"
proof (induction xs arbitrary: c)
  case Nil
  then show ?case using release[OF assms(1)] by (auto simp: settled_def verdict_def cursor_after_def on_store_def)
next
  case (Cons x xs)
  obtain i l where x: "x = (i, l)" by fastforce
  obtain s1 s2 where ops: "ev_release W e s = (Inr True, s1)" "returned e s s1"
      "ev_remove W e s = (Inr True, s2)" "consumed e s s2"
    using release[OF assms(1)] remove[OF assms(1)] by blast
  show ?case
  proof (cases "decides e l")
    case True
    then show ?thesis using ops assms(2)
      by (auto simp: x settled_def verdict_def cursor_after_def decides_def on_store_def bindE_def raise_def
          split: option.splits call_result.splits)
  next
    case False
    then have "dispatch_listeners (ev_release W e) (ev_remove W e) lost e (x # xs) (c, s) =
        dispatch_listeners (ev_release W e) (ev_remove W e) lost e xs (int i, s)"
      using assms(2) by (auto simp: x decides_def split: option.splits call_result.splits)
    moreover have "settled consumed returned e (x # xs) (c, s) = settled consumed returned e xs (int i, s)"
      using False by (auto simp: x settled_def verdict_def cursor_after_def fun_eq_iff split: option.splits call_result.splits)
    ultimately show ?thesis using Cons.IH by simp
  qed
qed

lemma dispatch_decides:
  assumes "held e s" "lease = None \<or> (\<forall>i. \<not> lost i)"
  shows "settled consumed returned e (rotated c regs) (c, s) (event_dispatch W regs lost e lease (c, s))"
  unfolding event_dispatch_def fst_conv using assms by (intro listeners_decide) auto

end

section \<open>Deliveries from the in-process provider\<close>

definition event_held :: "uuid \<Rightarrow> clock_time \<Rightarrow> queue_entry \<Rightarrow> provider_memory \<Rightarrow> bool" where
  "event_held w now e s \<longleftrightarrow>
     clock_ok now \<and> (\<exists>Q F. event_inv Q F now s) \<and> dict_get (mp_claims s) (qe_id e) = Some w"

text \<open>An operation of a worker keeps the bookkeeping, whatever enqueues are under way.\<close>

definition event_kept :: "clock_time \<Rightarrow> provider_memory \<Rightarrow> provider_memory \<Rightarrow> bool" where
  "event_kept now s s' \<longleftrightarrow> (\<forall>Q F. event_inv Q F now s \<longrightarrow> event_inv Q F now s')"

text \<open>
  A returned event is kept, unclaimed, at the end of the queue, and may be claimed again a
  second after its release. Its lifetime runs again from the release: the new deadline lies as
  many seconds after it as the claim had recorded to be left. A consumed event has left no
  trace.
\<close>

definition event_returned :: "clock_time \<Rightarrow> queue_entry \<Rightarrow> provider_memory \<Rightarrow> provider_memory \<Rightarrow> bool" where
  "event_returned now e s s' \<longleftrightarrow>
     event_kept now s s' \<and> mp_entries s' = mp_entries s \<and> mp_claims s' = dict_pop (qe_id e) (mp_claims s) \<and>
     mp_pending s' = mp_pending s @ [qe_id e] \<and>
     (\<exists>a. mp_available_at s' = dict_set (qe_id e) a (mp_available_at s) \<and>
          total_microseconds a = total_microseconds now + 1000000) \<and>
     (\<exists>r d. dict_get (mp_unclaimed_remaining s) (qe_id e) = Some r \<and>
          mp_unclaimed_deadlines s' = dict_set (qe_id e) d (mp_unclaimed_deadlines s) \<and>
          now < d \<and> r = fl (of_int (total_microseconds d - total_microseconds now) / 1000000))"

definition event_consumed :: "clock_time \<Rightarrow> queue_entry \<Rightarrow> provider_memory \<Rightarrow> provider_memory \<Rightarrow> bool" where
  "event_consumed now e s s' \<longleftrightarrow>
     event_kept now s s' \<and> mp_entries s' = dict_pop (qe_id e) (mp_entries s) \<and>
     mp_claims s' = dict_pop (qe_id e) (mp_claims s) \<and> mp_pending s' = mp_pending s \<and>
     qe_id e \<notin> dkeys (mp_entries s') \<union> dkeys (mp_claims s') \<union> set (mp_pending s')"

lemma release_delay_us:
  assumes "clock_ok now"
  shows "\<exists>d. clock_add now (PyFloat (Fin 1)) = Inr d \<and> total_microseconds d = total_microseconds now + 1000000"
proof -
  let ?m = "total_microseconds now + 1000000"
  have "fl (of_int 1000000 / 1000000) = (1 :: rat)" using fl_of_int[of 1] by simp
  then have "clock_add now (PyFloat (Fin 1)) = Inr (ClockTime (?m div 1000000) (?m mod 1000000))"
    using clock_add_micros[OF assms, of 1000000] total_nonneg[OF assms] by simp
  then show ?thesis by (simp add: total_microseconds_def)
qed

lemma arelease_held:
  assumes "event_held w now e s"
  shows "\<exists>s'. arelease now (qe_id e) w release_delay s = (Inr True, s') \<and> event_returned now e s s'"
proof -
  obtain Q F where held: "clock_ok now" "event_inv Q F now s" "dict_get (mp_claims s) (qe_id e) = Some w"
    using assms by (auto simp: event_held_def)
  then have "qe_id e \<in> dkeys (mp_unclaimed_remaining s)"
    using dict_get_dkeys[OF held(3)] by (simp add: event_inv_def event_struct_def)
  then obtain r where r: "dict_get (mp_unclaimed_remaining s) (qe_id e) = Some r" by (blast elim: dict_get_keysE)
  then obtain d where d: "clock_add now (PyFloat (Fin r)) = Inr d" "now < d"
      "r = fl (of_int (total_microseconds d - total_microseconds now) / 1000000)"
    using held deadline_of_remaining_exact[of now r] by (auto simp: event_inv_def event_times_def)
  obtain a where a: "clock_add now (PyFloat (Fin 1)) = Inr a" "total_microseconds a = total_microseconds now + 1000000"
    using release_delay_us[OF held(1)] by blast
  have "validate_budget release_delay = Inr (PyFloat (Fin 1))" by (simp add: validate_budget_def)
  moreover have "event_kept now s (snd (arelease now (qe_id e) w release_delay s))"
    using arelease_inv held(1) by (simp add: event_kept_def)
  ultimately show ?thesis using held(3) r d a
    by (simp add: arelease_def bindE_lift Let_def event_returned_def) blast
qed

lemma aremove_held:
  assumes "event_held w now e s"
  shows "fst (aremove (qe_id e) w s) \<and> event_consumed now e s (snd (aremove (qe_id e) w s))"
proof -
  obtain Q F where held: "event_inv Q F now s" "dict_get (mp_claims s) (qe_id e) = Some w"
    using assms by (auto simp: event_held_def)
  then have "qe_id e \<notin> set (mp_pending s)"
    using dict_get_dkeys[OF held(2)] by (auto simp: event_inv_def event_struct_def)
  moreover have "event_kept now s (snd (aremove (qe_id e) w s))" by (simp add: event_kept_def aremove_inv)
  ultimately show ?thesis using held(2)
    by (simp add: event_consumed_def aremove_def remove_pending_def remove1_idem)
qed

interpretation memory_delivery: event_delivery "memory_event_worker w t" "event_held w (er_release t)"
  "event_returned (er_release t)" "event_consumed (er_release t)"
  by unfold_locales (use arelease_held aremove_held in \<open>auto simp: memory_event_worker_def\<close>)

section \<open>Deliveries from Redis\<close>

definition redis_event_held ::
    "'s redis_context \<Rightarrow> uuid \<Rightarrow> queue_entry \<Rightarrow> rat option \<times> 's \<Rightarrow> bool" where
  "redis_event_held X w e c \<longleftrightarrow>
     redis_server (rx_server X) \<and> rx_ready X = Inr () \<and>
     owned_by (r_get (rx_server X) (snd c) (ClaimKey (qe_id e))) w \<noteq> None \<and>
     r_get (rx_server X) (snd c) (EntryKey (qe_id e)) \<noteq> None"

definition redis_event_returned ::
    "'s redis_context \<Rightarrow> int \<times> int \<Rightarrow> queue_entry \<Rightarrow> rat option \<times> 's \<Rightarrow> rat option \<times> 's \<Rightarrow> bool" where
  "redis_event_returned X now e c c' \<longleftrightarrow>
     (let R = rx_server X; s = snd c; s' = snd c'; i = qe_id e in
      r_get R s' (ClaimKey i) = None \<and> r_zscore R s' ClaimDeadlinesKey i = None \<and>
      r_get R s' (EntryKey i) = r_get R s (EntryKey i) \<and>
      r_zscore R s' DelayedKey i = Some (now_us now + 1000000) \<and> only_touches R i s s')"

definition redis_event_consumed ::
    "'s redis_context \<Rightarrow> queue_entry \<Rightarrow> rat option \<times> 's \<Rightarrow> rat option \<times> 's \<Rightarrow> bool" where
  "redis_event_consumed X e c c' \<longleftrightarrow>
     (let R = rx_server X; s = snd c; s' = snd c'; i = qe_id e in
      r_get R s' (ClaimKey i) = None \<and> r_zscore R s' ClaimDeadlinesKey i = None \<and>
      r_get R s' (EntryKey i) = None \<and> r_zscore R s' DelayedKey i = None \<and>
      r_zscore R s' UnclaimedDeadlinesKey i = None \<and> i \<notin> set (r_list R s' PendingKey) \<and> only_touches R i s s')"

lemma redis_release_held:
  assumes "redis_event_held X w e c"
  shows "\<exists>c'. on_server (rp_arelease X now (qe_id e) w release_delay) c = (Inr True, c') \<and> redis_event_returned X now e c c'"
proof -
  have srv: "redis_server (rx_server X)" and ready: "rx_ready X = Inr ()" using assms by (auto simp: redis_event_held_def)
  have us: "bindR (validate_budget release_delay) to_us = Inr 1000000"
    using fl_of_int[of 1000000] rne_of_int[of 1000000]
    by (simp add: validate_budget_def to_us_def to_double_small)
  obtain d where d: "owned_by (r_get (rx_server X) (snd c) (ClaimKey (qe_id e))) w = Some d"
    using assms by (auto simp: redis_event_held_def)
  from srv show ?thesis
    by (simp add: on_server_def rp_arelease_def us bindE_lift fcall_cases ready bindE_def ok_def lua_release_def d
        redis_event_returned_def only_touches_def redis_server.restore_state redis_server.zscore_zadd redis_server.zscore_zrem
        redis_server.zscore_del redis_server.get_zadd redis_server.get_zrem redis_server.get_del redis_server.list_zadd
        redis_server.list_zrem redis_server.list_del)
qed

lemma redis_remove_held:
  assumes "redis_event_held X w e c"
  shows "\<exists>c'. on_server (rp_aremove X (qe_id e) w) c = (Inr True, c') \<and> redis_event_consumed X e c c'"
proof -
  have srv: "redis_server (rx_server X)" and ready: "rx_ready X = Inr ()"
    and entry: "r_get (rx_server X) (snd c) (EntryKey (qe_id e)) \<noteq> None" using assms by (auto simp: redis_event_held_def)
  obtain d where d: "owned_by (r_get (rx_server X) (snd c) (ClaimKey (qe_id e))) w = Some d"
    using assms by (auto simp: redis_event_held_def)
  from srv entry show ?thesis
    by (simp add: on_server_def rp_aremove_def fcall_cases ready bindE_def ok_def lua_remove_def d
        redis_event_consumed_def only_touches_def redis_server.zscore_zrem redis_server.get_lrem redis_server.zscore_lrem
        redis_server.zscore_del redis_server.get_zrem redis_server.get_del redis_server.list_lrem redis_server.del_reply
        redis_server.list_zrem redis_server.list_del redis_server.count_list_filter_neq[OF srv])
qed

interpretation redis_delivery: event_delivery "redis_event_worker X w t" "redis_event_held X w"
  "redis_event_returned X (rer_release t)" "redis_event_consumed X"
  by unfold_locales (simp_all only: redis_event_worker_def event_worker.simps redis_release_held redis_remove_held)

section \<open>Notifications reach every listener\<close>

text \<open>
  What the filter of a listener says about an entry, and the calls to be expected: every filter
  once, and every callback whose listener accepts the entry once, in the order of registration.
\<close>

definition accepts :: "listener \<Rightarrow> queue_entry \<Rightarrow> bool" where
  "accepts l e \<longleftrightarrow> (\<forall>f. ls_filter l = Some f \<longrightarrow> (\<exists>v. f e = Returned v \<and> truthy v))"

definition never_cancelled :: "listener \<Rightarrow> queue_entry \<Rightarrow> bool" where
  "never_cancelled l e \<longleftrightarrow> (\<forall>f. ls_filter l = Some f \<longrightarrow> f e \<noteq> Cancelled) \<and> ls_callback l e \<noteq> Cancelled"

definition expected_calls :: "listener list \<Rightarrow> queue_entry \<Rightarrow> listener_call list" where
  "expected_calls regs e =
     concat (map (\<lambda>l. [FilterCall l e. ls_filter l \<noteq> None] @ [CallbackCall l e. accepts l e]) regs)"

lemma invoke_logged_calls:
  "never_cancelled l e \<Longrightarrow> \<exists>r. r \<noteq> Some Cancelled \<and>
     invoke_logged l e calls = (r, calls @ expected_calls [l] e)"
  by (auto simp: invoke_logged_def expected_calls_def accepts_def never_cancelled_def Let_def split: option.splits call_result.splits)

lemma notify_listeners_all:
  assumes "\<And>l. l \<in> set regs \<Longrightarrow> never_cancelled l e"
  shows "notify_listeners e regs calls = (Inr (), calls @ expected_calls regs e)"
  using assms
proof (induction regs arbitrary: calls)
  case (Cons l regs)
  then obtain r where "r \<noteq> Some Cancelled" "invoke_logged l e calls = (r, calls @ expected_calls [l] e)"
    using invoke_logged_calls[of l e calls] by auto
  then have "notify_listeners e (l # regs) calls = notify_listeners e regs (calls @ expected_calls [l] e)"
    by (auto split: option.splits call_result.splits)
  with Cons show ?case by (simp add: expected_calls_def)
qed (simp add: expected_calls_def)

text \<open>Storing several notifications, and several passes of the worker with the readings of its clock.\<close>

fun store_notifications :: "queue_entry list \<Rightarrow> (unit, provider_memory) prog" where
  "store_notifications [] = ok ()"
| "store_notifications (e # es) = bindE (astore_notification e) (\<lambda>_. store_notifications es)"

fun notification_passes :: "clock_time list \<Rightarrow> listener list \<Rightarrow> (bool list, provider_memory \<times> listener_call list) prog" where
  "notification_passes [] regs = ok []"
| "notification_passes (t # ts) regs =
     bindE (memory_notification_once t regs) (\<lambda>r. bindE (notification_passes ts regs) (\<lambda>rs. ok (r # rs)))"

lemma astore_notification_seen:
  "astore_notification e s = (Inr (), s') \<Longrightarrow> mp_notification_seen s' = mp_notification_seen s @ [e]"
  by (auto simp: astore_notification_def Let_def split: option.splits sum.splits)

lemma store_notifications_seen:
  "store_notifications es s = (Inr (), s') \<Longrightarrow> mp_notification_seen s' = mp_notification_seen s @ es"
proof (induction es arbitrary: s)
  case (Cons e es)
  then obtain s1 where "astore_notification e s = (Inr (), s1)" "store_notifications es s1 = (Inr (), s')"
    by (auto simp: bindE_def split: prod.splits sum.splits)
  with Cons.IH show ?case using astore_notification_seen by fastforce
qed (simp add: ok_def)

lemma expire_notifications_seen [simp]:
  "mp_notification_seen (snd (aexpire_due_notifications now s)) = mp_notification_seen s"
  by (simp add: aexpire_due_notifications_def Let_def split: list.splits prod.splits)

lemma notification_once_seen:
  assumes "mp_notification_seen s = e # es" "\<And>l. l \<in> set regs \<Longrightarrow> never_cancelled l e"
  shows "\<exists>s'. memory_notification_once now regs (s, calls) = (Inr True, (s', calls @ expected_calls regs e)) \<and>
    mp_notification_seen s' = es"
  using assms by (simp add: memory_notification_once_def asee_next_notification_def notify_listeners_all)

lemma notification_passes_seen:
  assumes "mp_notification_seen s = es @ rest" "length ts = length es"
    "\<And>e l. e \<in> set es \<Longrightarrow> l \<in> set regs \<Longrightarrow> never_cancelled l e"
  shows "\<exists>s'. notification_passes ts regs (s, calls) =
      (Inr (map (\<lambda>_. True) es), (s', calls @ concat (map (expected_calls regs) es))) \<and> mp_notification_seen s' = rest"
  using assms
proof (induction ts arbitrary: s es calls)
  case (Cons t ts)
  then obtain e es' where es: "es = e # es'" by (cases es) auto
  then obtain s1 where s1: "memory_notification_once t regs (s, calls) = (Inr True, (s1, calls @ expected_calls regs e))"
      "mp_notification_seen s1 = es' @ rest"
    using notification_once_seen[of s e "es' @ rest" regs t calls] Cons.prems by auto
  obtain s2 where "notification_passes ts regs (s1, calls @ expected_calls regs e) = (Inr (map (\<lambda>_. True) es'),
      (s2, (calls @ expected_calls regs e) @ concat (map (expected_calls regs) es')))" "mp_notification_seen s2 = rest"
    using Cons.IH[of s1 es' "calls @ expected_calls regs e"] s1(2) Cons.prems es by auto
  with s1(1) es show ?case by (simp add: bindE_def ok_def)
qed (simp add: ok_def)

section \<open>The guarantees of listeners\<close>

text \<open>
  The order in which a worker asks the listeners is the list of registrations with their
  positions, rotated so that it begins right after the listener asked last: every listener is
  asked at most once per event, and nobody is asked first twice while others wait.
\<close>

theorem listeners_take_turns:
  "rotated cursor registrations = rotate (nat ((cursor + 1) mod int (length registrations))) (enumerate 0 registrations)"
  by (rule rotated_rotate)

definition sample_listeners :: "listener list" where
  "sample_listeners =
     [\<lparr>ls_filter = Some (\<lambda>_. Returned (PBool False)), ls_callback = (\<lambda>_. Returned (PBool True))\<rparr>,
      \<lparr>ls_filter = None, ls_callback = (\<lambda>_. Returned PNone)\<rparr>,
      \<lparr>ls_filter = Some (\<lambda>e. Returned (PStr (qe_queue e))), ls_callback = (\<lambda>_. Returned (PBool True))\<rparr>,
      \<lparr>ls_filter = None, ls_callback = (\<lambda>_. Raised)\<rparr>]"

lemma sample_rotation:
  "rotated (- 1) sample_listeners = enumerate 0 sample_listeners"
  "rotated 2 sample_listeners = rotate 3 (enumerate 0 sample_listeners)"
  by (simp_all add: rotated_rotate sample_listeners_def)

lemma sample_verdict:
  "verdict (sample_entry k t n) (enumerate 0 sample_listeners) = Some (Returned (PBool True))"
  "cursor_after (sample_entry k t n) (enumerate 0 sample_listeners) c = 2"
  "verdict (sample_entry k t n) (rotate 3 (enumerate 0 sample_listeners)) = Some Raised"
  by (simp_all add: verdict_def cursor_after_def sample_listeners_def decides_def invoke_listener_def sample_entry_def
      rotate_def eval_nat_numeral)

text \<open>
  C28. A worker of an in-process event queue that holds an event settles it. If the first
  listener to decide answered True or False the event is consumed and leaves no trace; if that
  listener raised, or was cancelled, or no listener decided, the event is back at the end of
  the queue, unclaimed, available a second later, and its unclaimed deadline lies after the
  release by exactly the remaining lifetime recorded at its claim. The cursor
  stands at the listener asked last, and only a cancellation escapes.
\<close>

theorem event_listeners_decide:
  assumes "event_held w (er_release t) e s"
  shows "settled (event_consumed (er_release t)) (event_returned (er_release t)) e (rotated c regs) (c, s)
    (event_dispatch (memory_event_worker w t) regs lost e None (c, s))"
  using memory_delivery.dispatch_decides[OF assms] by simp

theorem event_listeners_decide_witness:
  "let t = \<lparr>er_expire = ClockTime 1000 0, er_claim = ClockTime 1000 0, er_promote = ClockTime 1000 0, er_release = ClockTime 1002 0\<rparr>;
       e = sample_entry 1 (ClockTime 1000 0) 60;
       c' = event_dispatch (memory_event_worker 7 t) sample_listeners (\<lambda>_. False) e None (- 1, sample_memory)
   in fst c' = Inr () \<and> fst (snd c') = 2 \<and> event_consumed (ClockTime 1002 0) e sample_memory (snd (snd c'))"
proof -
  define t :: event_readings where "t = \<lparr>er_expire = ClockTime 1000 0, er_claim = ClockTime 1000 0, er_promote = ClockTime 1000 0,
    er_release = ClockTime 1002 0\<rparr>"
  have t: "er_release t = ClockTime 1002 0" by (simp add: t_def)
  let ?e = "sample_entry 1 (ClockTime 1000 0) 60"
  have "event_inv {} {} (ClockTime 1002 0) sample_memory"
    using event_reachable_inv[OF sample_events_reachable] event_inv_later[of "{}" "{}" "ClockTime 1001 0" sample_memory "ClockTime 1002 0"]
    by (simp add: clock_ok_def less_eq_clock_time_def)
  moreover have "dict_get (mp_claims sample_memory) (qe_id ?e) = Some 7"
    by (simp add: sample_memory_def sample_events_def sample_entry_def)
  ultimately have "event_held 7 (er_release t) ?e sample_memory"
    unfolding event_held_def t by (auto simp: clock_ok_def)
  from event_listeners_decide[OF this, of "- 1" sample_listeners "\<lambda>_. False"] show ?thesis
    by (simp add: settled_def sample_rotation sample_verdict t Let_def flip: t_def)
qed

text \<open>
  The same on Redis, as long as the lease is renewed: a consumed event is gone from every
  structure of the server, a returned one keeps its record and is delayed for a second by the
  server's clock, and nothing of any other event changes.
\<close>

theorem redis_event_listeners_decide:
  assumes "redis_event_held X w e s" "\<forall>i. \<not> lost i"
  shows "settled (redis_event_consumed X) (redis_event_returned X (rer_release t)) e (rotated c regs) (c, s)
    (event_dispatch (redis_event_worker X w t) regs lost e (Some (PyInt 600)) (c, s))"
  using redis_delivery.dispatch_decides[OF assms(1)] assms(2) by simp

theorem redis_event_listeners_decide_witness:
  "let c' = event_dispatch (redis_event_worker sample_redis 7 \<lparr>rer_now = Inr (ClockTime 1002 0), rer_expire = (\<lambda>_. (1002, 0)),
         rer_loop = 5, rer_recover = (1002, 0), rer_claim = (1002, 0), rer_renew = (1002, 0), rer_release = (1003, 0)\<rparr>)
       sample_listeners (\<lambda>_. False) sample_job (Some (PyInt 600)) (2, None, sample_claimed)
   in fst c' = Inr () \<and> redis_event_returned sample_redis (1003, 0) sample_job (None, sample_claimed) (snd (snd c'))"
proof -
  let ?t = "\<lparr>rer_now = Inr (ClockTime 1002 0), rer_expire = (\<lambda>_. (1002, 0)),
         rer_loop = 5, rer_recover = (1002, 0), rer_claim = (1002, 0), rer_renew = (1002, 0), rer_release = (1003, 0)\<rparr>"
  have "r_get map_redis sample_claimed (EntryKey (sample_id 1)) \<noteq> None"
    using sample_claimed_lease(2) by (intro notI) (simp add: entry_status_def)
  then have "redis_event_held sample_redis 7 sample_job (None, sample_claimed)"
    using sample_claimed_lease(1) map_server.redis_server_axioms
    by (auto simp: redis_event_held_def lease_of_def owned_by_def sample_entry_def)
  from redis_event_listeners_decide[OF this, of "\<lambda>_. False" ?t 2 sample_listeners] show ?thesis
    by (simp add: settled_def sample_rotation sample_verdict)
qed

text \<open>
  C31. The worker of an in-process notification queue serves one stored notification per pass,
  in the order of storing. For each it calls the filter of every listener that has one exactly
  once, and the callback of every listener that has none or whose filter returned something
  true exactly once, in the order of registration; a filter or callback that raises keeps none
  of the others from being called, and stored copies may expire in between. No filter and no
  callback is cancelled.
\<close>

theorem notifications_reach_every_listener:
  assumes "store_notifications es s = (Inr (), s1)" "mp_notification_seen s = []" "length ts = length es"
    "\<forall>e\<in>set es. \<forall>l\<in>set regs. never_cancelled l e"
  shows "\<exists>s2. notification_passes ts regs (s1, []) = (Inr (map (\<lambda>_. True) es), (s2, concat (map (expected_calls regs) es))) \<and>
    mp_notification_seen s2 = []"
  using notification_passes_seen[of s1 es "[]" ts regs "[]"] store_notifications_seen[OF assms(1)] assms by simp

theorem notifications_reach_every_listener_witness:
  "\<exists>s1 s2. let e = sample_entry 1 (ClockTime 1000 0) 60; ls = sample_listeners in
     store_notifications [e] (provider_memory_init False 0) = (Inr (), s1) \<and>
     notification_passes [ClockTime 2000 0] ls (s1, []) = (Inr [True],
       (s2, [FilterCall (ls ! 0) e, CallbackCall (ls ! 1) e, FilterCall (ls ! 2) e, CallbackCall (ls ! 2) e, CallbackCall (ls ! 3) e]))"
proof -
  let ?e = "sample_entry 1 (ClockTime 1000 0) 60"
  obtain s1 where s1: "store_notifications [?e] (provider_memory_init False 0) = (Inr (), s1)"
    using sample_claim(2) by (simp add: bindE_def ok_def astore_notification_def sample_entry_def)
  have "\<forall>l\<in>set sample_listeners. never_cancelled l ?e"
    by (simp add: sample_listeners_def never_cancelled_def)
  moreover have "expected_calls sample_listeners ?e = [FilterCall (sample_listeners ! 0) ?e, CallbackCall (sample_listeners ! 1) ?e,
      FilterCall (sample_listeners ! 2) ?e, CallbackCall (sample_listeners ! 2) ?e, CallbackCall (sample_listeners ! 3) ?e]"
    by (simp add: sample_listeners_def expected_calls_def accepts_def sample_entry_def eval_nat_numeral)
  ultimately show ?thesis
    using notifications_reach_every_listener[OF s1, of "[ClockTime 2000 0]" sample_listeners] s1
    unfolding Let_def by (auto simp: provider_memory_init_def)
qed

text \<open>
  C32. What a connected receiver decodes from the message of a valid notification stored on Redis
  is the notification with its payload, result and error as JSON normalises them (a tuple comes
  back as a list, a key as a string), and so is what a lookup returns right after, no
  worker having started to expire a copy of that id;
  if they are JSON documents it is the notification itself. Its instants lie before the year
  2242 (\<open>2 ^ 33\<close> seconds), and no dictionary in it has a float as a key.
\<close>

theorem redis_notification_roundtrip:
  assumes "redis_server (rx_server X)" "rx_ready X = Inr ()" "entry_valid e" "entry_wire_times e"
    "r_get (rx_server X) s (NotificationLeaseKey (qe_id e)) = None"
    "rp_astore_notification X now e s = (Inr d, s')"
  shows "redis_notification_next (Some \<lparr>pm_type = ''message'', pm_data = VDoc d\<rparr>) = Some (json_normalised e) \<and>
    rp_aget_notification X (qe_id e) s' = (Inr (json_normalised e), s') \<and>
    (json_doc (qe_payload e) \<and> json_doc (qe_result e) \<and> json_doc (qe_error e) \<longrightarrow> json_normalised e = e)"
proof -
  obtain lifetime us where w: "qe_timeout_seconds e = Some lifetime" "wire e = Inr d" "to_us lifetime = Inr us"
      "s' = r_zadd (rx_server X) NotificationDeadlinesKey (qe_id e) (now_us now + us)
        (r_set (rx_server X) (NotificationKey (qe_id e)) (VDoc d) s)"
    using assms(2,6) by (auto simp: rp_astore_notification_def bindE_lift fcall_cases lua_notification_store_def
        split: option.splits sum.splits)
  then have "from_dict d = Inr (json_normalised e)" using entry_wire_normalises[OF assms(3,4)] by simp
  with w assms json_normalised_doc[of e] show ?thesis
    by (simp add: redis_notification_next_def rp_aget_notification_def bindE_def fcall_cases lua_notification_get_def
        redis_server.get_zadd redis_server.get_set)
qed

theorem redis_notification_roundtrip_witness:
  "\<exists>d s'. rp_astore_notification sample_redis (1000, 0) sample_job db_empty = (Inr d, s') \<and>
     redis_notification_next (Some \<lparr>pm_type = ''message'', pm_data = VDoc d\<rparr>) = Some sample_job"
proof -
  obtain d where d: "wire sample_job = Inr d" using sample_wire by blast
  have "to_us (PyInt 60) = Inr 60000000" by (simp add: to_us_def)
  then obtain s' where s': "rp_astore_notification sample_redis (1000, 0) sample_job db_empty = (Inr d, s')"
    using d by (simp add: rp_astore_notification_def bindE_lift fcall_cases lua_notification_store_def sample_entry_def)
  have "entry_wire_times sample_job" "json_doc (qe_payload sample_job)" "json_doc (qe_result sample_job)" "json_doc (qe_error sample_job)"
    by (simp_all add: entry_wire_times_def clock_ok_def sample_entry_def)
  with redis_notification_roundtrip[OF _ _ sample_entry_valid _ _ s'] s' show ?thesis
    using map_server.redis_server_axioms db_blank by (auto simp: redis_blank_def)
qed

text \<open>
  Enqueuing an event whose payload, lifetime and deadline are valid stores one queued,
  valid record with the lifetime of the call, of the queue or the default of 60 seconds, in
  this order, puts it last in the pending queue and sets the end of its unclaimed lifetime.
\<close>

lemma event_enqueued:
  assumes "validate_json_value payload = Inr ()"
    "validate_budget (resolve_lifetime timeout_seconds queue_timeout) = Inr n"
    "uuid_version u = Some 7" "name \<noteq> []" "clock_add t n = Inr deadline"
  shows "\<exists>e s'. memory_event_aenqueue queue_timeout name u (Inr t) payload timeout_seconds s = (Inr u, s') \<and>
    entry_valid e \<and> qe_status e = QUEUED \<and> qe_payload e = payload \<and> qe_timeout_seconds e = Some n \<and>
    mp_entries s' = dict_set u e (mp_entries s) \<and> mp_pending s' = mp_pending s @ [u] \<and>
    dict_get (mp_unclaimed_deadlines s') u = Some deadline"
proof -
  have "budget_ok n" using assms(2) by (simp add: validate_budget_Inr)
  then have e: "\<exists>e. entry_create u t (PStr name) payload (Some t) (PNum n) (PNum (PyInt 0)) = Inr e \<and>
      qe_id e = u \<and> qe_status e = QUEUED \<and> qe_queued_at e = t \<and> qe_payload e = payload \<and> qe_timeout_seconds e = Some n"
    using assms(1,3,4) validate_budget_Inr[of "PNum n" n]
    by (simp add: entry_create_def entry_post_init_def as_budget_opt_def validate_json_value_def validate_priority_def)
  then obtain e where "entry_create u t (PStr name) payload (Some t) (PNum n) (PNum (PyInt 0)) = Inr e"
      "qe_id e = u" "qe_status e = QUEUED" "qe_queued_at e = t" "qe_payload e = payload" "qe_timeout_seconds e = Some n" by blast
  moreover from this have "entry_valid e" using entry_post_init_valid by (auto simp: entry_create_def)
  ultimately show ?thesis using assms
    by (auto simp: memory_event_aenqueue_def transient_aenqueue_def bindE_lift astore_and_push_event_def astore_event_def
        apush_def bindE_def)
qed

lemma event_enqueued_sample:
  "\<exists>s'. memory_event_aenqueue None ''jobs'' (sample_id 1) (Inr (ClockTime 1000 0)) (PList [PNone, PStr ''x'']) PNone
       (provider_memory_init False 0) = (Inr (sample_id 1), s') \<and>
     dict_get (mp_unclaimed_deadlines s') (sample_id 1) = Some (ClockTime 1060 0)"
proof -
  have "validate_json_value (PList [PNone, PStr ''x'']) = Inr ()" by (simp add: validate_json_value_def)
  moreover have "validate_budget (resolve_lifetime PNone None) = Inr (PyInt 60)"
    by (simp add: resolve_lifetime_def validate_budget_Inr budget_ok_def int_to_float_exact)
  moreover have "uuid_version (sample_id 1) = Some 7" by (simp add: sample_id_def uuid_version_def)
  ultimately show ?thesis
    using event_enqueued[OF _ _ _ _ sample_claim(2), of "PList [PNone, PStr ''x'']" PNone None "sample_id 1" "''jobs''"] by blast
qed

lemma aclear_items: "aclear s = s\<lparr>mp_items := []\<rparr>"
proof (induction s rule: aclear.induct)
  case (1 s)
  show ?case
  proof (cases "mp_items s")
    case (Cons x xs)
    then show ?thesis using 1 by (subst aclear.simps) simp
  qed (subst aclear.simps, simp)
qed

lemma adelete_fields:
  "mp_items (adelete i s) = mp_items s" "keys (mp_entries (adelete i s)) = filter (\<lambda>k. k \<noteq> i) (keys (mp_entries s))"
  "keys (mp_claims (adelete i s)) = filter (\<lambda>k. k \<noteq> i) (keys (mp_claims s))"
  "mp_pending (adelete i s) = remove1 i (mp_pending s)"
  by (simp_all add: adelete_def adiscard_priority_def remove_pending_def)

lemma fold_adelete_fields:
  assumes "distinct (mp_pending s)"
  shows "mp_items (fold adelete is s) = mp_items s"
    "keys (mp_entries (fold adelete is s)) = filter (\<lambda>k. k \<notin> set is) (keys (mp_entries s))"
    "keys (mp_claims (fold adelete is s)) = filter (\<lambda>k. k \<notin> set is) (keys (mp_claims s))"
    "mp_pending (fold adelete is s) = filter (\<lambda>k. k \<notin> set is) (mp_pending s)"
  using assms
  by (induction "is" arbitrary: s) (simp_all add: adelete_fields remove1_distinct_filter conj_commute)

text \<open>
  C39. Clearing an event queue ends, and leaves nothing: no raw value, no record, no claim and no
  pending id, whatever was queued or being delivered, with enqueues that failed or are under
  way; it is not interrupted, and every pending id has its record.
\<close>

theorem event_clear_ends_empty:
  assumes "event_inv Q F now s" "set (mp_pending s) \<subseteq> dkeys (mp_entries s)" "\<forall>(i, e) \<in> set (mp_entries s). qe_id e = i"
  shows "mp_items (event_aclear s) = [] \<and> mp_entries (event_aclear s) = [] \<and> mp_claims (event_aclear s) = [] \<and>
    mp_pending (event_aclear s) = []"
proof -
  have st: "event_struct Q F s" using assms(1) by (simp add: event_inv_def)
  have ids: "map qe_id (alist (aclear s)) = keys (mp_entries s)"
    using assms(3) by (auto simp: alist_def aclear_items)
  have sub: "set (mp_pending s) \<subseteq> set (keys (mp_entries s))" "set (keys (mp_claims s)) \<subseteq> set (keys (mp_entries s))"
    unfolding set_keys using st assms(2) by (simp_all add: event_struct_def)
  have "distinct (mp_pending (aclear s))" using st by (simp add: event_struct_def aclear_items)
  note fields = fold_adelete_fields[OF this, of "keys (mp_entries s)"]
  have "mp_items (event_aclear s) = []" "keys (mp_entries (event_aclear s)) = []" "keys (mp_claims (event_aclear s)) = []"
      "mp_pending (event_aclear s) = []"
    unfolding event_aclear_def Let_def ids fields using sub by (simp_all only: aclear_items) (auto simp: filter_empty_conv)
  then show ?thesis by simp
qed

theorem event_clear_ends_empty_witness:
  "mp_entries sample_memory \<noteq> [] \<and> mp_entries (event_aclear sample_memory) = [] \<and> mp_claims (event_aclear sample_memory) = []"
proof -
  have "event_inv {} {} (ClockTime 1001 0) sample_memory" using event_reachable_inv[OF sample_events_reachable] by simp
  moreover have "set (mp_pending sample_memory) \<subseteq> dkeys (mp_entries sample_memory)"
      "\<forall>(i, e) \<in> set (mp_entries sample_memory). qe_id e = i" "mp_entries sample_memory \<noteq> []"
    by (simp_all add: sample_memory_def sample_events_def provider_memory_init_def)
  ultimately show ?thesis using event_clear_ends_empty by blast
qed

text \<open>
  A lifetime whose end is not an instant any more fails after the record was stored: the event
  is kept in the table of records, but it is neither pending nor does it ever expire.
\<close>

lemma endless_event_is_orphaned:
  assumes "qe_timeout_seconds e = Some n" "clock_add (qe_queued_at e) n = Inl err"
  shows "astore_and_push_event e s = (Inl err, s\<lparr>mp_entries := dict_set (qe_id e) e (mp_entries s)\<rparr>)"
  using assms by (simp add: astore_and_push_event_def astore_event_def bindE_def)

end
