(* ===== verification/Py_Heap.thy ===== *)
theory Py_Heap
  imports DQ_Prelude
begin

text \<open>
  Python's \<^verbatim>\<open>heapq\<close>, which \<^verbatim>\<open>queue.PriorityQueue\<close> keeps its items with: a binary heap in an array, the
  children of position \<open>i\<close> at \<open>2 * i + 1\<close> and \<open>2 * i + 2\<close>. The routines exchange elements as the
  compiled module does, so an exception of a comparison leaves every element in the array. A
  comparison is the items' \<^verbatim>\<open>__lt__\<close> and may raise.
\<close>

section \<open>The routines\<close>

definition parent :: "nat \<Rightarrow> nat" where
  "parent i = (i - 1) div 2"

definition swap :: "nat \<Rightarrow> nat \<Rightarrow> 'a list \<Rightarrow> 'a list" where
  "swap i j h = h[i := h ! j, j := h ! i]"

function siftdown :: "('a \<Rightarrow> 'a \<Rightarrow> bool result) \<Rightarrow> nat \<Rightarrow> nat \<Rightarrow> (unit, 'a list) prog" where
  "siftdown lt startpos pos h =
     (if pos \<le> startpos then (Inr (), h)
      else
        (case lt (h ! pos) (h ! parent pos) of
           Inl err \<Rightarrow> (Inl err, h)
         | Inr False \<Rightarrow> (Inr (), h)
         | Inr True \<Rightarrow> siftdown lt startpos (parent pos) (swap pos (parent pos) h)))"
  by pat_completeness auto
termination by (relation "measure (\<lambda>(_, _, pos, _). pos)") (auto simp: parent_def)

declare siftdown.simps [simp del]

text \<open>The smaller child of a position, the right one unless the left one is smaller.\<close>

definition smaller_child :: "('a \<Rightarrow> 'a \<Rightarrow> bool result) \<Rightarrow> nat \<Rightarrow> 'a list \<Rightarrow> nat result" where
  "smaller_child lt pos h =
     (if 2 * pos + 2 < length h
      then bindR (lt (h ! (2 * pos + 1)) (h ! (2 * pos + 2))) (\<lambda>less. Inr (if less then 2 * pos + 1 else 2 * pos + 2))
      else Inr (2 * pos + 1))"

lemma smaller_child_cases: "smaller_child lt pos h = Inr c \<Longrightarrow> c = 2 * pos + 1 \<or> c = 2 * pos + 2 \<and> c < length h"
  by (auto simp: smaller_child_def bindR_Inr_iff split: if_splits)

function sift_to_leaf :: "('a \<Rightarrow> 'a \<Rightarrow> bool result) \<Rightarrow> nat \<Rightarrow> (nat, 'a list) prog" where
  "sift_to_leaf lt pos h =
     (if pos < length h div 2 then
        (case smaller_child lt pos h of
           Inl err \<Rightarrow> (Inl err, h)
         | Inr child \<Rightarrow> sift_to_leaf lt child (swap pos child h))
      else (Inr pos, h))"
  by pat_completeness auto
termination
  by (relation "measure (\<lambda>(_, pos, h). length h - pos)") (auto simp: swap_def dest!: smaller_child_cases)

declare sift_to_leaf.simps [simp del]

definition siftup :: "('a \<Rightarrow> 'a \<Rightarrow> bool result) \<Rightarrow> nat \<Rightarrow> (unit, 'a list) prog" where
  "siftup lt pos = bindE (sift_to_leaf lt pos) (siftdown lt pos)"

definition heappush :: "('a \<Rightarrow> 'a \<Rightarrow> bool result) \<Rightarrow> 'a \<Rightarrow> (unit, 'a list) prog" where
  "heappush lt item h = siftdown lt 0 (length h) (h @ [item])"

text \<open>The last element fills the place of the first, which is returned; \<open>None\<close> is \<^verbatim>\<open>IndexError\<close>.\<close>

definition heappop :: "('a \<Rightarrow> 'a \<Rightarrow> bool result) \<Rightarrow> 'a list \<Rightarrow> ('a result \<times> 'a list) option" where
  "heappop lt h =
     (if h = [] then None
      else if butlast h = [] then Some (Inr (last h), [])
      else Some (bindE (siftup lt 0) (\<lambda>_. ok (hd h)) ((butlast h)[0 := last h])))"

text \<open>From the last position with a child to the first.\<close>

primrec heapify_from :: "('a \<Rightarrow> 'a \<Rightarrow> bool result) \<Rightarrow> nat \<Rightarrow> (unit, 'a list) prog" where
  "heapify_from lt 0 h = (Inr (), h)"
| "heapify_from lt (Suc k) h = bindE (siftup lt k) (\<lambda>_. heapify_from lt k) h"

definition heapify :: "('a \<Rightarrow> 'a \<Rightarrow> bool result) \<Rightarrow> (unit, 'a list) prog" where
  "heapify lt h = heapify_from lt (length h div 2) h"

section \<open>Nothing is lost\<close>

text \<open>Whether or not a comparison raises, the array keeps its elements.\<close>

lemma length_swap [simp]: "length (swap i j h) = length h"
  by (simp add: swap_def)

lemma mset_swap_heap: "i < length h \<Longrightarrow> j < length h \<Longrightarrow> mset (swap i j h) = mset h"
  by (simp add: swap_def mset_swap)

lemma parent_less: "0 < i \<Longrightarrow> parent i < i"
  by (simp add: parent_def)

lemma siftdown_mset: "pos < length h \<Longrightarrow> siftdown lt startpos pos h = (r, h') \<Longrightarrow> mset h' = mset h"
proof (induction lt startpos pos h rule: siftdown.induct)
  case (1 lt startpos pos h)
  have "parent pos < length h" using 1(2) parent_less[of pos] by (cases pos) (auto simp: parent_def)
  with 1 show ?case
    by (subst (asm) siftdown.simps) (auto simp: mset_swap_heap split: if_splits sum.splits bool.splits)
qed

lemma sift_to_leaf_mset:
  "pos < length h \<Longrightarrow> sift_to_leaf lt pos h = (r, h') \<Longrightarrow>
     mset h' = mset h \<and> (\<forall>p. r = Inr p \<longrightarrow> p < length h)"
proof (induction lt pos h rule: sift_to_leaf.induct)
  case (1 lt pos h)
  have child: "c < length h" if "pos < length h div 2" "smaller_child lt pos h = Inr c" for c
    using smaller_child_cases[OF that(2)] that(1) by auto
  show ?case
  proof (cases "pos < length h div 2")
    case True
    then show ?thesis
      using 1 child by (subst (asm) (2) sift_to_leaf.simps) (auto simp: mset_swap_heap split: sum.splits)
  qed (use 1 in \<open>auto simp: sift_to_leaf.simps[of lt pos h]\<close>)
qed

lemma siftup_mset:
  assumes "pos < length h" "siftup lt pos h = (r, h')"
  shows "mset h' = mset h"
proof -
  obtain q u where u: "sift_to_leaf lt pos h = (q, u)" by (metis surj_pair)
  note leaf = sift_to_leaf_mset[OF assms(1) u]
  then have "length u = length h" using mset_eq_length by blast
  then have "siftdown lt pos p u = (r, h') \<Longrightarrow> q = Inr p \<Longrightarrow> mset h' = mset u" for p
    using siftdown_mset[of p u] leaf by simp
  then show ?thesis using assms(2) leaf u by (cases q) (auto simp: siftup_def bindE_def)
qed

lemma heappush_mset: "heappush lt x h = (r, h') \<Longrightarrow> mset h' = add_mset x (mset h)"
  unfolding heappush_def by (drule siftdown_mset[rotated]) simp_all

lemma heapify_from_mset: "k \<le> length h \<Longrightarrow> heapify_from lt k h = (r, h') \<Longrightarrow> mset h' = mset h"
proof (induction k arbitrary: h)
  case (Suc k)
  obtain q u where u: "siftup lt k h = (q, u)" by (metis surj_pair)
  have m: "mset u = mset h" using siftup_mset[OF _ u] Suc.prems(1) by simp
  then have "length u = length h" using mset_eq_length by blast
  then show ?case using Suc.prems Suc.IH[of u] u m by (cases q) (auto simp: bindE_def)
qed simp

lemma heapify_mset: "heapify lt h = (r, h') \<Longrightarrow> mset h' = mset h"
  by (auto simp: heapify_def elim!: heapify_from_mset[rotated])

text \<open>Taking out loses the element it would have returned when a comparison raises, and nothing else.\<close>

lemma heappop_mset:
  assumes "heappop lt h = Some (r, h')"
  shows "mset h = add_mset (hd h) (mset h') \<and> (\<forall>x. r = Inr x \<longrightarrow> x = hd h)"
proof -
  obtain x h0 where h: "h = x # h0" using assms by (cases h) (auto simp: heappop_def)
  show ?thesis
  proof (cases "h0 = []")
    case True
    with assms h show ?thesis by (auto simp: heappop_def)
  next
    case False
    then obtain l z where h0: "h0 = l @ [z]" by (cases h0 rule: rev_exhaust) auto
    obtain q u where s: "siftup lt 0 (z # l) = (q, u)" by (metis surj_pair)
    have "mset u = mset (z # l)" using siftup_mset[OF _ s] by simp
    with assms h h0 s show ?thesis by (auto simp: heappop_def bindE_def split: sum.splits)
  qed
qed

section \<open>The heap under a total order\<close>

text \<open>A position under another one, in the tree the array stands for.\<close>

inductive desc :: "nat \<Rightarrow> nat \<Rightarrow> bool" for apex where
  desc_top: "desc apex apex"
| desc_left: "desc apex p \<Longrightarrow> desc apex (2 * p + 1)"
| desc_right: "desc apex p \<Longrightarrow> desc apex (2 * p + 2)"

lemma desc_ge: "desc apex p \<Longrightarrow> apex \<le> p"
  by (induction rule: desc.induct) auto

lemma desc_parent: "desc apex p \<Longrightarrow> p \<noteq> apex \<Longrightarrow> desc apex (parent p) \<and> apex \<le> parent p"
  by (cases rule: desc.cases) (auto simp: parent_def dest: desc_ge)

lemma desc_zero: "desc 0 p"
proof (induction p rule: less_induct)
  case (less p)
  show ?case
  proof (cases p)
    case (Suc q)
    then have d: "desc 0 (q div 2)" using less by simp
    have "p = 2 * (q div 2) + 1 \<or> p = 2 * (q div 2) + 2" using Suc by presburger
    then show ?thesis using desc_left[OF d] desc_right[OF d] by metis
  qed (simp add: desc_top)
qed

lemma child_of_parent: "0 < i \<Longrightarrow> i = 2 * parent i + 1 \<or> i = 2 * parent i + 2"
  unfolding parent_def by presburger

lemma parent_children [simp]: "parent (2 * p + 1) = p" "parent (2 * p + 2) = p" "parent (Suc (2 * p)) = p" "parent (Suc (Suc (2 * p))) = p"
  by (simp_all add: parent_def)

lemma parent_neq: "0 < i \<Longrightarrow> parent i \<noteq> i"
  using parent_less[of i] by simp

lemma swap_nth:
  "i < length h \<Longrightarrow> j < length h \<Longrightarrow> swap i j h ! k = (if k = i then h ! j else if k = j then h ! i else h ! k)"
  by (auto simp: swap_def nth_list_update)

text \<open>
  What the heap needs of the items in it: comparing two of them does not raise and compares their
  keys. \<open>heap_from k\<close> is the order on the subtrees below position \<open>k\<close>.
\<close>

locale heap_order =
  fixes lt :: "'a \<Rightarrow> 'a \<Rightarrow> bool result" and key :: "'a \<Rightarrow> 'k::linorder" and item :: "'a \<Rightarrow> bool"
  assumes compares: "item x \<Longrightarrow> item y \<Longrightarrow> lt x y = Inr (key x < key y)"
begin

definition ordered_at :: "'a list \<Rightarrow> nat \<Rightarrow> bool" where
  "ordered_at h i \<longleftrightarrow> key (h ! parent i) \<le> key (h ! i)"

definition heap_from :: "nat \<Rightarrow> 'a list \<Rightarrow> bool" where
  "heap_from k h \<longleftrightarrow> (\<forall>i < length h. 0 < i \<longrightarrow> k \<le> parent i \<longrightarrow> ordered_at h i)"

definition bypass :: "nat \<Rightarrow> nat \<Rightarrow> 'a list \<Rightarrow> bool" where
  "bypass k p h \<longleftrightarrow>
     (0 < p \<longrightarrow> k \<le> parent p \<longrightarrow> (\<forall>c < length h. 0 < c \<longrightarrow> parent c = p \<longrightarrow> key (h ! parent p) \<le> key (h ! c)))"

definition rising :: "nat \<Rightarrow> nat \<Rightarrow> 'a list \<Rightarrow> bool" where
  "rising k p h \<longleftrightarrow> (\<forall>i < length h. 0 < i \<longrightarrow> i \<noteq> p \<longrightarrow> k \<le> parent i \<longrightarrow> ordered_at h i) \<and> bypass k p h"

definition sinking :: "nat \<Rightarrow> nat \<Rightarrow> 'a list \<Rightarrow> bool" where
  "sinking k p h \<longleftrightarrow>
     (\<forall>i < length h. 0 < i \<longrightarrow> i \<noteq> p \<longrightarrow> parent i \<noteq> p \<longrightarrow> k \<le> parent i \<longrightarrow> ordered_at h i) \<and> bypass k p h"

definition is_heap :: "'a list \<Rightarrow> bool" where
  "is_heap h \<longleftrightarrow> heap_from 0 h \<and> (\<forall>x \<in> set h. item x)"

lemma lt_nth: "\<forall>x \<in> set h. item x \<Longrightarrow> i < length h \<Longrightarrow> j < length h \<Longrightarrow> lt (h ! i) (h ! j) = Inr (key (h ! i) < key (h ! j))"
  by (simp add: compares)

lemma rising_step:
  assumes "rising k p h" "p < length h" "0 < p" "k \<le> parent p" "key (h ! p) < key (h ! parent p)"
  shows "rising k (parent p) (swap p (parent p) h)"
proof -
  let ?q = "parent p" and ?h = "swap p (parent p) h"
  have q: "?q < p" "?q < length h" using assms(2,3) parent_less[of p] by auto
  have nth: "?h ! j = (if j = p then h ! ?q else if j = ?q then h ! p else h ! j)" for j
    using q assms(2) by (simp add: swap_nth)
  have o: "i < length h \<Longrightarrow> 0 < i \<Longrightarrow> i \<noteq> p \<Longrightarrow> k \<le> parent i \<Longrightarrow> key (h ! parent i) \<le> key (h ! i)" for i
    using assms(1) by (simp add: rising_def ordered_at_def)
  have b: "c < length h \<Longrightarrow> 0 < c \<Longrightarrow> parent c = p \<Longrightarrow> key (h ! ?q) \<le> key (h ! c)" for c
    using assms(1,3,4) by (simp add: rising_def bypass_def)
  have "ordered_at ?h i" if "i < length h" "0 < i" "i \<noteq> ?q" "k \<le> parent i" for i
    using o[OF that(1,2) _ that(4)] b[OF that(1,2)] assms(5) that(3) parent_neq[OF that(2)]
    unfolding ordered_at_def nth by auto
  moreover have "key (?h ! parent ?q) \<le> key (?h ! c)" if c: "0 < ?q" "k \<le> parent ?q" "c < length h" "0 < c" "parent c = ?q" for c
  proof -
    have up: "key (h ! parent ?q) \<le> key (h ! ?q)" using o[of ?q] q c(1,2) by simp
    have "key (h ! ?q) \<le> key (h ! c)" if "c \<noteq> p" using o[OF c(3,4) that] c(5) assms(4) by simp
    moreover have "parent ?q \<noteq> p" "parent ?q \<noteq> ?q" "c \<noteq> ?q" using q parent_less[OF c(1)] parent_neq[OF c(4)] c(5) by auto
    ultimately show ?thesis using up unfolding nth by auto
  qed
  ultimately show ?thesis by (simp add: rising_def bypass_def)
qed

lemma siftdown_heap:
  "rising k p h \<Longrightarrow> desc k p \<Longrightarrow> p < length h \<Longrightarrow> \<forall>x \<in> set h. item x \<Longrightarrow>
     \<exists>h'. siftdown lt k p h = (Inr (), h') \<and> heap_from k h'"
proof (induction p arbitrary: h rule: less_induct)
  case (less p)
  show ?case
  proof (cases "p = k")
    case True
    then have "heap_from k h" using less.prems(1) parent_less[of k] by (auto simp: rising_def heap_from_def not_less[symmetric])
    then show ?thesis using True by (simp add: siftdown.simps)
  next
    case False
    then have p: "k < p" "desc k (parent p)" "k \<le> parent p" "parent p < p"
      using desc_ge[OF less.prems(2)] desc_parent[OF less.prems(2)] parent_less[of p] by auto
    have cmp: "lt (h ! p) (h ! parent p) = Inr (key (h ! p) < key (h ! parent p))"
      using less.prems(3,4) p(4) by (simp add: lt_nth)
    show ?thesis
    proof (cases "key (h ! p) < key (h ! parent p)")
      case True
      have "set (swap p (parent p) h) = set h" using mset_swap_heap[of p h "parent p"] less.prems(3) p(4) by (metis order.strict_trans set_mset_mset)
      with less.IH[OF p(4) rising_step[OF less.prems(1,3) _ p(3) True] p(2)] less.prems(3,4) p cmp True show ?thesis
        by (simp add: siftdown.simps[of lt k p])
    next
      case False
      then have "heap_from k h" using less.prems(1) by (auto simp: rising_def heap_from_def ordered_at_def)
      then show ?thesis using cmp False p(1) by (simp add: siftdown.simps[of lt k p])
    qed
  qed
qed

lemma smaller_child_min:
  assumes "\<forall>x \<in> set h. item x" "2 * p + 1 < length h"
  shows "\<exists>c. smaller_child lt p h = Inr c \<and> c < length h \<and> parent c = p \<and> 0 < c \<and>
    (\<forall>i < length h. 0 < i \<longrightarrow> parent i = p \<longrightarrow> key (h ! c) \<le> key (h ! i))"
proof (cases "2 * p + 2 < length h")
  case True
  define l r where lr: "l = 2 * p + 1" "r = 2 * p + 2"
  have child: "i = l \<or> i = r" if "0 < i" "parent i = p" for i
    using child_of_parent[OF that(1)] unfolding that(2) lr .
  have bounds: "l < length h" "r < length h" "0 < l" "0 < r" "parent l = p" "parent r = p" using True by (simp_all add: lr)
  have "smaller_child lt p h = Inr (if key (h ! l) < key (h ! r) then l else r)"
    using True assms(1) bounds lt_nth[of h l r] by (simp add: smaller_child_def lr)
  moreover have "key (h ! (if key (h ! l) < key (h ! r) then l else r)) \<le> key (h ! i)" if "0 < i" "parent i = p" for i
    using child[OF that] by auto
  ultimately show ?thesis using bounds by (intro exI[of _ "if key (h ! l) < key (h ! r) then l else r"]) simp
next
  case False
  have "i = 2 * p + 1" if "0 < i" "parent i = p" "i < length h" for i using child_of_parent[OF that(1)] that(2,3) False by auto
  then show ?thesis using False assms(2) by (intro exI[of _ "2 * p + 1"]) (auto simp: smaller_child_def)
qed

lemma sinking_step:
  assumes "sinking k p h" "p < length h" "k \<le> p" "c < length h" "0 < c" "parent c = p"
    and least: "\<And>i. i < length h \<Longrightarrow> 0 < i \<Longrightarrow> parent i = p \<Longrightarrow> key (h ! c) \<le> key (h ! i)"
  shows "sinking k c (swap p c h)"
proof -
  let ?h = "swap p c h"
  have pc: "p < c" using parent_less[OF assms(5)] assms(6) by simp
  have nth: "?h ! j = (if j = p then h ! c else if j = c then h ! p else h ! j)" for j
    using assms(2,4) by (simp add: swap_nth)
  have o: "i < length h \<Longrightarrow> 0 < i \<Longrightarrow> i \<noteq> p \<Longrightarrow> parent i \<noteq> p \<Longrightarrow> k \<le> parent i \<Longrightarrow> key (h ! parent i) \<le> key (h ! i)" for i
    using assms(1) by (simp add: sinking_def ordered_at_def)
  have b: "0 < p \<Longrightarrow> k \<le> parent p \<Longrightarrow> key (h ! parent p) \<le> key (h ! c)"
    using assms(1,4-6) by (simp add: sinking_def bypass_def)
  have "ordered_at ?h i" if i: "i < length h" "0 < i" "i \<noteq> c" "parent i \<noteq> c" "k \<le> parent i" for i
  proof (cases "i = p")
    case True
    then show ?thesis using b i(2,4,5) parent_neq[OF i(2)] pc by (simp add: ordered_at_def nth)
  next
    case False
    then show ?thesis using o[OF i(1,2) False _ i(5)] least[OF i(1,2)] i(3,4) by (auto simp: ordered_at_def nth)
  qed
  moreover have "key (?h ! parent c) \<le> key (?h ! d)" if d: "d < length h" "0 < d" "parent d = c" for d
    using o[OF d(1,2)] d(3) pc assms(3,6) parent_less[OF d(2)] by (simp add: nth)
  ultimately show ?thesis by (simp add: sinking_def bypass_def)
qed

lemma sift_to_leaf_rising:
  "sinking k p h \<Longrightarrow> desc k p \<Longrightarrow> p < length h \<Longrightarrow> \<forall>x \<in> set h. item x \<Longrightarrow>
     \<exists>p' h'. sift_to_leaf lt p h = (Inr p', h') \<and> rising k p' h' \<and> desc k p' \<and> p' < length h' \<and> mset h' = mset h"
proof (induction "length h - p" arbitrary: p h rule: less_induct)
  case less
  show ?case
  proof (cases "p < length h div 2")
    case True
    then have "2 * p + 1 < length h" by linarith
    then obtain c where c: "smaller_child lt p h = Inr c" "c < length h" "parent c = p" "0 < c"
      "\<And>i. i < length h \<Longrightarrow> 0 < i \<Longrightarrow> parent i = p \<Longrightarrow> key (h ! c) \<le> key (h ! i)"
      using smaller_child_min[OF less.prems(4)] by blast
    have m: "mset (swap p c h) = mset h" using c(2) less.prems(3) by (rule mset_swap_heap[rotated])
    then have items: "\<forall>x \<in> set (swap p c h). item x" using less.prems(4) by (metis set_mset_mset)
    have "desc k c" using child_of_parent[OF c(4)] c(3) desc_left[OF less.prems(2)] desc_right[OF less.prems(2)] by metis
    moreover have "length (swap p c h) - c < length h - p" using parent_less[OF c(4)] c(2,3) by simp
    moreover have "sinking k c (swap p c h)" by (rule sinking_step[OF less.prems(1,3) desc_ge[OF less.prems(2)] c(2,4,3,5)])
    ultimately obtain p' h' where "sift_to_leaf lt c (swap p c h) = (Inr p', h')" "rising k p' h'" "desc k p'" "p' < length h'"
      "mset h' = mset (swap p c h)"
      using less.hyps[of "swap p c h" c] items c(2) by auto
    moreover have "sift_to_leaf lt p h = sift_to_leaf lt c (swap p c h)" using c(1) True by (simp add: sift_to_leaf.simps[of lt p h])
    ultimately show ?thesis using m by auto
  next
    case False
    then have leaf: "i < length h \<Longrightarrow> 0 < i \<Longrightarrow> parent i \<noteq> p" for i using child_of_parent[of i] by (cases "parent i = p") auto
    then have "rising k p h" using less.prems(1) by (simp add: rising_def sinking_def)
    then show ?thesis using False less.prems by (simp add: sift_to_leaf.simps[of lt p h])
  qed
qed

lemma siftup_heap:
  assumes "heap_from (Suc k) h" "k < length h" "\<forall>x \<in> set h. item x"
  shows "\<exists>h'. siftup lt k h = (Inr (), h') \<and> heap_from k h'"
proof -
  have "sinking k k h"
    using assms(1) parent_less[of k] by (auto simp: sinking_def heap_from_def bypass_def)
  then obtain p h' where p: "sift_to_leaf lt k h = (Inr p, h')" "rising k p h'" "desc k p" "p < length h'" "mset h' = mset h"
    using sift_to_leaf_rising[OF _ desc_top assms(2,3)] by blast
  then have "\<forall>x \<in> set h'. item x" using assms(3) by (metis set_mset_mset)
  with siftdown_heap[OF p(2-4)] p(1) show ?thesis by (auto simp: siftup_def)
qed

lemma heappush_heap:
  assumes "is_heap h" "item x"
  shows "\<exists>h'. heappush lt x h = (Inr (), h') \<and> is_heap h'"
proof -
  have par: "parent i < length h" if "i < length h" "0 < i" for i using parent_less[OF that(2)] that(1) by simp
  have "parent c \<noteq> length h" if "c < Suc (length h)" "0 < c" for c using parent_less[OF that(2)] that(1) by simp
  then have "rising 0 (length h) (h @ [x])"
    using assms(1) par by (auto simp: rising_def bypass_def is_heap_def heap_from_def ordered_at_def nth_append)
  then obtain h' where h': "heappush lt x h = (Inr (), h')" "heap_from 0 h'"
    using siftdown_heap[OF _ desc_zero, of "length h" "h @ [x]"] assms by (auto simp: heappush_def is_heap_def)
  then have "set h' = insert x (set h)" using heappush_mset[OF h'(1)] by (metis set_mset_add_mset_insert set_mset_mset)
  then show ?thesis using h' assms by (auto simp: is_heap_def)
qed

lemma heap_root_least:
  assumes "is_heap h" "i < length h"
  shows "key (h ! 0) \<le> key (h ! i)"
  using assms(2)
proof (induction i rule: less_induct)
  case (less i)
  show ?case
  proof (cases "i = 0")
    case False
    then have "parent i < i" by (simp add: parent_less)
    then show ?thesis using less.IH[of "parent i"] less.prems assms(1) False
      by (auto simp: is_heap_def heap_from_def ordered_at_def)
  qed simp
qed

lemma heappop_heap:
  assumes "is_heap h" "h \<noteq> []"
  shows "\<exists>x h'. heappop lt h = Some (Inr x, h') \<and> mset h = add_mset x (mset h') \<and> is_heap h' \<and> (\<forall>y \<in> set h. key x \<le> key y)"
proof -
  have least: "\<forall>y \<in> set h. key (hd h) \<le> key y" using heap_root_least[OF assms(1)] assms(2) by (auto simp: in_set_conv_nth hd_conv_nth)
  show ?thesis
  proof (cases "butlast h = []")
    case True
    then obtain x where "h = [x]" using assms(2) by (cases h) (auto split: if_splits)
    then show ?thesis by (simp add: heappop_def is_heap_def heap_from_def)
  next
    case False
    let ?g = "(butlast h)[0 := last h]"
    have up: "i < length h - 1 \<Longrightarrow> 0 < i \<Longrightarrow> Suc 0 \<le> parent i \<Longrightarrow> ordered_at ?g i" for i
      using assms(1) parent_less[of i] by (simp add: is_heap_def heap_from_def ordered_at_def nth_butlast)
    have "set ?g \<subseteq> set h" using set_update_subset_insert[of "butlast h" 0 "last h"] assms(2) by (auto dest: in_set_butlastD)
    then have "\<forall>x \<in> set ?g. item x" using assms(1) by (auto simp: is_heap_def)
    moreover have "heap_from (Suc 0) ?g" using up by (simp add: heap_from_def)
    moreover have "0 < length ?g" using False by (simp only: length_list_update length_greater_0_conv not_False_eq_True)
    ultimately obtain h' where h': "siftup lt 0 ?g = (Inr (), h')" "heap_from 0 h'"
      using siftup_heap by blast
    then have pop: "heappop lt h = Some (Inr (hd h), h')" using False assms(2) by (simp add: heappop_def)
    from heappop_mset[OF pop] have m: "mset h = add_mset (hd h) (mset h')" by simp
    then have "set h' \<subseteq> set h" by (metis set_mset_mset set_mset_add_mset_insert subset_insertI)
    then show ?thesis using pop m least h'(2) assms(1) by (auto simp: is_heap_def)
  qed
qed

lemma heapify_from_heap:
  "heap_from k h \<Longrightarrow> k \<le> length h \<Longrightarrow> \<forall>x \<in> set h. item x \<Longrightarrow> \<exists>h'. heapify_from lt k h = (Inr (), h') \<and> heap_from 0 h'"
proof (induction k arbitrary: h)
  case (Suc k)
  then obtain u where u: "siftup lt k h = (Inr (), u)" "heap_from k u" using siftup_heap[of k h] by auto
  then have m: "mset u = mset h" using siftup_mset[OF _ u(1)] Suc.prems(2) by simp
  then have "length u = length h" "\<forall>x \<in> set u. item x" using Suc.prems(3) mset_eq_length by (blast, metis set_mset_mset)
  then show ?case using Suc.IH[OF u(2)] Suc.prems(2) u(1) by simp
qed simp

lemma heapify_heap:
  assumes "\<forall>x \<in> set h. item x"
  shows "\<exists>h'. heapify lt h = (Inr (), h') \<and> is_heap h' \<and> mset h' = mset h"
proof -
  have "\<not> (i < length h \<and> 0 < i \<and> length h div 2 \<le> parent i)" for i unfolding parent_def by presburger
  then have "heap_from (length h div 2) h" by (auto simp: heap_from_def)
  then obtain h' where h': "heapify lt h = (Inr (), h')" "heap_from 0 h'"
    using heapify_from_heap[of "length h div 2" h] assms by (auto simp: heapify_def)
  then have "mset h' = mset h" by (simp add: heapify_mset)
  then show ?thesis using h' assms by (metis is_heap_def set_mset_mset)
qed

text \<open>With distinct keys the order of service is the sorted order.\<close>

lemma heappop_sort_key:
  assumes "is_heap h" "h \<noteq> []" "inj_on key (set h)"
  shows "\<exists>x h'. heappop lt h = Some (Inr x, h') \<and> is_heap h' \<and> sort_key key h = x # sort_key key h' \<and>
    set h' \<subseteq> set h \<and> length h = Suc (length h')"
proof -
  obtain x h' where x: "heappop lt h = Some (Inr x, h')" "mset h = add_mset x (mset h')" "is_heap h'" "\<forall>y \<in> set h. key x \<le> key y"
    using heappop_heap[OF assms(1,2)] by blast
  then have s: "set h' \<subseteq> set h" "length h = Suc (length h')"
    using mset_eq_length[of h "x # h'"] by (auto simp: x(2) simp flip: set_mset_mset)
  have "sort_key key h = x # sort_key key h'"
    by (rule sort_key_inj_key_eq[OF _ assms(3)]) (use x s in auto)
  then show ?thesis using x s by blast
qed

end

end
