(* ===== verification/Memory_Priority.thy ===== *)
theory Memory_Priority
  imports Memory_Queue Py_Heap Py_Text
begin

text \<open>
  The two heaps of \<^verbatim>\<open>backends/memory/provider.py\<close>. The heap of waiting entries, which \<open>Memory_Provider\<close>
  keeps as a sorted list, is here the array \<^verbatim>\<open>queue.PriorityQueue\<close> keeps, and every sequence of calls
  gives the same results on both. The heap of raw values holds pairs of a priority and an arbitrary
  value, whose comparison may raise.
\<close>

section \<open>The heap of entries\<close>

text \<open>Comparison of the triples: integers, then integers, then identifiers; it never raises.\<close>

definition entry_lt :: "int \<times> nat \<times> uuid \<Rightarrow> int \<times> nat \<times> uuid \<Rightarrow> bool result" where
  "entry_lt x y = Inr (x < y)"

interpretation entry_heap: heap_order entry_lt "\<lambda>x. x" "\<lambda>_. True"
  by unfold_locales (simp add: entry_lt_def)

text \<open>The operations on the array. A comparison that raised would leave the array as it is then.\<close>

definition heap_apush_priority :: "uuid \<Rightarrow> int \<Rightarrow> (unit, provider_memory) prog" where
  "heap_apush_priority i priority s =
     (let sequence = mp_pending_priority_sequence s + 1 in
      case heappush entry_lt (- priority, sequence, i) (mp_pending_priority s) of
        (r, h) \<Rightarrow> (r, s\<lparr>mp_pending_priority_sequence := sequence, mp_pending_priority := h\<rparr>))"

definition heap_apop_priority :: "(queue_entry, provider_memory) prog" where
  "heap_apop_priority s =
     (case heappop entry_lt (mp_pending_priority s) of
        None \<Rightarrow> (Inl QueueEmptyException, s)
      | Some (r, h) \<Rightarrow>
          let s' = s\<lparr>mp_pending_priority := h\<rparr> in
          case r of
            Inl err \<Rightarrow> (Inl err, s')
          | Inr (_, _, i) \<Rightarrow>
              (case dict_get (mp_entries s) i of
                 None \<Rightarrow> (Inl (QueueEntryNotFoundError i), s')
               | Some e \<Rightarrow> (Inr e, s')))"

definition heap_adiscard_priority :: "uuid \<Rightarrow> (unit, provider_memory) prog" where
  "heap_adiscard_priority i s =
     (case heapify entry_lt (filter (\<lambda>item. snd (snd item) \<noteq> i) (mp_pending_priority s)) of
        (r, h) \<Rightarrow> (r, s\<lparr>mp_pending_priority := h\<rparr>))"

text \<open>The array stands for the sorted list of its elements.\<close>

definition stands_for :: "provider_memory \<Rightarrow> provider_memory \<Rightarrow> bool" where
  "stands_for s t \<longleftrightarrow>
     entry_heap.is_heap (mp_pending_priority s) \<and> t = s\<lparr>mp_pending_priority := sort (mp_pending_priority s)\<rparr>"

lemma sort_of_mset: "mset xs = mset ys \<Longrightarrow> sort xs = sort (ys :: 'a::linorder list)"
  by (metis mset_sort properties_for_sort sorted_sort)

lemma sort_insort: "mset xs = add_mset x (mset ys) \<Longrightarrow> sort xs = insort x (sort (ys :: 'a::linorder list))"
  by (rule properties_for_sort) (simp_all add: sorted_insort)

lemma sort_least:
  assumes "mset xs = add_mset x (mset ys)" "\<forall>y \<in> set xs. x \<le> (y :: 'a::linorder)"
  shows "sort xs = x # sort ys"
proof (rule properties_for_sort)
  have "set ys \<subseteq> set xs" using assms(1) by (metis set_mset_add_mset_insert set_mset_mset subset_insertI)
  then show "sorted (x # sort ys)" using assms(2) by auto
qed (simp add: assms(1))

lemma stands_for_push:
  assumes "stands_for s t"
  shows "\<exists>s'. heap_apush_priority i p s = (Inr (), s') \<and> stands_for s' (apush_priority i p t)"
proof -
  let ?x = "(- p, mp_pending_priority_sequence s + 1, i)"
  obtain h where h: "heappush entry_lt ?x (mp_pending_priority s) = (Inr (), h)" "entry_heap.is_heap h"
    using entry_heap.heappush_heap[of "mp_pending_priority s" ?x] assms by (auto simp: stands_for_def)
  have "sort h = insort ?x (sort (mp_pending_priority s))" using heappush_mset[OF h(1)] by (rule sort_insort)
  with h assms show ?thesis by (simp add: heap_apush_priority_def apush_priority_def stands_for_def)
qed

lemma stands_for_pop:
  assumes "stands_for s t" "apop_priority t = (r, t')"
  shows "\<exists>s'. heap_apop_priority s = (r, s') \<and> stands_for s' t'"
proof (cases "mp_pending_priority s = []")
  case True
  with assms show ?thesis by (auto simp: heap_apop_priority_def apop_priority_def stands_for_def heappop_def)
next
  case False
  then obtain x h where x: "heappop entry_lt (mp_pending_priority s) = Some (Inr x, h)" "entry_heap.is_heap h"
    "mset (mp_pending_priority s) = add_mset x (mset h)" "\<forall>y \<in> set (mp_pending_priority s). x \<le> y"
    using entry_heap.heappop_heap[of "mp_pending_priority s"] assms(1) by (auto simp: stands_for_def)
  obtain n q i where xi: "x = (n, q, i)" by (cases x)
  have "mp_pending_priority t = x # sort h" using sort_least[OF x(3,4)] assms(1) by (simp add: stands_for_def)
  with x assms xi show ?thesis
    by (cases "dict_get (mp_entries s) i")
       (auto simp: heap_apop_priority_def apop_priority_def stands_for_def Let_def simp del: dict_get_None)
qed

lemma stands_for_discard:
  assumes "stands_for s t"
  shows "\<exists>s'. heap_adiscard_priority i s = (Inr (), s') \<and> stands_for s' (adiscard_priority i t)"
proof -
  let ?keep = "\<lambda>item. snd (snd item) \<noteq> i"
  obtain h where h: "heapify entry_lt (filter ?keep (mp_pending_priority s)) = (Inr (), h)" "entry_heap.is_heap h"
    "mset h = mset (filter ?keep (mp_pending_priority s))"
    using entry_heap.heapify_heap[of "filter ?keep (mp_pending_priority s)"] by auto
  have "sort h = filter ?keep (sort (mp_pending_priority s))"
    by (rule properties_for_sort) (use h(3) in \<open>auto simp: sorted_wrt_filter mset_filter\<close>)
  with h assms show ?thesis by (simp add: heap_adiscard_priority_def adiscard_priority_def stands_for_def)
qed

text \<open>
  A history of calls on both. Promotion of a scheduled entry ends in a push, and deletion of an entry
  contains the discarding.
\<close>

datatype priority_call = StoreCall queue_entry | PushCall uuid int | PopCall | DiscardCall uuid

fun heap_call :: "priority_call \<Rightarrow> (queue_entry option, provider_memory) prog" where
  "heap_call (StoreCall e) s = (Inr None, astore e s)"
| "heap_call (PushCall i p) s = bindE (heap_apush_priority i p) (\<lambda>_. ok None) s"
| "heap_call PopCall s = bindE heap_apop_priority (\<lambda>e. ok (Some e)) s"
| "heap_call (DiscardCall i) s = bindE (heap_adiscard_priority i) (\<lambda>_. ok None) s"

fun list_call :: "priority_call \<Rightarrow> (queue_entry option, provider_memory) prog" where
  "list_call (StoreCall e) s = (Inr None, astore e s)"
| "list_call (PushCall i p) s = (Inr None, apush_priority i p s)"
| "list_call PopCall s = bindE apop_priority (\<lambda>e. ok (Some e)) s"
| "list_call (DiscardCall i) s = (Inr None, adiscard_priority i s)"

fun history :: "('c \<Rightarrow> ('a, 's) prog) \<Rightarrow> 'c list \<Rightarrow> 's \<Rightarrow> 'a result list \<times> 's" where
  "history f [] s = ([], s)"
| "history f (c # cs) s = (case f c s of (r, s') \<Rightarrow> (case history f cs s' of (rs, t) \<Rightarrow> (r # rs, t)))"

lemma stands_for_call:
  assumes "stands_for s t" "list_call c t = (r, t')"
  shows "\<exists>s'. heap_call c s = (r, s') \<and> stands_for s' t'"
proof (cases c)
  case (StoreCall e)
  with assms show ?thesis by (cases s) (auto simp: stands_for_def astore_def)
next
  case (PushCall i p)
  with assms stands_for_push[OF assms(1), of i p] show ?thesis by (auto simp: bindE_def)
next
  case PopCall
  obtain q u where q: "apop_priority t = (q, u)" by (metis surj_pair)
  with assms PopCall stands_for_pop[OF assms(1) q] show ?thesis by (cases q) (auto simp: bindE_def)
next
  case (DiscardCall i)
  with assms stands_for_discard[OF assms(1), of i] show ?thesis by (auto simp: bindE_def)
qed

lemma stands_for_history:
  "stands_for s t \<Longrightarrow> \<exists>s'. history heap_call cs s = (fst (history list_call cs t), s') \<and> stands_for s' (snd (history list_call cs t))"
proof (induction cs arbitrary: s t)
  case (Cons c cs)
  obtain r u where r: "list_call c t = (r, u)" by (metis surj_pair)
  obtain v where "heap_call c s = (r, v)" "stands_for v u" using stands_for_call[OF Cons.prems r] by blast
  with Cons.IH[of v u] r show ?case by (auto split: prod.splits)
qed simp

text \<open>
  C20. The binary heap the in-process priority queue keeps its waiting entries in serves exactly as a
  sorted list does: in every history of storing, pushing, popping and discarding on a fresh provider
  each call has the same result, comparisons never raise, and the array always holds the elements of
  the list.
\<close>

theorem priority_heap_serves_in_order:
  "\<exists>s'. history heap_call calls (provider_memory_init stack maxsize) =
      (fst (history list_call calls (provider_memory_init stack maxsize)), s') \<and>
    mset (mp_pending_priority s') = mset (mp_pending_priority (snd (history list_call calls (provider_memory_init stack maxsize)))) \<and>
    sorted (mp_pending_priority (snd (history list_call calls (provider_memory_init stack maxsize))))"
proof -
  have "stands_for (provider_memory_init stack maxsize) (provider_memory_init stack maxsize)"
    by (simp add: stands_for_def provider_memory_init_def entry_heap.is_heap_def entry_heap.heap_from_def)
  from stands_for_history[OF this, of calls] show ?thesis by (auto simp: stands_for_def)
qed

section \<open>Raw values with priorities\<close>

record memory_priority = provider_memory +
  mp_priority_items :: "(int \<times> pyval) list"

text \<open>Comparison of the pairs: the negated priorities, and the values only when these are equal.\<close>

definition item_lt :: "int \<times> pyval \<Rightarrow> int \<times> pyval \<Rightarrow> bool result" where
  "item_lt x y =
     (if fst x \<noteq> fst y then Inr (fst x < fst y)
      else if py_eq (snd x) (snd y) then Inr False
      else py_lt (snd x) (snd y))"

text \<open>A tuple or a list carries its priority in front; one further member is the value itself.\<close>

definition split_item :: "pyval \<Rightarrow> (pyval \<times> pyval) result" where
  "split_item item =
     (let unpack = (\<lambda>xs. case xs of [] \<Rightarrow> Inl ValueError | p # [v] \<Rightarrow> Inr (p, v) | p # vs \<Rightarrow> Inr (p, PTuple vs)) in
      case item of PTuple xs \<Rightarrow> unpack xs | PList xs \<Rightarrow> unpack xs | _ \<Rightarrow> Inr (PNum (PyInt 0), item))"

definition add_one_priority :: "pyval \<Rightarrow> (unit, memory_priority) prog" where
  "add_one_priority item s =
     (case split_item item of
        Inl err \<Rightarrow> (Inl err, s)
      | Inr (p, v) \<Rightarrow>
          (case py_int p of
             Inl err \<Rightarrow> (Inl err, s)
           | Inr priority \<Rightarrow>
               if 0 < mp_maxsize s \<and> mp_maxsize s \<le> int (length (mp_priority_items s)) then (Inl QueueFullException, s)
               else (case heappush item_lt (- priority, v) (mp_priority_items s) of
                   (r, h) \<Rightarrow> (r, s\<lparr>mp_priority_items := h\<rparr>))))"

definition aadd_priority :: "pyval list \<Rightarrow> (unit, memory_priority) prog" where
  "aadd_priority items = foreach add_one_priority items"

definition aget_priority :: "(pyval, memory_priority) prog" where
  "aget_priority s =
     (case heappop item_lt (mp_priority_items s) of
        None \<Rightarrow> (Inl QueueEmptyException, s)
      | Some (r, h) \<Rightarrow> (bindR r (\<lambda>x. Inr (snd x)), s\<lparr>mp_priority_items := h\<rparr>))"

text \<open>Polling, with and without priorities: \<open>None\<close> while there is nothing and the loop sleeps.\<close>

definition apoll_priority :: "memory_priority \<Rightarrow> (pyval result \<times> memory_priority) option" where
  "apoll_priority s = (if mp_priority_items s = [] then None else Some (aget_priority s))"

definition apoll :: "provider_memory \<Rightarrow> (pyval result \<times> provider_memory) option" where
  "apoll s = (if mp_items s = [] then None else Some (aget s))"

definition apeek_priority :: "memory_priority \<Rightarrow> pyval result" where
  "apeek_priority s =
     (if mp_priority_items s = [] then Inl QueueEmptyException else Inr (snd (mp_priority_items s ! 0)))"

definition asize_priority :: "memory_priority \<Rightarrow> nat" where
  "asize_priority s = length (mp_priority_items s)"

text \<open>Clearing takes item after item; it ends early when a comparison raises.\<close>

function aclear_priority :: "(unit, memory_priority) prog" where
  "aclear_priority s =
     (case heappop item_lt (mp_priority_items s) of
        None \<Rightarrow> (Inr (), s)
      | Some (Inl err, h) \<Rightarrow> (Inl err, s\<lparr>mp_priority_items := h\<rparr>)
      | Some (Inr _, h) \<Rightarrow> aclear_priority (s\<lparr>mp_priority_items := h\<rparr>))"
  by pat_completeness auto
termination
proof (relation "measure (\<lambda>s. length (mp_priority_items s))")
  fix s :: memory_priority and p r h x
  assume "heappop item_lt (mp_priority_items s) = Some p" "(r, h) = p" "r = Inr x"
  then have "mset (mp_priority_items s) = add_mset (hd (mp_priority_items s)) (mset h)" using heappop_mset by fastforce
  then show "(s\<lparr>mp_priority_items := h\<rparr>, s) \<in> measure (\<lambda>s. length (mp_priority_items s))"
    using mset_eq_length[of "mp_priority_items s" "hd (mp_priority_items s) # h"] by simp
qed simp

declare aclear_priority.simps [simp del]

text \<open>
  The items the heap orders: texts, by priority and then by their characters, and items of which each
  priority has only one value, by priority, whatever the values are.
\<close>

definition text_key :: "int \<times> pyval \<Rightarrow> int \<times> string" where
  "text_key x = (fst x, case snd x of PStr s \<Rightarrow> s | _ \<Rightarrow> [])"

interpretation text_items: heap_order item_lt text_key "\<lambda>x. \<exists>p s. x = (p, PStr s)"
  by unfold_locales (auto simp: item_lt_def text_key_def)

interpretation distinct_items: heap_order item_lt fst "\<lambda>x. snd x = val (fst x) \<and> py_eq (snd x) (snd x)" for val
  by unfold_locales (auto simp: item_lt_def)

text \<open>
  Adding keeps every item: it is in the queue also when comparing it raised, and only a full queue, a
  missing priority or one that is no number keeps it out.
\<close>

lemma add_one_priority_keeps:
  assumes "add_one_priority item s = (r, s')"
  shows "s' = s \<and> r \<noteq> Inr () \<or>
    (\<exists>p v priority. split_item item = Inr (p, v) \<and> py_int p = Inr priority \<and>
       mset (mp_priority_items s') = add_mset (- priority, v) (mset (mp_priority_items s)))"
  using assms
  by (auto simp: add_one_priority_def dest: heappush_mset split: sum.splits prod.splits if_splits)

definition priority_item :: "int \<times> pyval \<Rightarrow> pyval" where
  "priority_item x = PTuple [PNum (PyInt (fst x)), snd x]"

lemma split_priority_item: "split_item (priority_item x) = Inr (PNum (PyInt (fst x)), snd x)"
  by (simp add: split_item_def priority_item_def)

lemma add_distinct_items:
  assumes "distinct_items.is_heap val (mp_priority_items s)" "mp_maxsize s \<le> 0"
    "\<forall>x \<in> set items. snd x = val (- fst x) \<and> py_eq (snd x) (snd x)"
  shows "\<exists>s'. aadd_priority (map priority_item items) s = (Inr (), s') \<and> distinct_items.is_heap val (mp_priority_items s') \<and>
    mset (mp_priority_items s') = mset (map (\<lambda>(p, v). (- p, v)) items) + mset (mp_priority_items s)"
  using assms
proof (induction items arbitrary: s)
  case Nil
  then show ?case by (simp add: aadd_priority_def)
next
  case (Cons x items)
  let ?y = "(- fst x, snd x)"
  obtain h where h: "heappush item_lt ?y (mp_priority_items s) = (Inr (), h)" "distinct_items.is_heap val h"
    using distinct_items.heappush_heap[of val "mp_priority_items s" ?y] Cons.prems(1,3) by auto
  let ?s = "s\<lparr>mp_priority_items := h\<rparr>"
  have rest: "\<forall>x \<in> set items. snd x = val (- fst x) \<and> py_eq (snd x) (snd x)" using Cons.prems(3) by (meson list.set_intros(2))
  obtain s' where s': "aadd_priority (map priority_item items) ?s = (Inr (), s')" "distinct_items.is_heap val (mp_priority_items s')"
    "mset (mp_priority_items s') = mset (map (\<lambda>(p, v). (- p, v)) items) + mset h"
    using Cons.IH[of ?s, OF _ _ rest] Cons.prems(2) h(2) by auto
  have "add_one_priority (priority_item x) s = (Inr (), ?s)"
    using h(1) Cons.prems(2) by (simp add: add_one_priority_def split_priority_item)
  then show ?case using s' heappush_mset[OF h(1)] by (cases x) (auto simp: aadd_priority_def)
qed

fun drain_priority :: "nat \<Rightarrow> memory_priority \<Rightarrow> pyval result list" where
  "drain_priority 0 s = []"
| "drain_priority (Suc n) s = (case aget_priority s of (r, s') \<Rightarrow> r # drain_priority n s')"

lemma drain_distinct_items:
  "distinct_items.is_heap val (mp_priority_items s) \<Longrightarrow> inj_on fst (set (mp_priority_items s)) \<Longrightarrow>
     drain_priority (length (mp_priority_items s)) s = map (\<lambda>x. Inr (snd x)) (sort_key fst (mp_priority_items s))"
proof (induction "length (mp_priority_items s)" arbitrary: s)
  case (Suc n)
  then have "mp_priority_items s \<noteq> []" by auto
  then obtain x h where x: "heappop item_lt (mp_priority_items s) = Some (Inr x, h)" "distinct_items.is_heap val h"
    "sort_key fst (mp_priority_items s) = x # sort_key fst h" "set h \<subseteq> set (mp_priority_items s)"
    "length (mp_priority_items s) = Suc (length h)"
    using distinct_items.heappop_sort_key[OF Suc.prems(1)] Suc.prems(2) by blast
  have "inj_on fst (set h)" using Suc.prems(2) x(4) by (rule inj_on_subset)
  then have "drain_priority n (s\<lparr>mp_priority_items := h\<rparr>) = map (\<lambda>x. Inr (snd x)) (sort_key fst h)"
    using Suc.hyps(1)[of "s\<lparr>mp_priority_items := h\<rparr>"] Suc.hyps(2) x(2,5) by simp
  then show ?case using x Suc.hyps(2)[symmetric] by (simp add: aget_priority_def)
qed simp

text \<open>
  C18. Raw values given with pairwise different integer priorities to an empty, unbounded in-process
  priority queue are all accepted, whatever the values are as long as each equals itself (a float NaN
  does not), and then come out each once, in the order of their priorities, highest first.
\<close>

theorem raw_values_by_priority:
  assumes "distinct (map fst items)" "\<forall>x \<in> set items. py_eq (snd x) (snd x)" "mp_priority_items s = []" "mp_maxsize s \<le> 0"
  shows "\<exists>s'. aadd_priority (map priority_item items) s = (Inr (), s') \<and>
    drain_priority (length items) s' = map (\<lambda>x. Inr (snd x)) (sort_key (\<lambda>x. - fst x) items)"
proof -
  let ?neg = "\<lambda>(p, v). (- p, v)"
  define val where "val p = the (map_of items (- p))" for p
  have v: "snd x = val (- fst x)" if "x \<in> set items" for x
    using map_of_is_SomeI[OF assms(1), of "fst x" "snd x"] that by (simp add: val_def)
  obtain s' where s': "aadd_priority (map priority_item items) s = (Inr (), s')" "distinct_items.is_heap val (mp_priority_items s')"
    "mset (mp_priority_items s') = mset (map ?neg items)"
    using add_distinct_items[of val s items] assms v
    by (auto simp: distinct_items.is_heap_def distinct_items.heap_from_def)
  have inj: "inj_on fst (set (map ?neg items))" using assms(1) by (force simp: distinct_map inj_on_def)
  have len: "length (mp_priority_items s') = length items" using mset_eq_length[OF s'(3)] by simp
  have "set (mp_priority_items s') = set (map ?neg items)" using s'(3) by (metis set_mset_mset)
  then have inj': "inj_on fst (set (mp_priority_items s'))" using inj by simp
  have "sort_key fst (mp_priority_items s') = map ?neg (sort_key (\<lambda>x. - fst x) items)"
    by (rule sort_key_inj_key_eq[OF _ inj']) (simp_all add: s'(3) comp_def case_prod_unfold)
  with drain_distinct_items[OF s'(2) inj'] s'(1) len show ?thesis by (auto simp: case_prod_unfold)
qed

theorem raw_values_by_priority_witness:
  "\<exists>s'. aadd_priority (map priority_item [(1, PNone), (10, PDict [])])
        (provider_memory.extend (provider_memory_init False 0) (memory_priority.fields [])) = (Inr (), s') \<and>
     drain_priority 2 s' = [Inr (PDict []), Inr PNone]"
  using raw_values_by_priority[of "[(1, PNone), (10, PDict [])]"
      "provider_memory.extend (provider_memory_init False 0) (memory_priority.fields [])"]
  by (simp add: provider_memory.defs memory_priority.defs provider_memory_init_def numeral_2_eq_2)

text \<open>
  Two different dictionaries of one priority cannot be compared: adding the second raises
  \<^verbatim>\<open>TypeError\<close>, and it is in the queue nevertheless.
\<close>

lemma equal_priority_dicts_raise:
  assumes "mp_maxsize s \<le> 0" "mp_priority_items s = [(- p, PDict a)]" "\<not> py_eq (PDict b) (PDict a)"
  shows "\<exists>s'. aadd_priority [priority_item (p, PDict b)] s = (Inl TypeError, s') \<and> asize_priority s' = 2"
  using assms
  by (auto simp: aadd_priority_def add_one_priority_def split_priority_item heappush_def siftdown.simps item_lt_def parent_def
      asize_priority_def simp del: py_eq.simps)

end
