(* ===== verification/Raw_Queues.thy ===== *)
theory Raw_Queues
  imports Memory_Priority
begin

text \<open>
  Raw values: the operations \<^verbatim>\<open>aadd\<close>, \<^verbatim>\<open>aget\<close>, \<^verbatim>\<open>apoll\<close>, \<^verbatim>\<open>apeek\<close>, \<^verbatim>\<open>asize\<close> and \<^verbatim>\<open>aclear\<close> of
  \<^verbatim>\<open>backends/redis/provider.py\<close>, of the JSON queues over it and of the in-process provider, next to
  the contract they share. The commands of the Redis server on the key of one queue are a record of
  functions with their documented laws as locale \<open>raw_server\<close>; a stored value is a byte string, and so
  is what the client hands back. The codec of the queue and the text form of JSON are parameters.
\<close>

section \<open>The server\<close>

type_synonym bytes = string

record 's raw_redis =
  rr_llen :: "'s \<Rightarrow> nat"
  rr_rpush :: "bytes list \<Rightarrow> 's \<Rightarrow> 's"
  rr_lpop :: "'s \<Rightarrow> bytes option \<times> 's"
  rr_rpop :: "'s \<Rightarrow> bytes option \<times> 's"
  rr_lrange :: "int \<Rightarrow> int \<Rightarrow> 's \<Rightarrow> bytes list"
  rr_delete :: "'s \<Rightarrow> 's"
  rr_zcard :: "'s \<Rightarrow> nat"
  rr_zadd_nx :: "bytes \<Rightarrow> rat \<Rightarrow> 's \<Rightarrow> 's"
  rr_zrevrange_top :: "'s \<Rightarrow> bytes option"
  rr_zrem :: "bytes \<Rightarrow> 's \<Rightarrow> 's"

locale raw_server =
  fixes R :: "'s raw_redis" and items :: "'s \<Rightarrow> bytes list" and scores :: "'s \<Rightarrow> bytes \<Rightarrow> rat option"
  assumes llen: "rr_llen R s = length (items s)"
    and rpush: "bs \<noteq> [] \<Longrightarrow> items (rr_rpush R bs s) = items s @ bs"
    and lpop_reply: "fst (rr_lpop R s) = (if items s = [] then None else Some (hd (items s)))"
    and lpop_items: "items (snd (rr_lpop R s)) = tl (items s)"
    and rpop_reply: "fst (rr_rpop R s) = (if items s = [] then None else Some (last (items s)))"
    and rpop_items: "items (snd (rr_rpop R s)) = butlast (items s)"
    and lrange_first: "rr_lrange R 0 0 s = take 1 (items s)"
    and lrange_last: "rr_lrange R (- 1) (- 1) s = (if items s = [] then [] else [last (items s)])"
    and delete_items: "items (rr_delete R s) = []"
    and delete_scores: "scores (rr_delete R s) = Map.empty"
    and finite_scores: "finite (dom (scores s))"
    and zcard: "rr_zcard R s = card (dom (scores s))"
    and zadd_nx: "scores (rr_zadd_nx R b x s) = (if b \<in> dom (scores s) then scores s else (scores s)(b \<mapsto> x))"
    and top_None: "rr_zrevrange_top R s = None \<longleftrightarrow> scores s = Map.empty"
    and top_Some: "rr_zrevrange_top R s = Some b \<Longrightarrow>
      \<exists>x. scores s b = Some x \<and> (\<forall>b' y. scores s b' = Some y \<longrightarrow> (y, b') \<le> (x, b))"
    and zrem: "scores (rr_zrem R b s) = (scores s)(b := None)"

text \<open>A queue's provider: the server, the codec, its options, and what sending no value raises.\<close>

record 's raw_context =
  rq_redis :: "'s raw_redis"
  rq_encode :: "string \<Rightarrow> bytes option"
  rq_decode :: "bytes \<Rightarrow> string option"
  rq_stack :: bool
  rq_maxsize :: int
  rq_no_values :: pyerror

section \<open>The provider\<close>

datatype raw_reply = ReplyText string | ReplyBytes bytes | ReplyOther

definition encode :: "'s raw_context \<Rightarrow> pyval \<Rightarrow> bytes result" where
  "encode X v =
     (case as_text v of
        None \<Rightarrow> Inl AttributeError
      | Some t \<Rightarrow> (case rq_encode X t of None \<Rightarrow> Inl QueueEncodingException | Some b \<Rightarrow> Inr b))"

definition decode :: "'s raw_context \<Rightarrow> raw_reply \<Rightarrow> pyval result" where
  "decode X reply =
     (case reply of
        ReplyText t \<Rightarrow> Inr (PStr t)
      | ReplyBytes b \<Rightarrow> (case rq_decode X b of None \<Rightarrow> Inl QueueEncodingException | Some t \<Rightarrow> Inr (PStr t))
      | ReplyOther \<Rightarrow> Inl QueueEncodingException)"

fun encode_all :: "'s raw_context \<Rightarrow> pyval list \<Rightarrow> bytes list result" where
  "encode_all X [] = Inr []"
| "encode_all X (v # vs) = bindR (encode X v) (\<lambda>b. bindR (encode_all X vs) (\<lambda>bs. Inr (b # bs)))"

definition rq_aadd :: "'s raw_context \<Rightarrow> pyval list \<Rightarrow> (unit, 's) prog" where
  "rq_aadd X vs s =
     (if vs = [] then (Inr (), s)
      else if rq_maxsize X \<noteq> 0 \<and> rq_maxsize X < int (rr_llen (rq_redis X) s) + int (length vs) then (Inl QueueFullException, s)
      else
        (case encode_all X (filter (\<lambda>v. v \<noteq> PNone) vs) of
           Inl err \<Rightarrow> (Inl err, s)
         | Inr bs \<Rightarrow> if bs = [] then (Inl (rq_no_values X), s) else (Inr (), rr_rpush (rq_redis X) bs s)))"

definition pop_end :: "'s raw_context \<Rightarrow> 's \<Rightarrow> bytes option \<times> 's" where
  "pop_end X = (if rq_stack X then rr_rpop (rq_redis X) else rr_lpop (rq_redis X))"

definition rq_aget :: "'s raw_context \<Rightarrow> (pyval, 's) prog" where
  "rq_aget X s =
     (case pop_end X s of
        (None, s') \<Rightarrow> (Inl QueueEmptyException, s')
      | (Some b, s') \<Rightarrow> (decode X (ReplyBytes b), s'))"

text \<open>The blocking pop: \<open>None\<close> while it waits, otherwise what it gives when the server answers.\<close>

definition rq_apoll :: "'s raw_context \<Rightarrow> 's \<Rightarrow> (pyval result \<times> 's) option" where
  "rq_apoll X s =
     (case pop_end X s of
        (None, s') \<Rightarrow> None
      | (Some b, s') \<Rightarrow> Some (decode X (ReplyBytes b), s'))"

definition rq_apeek :: "'s raw_context \<Rightarrow> 's \<Rightarrow> pyval result" where
  "rq_apeek X s =
     (case (if rq_stack X then rr_lrange (rq_redis X) (- 1) (- 1) s else rr_lrange (rq_redis X) 0 0 s) of
        [] \<Rightarrow> Inl QueueEmptyException
      | b # _ \<Rightarrow> decode X (ReplyBytes b))"

definition rq_asize :: "'s raw_context \<Rightarrow> 's \<Rightarrow> nat" where
  "rq_asize X s = rr_llen (rq_redis X) s"

definition rq_aclear :: "'s raw_context \<Rightarrow> 's \<Rightarrow> 's" where
  "rq_aclear X s = rr_delete (rq_redis X) s"

text \<open>With priorities: a sorted set, whose score is the priority as a double.\<close>

definition rq_asize_priority :: "'s raw_context \<Rightarrow> 's \<Rightarrow> nat" where
  "rq_asize_priority X s = rr_zcard (rq_redis X) s"

definition add_one_score :: "'s raw_context \<Rightarrow> int \<times> pyval \<Rightarrow> (unit, 's) prog" where
  "add_one_score X item s =
     (if rq_maxsize X \<noteq> 0 \<and> rq_maxsize X \<le> int (rq_asize_priority X s) then (Inl QueueFullException, s)
      else
        (case encode X (snd item) of
           Inl err \<Rightarrow> (Inl err, s)
         | Inr b \<Rightarrow> (Inr (), rr_zadd_nx (rq_redis X) b (fl (of_int (fst item))) s)))"

definition rq_aadd_priority :: "'s raw_context \<Rightarrow> (int \<times> pyval) list \<Rightarrow> (unit, 's) prog" where
  "rq_aadd_priority X items = foreach (add_one_score X) items"

text \<open>Reading the first member and removing it are two commands, whose replies belong together only in the caller.\<close>

definition get_read :: "'s raw_context \<Rightarrow> 's \<Rightarrow> bytes option" where
  "get_read X s = rr_zrevrange_top (rq_redis X) s"

definition get_remove :: "'s raw_context \<Rightarrow> bytes \<Rightarrow> (pyval, 's) prog" where
  "get_remove X member s = (decode X (ReplyBytes member), rr_zrem (rq_redis X) member s)"

definition rq_aget_priority :: "'s raw_context \<Rightarrow> (pyval, 's) prog" where
  "rq_aget_priority X s =
     (case get_read X s of None \<Rightarrow> (Inl QueueEmptyException, s) | Some member \<Rightarrow> get_remove X member s)"

definition rq_apeek_priority :: "'s raw_context \<Rightarrow> 's \<Rightarrow> pyval result" where
  "rq_apeek_priority X s =
     (case rr_zrevrange_top (rq_redis X) s of None \<Rightarrow> Inl QueueEmptyException | Some b \<Rightarrow> decode X (ReplyBytes b))"

definition rq_aclear_priority :: "'s raw_context \<Rightarrow> 's \<Rightarrow> 's" where
  "rq_aclear_priority X s = rr_delete (rq_redis X) s"

text \<open>
  Polling: every attempt takes what is there or waits, during which other clients act on the server
  (\<open>others\<close>, given the attempt); \<open>None\<close> is a poll that never returns.
\<close>

partial_function (option) poll_loop ::
    "'s raw_context \<Rightarrow> (int \<Rightarrow> 's \<Rightarrow> 's) \<Rightarrow> int \<Rightarrow> int \<Rightarrow> int \<Rightarrow> 's \<Rightarrow> (pyval result \<times> 's) option" where
  "poll_loop X others timeout retries attempt s =
     (if retries = 0 \<or> 0 < attempt then
        (case rq_aget_priority X s of
           (Inl QueueEmptyException, s') \<Rightarrow>
             if timeout \<le> 0 then Some (Inl QueueEmptyException, s')
             else
               (case rr_zrevrange_top (rq_redis X) (others (attempt - 1) s') of
                  Some b \<Rightarrow> Some (decode X (ReplyBytes b), rr_zrem (rq_redis X) b (others (attempt - 1) s'))
                | None \<Rightarrow> poll_loop X others timeout retries (attempt - 1) (others (attempt - 1) s'))
         | (r, s') \<Rightarrow> Some (r, s'))
      else Some (Inl QueueEmptyException, s))"

definition rq_apoll_priority :: "'s raw_context \<Rightarrow> (int \<Rightarrow> 's \<Rightarrow> 's) \<Rightarrow> int \<Rightarrow> int \<Rightarrow> 's \<Rightarrow> (pyval result \<times> 's) option" where
  "rq_apoll_priority X others timeout retries s = poll_loop X others timeout retries retries s"

section \<open>JSON queues\<close>

record json_text =
  jt_dumps :: "pyval \<Rightarrow> string"
  jt_loads :: "string \<Rightarrow> pyval option"

definition json_encode :: "json_text \<Rightarrow> pyval \<Rightarrow> pyval result" where
  "json_encode J v = (if json_ok v then Inr (PStr (jt_dumps J v)) else Inl QueueEncodingException)"

definition json_decode :: "json_text \<Rightarrow> pyval \<Rightarrow> pyval result" where
  "json_decode J v =
     (case v of
        PDict d \<Rightarrow> Inr (PDict d)
      | PStr t \<Rightarrow> (case jt_loads J t of None \<Rightarrow> Inl QueueEncodingException | Some x \<Rightarrow> Inr x)
      | _ \<Rightarrow> Inl QueueEncodingException)"

fun json_encode_all :: "json_text \<Rightarrow> pyval list \<Rightarrow> pyval list result" where
  "json_encode_all J [] = Inr []"
| "json_encode_all J (v # vs) = bindR (json_encode J v) (\<lambda>t. bindR (json_encode_all J vs) (\<lambda>ts. Inr (t # ts)))"

definition json_aadd :: "'s raw_context \<Rightarrow> json_text \<Rightarrow> pyval list \<Rightarrow> (unit, 's) prog" where
  "json_aadd X J vs s =
     (case json_encode_all J (filter (\<lambda>v. v \<noteq> PNone) vs) of Inl err \<Rightarrow> (Inl err, s) | Inr ts \<Rightarrow> rq_aadd X ts s)"

definition json_aget :: "'s raw_context \<Rightarrow> json_text \<Rightarrow> (pyval, 's) prog" where
  "json_aget X J = bindE (rq_aget X) (\<lambda>v. lift_result (json_decode J v))"

definition json_apeek :: "'s raw_context \<Rightarrow> json_text \<Rightarrow> 's \<Rightarrow> pyval result" where
  "json_apeek X J s = bindR (rq_apeek X s) (json_decode J)"

definition json_apoll :: "'s raw_context \<Rightarrow> json_text \<Rightarrow> 's \<Rightarrow> (pyval result \<times> 's) option" where
  "json_apoll X J s = map_option (\<lambda>(r, s'). (bindR r (json_decode J), s')) (rq_apoll X s)"

fun json_encode_items :: "json_text \<Rightarrow> (int \<times> pyval) list \<Rightarrow> (int \<times> pyval) list result" where
  "json_encode_items J [] = Inr []"
| "json_encode_items J ((p, v) # items) =
     bindR (json_encode J v) (\<lambda>t. bindR (json_encode_items J items) (\<lambda>ts. Inr ((p, t) # ts)))"

definition json_aadd_priority :: "'s raw_context \<Rightarrow> json_text \<Rightarrow> (int \<times> pyval) list \<Rightarrow> (unit, 's) prog" where
  "json_aadd_priority X J items s =
     (case json_encode_items J (filter (\<lambda>item. snd item \<noteq> PNone) items) of
        Inl err \<Rightarrow> (Inl err, s) | Inr ts \<Rightarrow> rq_aadd_priority X ts s)"

definition json_aget_priority :: "'s raw_context \<Rightarrow> json_text \<Rightarrow> (pyval, 's) prog" where
  "json_aget_priority X J = bindE (rq_aget_priority X) (\<lambda>v. lift_result (json_decode J v))"

definition json_apeek_priority :: "'s raw_context \<Rightarrow> json_text \<Rightarrow> 's \<Rightarrow> pyval result" where
  "json_apeek_priority X J s = bindR (rq_apeek_priority X s) (json_decode J)"

definition json_apoll_priority :: "'s raw_context \<Rightarrow> json_text \<Rightarrow> (int \<Rightarrow> 's \<Rightarrow> 's) \<Rightarrow> int \<Rightarrow> int \<Rightarrow> 's \<Rightarrow> (pyval result \<times> 's) option" where
  "json_apoll_priority X J others timeout retries s =
     map_option (\<lambda>(r, s'). (bindR r (json_decode J), s')) (rq_apoll_priority X others timeout retries s)"

section \<open>The contract of raw values\<close>

text \<open>
  What a user of raw values relies on: added values are appended, or refused when there is no room; the
  next value is taken from the front, or from the back of a stack; the queue never exceeds its capacity.
  \<open>accepts\<close> are the values a queue can carry, \<open>stored\<close> is what comes back for them.
\<close>

definition fits :: "int \<Rightarrow> 'a list \<Rightarrow> 'b list \<Rightarrow> bool" where
  "fits capacity xs ys \<longleftrightarrow> capacity = 0 \<or> int (length xs) + int (length ys) \<le> capacity"

fun drain_with :: "(pyval, 's) prog \<Rightarrow> nat \<Rightarrow> 's \<Rightarrow> pyval result list" where
  "drain_with get 0 s = []"
| "drain_with get (Suc n) s = (case get s of (r, s') \<Rightarrow> r # drain_with get n s')"

lemma queue_get_service:
  assumes "queue_get as_stack xs = Some (x, ys)"
  shows "(if as_stack then rev xs else xs) = x # (if as_stack then rev ys else ys)" "length xs = Suc (length ys)"
proof -
  obtain z zs where xs: "xs = z # zs" using assms by (cases xs) auto
  have "rev (z # zs) = last (z # zs) # rev (butlast (z # zs))"
    using arg_cong[OF append_butlast_last_id[of "z # zs"], of rev] by simp
  then show "(if as_stack then rev xs else xs) = x # (if as_stack then rev ys else ys)" "length xs = Suc (length ys)"
    using assms xs by (auto split: if_splits)
qed

lemma queue_get_set:
  assumes "queue_get as_stack xs = Some (x, ys)"
  shows "x \<in> set xs" "set ys \<subseteq> set xs"
  using arg_cong[OF queue_get_service(1)[OF assms], of set] by (auto split: if_splits)

lemma queue_get_map: "queue_get as_stack (map f xs) = map_option (\<lambda>(x, ys). (f x, map f ys)) (queue_get as_stack xs)"
  by (cases xs) (auto simp: map_butlast last_map)

locale raw_queue =
  fixes add :: "pyval list \<Rightarrow> (unit, 's) prog" and get :: "(pyval, 's) prog" and size :: "'s \<Rightarrow> nat"
    and contents :: "'s \<Rightarrow> pyval list" and inv :: "'s \<Rightarrow> bool" and stack :: "'s \<Rightarrow> bool" and capacity :: "'s \<Rightarrow> int"
    and accepts :: "pyval \<Rightarrow> bool" and stored :: "pyval \<Rightarrow> pyval"
  assumes add_fits: "inv s \<Longrightarrow> \<forall>v \<in> set vs. accepts v \<Longrightarrow> fits (capacity s) (contents s) vs \<Longrightarrow>
      \<exists>s'. add vs s = (Inr (), s') \<and> inv s' \<and> contents s' = contents s @ map stored vs \<and> stack s' = stack s \<and> capacity s' = capacity s"
    and add_full: "inv s \<Longrightarrow> \<forall>v \<in> set vs. accepts v \<Longrightarrow> vs \<noteq> [] \<Longrightarrow> \<not> fits (capacity s) (contents s) vs \<Longrightarrow>
      \<exists>s'. add vs s = (Inl QueueFullException, s') \<and> inv s' \<and> capacity s' = capacity s \<and>
        (fits (capacity s) (contents s) ([] :: pyval list) \<longrightarrow> fits (capacity s) (contents s') ([] :: pyval list))"
    and get_some: "inv s \<Longrightarrow> contents s \<noteq> [] \<Longrightarrow>
      \<exists>x s'. get s = (Inr x, s') \<and> inv s' \<and> queue_get (stack s) (contents s) = Some (x, contents s') \<and> stack s' = stack s \<and> capacity s' = capacity s"
    and get_none: "inv s \<Longrightarrow> contents s = [] \<Longrightarrow> \<exists>s'. get s = (Inl QueueEmptyException, s') \<and> contents s' = []"
    and size: "inv s \<Longrightarrow> size s = length (contents s)"
begin

definition service :: "bool \<Rightarrow> pyval list \<Rightarrow> pyval list" where
  "service as_stack vs = (if as_stack then rev vs else vs)"

lemma drain_service: "inv s \<Longrightarrow> drain_with get (length (contents s)) s = map Inr (service (stack s) (contents s))"
proof (induction "length (contents s)" arbitrary: s)
  case (Suc n)
  then have "contents s \<noteq> []" by auto
  then obtain x s' where g: "get s = (Inr x, s')" "inv s'" "queue_get (stack s) (contents s) = Some (x, contents s')" "stack s' = stack s"
    using get_some[OF Suc.prems] by blast
  have split: "service (stack s) (contents s) = x # service (stack s) (contents s')" "n = length (contents s')"
    using queue_get_service[OF g(3)] Suc.hyps(2) by (simp_all add: service_def)
  with Suc.hyps(1)[OF split(2) g(2)] g show ?case by (simp flip: Suc.hyps(2))
qed (simp add: service_def)

text \<open>Values added to an empty queue that has room for them come out in order of service, and then it is empty again.\<close>

lemma add_then_drain:
  assumes "inv s" "\<forall>v \<in> set vs. accepts v" "fits (capacity s) (contents s) vs" "contents s = []"
  shows "\<exists>s'. add vs s = (Inr (), s') \<and> size s' = length vs \<and>
    drain_with get (length vs) s' = map (\<lambda>v. Inr (stored v)) (if stack s then rev vs else vs)"
proof -
  obtain s' where s': "add vs s = (Inr (), s')" "inv s'" "contents s' = map stored vs" "stack s' = stack s"
    using add_fits[OF assms(1-3)] assms(4) by auto
  then have "size s' = length vs" using size by simp
  moreover have "drain_with get (length vs) s' = map Inr (service (stack s) (map stored vs))" using drain_service[OF s'(2)] s'(3,4) by simp
  ultimately show ?thesis using s'(1) by (auto simp: service_def rev_map)
qed

end

section \<open>The in-process provider\<close>

lemma memory_aadd_fits:
  "0 \<le> mp_maxsize s \<Longrightarrow> fits (mp_maxsize s) (mp_items s) vs \<Longrightarrow> aadd vs s = (Inr (), s\<lparr>mp_items := mp_items s @ vs\<rparr>)"
  by (induction vs s rule: aadd.induct) (auto simp: fits_def)

lemma memory_aadd_full:
  "0 \<le> mp_maxsize s \<Longrightarrow> vs \<noteq> [] \<Longrightarrow> \<not> fits (mp_maxsize s) (mp_items s) vs \<Longrightarrow>
     \<exists>items. aadd vs s = (Inl QueueFullException, s\<lparr>mp_items := items\<rparr>) \<and>
       (fits (mp_maxsize s) (mp_items s) ([] :: pyval list) \<longrightarrow> fits (mp_maxsize s) items ([] :: pyval list))"
proof (induction vs s rule: aadd.induct)
  case (2 v vs s)
  show ?case
  proof (cases "0 < mp_maxsize s \<and> mp_maxsize s \<le> int (length (mp_items s))")
    case True
    then show ?thesis by (intro exI[of _ "mp_items s"]) simp
  next
    case False
    let ?s = "s\<lparr>mp_items := mp_items s @ [v]\<rparr>"
    have "vs \<noteq> []" "\<not> fits (mp_maxsize ?s) (mp_items ?s) vs" "fits (mp_maxsize s) (mp_items ?s) ([] :: pyval list)"
      using 2(2-4) False by (auto simp: fits_def)
    with 2(1)[OF False] 2(2) False show ?thesis by auto
  qed
qed simp

interpretation memory_raw: raw_queue aadd aget asize mp_items "\<lambda>s. 0 \<le> mp_maxsize s" mp_stack mp_maxsize "\<lambda>_. True" "\<lambda>v. v"
proof
  fix s :: provider_memory and vs
  assume s: "0 \<le> mp_maxsize s"
  show "fits (mp_maxsize s) (mp_items s) vs \<Longrightarrow>
      \<exists>s'. aadd vs s = (Inr (), s') \<and> 0 \<le> mp_maxsize s' \<and> mp_items s' = mp_items s @ map (\<lambda>v. v) vs \<and>
        mp_stack s' = mp_stack s \<and> mp_maxsize s' = mp_maxsize s"
    using memory_aadd_fits[OF s, of vs] s by simp
  show "vs \<noteq> [] \<Longrightarrow> \<not> fits (mp_maxsize s) (mp_items s) vs \<Longrightarrow>
      \<exists>s'. aadd vs s = (Inl QueueFullException, s') \<and> 0 \<le> mp_maxsize s' \<and> mp_maxsize s' = mp_maxsize s \<and>
        (fits (mp_maxsize s) (mp_items s) ([] :: pyval list) \<longrightarrow> fits (mp_maxsize s) (mp_items s') ([] :: pyval list))"
    using memory_aadd_full[OF s, of vs] s by auto
  show "mp_items s \<noteq> [] \<Longrightarrow>
      \<exists>x s'. aget s = (Inr x, s') \<and> 0 \<le> mp_maxsize s' \<and> queue_get (mp_stack s) (mp_items s) = Some (x, mp_items s') \<and>
        mp_stack s' = mp_stack s \<and> mp_maxsize s' = mp_maxsize s"
    using s by (cases "mp_items s") (auto simp: aget_def split: if_splits)
qed (auto simp: aget_def asize_def)

section \<open>The Redis provider\<close>

text \<open>What the queue's codec encodes, it decodes to the same text.\<close>

locale raw_redis_queue = raw_server "rq_redis X" items scores
  for X :: "'s raw_context" and items scores +
  assumes codec: "rq_encode X t = Some b \<Longrightarrow> rq_decode X b = Some t"
begin

definition readable :: "'s \<Rightarrow> bool" where
  "readable s \<longleftrightarrow> (\<forall>b \<in> set (items s). rq_decode X b \<noteq> None) \<and> 0 \<le> rq_maxsize X"

definition texts :: "'s \<Rightarrow> pyval list" where
  "texts s = map (\<lambda>b. PStr (the (rq_decode X b))) (items s)"

definition encodable :: "pyval \<Rightarrow> bool" where
  "encodable v \<longleftrightarrow> (\<exists>t b. as_text v = Some t \<and> rq_encode X t = Some b)"

definition text_of :: "pyval \<Rightarrow> pyval" where
  "text_of v = PStr (the (as_text v))"

lemma encode_encodable: "encodable v \<Longrightarrow> \<exists>b. encode X v = Inr b \<and> rq_decode X b = Some (the (as_text v))"
  using codec by (auto simp: encodable_def encode_def)

lemma encode_all_encodable:
  "\<forall>v \<in> set vs. encodable v \<Longrightarrow>
     \<exists>bs. encode_all X vs = Inr bs \<and> length bs = length vs \<and> (\<forall>b \<in> set bs. rq_decode X b \<noteq> None) \<and>
       map (\<lambda>b. PStr (the (rq_decode X b))) bs = map text_of vs"
proof (induction vs)
  case (Cons v vs)
  then obtain b bs where "encode X v = Inr b" "rq_decode X b = Some (the (as_text v))" "encode_all X vs = Inr bs" "length bs = length vs"
    "\<forall>b \<in> set bs. rq_decode X b \<noteq> None" "map (\<lambda>b. PStr (the (rq_decode X b))) bs = map text_of vs"
    using encode_encodable[of v] by auto
  then show ?case by (auto simp: text_of_def)
qed simp

lemma encodable_not_none: "\<forall>v \<in> set vs. encodable v \<Longrightarrow> filter (\<lambda>v. v \<noteq> PNone) vs = vs"
  by (auto simp: encodable_def filter_id_conv)

lemma add_encodable:
  assumes "readable s" "\<forall>v \<in> set vs. encodable v" "fits (rq_maxsize X) (texts s) vs"
  shows "\<exists>s'. rq_aadd X vs s = (Inr (), s') \<and> readable s' \<and> texts s' = texts s @ map text_of vs"
proof (cases "vs = []")
  case False
  obtain bs where bs: "encode_all X vs = Inr bs" "length bs = length vs" "\<forall>b \<in> set bs. rq_decode X b \<noteq> None"
    "map (\<lambda>b. PStr (the (rq_decode X b))) bs = map text_of vs"
    using encode_all_encodable[OF assms(2)] by blast
  then have ne: "bs \<noteq> []" using False by auto
  moreover have "\<not> (rq_maxsize X \<noteq> 0 \<and> rq_maxsize X < int (length (items s)) + int (length vs))"
    using assms(3) by (auto simp: fits_def texts_def)
  ultimately have "rq_aadd X vs s = (Inr (), rr_rpush (rq_redis X) bs s)"
    using bs(1) False by (simp add: rq_aadd_def llen encodable_not_none[OF assms(2)])
  then show ?thesis using bs(3,4) assms(1) by (auto simp: readable_def texts_def rpush[OF ne])
qed (use assms in \<open>simp add: rq_aadd_def\<close>)

lemma get_text:
  assumes "readable s" "texts s \<noteq> []"
  shows "\<exists>t s'. rq_aget X s = (Inr (PStr t), s') \<and> readable s' \<and> queue_get (rq_stack X) (texts s) = Some (PStr t, texts s')"
proof -
  have ne: "items s \<noteq> []" using assms(2) by (simp add: texts_def)
  define b where "b = (if rq_stack X then last (items s) else hd (items s))"
  obtain s' where pop: "pop_end X s = (Some b, s')" "items s' = (if rq_stack X then butlast (items s) else tl (items s))"
    using ne lpop_reply[of s] rpop_reply[of s] lpop_items[of s] rpop_items[of s]
    by (cases "rq_stack X"; cases "rr_rpop (rq_redis X) s"; cases "rr_lpop (rq_redis X) s") (auto simp: pop_end_def b_def)
  have "b \<in> set (items s)" using ne by (simp add: b_def)
  then obtain t where t: "rq_decode X b = Some t" using assms(1) by (auto simp: readable_def)
  moreover have "readable s'" using assms(1) pop(2) by (auto simp: readable_def dest: in_set_butlastD list.set_sel(2)[OF ne])
  moreover have "queue_get (rq_stack X) (texts s) = Some (PStr t, texts s')"
    using ne t pop(2) unfolding texts_def b_def by (cases "items s") (auto simp: map_butlast last_map split: if_splits)
  ultimately show ?thesis using pop(1) by (simp add: rq_aget_def decode_def)
qed

lemma get_nothing: "texts s = [] \<Longrightarrow> \<exists>s'. rq_aget X s = (Inl QueueEmptyException, s') \<and> items s' = []"
  using lpop_reply[of s] rpop_reply[of s] lpop_items[of s] rpop_items[of s]
  by (cases "rq_stack X"; cases "rr_rpop (rq_redis X) s"; cases "rr_lpop (rq_redis X) s") (auto simp: rq_aget_def pop_end_def texts_def)

end

sublocale raw_redis_queue \<subseteq> plain: raw_queue "rq_aadd X" "rq_aget X" "rq_asize X" texts readable
  "\<lambda>_. rq_stack X" "\<lambda>_. rq_maxsize X" encodable text_of
proof
  fix s vs
  assume s: "readable s" "\<forall>v \<in> set vs. encodable v"
  show "fits (rq_maxsize X) (texts s) vs \<Longrightarrow>
      \<exists>s'. rq_aadd X vs s = (Inr (), s') \<and> readable s' \<and> texts s' = texts s @ map text_of vs \<and>
        rq_stack X = rq_stack X \<and> rq_maxsize X = rq_maxsize X"
    using add_encodable[OF s] by simp
  show "vs \<noteq> [] \<Longrightarrow> \<not> fits (rq_maxsize X) (texts s) vs \<Longrightarrow>
      \<exists>s'. rq_aadd X vs s = (Inl QueueFullException, s') \<and> readable s' \<and> rq_maxsize X = rq_maxsize X \<and>
        (fits (rq_maxsize X) (texts s) ([] :: pyval list) \<longrightarrow> fits (rq_maxsize X) (texts s') ([] :: pyval list))"
    using s(1) by (auto simp: rq_aadd_def fits_def texts_def llen)
next
  fix s
  assume s: "readable s"
  show "texts s \<noteq> [] \<Longrightarrow>
      \<exists>x s'. rq_aget X s = (Inr x, s') \<and> readable s' \<and> queue_get (rq_stack X) (texts s) = Some (x, texts s') \<and>
        rq_stack X = rq_stack X \<and> rq_maxsize X = rq_maxsize X"
    using get_text[OF s] by blast
  show "texts s = [] \<Longrightarrow> \<exists>s'. rq_aget X s = (Inl QueueEmptyException, s') \<and> texts s' = []"
    using get_nothing by (fastforce simp: texts_def)
  show "rq_asize X s = length (texts s)" by (simp add: rq_asize_def llen texts_def)
qed

section \<open>JSON queues over it\<close>

locale json_raw_queue = raw_redis_queue X items scores for X :: "'s raw_context" and items scores +
  fixes J :: json_text
begin

definition parses :: "'s \<Rightarrow> bool" where
  "parses s \<longleftrightarrow> readable s \<and> (\<forall>b \<in> set (items s). jt_loads J (the (rq_decode X b)) \<noteq> None)"

definition documents :: "'s \<Rightarrow> pyval list" where
  "documents s = map (\<lambda>b. the (jt_loads J (the (rq_decode X b)))) (items s)"

text \<open>A value that has a JSON text which the codec encodes and which reads back as the normalised value.\<close>

definition transportable :: "pyval \<Rightarrow> bool" where
  "transportable v \<longleftrightarrow> v \<noteq> PNone \<and> json_ok v \<and> rq_encode X (jt_dumps J v) \<noteq> None \<and> jt_loads J (jt_dumps J v) = Some (json_norm v)"

lemma json_encode_all_transportable:
  "\<forall>v \<in> set vs. transportable v \<Longrightarrow> json_encode_all J vs = Inr (map (\<lambda>v. PStr (jt_dumps J v)) vs)"
  by (induction vs) (auto simp: transportable_def json_encode_def)

lemma transportable_encodable: "transportable v \<Longrightarrow> encodable (PStr (jt_dumps J v))"
  by (auto simp: transportable_def encodable_def)

lemma documents_texts: "documents s = map (\<lambda>v. case v of PStr t \<Rightarrow> the (jt_loads J t) | _ \<Rightarrow> PNone) (texts s)"
  by (simp add: documents_def texts_def)

lemma parses_texts: "parses s \<longleftrightarrow> readable s \<and> (\<forall>v \<in> set (texts s). \<exists>t d. v = PStr t \<and> jt_loads J t = Some d)"
  by (auto simp: parses_def texts_def)

lemma length_documents: "length (documents s) = length (texts s)"
  by (simp add: documents_texts)

lemma fits_documents: "fits c (documents s) vs = fits c (texts s) (map (\<lambda>v. PStr (jt_dumps J v)) vs)"
  by (simp add: fits_def length_documents)

lemma json_add:
  assumes "parses s" "\<forall>v \<in> set vs. transportable v" "fits (rq_maxsize X) (documents s) vs"
  shows "\<exists>s'. json_aadd X J vs s = (Inr (), s') \<and> parses s' \<and> documents s' = documents s @ map json_norm vs"
proof -
  let ?ts = "map (\<lambda>v. PStr (jt_dumps J v)) vs"
  have vs: "filter (\<lambda>v. v \<noteq> PNone) vs = vs" using assms(2) by (auto simp: transportable_def filter_id_conv)
  have enc: "\<forall>v \<in> set ?ts. encodable v" using assms(2) transportable_encodable by auto
  obtain s' where s': "rq_aadd X ?ts s = (Inr (), s')" "readable s'" "texts s' = texts s @ map text_of ?ts"
    using add_encodable[OF _ enc, of s] assms(1,3) by (auto simp: parses_def fits_documents)
  have "parses s'" "documents s' = documents s @ map json_norm vs"
    using s' assms(1,2) by (auto simp: parses_texts documents_texts text_of_def transportable_def)
  then show ?thesis using s'(1) by (simp add: json_aadd_def vs json_encode_all_transportable[OF assms(2)])
qed

lemma json_get:
  assumes "parses s" "documents s \<noteq> []"
  shows "\<exists>x s'. json_aget X J s = (Inr x, s') \<and> parses s' \<and> queue_get (rq_stack X) (documents s) = Some (x, documents s')"
proof -
  have "texts s \<noteq> []" "readable s" using assms by (auto simp: documents_texts parses_def)
  then obtain t s' where g: "rq_aget X s = (Inr (PStr t), s')" "readable s'" "queue_get (rq_stack X) (texts s) = Some (PStr t, texts s')"
    using get_text by blast
  have mem: "PStr t \<in> set (texts s)" "set (texts s') \<subseteq> set (texts s)"
    using queue_get_set[OF g(3)] .
  then obtain d where d: "jt_loads J t = Some d" using assms(1) by (fastforce simp: parses_texts)
  have "parses s'" using mem(2) g(2) assms(1) by (auto simp: parses_texts)
  moreover have "queue_get (rq_stack X) (documents s) = Some (d, documents s')"
    using g(3) d by (simp add: documents_texts queue_get_map)
  ultimately show ?thesis using g(1) d by (simp add: json_aget_def json_decode_def)
qed

end

sublocale json_raw_queue \<subseteq> json: raw_queue "json_aadd X J" "json_aget X J" "rq_asize X" documents parses
  "\<lambda>_. rq_stack X" "\<lambda>_. rq_maxsize X" transportable json_norm
proof
  fix s vs
  assume s: "parses s" "\<forall>v \<in> set vs. transportable v"
  show "fits (rq_maxsize X) (documents s) vs \<Longrightarrow>
      \<exists>s'. json_aadd X J vs s = (Inr (), s') \<and> parses s' \<and> documents s' = documents s @ map json_norm vs \<and>
        rq_stack X = rq_stack X \<and> rq_maxsize X = rq_maxsize X"
    using json_add[OF s] by simp
  have "filter (\<lambda>v. v \<noteq> PNone) vs = vs" using s(2) by (auto simp: transportable_def filter_id_conv)
  then show "vs \<noteq> [] \<Longrightarrow> \<not> fits (rq_maxsize X) (documents s) vs \<Longrightarrow>
      \<exists>s'. json_aadd X J vs s = (Inl QueueFullException, s') \<and> parses s' \<and> rq_maxsize X = rq_maxsize X \<and>
        (fits (rq_maxsize X) (documents s) ([] :: pyval list) \<longrightarrow> fits (rq_maxsize X) (documents s') ([] :: pyval list))"
    using s by (simp add: json_aadd_def json_encode_all_transportable rq_aadd_def fits_def documents_def llen)
next
  fix s
  assume s: "parses s"
  show "documents s \<noteq> [] \<Longrightarrow>
      \<exists>x s'. json_aget X J s = (Inr x, s') \<and> parses s' \<and> queue_get (rq_stack X) (documents s) = Some (x, documents s') \<and>
        rq_stack X = rq_stack X \<and> rq_maxsize X = rq_maxsize X"
    using json_get[OF s] by blast
  show "documents s = [] \<Longrightarrow> \<exists>s'. json_aget X J s = (Inl QueueEmptyException, s') \<and> documents s' = []"
    using get_nothing[of s] by (auto simp: json_aget_def documents_def texts_def)
  show "rq_asize X s = length (documents s)" by (simp add: rq_asize_def llen documents_def)
qed

context json_raw_queue
begin

lemma json_add_then_drain:
  assumes "parses s" "\<forall>v \<in> set vs. transportable v" "fits (rq_maxsize X) (documents s) vs" "documents s = []"
  shows "\<exists>s'. json_aadd X J vs s = (Inr (), s') \<and> rq_asize X s' = length vs \<and>
    drain_with (json_aget X J) (length vs) s' = map (\<lambda>v. Inr (json_norm v)) (if rq_stack X then rev vs else vs)"
  using json.add_then_drain[OF assms] .

end

section \<open>A server in memory\<close>

record raw_db =
  rd_items :: "bytes list"
  rd_scores :: "(bytes \<times> rat) list"

definition map_raw_redis :: "raw_db raw_redis" where
  "map_raw_redis =
     \<lparr>rr_llen = (\<lambda>s. length (rd_items s)),
      rr_rpush = (\<lambda>bs s. s\<lparr>rd_items := rd_items s @ bs\<rparr>),
      rr_lpop = (\<lambda>s. (if rd_items s = [] then None else Some (hd (rd_items s)), s\<lparr>rd_items := tl (rd_items s)\<rparr>)),
      rr_rpop = (\<lambda>s. (if rd_items s = [] then None else Some (last (rd_items s)), s\<lparr>rd_items := butlast (rd_items s)\<rparr>)),
      rr_lrange = (\<lambda>i j s. if i = 0 then take 1 (rd_items s) else if rd_items s = [] then [] else [last (rd_items s)]),
      rr_delete = (\<lambda>s. s\<lparr>rd_items := [], rd_scores := []\<rparr>),
      rr_zcard = (\<lambda>s. length (AList.clearjunk (rd_scores s))),
      rr_zadd_nx = (\<lambda>b x s. if b \<in> fst ` set (rd_scores s) then s else s\<lparr>rd_scores := (b, x) # rd_scores s\<rparr>),
      rr_zrevrange_top = (\<lambda>s. if rd_scores s = [] then None
         else Some (snd (Max (set (map (\<lambda>(b, x). (x, b)) (AList.clearjunk (rd_scores s))))))),
      rr_zrem = (\<lambda>b s. s\<lparr>rd_scores := AList.delete b (rd_scores s)\<rparr>)\<rparr>"

lemma map_raw_top:
  assumes "rd_scores s \<noteq> []"
  shows "\<exists>b x. Max (set (map (\<lambda>(b, x). (x, b)) (AList.clearjunk (rd_scores s)))) = (x, b) \<and> map_of (rd_scores s) b = Some x \<and>
    (\<forall>b' y. map_of (rd_scores s) b' = Some y \<longrightarrow> (y, b') \<le> (x, b))"
proof -
  let ?d = "AList.clearjunk (rd_scores s)"
  let ?S = "set (map (\<lambda>(b, x). (x, b)) ?d)"
  have mem: "(x, b) \<in> ?S \<longleftrightarrow> map_of (rd_scores s) b = Some x" for b x
  proof -
    have "(x, b) \<in> ?S \<longleftrightarrow> (b, x) \<in> set ?d" by force
    also have "\<dots> \<longleftrightarrow> map_of ?d b = Some x" by (simp add: map_of_eq_Some_iff distinct_clearjunk)
    finally show ?thesis by (simp add: map_of_clearjunk)
  qed
  have "?d \<noteq> []" using assms by (cases "rd_scores s") auto
  then have "Max ?S \<in> ?S" by (intro Max_in) auto
  moreover have "z \<le> Max ?S" if "z \<in> ?S" for z using that by (intro Max_ge) auto
  moreover obtain x b where "Max ?S = (x, b)" by (metis surj_pair)
  ultimately show ?thesis using mem by (metis (no_types, lifting))
qed

interpretation map_raw: raw_server map_raw_redis rd_items "\<lambda>s. map_of (rd_scores s)"
proof
  fix s b x
  show "map_of (rd_scores (rr_zadd_nx map_raw_redis b x s)) =
      (if b \<in> dom (map_of (rd_scores s)) then map_of (rd_scores s) else (map_of (rd_scores s))(b \<mapsto> x))"
    by (simp add: map_raw_redis_def dom_map_of_conv_image_fst)
  show "rr_zcard map_raw_redis s = card (dom (map_of (rd_scores s)))"
    using distinct_card[OF distinct_clearjunk[of "rd_scores s"]]
    by (simp add: map_raw_redis_def dom_map_of_conv_image_fst length_map[of fst, symmetric] set_map[symmetric] del: length_map set_map)
       (metis dom_clearjunk dom_map_of_conv_image_fst length_map set_map)
  show "rr_zrevrange_top map_raw_redis s = Some b \<Longrightarrow>
      \<exists>x. map_of (rd_scores s) b = Some x \<and> (\<forall>b' y. map_of (rd_scores s) b' = Some y \<longrightarrow> (y, b') \<le> (x, b))"
    using map_raw_top[of s] by (auto simp: map_raw_redis_def split: if_splits)
qed (auto simp: map_raw_redis_def finite_dom_map_of delete_conv')

text \<open>A queue with the UTF-8 codec: a text is given by these bytes.\<close>

definition sample_raw :: "bool \<Rightarrow> int \<Rightarrow> raw_db raw_context" where
  "sample_raw stack maxsize =
     \<lparr>rq_redis = map_raw_redis, rq_encode = Some, rq_decode = Some, rq_stack = stack, rq_maxsize = maxsize, rq_no_values = ValueError\<rparr>"

definition sample_json :: json_text where
  "sample_json = \<lparr>jt_dumps = (\<lambda>v. case v of PTuple _ \<Rightarrow> ''[]'' | _ \<Rightarrow> ''true''),
     jt_loads = (\<lambda>t. if t = ''[]'' then Some (PList []) else if t = ''true'' then Some (PBool True) else None)\<rparr>"

interpretation sample_queue: raw_redis_queue "sample_raw stack maxsize" rd_items "\<lambda>s. map_of (rd_scores s)" for stack maxsize
  using map_raw.raw_server_axioms by unfold_locales (simp_all add: sample_raw_def raw_server_def)

interpretation sample_json_queue: json_raw_queue "sample_raw stack maxsize" rd_items "\<lambda>s. map_of (rd_scores s)" sample_json for stack maxsize
  by unfold_locales

section \<open>Order of service\<close>

text \<open>
  C34. What is added to an empty JSON queue on Redis that has room for it comes back from as many calls
  of \<^verbatim>\<open>aget\<close>, each value as JSON normalises it, in order of arrival, or in the reverse order on a
  stack; for every server, and every codec that decodes what it encodes.
\<close>

theorem json_values_in_order:
  assumes "json_raw_queue X items scores" "items s = []" "0 \<le> rq_maxsize X"
    "rq_maxsize X = 0 \<or> int (length vs) \<le> rq_maxsize X"
    "\<forall>v \<in> set vs. v \<noteq> PNone \<and> json_ok v \<and> rq_encode X (jt_dumps J v) \<noteq> None \<and> jt_loads J (jt_dumps J v) = Some (json_norm v)"
  shows "\<exists>s'. json_aadd X J vs s = (Inr (), s') \<and> rq_asize X s' = length vs \<and>
    drain_with (json_aget X J) (length vs) s' = map (\<lambda>v. Inr (json_norm v)) (if rq_stack X then rev vs else vs)"
proof (rule json_raw_queue.json_add_then_drain[OF assms(1)])
  show "json_raw_queue.parses X items J s"
    using assms(1-3) by (simp add: json_raw_queue.parses_def raw_redis_queue.readable_def json_raw_queue_def)
  show "\<forall>v \<in> set vs. json_raw_queue.transportable X J v"
    using assms(1,5) by (simp add: json_raw_queue.transportable_def)
  show "fits (rq_maxsize X) (json_raw_queue.documents X items J s) vs" "json_raw_queue.documents X items J s = []"
    using assms(1,2,4) by (simp_all add: json_raw_queue.documents_def fits_def)
qed

theorem json_values_in_order_witness:
  "\<exists>s'. json_aadd (sample_raw True 2) sample_json [PTuple [], PBool True] \<lparr>rd_items = [], rd_scores = []\<rparr> = (Inr (), s') \<and>
     rq_asize (sample_raw True 2) s' = 2 \<and>
     drain_with (json_aget (sample_raw True 2) sample_json) 2 s' = [Inr (PBool True), Inr (PList [])]"
  using json_values_in_order[OF sample_json_queue.json_raw_queue_axioms[of True 2],
      of "\<lparr>rd_items = [], rd_scores = []\<rparr>" "[PTuple [], PBool True]" sample_json]
  by (simp add: sample_raw_def sample_json_def numeral_2_eq_2)

section \<open>Priorities on Redis\<close>

context raw_redis_queue
begin

text \<open>The sorted set is a map from values to scores: adding a value that is there changes nothing.\<close>

lemma add_score:
  assumes "rq_maxsize X = 0 \<or> int (card (dom (scores s))) < rq_maxsize X" "as_text v = Some t" "rq_encode X t = Some b"
  shows "\<exists>s'. add_one_score X (p, v) s = (Inr (), s') \<and>
    scores s' = (if b \<in> dom (scores s) then scores s else (scores s)(b \<mapsto> fl (of_int p)))"
  using assms by (auto simp: add_one_score_def rq_asize_priority_def zcard encode_def zadd_nx)

lemma add_score_full:
  assumes "rq_maxsize X \<noteq> 0" "rq_maxsize X \<le> int (card (dom (scores s)))"
  shows "add_one_score X item s = (Inl QueueFullException, s)"
  using assms by (simp add: add_one_score_def rq_asize_priority_def zcard)

lemma get_priority_cases:
  assumes "\<forall>b \<in> dom (scores s). rq_decode X b \<noteq> None"
  shows "scores s = Map.empty \<and> rq_aget_priority X s = (Inl QueueEmptyException, s) \<or>
    (\<exists>b t x s'. rq_aget_priority X s = (Inr (PStr t), s') \<and> rq_apeek_priority X s = Inr (PStr t) \<and> rq_decode X b = Some t \<and>
       scores s b = Some x \<and> (\<forall>b' y. scores s b' = Some y \<longrightarrow> y \<le> x) \<and> scores s' = (scores s)(b := None))"
proof (cases "rr_zrevrange_top (rq_redis X) s")
  case None
  then have "scores s = Map.empty" using top_None by blast
  then show ?thesis using None by (simp add: rq_aget_priority_def get_read_def)
next
  case (Some b)
  then obtain x where x: "scores s b = Some x" "\<forall>b' y. scores s b' = Some y \<longrightarrow> (y, b') \<le> (x, b)" using top_Some by blast
  then obtain t where "rq_decode X b = Some t" using assms by (metis domI not_None_eq)
  then have "rq_aget_priority X s = (Inr (PStr t), rr_zrem (rq_redis X) b s)" "rq_apeek_priority X s = Inr (PStr t)" "rq_decode X b = Some t"
    using Some by (simp_all add: rq_aget_priority_def get_read_def get_remove_def decode_def rq_apeek_priority_def)
  moreover have "\<forall>b' y. scores s b' = Some y \<longrightarrow> y \<le> x" using x(2) by (metis less_eq_prod_simp order_less_imp_le)
  ultimately show ?thesis using x(1) zrem[of b s] by blast
qed

text \<open>Polling finds what is there at once.\<close>

lemma poll_takes_what_is_there:
  assumes "\<forall>b \<in> dom (scores s). rq_decode X b \<noteq> None" "scores s \<noteq> Map.empty" "0 \<le> retries"
  shows "rq_apoll_priority X others timeout retries s = Some (rq_aget_priority X s)"
proof -
  obtain t s' where "rq_aget_priority X s = (Inr (PStr t), s')" using get_priority_cases[OF assms(1)] assms(2) by blast
  then show ?thesis using assms(3) by (simp add: rq_apoll_priority_def poll_loop.simps)
qed

end

lemma poll_loop_returns:
  assumes "0 < retries"
  shows "\<exists>r s'. poll_loop X others timeout retries (int n) s = Some (r, s')"
proof (induction n arbitrary: s)
  case 0
  then show ?case using assms by (subst poll_loop.simps) simp
next
  case (Suc n)
  obtain r u where u: "rq_aget_priority X s = (r, u)" by (metis surj_pair)
  show ?case using Suc.IH u
    by (subst poll_loop.simps) (auto split: sum.splits pyerror.splits option.splits)
qed

text \<open>
  Taking from a Redis priority queue of raw values gives a value of the highest priority there is
  and removes just that one, peeking gives the same value, and an empty queue says so. Polling with a
  bounded number of retries, or without waiting, always returns.
\<close>

theorem redis_raw_priority_served:
  assumes "raw_redis_queue X items scores" "\<forall>b \<in> dom (scores s). rq_decode X b \<noteq> None" "retries \<noteq> 0 \<or> timeout \<le> 0"
  shows "(scores s = Map.empty \<and> rq_aget_priority X s = (Inl QueueEmptyException, s) \<or>
      (\<exists>b t x s'. rq_aget_priority X s = (Inr (PStr t), s') \<and> rq_apeek_priority X s = Inr (PStr t) \<and> rq_decode X b = Some t \<and>
         scores s b = Some x \<and> (\<forall>b' y. scores s b' = Some y \<longrightarrow> y \<le> x) \<and> scores s' = (scores s)(b := None))) \<and>
    (\<exists>r s'. rq_apoll_priority X others timeout retries s = Some (r, s'))"
proof (rule conjI[OF raw_redis_queue.get_priority_cases[OF assms(1,2)]])
  consider "0 < retries" | "retries < 0" | "retries = 0" "timeout \<le> 0" using assms(3) by linarith
  then show "\<exists>r s'. rq_apoll_priority X others timeout retries s = Some (r, s')"
  proof cases
    case 1
    then show ?thesis using poll_loop_returns[OF 1, of X others timeout "nat retries" s] by (simp add: rq_apoll_priority_def)
  next
    case 2
    then show ?thesis by (simp add: rq_apoll_priority_def poll_loop.simps)
  next
    case 3
    obtain r u where "rq_aget_priority X s = (r, u)" by (metis surj_pair)
    then show ?thesis using 3
      by (auto simp: rq_apoll_priority_def poll_loop.simps[of X others timeout 0] split: sum.splits pyerror.splits)
  qed
qed

theorem redis_raw_priority_served_witness:
  "\<exists>r s'. rq_apoll_priority (sample_raw False 0) (\<lambda>_ s. s) 5 3 \<lparr>rd_items = [], rd_scores = [(''a'', 2), (''b'', 3)]\<rparr> = Some (r, s')"
  using redis_raw_priority_served[OF sample_queue.raw_redis_queue_axioms[of False 0],
      of "\<lparr>rd_items = [], rd_scores = [(''a'', 2), (''b'', 3)]\<rparr>" 3 5 "\<lambda>_ s. s"]
  by (simp add: sample_raw_def)

text \<open>
  Reading and removing are separate commands and the number of removed members is not looked at: two
  consumers that both read before either removes return the same value.
\<close>

lemma concurrent_gets_return_one_value_twice:
  assumes "get_read X s = Some member" "rq_decode X member = Some t"
  shows "\<exists>s1 s2. get_remove X member s = (Inr (PStr t), s1) \<and> get_remove X member s1 = (Inr (PStr t), s2)"
  using assms by (simp add: get_remove_def decode_def)

end
