(* ===== verification/Redis_Transport.thy ===== *)
theory Redis_Transport
  imports Py_Text
begin

text \<open>
  \<^verbatim>\<open>backends/redis/transport.py\<close>: from the location and the options of an alias to the arguments
  of the Redis client. The first section is what the module uses of \<^verbatim>\<open>urllib.parse\<close>; the checks
  \<^verbatim>\<open>urlsplit\<close> makes of a bracketed address and of a non-ASCII authority are the parameter \<open>netloc_ok\<close>,
  and the query that redis-py reads from a URL the parameter \<open>parse_url\<close>. The bytes a query encodes
  are taken to be UTF-8. Messages are left out.
\<close>

section \<open>URLs\<close>

record split_result =
  sr_scheme :: string
  sr_netloc :: string
  sr_path :: string
  sr_query :: string
  sr_fragment :: string

definition url_clean :: "string \<Rightarrow> string" where
  "url_clean url = filter (\<lambda>c. c \<notin> {CHR 0x09, CHR 0x0A, CHR 0x0D}) (dropWhile (\<lambda>c. of_char c \<le> (32 :: nat)) url)"

definition scheme_char :: "char \<Rightarrow> bool" where
  "scheme_char c \<longleftrightarrow> is_alpha c \<or> is_digit c \<or> c \<in> {CHR ''+'', CHR ''-'', CHR ''.''}"

definition scheme_ok :: "string \<Rightarrow> bool" where
  "scheme_ok s \<longleftrightarrow> s \<noteq> [] \<and> is_alpha (hd s) \<and> list_all scheme_char s"

definition split_scheme :: "string \<Rightarrow> string \<times> string" where
  "split_scheme url =
     (case partition_at CHR '':'' url of
        (s, found, rest) \<Rightarrow> if found \<and> scheme_ok s then (lower s, rest) else ('''', url))"

definition netloc_char :: "char \<Rightarrow> bool" where
  "netloc_char c \<longleftrightarrow> c \<notin> {CHR ''/'', CHR ''?'', CHR ''#''}"

definition split_netloc :: "string \<Rightarrow> string \<times> string" where
  "split_netloc url =
     (if take 2 url = ''//'' then (takeWhile netloc_char (drop 2 url), dropWhile netloc_char (drop 2 url)) else ('''', url))"

definition urlsplit :: "(string \<Rightarrow> bool) \<Rightarrow> string \<Rightarrow> split_result result" where
  "urlsplit netloc_ok url =
     (let (scheme, rest) = split_scheme (url_clean url);
          (netloc, rest) = split_netloc rest;
          (rest, _, fragment) = partition_at CHR ''#'' rest;
          (path, _, query) = partition_at CHR ''?'' rest
      in if (CHR ''['' \<in> set netloc) \<noteq> (CHR '']'' \<in> set netloc) \<or> \<not> netloc_ok netloc then Inl ValueError
         else Inr \<lparr>sr_scheme = scheme, sr_netloc = netloc, sr_path = path, sr_query = query, sr_fragment = fragment\<rparr>)"

definition uses_netloc :: "string list" where
  "uses_netloc = ['''', ''ftp'', ''http'', ''gopher'', ''nntp'', ''telnet'', ''imap'', ''wais'', ''file'', ''mms'', ''https'', ''shttp'',
     ''snews'', ''prospero'', ''rtsp'', ''rtsps'', ''rtspu'', ''rsync'', ''svn'', ''svn+ssh'', ''sftp'', ''nfs'', ''git'', ''git+ssh'',
     ''ws'', ''wss'', ''itms-services'']"

definition urlunsplit :: "split_result \<Rightarrow> string" where
  "urlunsplit p =
     (let scheme = sr_scheme p; netloc = sr_netloc p; url = sr_path p;
          url = (if netloc \<noteq> [] then ''//'' @ netloc @ (if url \<noteq> [] \<and> take 1 url \<noteq> ''/'' then ''/'' @ url else url)
                 else if take 2 url = ''//'' then ''//'' @ url
                 else if scheme \<noteq> [] \<and> scheme \<in> set uses_netloc \<and> (url = [] \<or> take 1 url = ''/'') then ''//'' @ url
                 else url)
      in (if scheme \<noteq> [] then scheme @ '':'' else []) @ url @
         (if sr_query p \<noteq> [] then ''?'' @ sr_query p else []) @ (if sr_fragment p \<noteq> [] then ''#'' @ sr_fragment p else []))"

text \<open>The authority: user and password, host and port.\<close>

definition userinfo :: "split_result \<Rightarrow> string option \<times> string option" where
  "userinfo p =
     (case rpartition_at CHR ''@'' (sr_netloc p) of
        (info, have_info, _) \<Rightarrow>
          if have_info then
            (case partition_at CHR '':'' info of
               (name, have_password, password) \<Rightarrow> (Some name, if have_password then Some password else None))
          else (None, None))"

definition hostinfo :: "split_result \<Rightarrow> string \<times> string" where
  "hostinfo p =
     (case rpartition_at CHR ''@'' (sr_netloc p) of
        (_, _, info) \<Rightarrow>
          (case partition_at CHR ''['' info of
             (_, True, bracketed) \<Rightarrow>
               (case partition_at CHR '']'' bracketed of
                  (host, _, after) \<Rightarrow> (host, snd (snd (partition_at CHR '':'' after))))
           | (_, False, _) \<Rightarrow> (case partition_at CHR '':'' info of (host, _, port) \<Rightarrow> (host, port))))"

text \<open>\<^verbatim>\<open>parsed.hostname or ""\<close>: in lower case but for the zone of an IPv6 address.\<close>

definition hostname :: "split_result \<Rightarrow> string" where
  "hostname p =
     (case partition_at CHR ''%'' (fst (hostinfo p)) of
        (host, percent, zone) \<Rightarrow> lower host @ (if percent then ''%'' else []) @ zone)"

definition url_port :: "split_result \<Rightarrow> nat option result" where
  "url_port p =
     (let port = snd (hostinfo p) in
      if port = [] then Inr None
      else if \<not> list_all is_digit port then Inl ValueError
      else (case digits_value False 0 port of
          Some n \<Rightarrow> if n \<le> 65535 then Inr (Some n) else Inl ValueError
        | None \<Rightarrow> Inl ValueError))"

section \<open>Queries\<close>

definition hex_digit :: "char \<Rightarrow> nat option" where
  "hex_digit c =
     (let n = of_char c in
      if 48 \<le> n \<and> n \<le> 57 then Some (n - 48)
      else if 65 \<le> n \<and> n \<le> 70 then Some (n - 55)
      else if 97 \<le> n \<and> n \<le> 102 then Some (n - 87)
      else None)"

fun unquote_plus :: "string \<Rightarrow> string" where
  "unquote_plus [] = []"
| "unquote_plus (c # s) =
     (if c = CHR ''+'' then CHR '' '' # unquote_plus s
      else if c = CHR ''%'' then
        (case s of
           a # b # s' \<Rightarrow>
             (case (hex_digit a, hex_digit b) of
                (Some m, Some n) \<Rightarrow> char_of (16 * m + n) # unquote_plus s'
              | _ \<Rightarrow> c # unquote_plus s)
         | _ \<Rightarrow> c # unquote_plus s)
      else c # unquote_plus s)"

fun split_fields :: "string \<Rightarrow> string \<Rightarrow> string list" where
  "split_fields acc [] = [rev acc]"
| "split_fields acc (c # s) = (if c = CHR ''&'' then rev acc # split_fields [] s else split_fields (c # acc) s)"

definition parse_field :: "string \<Rightarrow> string \<times> string" where
  "parse_field field = (case partition_at CHR ''='' field of (name, _, value) \<Rightarrow> (unquote_plus name, unquote_plus value))"

definition parse_qsl :: "string \<Rightarrow> (string \<times> string) list" where
  "parse_qsl query = map parse_field (filter (\<lambda>f. f \<noteq> []) (split_fields [] query))"

definition unreserved :: "char \<Rightarrow> bool" where
  "unreserved c \<longleftrightarrow> is_alpha c \<or> is_digit c \<or> c \<in> {CHR ''_'', CHR ''.'', CHR ''-'', CHR ''~''}"

definition hex_char :: "nat \<Rightarrow> char" where
  "hex_char n = char_of (if n < 10 then 48 + n else 55 + n)"

definition quote_char :: "char \<Rightarrow> string" where
  "quote_char c =
     (if unreserved c then [c]
      else if c = CHR '' '' then ''+''
      else [CHR ''%'', hex_char (of_char c div 16), hex_char (of_char c mod 16)])"

definition quote_plus :: "string \<Rightarrow> string" where
  "quote_plus s = concat (map quote_char s)"

fun urlencode :: "(string \<times> string) list \<Rightarrow> string" where
  "urlencode [] = []"
| "urlencode [(k, v)] = quote_plus k @ ''='' @ quote_plus v"
| "urlencode ((k, v) # rest) = quote_plus k @ ''='' @ quote_plus v @ ''&'' @ urlencode rest"

section \<open>Client arguments\<close>

definition tls_option_keys :: "string list" where
  "tls_option_keys = [''ssl'', ''ssl_ca_certs'', ''ssl_ca_data'', ''ssl_ca_path'', ''ssl_certfile'', ''ssl_keyfile'', ''ssl_cert_reqs'',
     ''ssl_check_hostname'', ''ssl_password'', ''ssl_min_version'', ''ssl_ciphers'', ''ssl_include_verify_flags'',
     ''ssl_exclude_verify_flags'', ''ssl_validate_ocsp'', ''ssl_validate_ocsp_stapled'']"

definition option_or_none :: "(string, pyval) pydict \<Rightarrow> string \<Rightarrow> pyval" where
  "option_or_none d k = (case dict_get d k of Some v \<Rightarrow> v | None \<Rightarrow> PNone)"

definition dict_update :: "('k, 'v) pydict \<Rightarrow> ('k, 'v) pydict \<Rightarrow> ('k, 'v) pydict" where
  "dict_update d e = fold (\<lambda>(k, v). dict_set k v) e d"

definition tls_keys_of :: "(string, pyval) pydict \<Rightarrow> (string, pyval) pydict" where
  "tls_keys_of d = concat (map (\<lambda>k. case dict_get d k of Some v \<Rightarrow> [(k, v)] | None \<Rightarrow> []) tls_option_keys)"

definition url_tls_keys :: "(string \<Rightarrow> (string, pyval) pydict option) \<Rightarrow> string \<Rightarrow> (string, pyval) pydict" where
  "url_tls_keys parse_url url = (case parse_url url of None \<Rightarrow> [] | Some parsed \<Rightarrow> tls_keys_of parsed)"

definition ssl_explicitly_disabled :: "pyval \<Rightarrow> bool" where
  "ssl_explicitly_disabled value \<longleftrightarrow>
     value = PBool False \<or> py_eq value (PNum (PyInt 0)) \<or>
     (case as_text value of Some s \<Rightarrow> lower s \<in> {''false'', ''0'', ''no'', ''none''} | None \<Rightarrow> False)"

definition redis_client_kwargs ::
    "(string \<Rightarrow> bool) \<Rightarrow> (string \<Rightarrow> (string, pyval) pydict option) \<Rightarrow> string \<Rightarrow> (string, pyval) pydict \<Rightarrow>
     (string, pyval) pydict result" where
  "redis_client_kwargs netloc_ok parse_url url options =
     bindR (urlsplit netloc_ok url) (\<lambda>parsed.
       let scheme = lower (sr_scheme parsed); tls_options = tls_keys_of options; url_keys = url_tls_keys parse_url url in
       if scheme \<noteq> ''rediss'' \<and> (tls_options \<noteq> [] \<or> url_keys \<noteq> []) then Inl InvalidQueueBackendError
       else if scheme = ''rediss'' then
         (if ssl_explicitly_disabled (option_or_none tls_options ''ssl'') \<or> ''ssl'' \<in> dkeys url_keys
          then Inl InvalidQueueBackendError
          else Inr (dict_update (dict_pop ''ssl'' url_keys) (dict_pop ''ssl'' tls_options)))
       else Inr [])"

definition redis_from_url_location :: "(string \<Rightarrow> bool) \<Rightarrow> string \<Rightarrow> string result" where
  "redis_from_url_location netloc_ok url =
     bindR (urlsplit netloc_ok url) (\<lambda>parsed.
       if sr_query parsed = [] then Inr url
       else
         let pairs = parse_qsl (sr_query parsed); kept = filter (\<lambda>(key, value). lower key \<notin> set tls_option_keys) pairs in
         if length kept = length pairs then Inr url
         else Inr (urlunsplit (parsed\<lparr>sr_query := urlencode kept\<rparr>)))"

definition redact_redis_url :: "(string \<Rightarrow> bool) \<Rightarrow> string \<Rightarrow> string result" where
  "redact_redis_url netloc_ok url =
     bindR (urlsplit netloc_ok url) (\<lambda>parsed.
       if userinfo parsed = (None, None) \<and> sr_query parsed = [] then Inr url
       else
         let host = hostname parsed;
             host = (if CHR '':'' \<in> set host \<and> \<not> startswith host ''['' then ''['' @ host @ '']'' else host) in
         bindR (url_port parsed) (\<lambda>port.
           let netloc = (case port of None \<Rightarrow> host | Some n \<Rightarrow> host @ '':'' @ nat_digits n) in
           Inr (urlunsplit (parsed\<lparr>sr_netloc := netloc, sr_query := []\<rparr>))))"

section \<open>Encoding and decoding queries\<close>

lemma hex_digit_char: "n < 16 \<Longrightarrow> hex_digit (hex_char n) = Some n"
  by (auto simp: hex_digit_def hex_char_def Let_def)

lemma char_high_nibble [simp]: "of_char (c :: char) div 16 < (16 :: nat)"
  using nat_of_char_less_256[of c] by linarith

lemma unreserved_plain: "unreserved c \<Longrightarrow> c \<noteq> CHR ''+'' \<and> c \<noteq> CHR ''%''"
  by (auto simp: unreserved_def is_alpha_def is_digit_def)

lemma unquote_quote_char: "unquote_plus (quote_char c @ s) = c # unquote_plus s"
proof (cases "unreserved c \<or> c = CHR '' ''")
  case True
  then show ?thesis using unreserved_plain[of c] by (auto simp: quote_char_def)
next
  case False
  have "char_of (16 * (of_char c div 16) + of_char c mod (16 :: nat)) = c" unfolding mult_div_mod_eq by simp
  with False show ?thesis by (simp add: quote_char_def hex_digit_char)
qed

lemma unquote_quote [simp]: "unquote_plus (quote_plus s) = s"
proof -
  have "unquote_plus (concat (map quote_char s) @ []) = s"
    by (induction s) (auto simp: unquote_quote_char simp del: append_Nil2)
  then show ?thesis by (simp add: quote_plus_def)
qed

lemma hex_char_unreserved: "n < 16 \<Longrightarrow> unreserved (hex_char n)"
  by (auto simp: unreserved_def hex_char_def is_alpha_def is_digit_def)

lemma quote_plus_chars: "c \<in> set (quote_plus s) \<Longrightarrow> unreserved c \<or> c = CHR ''+'' \<or> c = CHR ''%''"
proof -
  have "unreserved c \<or> c = CHR ''+'' \<or> c = CHR ''%''" if "c \<in> set (quote_char d)" for d
    using that hex_char_unreserved[of "of_char d div 16"] hex_char_unreserved[of "of_char d mod 16"]
    by (auto simp: quote_char_def split: if_splits)
  then show "c \<in> set (quote_plus s) \<Longrightarrow> ?thesis" by (auto simp: quote_plus_def)
qed

lemma quote_plus_free [simp]:
  "CHR ''&'' \<notin> set (quote_plus s)" "CHR ''='' \<notin> set (quote_plus s)" "CHR ''#'' \<notin> set (quote_plus s)"
  "CHR 0x09 \<notin> set (quote_plus s)" "CHR 0x0A \<notin> set (quote_plus s)" "CHR 0x0D \<notin> set (quote_plus s)"
  by (auto dest!: quote_plus_chars simp: unreserved_def is_alpha_def is_digit_def)

lemma parse_field_encoded: "parse_field (quote_plus k @ CHR ''='' # quote_plus v) = (k, v)"
  by (simp add: parse_field_def)

lemma split_fields_first: "CHR ''&'' \<notin> set f \<Longrightarrow> split_fields acc (f @ s) = split_fields (rev f @ acc) s"
  by (induction f arbitrary: acc) auto

lemma parse_qsl_urlencode [simp]: "parse_qsl (urlencode pairs) = pairs"
proof (induction pairs rule: urlencode.induct)
  case (2 k v)
  have "split_fields [] ((quote_plus k @ CHR ''='' # quote_plus v) @ []) = [quote_plus k @ CHR ''='' # quote_plus v]"
    by (subst split_fields_first) auto
  then show ?case by (simp add: parse_qsl_def parse_field_encoded)
next
  case (3 k v kv rest)
  have "split_fields [] ((quote_plus k @ CHR ''='' # quote_plus v) @ CHR ''&'' # urlencode (kv # rest)) =
      (quote_plus k @ CHR ''='' # quote_plus v) # split_fields [] (urlencode (kv # rest))"
    by (subst split_fields_first) auto
  with 3 show ?case by (simp add: parse_qsl_def parse_field_encoded)
qed (simp add: parse_qsl_def)

lemma urlencode_free:
  "c \<in> {CHR ''#'', CHR 0x09, CHR 0x0A, CHR 0x0D} \<Longrightarrow> c \<notin> set (urlencode pairs)"
  by (induction pairs rule: urlencode.induct) auto

section \<open>Splitting and joining URLs\<close>

text \<open>What \<^verbatim>\<open>urlsplit\<close> returns; such parts join to a URL that splits into them again.\<close>

abbreviation ctl_free :: "string \<Rightarrow> bool" where
  "ctl_free s \<equiv> set s \<inter> {CHR 0x09, CHR 0x0A, CHR 0x0D} = {}"

definition no_scheme :: "string \<Rightarrow> bool" where
  "no_scheme s \<longleftrightarrow> \<not> (CHR '':'' \<in> set s \<and> scheme_ok (takeWhile (\<lambda>c. c \<noteq> CHR '':'') s))"

definition well_split :: "split_result \<Rightarrow> bool" where
  "well_split p \<longleftrightarrow>
     ctl_free (sr_scheme p) \<and> ctl_free (sr_netloc p) \<and> ctl_free (sr_path p) \<and> ctl_free (sr_query p) \<and> ctl_free (sr_fragment p) \<and>
     (sr_scheme p = [] \<or> scheme_ok (sr_scheme p) \<and> lower (sr_scheme p) = sr_scheme p) \<and>
     list_all netloc_char (sr_netloc p) \<and> CHR ''?'' \<notin> set (sr_path p) \<and> CHR ''#'' \<notin> set (sr_path p) \<and> CHR ''#'' \<notin> set (sr_query p) \<and>
     (sr_netloc p \<noteq> [] \<longrightarrow> sr_path p = [] \<or> take 1 (sr_path p) = ''/'') \<and>
     (sr_scheme p = [] \<and> sr_netloc p = [] \<and> sr_path p \<noteq> [] \<longrightarrow> (32 :: nat) < of_char (hd (sr_path p)) \<and> no_scheme (sr_path p))"

definition url_body :: "split_result \<Rightarrow> string" where
  "url_body p =
     (if sr_netloc p \<noteq> [] then ''//'' @ sr_netloc p @ sr_path p
      else if take 2 (sr_path p) = ''//'' \<or>
        sr_scheme p \<noteq> [] \<and> sr_scheme p \<in> set uses_netloc \<and> (sr_path p = [] \<or> take 1 (sr_path p) = ''/'') then ''//'' @ sr_path p
      else sr_path p)"

definition url_tail :: "split_result \<Rightarrow> string" where
  "url_tail p = (if sr_query p \<noteq> [] then CHR ''?'' # sr_query p else []) @ (if sr_fragment p \<noteq> [] then CHR ''#'' # sr_fragment p else [])"

lemma urlunsplit_parts:
  "well_split p \<Longrightarrow> urlunsplit p = (if sr_scheme p \<noteq> [] then sr_scheme p @ '':'' else []) @ url_body p @ url_tail p"
  by (auto simp: urlunsplit_def url_body_def url_tail_def well_split_def Let_def)

lemma url_tail_cases: "url_tail p = [] \<or> hd (url_tail p) = CHR ''?'' \<or> hd (url_tail p) = CHR ''#''"
  by (auto simp: url_tail_def)

lemma scheme_ok_chars: "scheme_ok s \<Longrightarrow> c \<in> set s \<Longrightarrow> scheme_char c"
  by (auto simp: scheme_ok_def list_all_iff)

lemma scheme_char_not [simp]:
  "\<not> scheme_char CHR '':''" "\<not> scheme_char CHR ''?''" "\<not> scheme_char CHR ''#''" "\<not> scheme_char CHR ''/''"
  "\<not> scheme_char CHR 0x09" "\<not> scheme_char CHR 0x0A" "\<not> scheme_char CHR 0x0D"
  by (simp_all add: scheme_char_def is_alpha_def is_digit_def)

lemma no_scheme_slash: "take 1 s = ''/'' \<Longrightarrow> no_scheme s"
  by (cases s) (auto simp: no_scheme_def scheme_ok_def is_alpha_def)

lemma no_scheme_tail:
  assumes "no_scheme s" "t = [] \<or> hd t = CHR ''?'' \<or> hd t = CHR ''#''"
  shows "no_scheme (s @ t)"
proof (cases "CHR '':'' \<in> set s")
  case True
  then show ?thesis using assms(1) by (auto simp: no_scheme_def takeWhile_append1)
next
  case False
  show ?thesis
  proof (cases t)
    case (Cons d t')
    with assms(2) have "\<not> scheme_char d" "d \<noteq> CHR '':''" by auto
    moreover from Cons this False have "takeWhile (\<lambda>c. c \<noteq> CHR '':'') (s @ t) = s @ d # takeWhile (\<lambda>c. c \<noteq> CHR '':'') t'"
      by (subst takeWhile_append2) auto
    ultimately show ?thesis unfolding no_scheme_def by (auto dest: scheme_ok_chars)
  qed (use assms in simp)
qed

lemma split_scheme_none: "no_scheme s \<Longrightarrow> split_scheme s = ([], s)"
  by (auto simp: split_scheme_def partition_at_def no_scheme_def)

lemma split_scheme_some: "scheme_ok s \<Longrightarrow> split_scheme (s @ CHR '':'' # r) = (lower s, r)"
proof -
  assume "scheme_ok s"
  then have "CHR '':'' \<notin> set s" "scheme_ok s" using scheme_ok_chars[of s "CHR '':''"] by auto
  then show ?thesis by (simp add: split_scheme_def)
qed

lemma split_scheme_cases:
  obtains (none) "split_scheme s = ([], s)" "no_scheme s"
  | (some) u r where "s = u @ CHR '':'' # r" "scheme_ok u" "split_scheme s = (lower u, r)"
proof (cases "no_scheme s")
  case True
  then show ?thesis using none split_scheme_none by blast
next
  case False
  obtain u f r where pt: "partition_at CHR '':'' s = (u, f, r)" by (cases "partition_at CHR '':'' s") auto
  with False have "f" "scheme_ok u" by (auto simp: no_scheme_def partition_at_def)
  with partition_at_join[OF pt] show ?thesis using some[of u r] split_scheme_some[of u r] by simp
qed

lemma scheme_ok_ascii: "scheme_ok s \<Longrightarrow> \<forall>c \<in> set s. of_char c < (128 :: nat)"
  by (auto simp: scheme_ok_def list_all_iff scheme_char_def is_alpha_def is_digit_def)

lemma scheme_lower: "scheme_ok s \<Longrightarrow> scheme_ok (lower s) \<and> lower (lower s) = lower s"
proof -
  assume ok: "scheme_ok s"
  then have "\<forall>c \<in> set s. of_char c < (128 :: nat)" by (rule scheme_ok_ascii)
  then have low: "lower s = map ascii_lower s" by (rule lower_ascii)
  have sc: "is_alpha c \<Longrightarrow> is_alpha (ascii_lower c)" "scheme_char c \<Longrightarrow> scheme_char (ascii_lower c)" for c
    using ascii_lower_new[of c] by (auto simp: scheme_char_def)
  have "scheme_ok (lower s)" using ok sc(1)[of "hd s"] sc(2) unfolding low scheme_ok_def by (simp add: list_all_iff hd_map)
  moreover from this have "\<forall>c \<in> set (lower s). of_char c < (128 :: nat)" by (rule scheme_ok_ascii)
  then have "lower (lower s) = lower s" using lower_ascii[of "lower s"] by (simp add: low)
  ultimately show ?thesis ..
qed

lemma split_netloc_join:
  assumes "list_all netloc_char n" "r = [] \<or> \<not> netloc_char (hd r)"
  shows "split_netloc (''//'' @ n @ r) = (n, r)"
proof -
  have "takeWhile netloc_char (n @ r) = n @ takeWhile netloc_char r" "dropWhile netloc_char (n @ r) = dropWhile netloc_char r"
    using assms(1) by (auto simp: list_all_iff)
  moreover have "takeWhile netloc_char r = []" "dropWhile netloc_char r = r" using assms(2) by (cases r; auto)+
  ultimately show ?thesis by (simp add: split_netloc_def)
qed

lemma split_netloc_body:
  assumes "well_split p"
  shows "split_netloc (url_body p @ url_tail p) = (sr_netloc p, sr_path p @ url_tail p)"
proof -
  have nc: "\<not> netloc_char CHR ''/''" "\<not> netloc_char CHR ''?''" "\<not> netloc_char CHR ''#''" by (simp_all add: netloc_char_def)
  have rest: "sr_path p @ url_tail p = [] \<or> \<not> netloc_char (hd (sr_path p @ url_tail p))"
    if "sr_path p = [] \<or> take 1 (sr_path p) = ''/''"
    using that url_tail_cases[of p] nc by (cases "sr_path p"; cases "url_tail p") auto
  show ?thesis
  proof (cases "url_body p = ''//'' @ sr_netloc p @ sr_path p")
    case True
    then have "sr_path p = [] \<or> take 1 (sr_path p) = ''/''"
      using assms by (cases "sr_path p") (auto simp: url_body_def well_split_def split: if_splits)
    from split_netloc_join[OF _ rest[OF this], of "sr_netloc p"] show ?thesis
      using assms True by (simp add: well_split_def)
  next
    case False
    then have b: "sr_netloc p = []" "url_body p = sr_path p" "take 2 (sr_path p) \<noteq> ''//''" by (auto simp: url_body_def split: if_splits)
    have "take 2 (sr_path p @ url_tail p) \<noteq> ''//''"
      using b(3) url_tail_cases[of p] by (cases "sr_path p"; cases "tl (sr_path p)"; cases "url_tail p") auto
    with b show ?thesis by (simp add: split_netloc_def)
  qed
qed

lemma partition_tail:
  assumes "well_split p"
  shows "\<exists>f g r. partition_at CHR ''#'' (sr_path p @ url_tail p) = (r, f, sr_fragment p) \<and>
    partition_at CHR ''?'' r = (sr_path p, g, sr_query p)"
proof -
  let ?r = "sr_path p @ (if sr_query p \<noteq> [] then CHR ''?'' # sr_query p else [])"
  have "CHR ''#'' \<notin> set ?r" using assms by (auto simp: well_split_def)
  then have "\<exists>f. partition_at CHR ''#'' (sr_path p @ url_tail p) = (?r, f, sr_fragment p)"
    using partition_at_append[of "CHR ''#''" ?r "sr_fragment p"] by (cases "sr_fragment p = []") (auto simp: url_tail_def)
  moreover have "\<exists>g. partition_at CHR ''?'' ?r = (sr_path p, g, sr_query p)"
    using assms by (auto simp: well_split_def)
  ultimately show ?thesis by blast
qed

lemma url_clean_same: "ctl_free s \<Longrightarrow> s = [] \<or> (32 :: nat) < of_char (hd s) \<Longrightarrow> url_clean s = s"
  unfolding url_clean_def by (cases s) (auto intro!: filter_True)

lemma well_split_clean:
  assumes "well_split p"
  shows "url_clean (urlunsplit p) = urlunsplit p"
proof (rule url_clean_same)
  note parts = urlunsplit_parts[OF assms] url_body_def url_tail_def
  show "ctl_free (urlunsplit p)" using assms unfolding parts by (auto simp: well_split_def)
  have "(32 :: nat) < of_char (hd (sr_scheme p))" if "sr_scheme p \<noteq> []"
    using assms that by (auto simp: well_split_def scheme_ok_def is_alpha_def)
  then show "urlunsplit p = [] \<or> (32 :: nat) < of_char (hd (urlunsplit p))"
    using assms unfolding parts by (auto simp: well_split_def hd_append)
qed

lemma well_split_scheme:
  assumes "well_split p"
  shows "split_scheme (urlunsplit p) = (sr_scheme p, url_body p @ url_tail p)"
proof (cases "sr_scheme p = []")
  case True
  have "no_scheme (url_body p)"
  proof (cases "take 1 (url_body p) = ''/''")
    case False
    then have "url_body p = sr_path p" "sr_netloc p = []" by (auto simp: url_body_def split: if_splits)
    then show ?thesis using assms True by (cases "sr_path p = []") (auto simp: well_split_def no_scheme_def)
  qed (rule no_scheme_slash)
  from no_scheme_tail[OF this url_tail_cases] show ?thesis
    using True by (simp add: urlunsplit_parts[OF assms] split_scheme_none)
next
  case False
  then show ?thesis
    using assms split_scheme_some[of "sr_scheme p"] unfolding urlunsplit_parts[OF assms] by (auto simp: well_split_def)
qed

definition netloc_valid :: "(string \<Rightarrow> bool) \<Rightarrow> string \<Rightarrow> bool" where
  "netloc_valid netloc_ok n \<longleftrightarrow> (CHR ''['' \<in> set n \<longleftrightarrow> CHR '']'' \<in> set n) \<and> netloc_ok n"

lemma urlsplit_urlunsplit:
  assumes "well_split p"
  shows "urlsplit netloc_ok (urlunsplit p) = (if netloc_valid netloc_ok (sr_netloc p) then Inr p else Inl ValueError)"
proof -
  obtain f g r where "partition_at CHR ''#'' (sr_path p @ url_tail p) = (r, f, sr_fragment p)"
    "partition_at CHR ''?'' r = (sr_path p, g, sr_query p)" using partition_tail[OF assms] by blast
  then show ?thesis
    by (simp add: urlsplit_def well_split_clean[OF assms] well_split_scheme[OF assms] split_netloc_body[OF assms] netloc_valid_def)
qed

lemma url_clean_clean: "ctl_free (url_clean url)" "url_clean url = [] \<or> (32 :: nat) < of_char (hd (url_clean url))"
proof -
  show "ctl_free (url_clean url)" by (auto simp: url_clean_def)
  show "url_clean url = [] \<or> (32 :: nat) < of_char (hd (url_clean url))"
  proof (cases "dropWhile (\<lambda>c. of_char c \<le> (32 :: nat)) url")
    case Nil
    then show ?thesis unfolding url_clean_def by (metis filter.simps(1))
  next
    case (Cons c s)
    then have "\<not> of_char c \<le> (32 :: nat)" using dropWhile_eq_Cons_conv by metis
    with Cons show ?thesis by (auto simp: url_clean_def)
  qed
qed

lemma no_scheme_prefix: "no_scheme (s @ t) \<Longrightarrow> no_scheme s"
  by (auto simp: no_scheme_def takeWhile_append1)

lemma split_netloc_cases:
  assumes "split_netloc r0 = (n, r1)"
  obtains (plain) "n = []" "r1 = r0" | (slashes) "r0 = ''//'' @ n @ r1" "list_all netloc_char n" "r1 = [] \<or> \<not> netloc_char (hd r1)"
proof (cases "take 2 r0 = ''//''")
  case True
  then have "r0 = ''//'' @ drop 2 r0" using append_take_drop_id[of 2 r0] by simp
  moreover have n: "n = takeWhile netloc_char (drop 2 r0)" "r1 = dropWhile netloc_char (drop 2 r0)"
    using assms True by (auto simp: split_netloc_def)
  moreover have "list_all netloc_char n" unfolding n list_all_iff by (auto dest: set_takeWhileD)
  moreover have "r1 = [] \<or> \<not> netloc_char (hd r1)" unfolding n by (metis hd_dropWhile)
  ultimately show ?thesis using slashes by (metis takeWhile_dropWhile_id)
qed (use assms plain in \<open>auto simp: split_netloc_def\<close>)

lemma slash_after_netloc:
  assumes "r1 = path @ t" "r1 = [] \<or> \<not> netloc_char (hd r1)" "CHR ''?'' \<notin> set path" "CHR ''#'' \<notin> set path"
  shows "path = [] \<or> take 1 path = ''/''"
  using assms by (cases path) (auto simp: netloc_char_def)

lemma urlsplit_well_split:
  assumes "urlsplit netloc_ok url = Inr p"
  shows "well_split p \<and> netloc_valid netloc_ok (sr_netloc p)"
proof -
  obtain sc r0 n r1 r2 f g path q fr where st:
    "split_scheme (url_clean url) = (sc, r0)" "split_netloc r0 = (n, r1)" "partition_at CHR ''#'' r1 = (r2, f, fr)"
    "partition_at CHR ''?'' r2 = (path, g, q)" by (metis surj_pair)
  with assms have p: "p = \<lparr>sr_scheme = sc, sr_netloc = n, sr_path = path, sr_query = q, sr_fragment = fr\<rparr>"
    "netloc_valid netloc_ok n" by (auto simp: urlsplit_def netloc_valid_def split: if_splits)
  note j = partition_at_join[OF st(3)] partition_at_join[OF st(4)]
  let ?t = "(if g then CHR ''?'' # q else []) @ (if f then CHR ''#'' # fr else [])"
  have rest: "r1 = path @ ?t" "CHR ''?'' \<notin> set path" "CHR ''#'' \<notin> set path" "CHR ''#'' \<notin> set q" "set path \<union> set q \<union> set fr \<subseteq> set r1"
    using j by (auto split: if_splits)
  have scheme: "(sc = [] \<or> scheme_ok sc \<and> lower sc = sc) \<and> ctl_free sc \<and> ctl_free r0 \<and> (sc = [] \<longrightarrow> no_scheme r0 \<and> r0 = url_clean url)"
  proof (cases "url_clean url" rule: split_scheme_cases)
    case none
    then show ?thesis using st(1) url_clean_clean(1)[of url] by simp
  next
    case (some u r)
    have "sc = lower u" "r0 = r" using st(1) some by auto
    moreover have "scheme_ok (lower u)" "lower (lower u) = lower u" using scheme_lower[OF some(2)] by auto
    moreover have "ctl_free (lower u)"
      using scheme_ok_chars[OF calculation(3)] scheme_char_not by blast
    ultimately show ?thesis using url_clean_clean(1)[of url] some(1) by (auto simp: scheme_ok_def)
  qed
  from st(2) show ?thesis
  proof (cases rule: split_netloc_cases)
    case plain
    have "32 < (of_char (hd path) :: nat) \<and> no_scheme path" if "sc = []" "path \<noteq> []"
    proof -
      have r0: "no_scheme r0" "r0 = url_clean url" "r0 = path @ ?t" using that scheme plain rest(1) by auto
      moreover from this(3) that(2) have "hd r0 = hd path" "r0 \<noteq> []" by simp_all
      ultimately show ?thesis using url_clean_clean(2)[of url] no_scheme_prefix[of path ?t] by auto
    qed
    with plain rest(2-5) scheme p show ?thesis by (auto simp: well_split_def)
  next
    case slashes
    note path = slash_after_netloc[OF rest(1) slashes(3) rest(2,3)]
    have "32 < (of_char (hd path) :: nat) \<and> no_scheme path" if "path \<noteq> []"
      using that path no_scheme_slash[of path] by (cases path) auto
    with slashes rest(2-5) scheme p path show ?thesis by (auto simp: well_split_def)
  qed
qed

section \<open>Locations\<close>

lemma same_length_filter: "length (filter P xs) = length xs \<Longrightarrow> filter P xs = xs"
  by (metis filter_id_conv length_filter_less nat_neq_iff)

text \<open>
  The location given to the client is the configured one without its TLS query: it splits into
  the same scheme, authority, path and fragment, and its query decodes to the configured pairs
  whose keys are not TLS options, in their order, so that the options decide.
\<close>

theorem location_drops_tls_query:
  assumes "urlsplit netloc_ok url = Inr p"
  shows "\<exists>u q. redis_from_url_location netloc_ok url = Inr u \<and> urlsplit netloc_ok u = Inr (p\<lparr>sr_query := q\<rparr>) \<and>
    parse_qsl q = filter (\<lambda>(key, value). lower key \<notin> set tls_option_keys) (parse_qsl (sr_query p))"
proof -
  let ?kept = "filter (\<lambda>(key, value). lower key \<notin> set tls_option_keys) (parse_qsl (sr_query p))"
  note ws = urlsplit_well_split[OF assms]
  consider (same) "redis_from_url_location netloc_ok url = Inr url" "?kept = parse_qsl (sr_query p)"
    | (changed) "redis_from_url_location netloc_ok url = Inr (urlunsplit (p\<lparr>sr_query := urlencode ?kept\<rparr>))"
  proof (cases "length ?kept = length (parse_qsl (sr_query p))")
    case True
    then have "?kept = parse_qsl (sr_query p)" by (rule same_length_filter)
    with same assms show ?thesis by (simp add: redis_from_url_location_def Let_def)
  next
    case False
    then have "sr_query p \<noteq> []" by (auto simp: parse_qsl_def)
    with False changed assms show ?thesis by (simp add: redis_from_url_location_def Let_def)
  qed
  then show ?thesis
  proof cases
    case same
    then show ?thesis using assms by (metis split_result.update_convs(4) split_result.surjective)
  next
    case changed
    have "well_split (p\<lparr>sr_query := urlencode ?kept\<rparr>)"
      using ws urlencode_free[of _ ?kept] by (auto simp: well_split_def)
    then have "urlsplit netloc_ok (urlunsplit (p\<lparr>sr_query := urlencode ?kept\<rparr>)) = Inr (p\<lparr>sr_query := urlencode ?kept\<rparr>)"
      using ws urlsplit_urlunsplit by simp
    with changed show ?thesis using parse_qsl_urlencode by blast
  qed
qed

definition sample_location :: split_result where
  "sample_location =
     \<lparr>sr_scheme = ''rediss'', sr_netloc = ''host:6379'', sr_path = ''/0'', sr_query = ''ssl_cert_reqs=none&name=a+b'', sr_fragment = []\<rparr>"

lemma sample_location_split: "urlsplit (\<lambda>_. True) ''rediss://host:6379/0?ssl_cert_reqs=none&name=a+b'' = Inr sample_location"
  by (simp add: sample_location_def urlsplit_def url_clean_def split_scheme_def partition_at_def scheme_ok_def scheme_char_def is_alpha_def
      is_digit_def split_netloc_def netloc_char_def Let_def ascii_lower_def)

lemma sample_location_pairs: "parse_qsl (sr_query sample_location) = [(''ssl_cert_reqs'', ''none''), (''name'', ''a b'')]"
  by (simp add: sample_location_def parse_qsl_def parse_field_def partition_at_def)

theorem location_drops_tls_query_witness:
  "\<exists>u q. redis_from_url_location (\<lambda>_. True) ''rediss://host:6379/0?ssl_cert_reqs=none&name=a+b'' = Inr u \<and>
     urlsplit (\<lambda>_. True) u = Inr (sample_location\<lparr>sr_query := q\<rparr>) \<and> parse_qsl q = [(''name'', ''a b'')]"
  using location_drops_tls_query[OF sample_location_split] unfolding sample_location_pairs
  by (simp add: tls_option_keys_def ascii_lower_def)

text \<open>Redaction leaves no user, no password and no query in what is printed.\<close>

lemma nat_digits_digits: "c \<in> set (nat_digits n) \<Longrightarrow> is_digit c"
proof (induction n rule: nat_digits.induct)
  case (1 n)
  then show ?case
    by (subst (asm) nat_digits.simps) (auto simp: is_digit_def split: if_splits)
qed

lemma hostinfo_host: "c \<in> set (fst (hostinfo p)) \<Longrightarrow> c \<in> set (sr_netloc p) \<and> c \<noteq> CHR ''@''"
proof -
  obtain a f info where r: "rpartition_at CHR ''@'' (sr_netloc p) = (a, f, info)" by (metis surj_pair)
  obtain x g br where b: "partition_at CHR ''['' info = (x, g, br)" by (metis surj_pair)
  obtain h1 f1 y1 where h1: "partition_at CHR '']'' br = (h1, f1, y1)" by (metis surj_pair)
  obtain h2 f2 y2 where h2: "partition_at CHR '':'' info = (h2, f2, y2)" by (metis surj_pair)
  have "set (fst (hostinfo p)) \<subseteq> set info"
    using partition_at_join[OF b] partition_at_join[OF h1] partition_at_join[OF h2]
    by (auto simp: hostinfo_def r b h1 h2 split: bool.splits if_splits)
  with rpartition_at_last[OF r] show "c \<in> set (fst (hostinfo p)) \<Longrightarrow> ?thesis" by auto
qed

lemma hostname_chars: "c \<in> set (hostname p) \<Longrightarrow> c \<in> set (sr_netloc p) \<and> c \<noteq> CHR ''@'' \<or> is_alpha c"
proof -
  obtain h f z where pt: "partition_at CHR ''%'' (fst (hostinfo p)) = (h, f, z)" by (metis surj_pair)
  with partition_at_join[OF pt] show "c \<in> set (hostname p) \<Longrightarrow> ?thesis"
    using hostinfo_host[of c p] lower_new[of c h] by (auto simp: hostname_def split: if_splits)
qed

definition redacted_netloc :: "split_result \<Rightarrow> nat option \<Rightarrow> string" where
  "redacted_netloc p port =
     (let host = hostname p; host = (if CHR '':'' \<in> set host \<and> \<not> startswith host ''['' then ''['' @ host @ '']'' else host)
      in case port of None \<Rightarrow> host | Some n \<Rightarrow> host @ '':'' @ nat_digits n)"

lemma redacted_netloc_chars:
  "c \<in> set (redacted_netloc p port) \<Longrightarrow>
     c \<in> set (sr_netloc p) \<and> c \<noteq> CHR ''@'' \<or> is_alpha c \<or> is_digit c \<or> c \<in> {CHR '':'', CHR ''['', CHR '']''}"
  using hostname_chars[of c p] nat_digits_digits[of c]
  by (auto simp: redacted_netloc_def Let_def split: option.splits if_splits)

lemma redacted_netloc_free:
  assumes "well_split p" "c \<in> {CHR 0x09, CHR 0x0A, CHR 0x0D, CHR ''/'', CHR ''?'', CHR ''#'', CHR ''@''}"
  shows "c \<notin> set (redacted_netloc p port)"
proof -
  have "ctl_free (sr_netloc p)" "\<forall>c \<in> set (sr_netloc p). c \<notin> {CHR ''/'', CHR ''?'', CHR ''#''}"
    using assms(1) by (simp_all add: well_split_def list_all_iff netloc_char_def)
  then have "\<not> (c \<in> set (sr_netloc p) \<and> c \<noteq> CHR ''@'')" using assms(2) by blast
  moreover have "\<not> is_alpha c" "\<not> is_digit c" "c \<notin> {CHR '':'', CHR ''['', CHR '']''}"
    using assms(2) by (elim insertE; simp add: is_alpha_def is_digit_def)+
  ultimately show ?thesis using redacted_netloc_chars[of c p port] by blast
qed

lemma redacted_netloc_ok:
  assumes "well_split p"
  shows "ctl_free (redacted_netloc p port) \<and> list_all netloc_char (redacted_netloc p port) \<and> CHR ''@'' \<notin> set (redacted_netloc p port)"
proof -
  have "netloc_char c" if "c \<in> set (redacted_netloc p port)" for c
    using that redacted_netloc_free[OF assms, of c port] by (auto simp: netloc_char_def)
  then show ?thesis using redacted_netloc_free[OF assms, of _ port] by (simp add: list_all_iff)
qed

lemma redacted_well_split:
  assumes "well_split p" "url_port p = Inr port"
  shows "well_split (p\<lparr>sr_netloc := redacted_netloc p port, sr_query := []\<rparr>)"
proof (cases "sr_netloc p = []")
  case True
  then have "hostinfo p = ([], [])" by (simp add: hostinfo_def rpartition_at_def)
  then have "redacted_netloc p port = []" using assms(2) by (auto simp: redacted_netloc_def hostname_def url_port_def)
  with True assms show ?thesis by (simp add: well_split_def)
next
  case False
  then have "sr_path p = [] \<or> take 1 (sr_path p) = ''/''" using assms by (simp add: well_split_def)
  then have "sr_path p = [] \<or> (32 :: nat) < of_char (hd (sr_path p)) \<and> no_scheme (sr_path p)"
    using no_scheme_slash[of "sr_path p"] by (cases "sr_path p") auto
  with False assms(1) redacted_netloc_ok[OF assms(1), of port] show ?thesis unfolding well_split_def by simp blast
qed

lemma no_at_no_userinfo: "CHR ''@'' \<notin> set (sr_netloc p) \<Longrightarrow> userinfo p = (None, None)"
  by (simp add: userinfo_def rpartition_at_def)

lemma redaction_hides_credentials:
  assumes "redact_redis_url netloc_ok url = Inr u" "urlsplit netloc_ok u = Inr p'"
  shows "userinfo p' = (None, None) \<and> sr_query p' = []"
proof -
  obtain p where p: "urlsplit netloc_ok url = Inr p" using assms(1) by (auto simp: redact_redis_url_def bindR_Inr_iff)
  note ws = conjunct1[OF urlsplit_well_split[OF p]]
  show ?thesis
  proof (cases "userinfo p = (None, None) \<and> sr_query p = []")
    case True
    then show ?thesis using assms p by (simp add: redact_redis_url_def)
  next
    case False
    then obtain port where port: "url_port p = Inr port" "u = urlunsplit (p\<lparr>sr_netloc := redacted_netloc p port, sr_query := []\<rparr>)"
      using assms(1) p by (auto simp: redact_redis_url_def redacted_netloc_def bindR_Inr_iff Let_def)
    with assms(2) urlsplit_urlunsplit[OF redacted_well_split[OF ws port(1)], of netloc_ok]
    have "p' = p\<lparr>sr_netloc := redacted_netloc p port, sr_query := []\<rparr>" by (simp split: if_splits)
    then show ?thesis using no_at_no_userinfo[of p'] redacted_netloc_ok[OF ws, of port] by simp
  qed
qed

end
