(* ===== verification/Redis_Clients.thy ===== *)
theory Redis_Clients
  imports Redis_Provider Redis_Transport
begin

text \<open>
  The connections of a Redis provider (\<^verbatim>\<open>backends/redis/provider.py\<close>): construction of the provider and of
  the queues over it, and the tables that give every event loop its own client, clock and library
  check. An event loop and a client are known by numbers; opening and closing a client is what the
  client library does, and whether it raises is an argument. \<open>ct_open\<close> is the clients that were opened
  and not closed.
\<close>

section \<open>Construction\<close>

record provider_env =
  pe_netloc_ok :: "string \<Rightarrow> bool"
  pe_parse_url :: "string \<Rightarrow> (string, pyval) pydict option"
  pe_lookup_codec :: "pyval \<Rightarrow> string option"
  pe_fresh_name :: string

record redis_provider =
  pv_redis_url :: string
  pv_client_kwargs :: "(string, pyval) pydict"
  pv_encoding :: string
  pv_queue_alias :: string
  pv_stack :: bool
  pv_maxsize :: pyval
  pv_connection_encoding :: pyval
  pv_address_remap :: "pyval option"
  pv_function_info_keys :: "string list"

definition option_default :: "(string, pyval) pydict \<Rightarrow> string \<Rightarrow> pyval \<Rightarrow> pyval" where
  "option_default d k v = (case dict_get d k of Some x \<Rightarrow> x | None \<Rightarrow> v)"

definition provider_init :: "provider_env \<Rightarrow> pyval \<Rightarrow> (string, pyval) pydict \<Rightarrow> redis_provider result" where
  "provider_init E redis_url options =
     (case redis_url of
        PStr url \<Rightarrow>
          (case pe_parse_url E url of
             None \<Rightarrow> Inl InvalidQueueBackendError
           | Some connection_kwargs \<Rightarrow>
               (case pe_lookup_codec E (option_default options ''encoding'' (PStr ''utf-8'')) of
                  None \<Rightarrow> Inl InvalidQueueBackendError
                | Some encoding \<Rightarrow>
                    if truthy (option_default connection_kwargs ''decode_responses'' (PBool False)) \<and> encoding \<noteq> ''utf-8''
                    then Inl InvalidQueueBackendError
                    else
                      bindR (redis_client_kwargs (pe_netloc_ok E) (pe_parse_url E) url options) (\<lambda>kwargs.
                      bindR (validate_queue_alias (option_default options ''queue_name'' (PStr (''queue_'' @ pe_fresh_name E)))) (\<lambda>alias.
                        Inr \<lparr>pv_redis_url = url, pv_client_kwargs = kwargs, pv_encoding = encoding, pv_queue_alias = alias,
                          pv_stack = truthy (option_default options ''stack'' (PBool False)),
                          pv_maxsize = option_default options ''maxsize'' (PNum (PyInt 0)),
                          pv_connection_encoding = option_default connection_kwargs ''encoding'' (PStr ''utf-8''),
                          pv_address_remap = None, pv_function_info_keys = []\<rparr>))))
      | _ \<Rightarrow> Inl InvalidQueueBackendError)"

text \<open>The cluster provider: database zero only, and the library is asked through the queue's slot.\<close>

definition cluster_provider_init :: "provider_env \<Rightarrow> pyval \<Rightarrow> (string, pyval) pydict \<Rightarrow> redis_provider result" where
  "cluster_provider_init E redis_url options =
     (let address_remap = dict_get options ''address_remap'' in
      bindR (provider_init E redis_url (dict_pop ''address_remap'' options)) (\<lambda>p.
        case pe_parse_url E (pv_redis_url p) of
          None \<Rightarrow> Inl InvalidQueueBackendError
        | Some connection_kwargs \<Rightarrow>
            let db = option_default connection_kwargs ''db'' PNone in
            bindR (py_int (if truthy db then db else PNum (PyInt 0))) (\<lambda>database.
              if database \<noteq> 0 then Inl InvalidQueueBackendError
              else Inr (p\<lparr>pv_address_remap := (if address_remap = Some PNone then None else address_remap),
                pv_function_info_keys := [key_string (pv_queue_alias p) RawKey]\<rparr>))))"

text \<open>
  The queues: a stack sets its option unless the settings do, a priority queue refuses it. Options and
  keyword arguments are one dictionary by then.
\<close>

datatype redis_queue_kind = RedisAsyncQueue | RedisAsyncStack | RedisAsyncPriorityQueue

definition redis_queue_init ::
    "provider_env \<Rightarrow> bool \<Rightarrow> redis_queue_kind \<Rightarrow> pyval \<Rightarrow> (string, pyval) pydict \<Rightarrow> redis_provider result" where
  "redis_queue_init E cluster kind redis_url options =
     (let provider_class = (if cluster then cluster_provider_init E else provider_init E) in
      case kind of
        RedisAsyncQueue \<Rightarrow> provider_class redis_url (dict_pop ''entry_class'' options)
      | RedisAsyncStack \<Rightarrow>
          provider_class redis_url (dict_pop ''entry_class''
            (if ''stack'' \<in> dkeys options then options else dict_set ''stack'' (PBool True) options))
      | RedisAsyncPriorityQueue \<Rightarrow>
          if ''stack'' \<in> dkeys options then Inl ValueError
          else provider_class redis_url (dict_pop ''entry_class'' options))"

text \<open>The arguments the client of an event loop is opened with.\<close>

definition create_async_client :: "provider_env \<Rightarrow> redis_provider \<Rightarrow> (string \<times> (string, pyval) pydict) result" where
  "create_async_client E p =
     bindR (redis_from_url_location (pe_netloc_ok E) (pv_redis_url p)) (\<lambda>location.
       Inr (location, case pv_address_remap p of
           None \<Rightarrow> pv_client_kwargs p | Some remap \<Rightarrow> dict_set ''address_remap'' remap (pv_client_kwargs p)))"

lemma provider_init_alias:
  assumes "provider_init E redis_url options = Inr p"
  shows "validate_queue_alias (PStr (pv_queue_alias p)) = Inr (pv_queue_alias p)"
  using assms
  by (auto simp: provider_init_def bindR_Inr_iff validate_queue_alias_def split: pyval.splits option.splits if_splits sum.splits)

text \<open>Queues that exist have valid aliases, so that two of them share keys only when their aliases are equal.\<close>

lemma redis_queue_init_alias:
  assumes "redis_queue_init E cluster kind redis_url options = Inr p"
  shows "validate_queue_alias (PStr (pv_queue_alias p)) = Inr (pv_queue_alias p)"
proof -
  have "validate_queue_alias (PStr (pv_queue_alias p)) = Inr (pv_queue_alias p)"
    if "cluster_provider_init E url opts = Inr p" for url opts
    using that provider_init_alias
    by (auto simp: cluster_provider_init_def Let_def bindR_Inr_iff split: option.splits if_splits)
  then show ?thesis using assms provider_init_alias
    by (auto simp: redis_queue_init_def Let_def split: redis_queue_kind.splits if_splits)
qed

section \<open>Tables of an event loop\<close>

record connection_tables =
  ct_clients :: "(nat, nat) pydict"
  ct_clocks :: "(nat, redis_clock \<times> nat) pydict"
  ct_checked :: "nat set"
  ct_open :: "nat set"
  ct_next :: nat

definition tables_init :: connection_tables where
  "tables_init = \<lparr>ct_clients = [], ct_clocks = [], ct_checked = {}, ct_open = {}, ct_next = 0\<rparr>"

text \<open>\<open>created\<close> tells whether opening a client raises.\<close>

definition async_redis :: "unit result \<Rightarrow> nat \<Rightarrow> (nat, connection_tables) prog" where
  "async_redis created loop t =
     (case dict_get (ct_clients t) loop of
        Some client \<Rightarrow> (Inr client, t)
      | None \<Rightarrow>
          (case created of
             Inl err \<Rightarrow> (Inl err, t)
           | Inr _ \<Rightarrow>
               (Inr (ct_next t), t\<lparr>ct_clients := dict_set loop (ct_next t) (ct_clients t),
                  ct_open := insert (ct_next t) (ct_open t), ct_next := Suc (ct_next t)\<rparr>)))"

definition async_clock :: "rat \<Rightarrow> unit result \<Rightarrow> nat \<Rightarrow> (redis_clock \<times> nat, connection_tables) prog" where
  "async_clock interval created loop t =
     (case dict_get (ct_clocks t) loop of
        Some clock \<Rightarrow> (Inr clock, t)
      | None \<Rightarrow>
          bindE (async_redis created loop) (\<lambda>client t'.
            (Inr (redis_clock_init interval True, client),
             t'\<lparr>ct_clocks := dict_set loop (redis_clock_init interval True, client) (ct_clocks t')\<rparr>)) t)"

definition check_loop :: "pyval result \<Rightarrow> unit result \<Rightarrow> nat \<Rightarrow> (unit, connection_tables) prog" where
  "check_loop reply created loop t =
     (if loop \<in> ct_checked t then (Inr (), t)
      else
        bindE (async_redis created loop) (\<lambda>_ t'.
          case ensure_function_compatibility reply False of
            (r, checked) \<Rightarrow> (r, if checked then t'\<lparr>ct_checked := insert loop (ct_checked t')\<rparr> else t')) t)"

text \<open>Readings of the outside clocks for one question, and how errors are turned into TLS errors.\<close>

record clock_reading =
  cr_interval :: rat
  cr_monotonic :: rat
  cr_calibration :: "(rat \<times> rat) result"
  cr_utc :: clock_time
  cr_tls :: "pyerror \<Rightarrow> bool"

definition facade_anow :: "clock_reading \<Rightarrow> unit result \<Rightarrow> nat \<Rightarrow> (clock_time, connection_tables) prog" where
  "facade_anow g created loop =
     except_Exception
       (bindE (async_clock (cr_interval g) created loop) (\<lambda>(clock, client) t.
          case redis_anow (cr_monotonic g) (cr_calibration g) (cr_utc g) clock of
            (r, clock') \<Rightarrow> (r, t\<lparr>ct_clocks := dict_set loop (clock', client) (ct_clocks t)\<rparr>)))
       (\<lambda>err. raise (if cr_tls g err then InvalidQueueBackendError else err))"

text \<open>
  Closing: the check is forgotten, then the clock is taken out and closed, then the client. An exception
  of the clock's closing (\<open>clock_end\<close>) leaves the client where it is. A client that does not know the
  argument of \<^verbatim>\<open>aclose\<close> is closed without it.
\<close>

definition aclose_client :: "unit result \<Rightarrow> unit result \<Rightarrow> unit result" where
  "aclose_client with_pool plain = (case with_pool of Inl TypeError \<Rightarrow> plain | r \<Rightarrow> r)"

definition close_client :: "unit result \<Rightarrow> nat \<Rightarrow> (unit, connection_tables) prog" where
  "close_client closing loop t =
     (case dict_get (ct_clients t) loop of
        None \<Rightarrow> (Inr (), t)
      | Some client \<Rightarrow>
          (closing, t\<lparr>ct_clients := dict_pop loop (ct_clients t),
             ct_open := (case closing of Inr _ \<Rightarrow> ct_open t - {client} | Inl _ \<Rightarrow> ct_open t)\<rparr>))"

definition provider_aclose :: "unit result \<Rightarrow> unit result \<Rightarrow> unit result \<Rightarrow> nat \<Rightarrow> (unit, connection_tables) prog" where
  "provider_aclose clock_end with_pool plain loop t =
     (let t1 = t\<lparr>ct_checked := ct_checked t - {loop}\<rparr>;
          t2 = t1\<lparr>ct_clocks := dict_pop loop (ct_clocks t1)\<rparr> in
      case dict_get (ct_clocks t1) loop of
        None \<Rightarrow> close_client (aclose_client with_pool plain) loop t1
      | Some _ \<Rightarrow> bindE (\<lambda>t. (clock_end, t)) (\<lambda>_. close_client (aclose_client with_pool plain) loop) t2)"

text \<open>The synchronous bridge: an operation and, whatever it did, the closing; an error of the closing wins.\<close>

definition run_and_close :: "('a, 's) prog \<Rightarrow> (unit, 's) prog \<Rightarrow> ('a, 's) prog" where
  "run_and_close operation close t =
     (case operation t of
        (r, t') \<Rightarrow> (case close t' of (Inl err, t'') \<Rightarrow> (Inl err, t'') | (Inr _, t'') \<Rightarrow> (r, t'')))"

text \<open>
  \<^verbatim>\<open>clock.now()\<close>: with a running loop its clock must exist; without one the bridge's own loop asks and
  closes.
\<close>

definition facade_now ::
    "clock_reading \<Rightarrow> unit result \<Rightarrow> (unit, connection_tables) prog \<Rightarrow> nat option \<Rightarrow> nat \<Rightarrow> (clock_time, connection_tables) prog" where
  "facade_now g created close running bridge t =
     (case running of
        Some loop \<Rightarrow>
          (case dict_get (ct_clocks t) loop of
             None \<Rightarrow> (Inl QueueClockError, t)
           | Some (clock, client) \<Rightarrow>
               (case redis_now True (cr_monotonic g) (cr_calibration g) (cr_utc g) clock of
                  (r, clock') \<Rightarrow> (r, t\<lparr>ct_clocks := dict_set loop (clock', client) (ct_clocks t)\<rparr>)))
      | None \<Rightarrow> run_and_close (facade_anow g created bridge) close t)"

section \<open>Every loop has its own client\<close>

text \<open>
  What a coroutine on a loop can do with the tables. With \<open>raising\<close> the client library may raise
  while it closes a clock or a client; otherwise closing goes well.
\<close>

inductive conn_step :: "bool \<Rightarrow> nat \<Rightarrow> connection_tables \<Rightarrow> connection_tables \<Rightarrow> bool" for raising loop where
  use_client: "conn_step raising loop t (snd (async_redis created loop t))"
| use_clock: "conn_step raising loop t (snd (async_clock interval created loop t))"
| check: "conn_step raising loop t (snd (check_loop reply created loop t))"
| ask_time: "conn_step raising loop t (snd (facade_anow g created loop t))"
| read_time: "conn_step raising loop t (snd (facade_now g created close (Some loop) bridge t))"
| close: "raising \<or> clock_end = Inr () \<and> aclose_client with_pool plain = Inr () \<Longrightarrow>
    conn_step raising loop t (snd (provider_aclose clock_end with_pool plain loop t))"

inductive conn_reachable :: "connection_tables \<Rightarrow> bool" where
  conn_start: "conn_reachable tables_init"
| conn_next: "conn_reachable t \<Longrightarrow> conn_step raising loop t t' \<Longrightarrow> conn_reachable t'"

definition own_clients :: "(nat \<rightharpoonup> nat) \<Rightarrow> nat set \<Rightarrow> nat \<Rightarrow> bool" where
  "own_clients clients opened fresh \<longleftrightarrow>
     (\<forall>loop loop' client. clients loop = Some client \<longrightarrow> clients loop' = Some client \<longrightarrow> loop = loop') \<and>
     (\<forall>loop client. clients loop = Some client \<longrightarrow> client \<in> opened) \<and>
     (\<forall>client \<in> opened. client < fresh)"

definition conn_inv :: "connection_tables \<Rightarrow> bool" where
  "conn_inv t \<longleftrightarrow>
     own_clients (dict_get (ct_clients t)) (ct_open t) (ct_next t) \<and>
     (\<forall>loop clock client. dict_get (ct_clocks t) loop = Some (clock, client) \<longrightarrow> dict_get (ct_clients t) loop = Some client) \<and>
     ct_checked t \<subseteq> dkeys (ct_clients t)"

lemma own_clients_add:
  assumes "own_clients m opened fresh" "m loop = None"
  shows "own_clients (\<lambda>l. if l = loop then Some fresh else m l) (insert fresh opened) (Suc fresh)"
proof -
  let ?m = "\<lambda>l. if l = loop then Some fresh else m l"
  have new: "m l \<noteq> Some fresh" for l using assms(1) by (auto simp: own_clients_def)
  have inj: "m l = Some c \<Longrightarrow> m l' = Some c \<Longrightarrow> l = l'" for l l' c using assms(1) by (simp add: own_clients_def)
  have "c \<in> insert fresh opened" if "?m l = Some c" for l c
    using assms(1) that by (auto simp: own_clients_def split: if_splits)
  moreover have "\<forall>c \<in> insert fresh opened. c < Suc fresh" using assms(1) by (auto simp: own_clients_def less_Suc_eq)
  moreover have "l = l'" if "?m l = Some c" "?m l' = Some c" for l l' c
    using that new inj by (metis option.inject)
  ultimately show ?thesis unfolding own_clients_def by blast
qed

lemma own_clients_remove:
  assumes "own_clients m opened fresh" "m loop = Some client" "opened' = opened - {client} \<or> opened' = opened"
  shows "own_clients (\<lambda>l. if l = loop then None else m l) opened' fresh"
proof -
  let ?m = "\<lambda>l. if l = loop then None else m l"
  have inj: "m l = Some c \<Longrightarrow> m l' = Some c \<Longrightarrow> l = l'" for l l' c using assms(1) by (simp add: own_clients_def)
  have mem: "m l = Some c \<Longrightarrow> c \<in> opened" for l c using assms(1) by (simp add: own_clients_def)
  have "c \<in> opened'" if "?m l = Some c" for l c
    using that mem[of l c] inj[of l c loop] assms(2,3) by (auto split: if_splits)
  moreover have "l = l'" if "?m l = Some c" "?m l' = Some c" for l l' c
    using that inj by (metis option.distinct(1))
  moreover have "\<forall>c \<in> opened'. c < fresh" using assms(1,3) by (auto simp: own_clients_def)
  ultimately show ?thesis unfolding own_clients_def by blast
qed

text \<open>Opening, for all users of it: the invariant, and that the loop has its client afterwards.\<close>

lemma async_redis_inv:
  assumes "conn_inv t" "async_redis created loop t = (r, t')"
  shows "conn_inv t' \<and> (r = Inr client \<longrightarrow> dict_get (ct_clients t') loop = Some client)"
proof (cases "dict_get (ct_clients t) loop = None \<and> created = Inr ()")
  case True
  let ?c = "ct_next t"
  have t': "r = Inr ?c" "t' = t\<lparr>ct_clients := dict_set loop ?c (ct_clients t), ct_open := insert ?c (ct_open t), ct_next := Suc ?c\<rparr>"
    using assms(2) True by (auto simp: async_redis_def simp del: dict_get_None)
  have "own_clients (\<lambda>l. if l = loop then Some ?c else dict_get (ct_clients t) l) (insert ?c (ct_open t)) (Suc ?c)"
    using assms(1) True by (intro own_clients_add) (auto simp: conn_inv_def)
  then show ?thesis using assms(1) t' True by (auto simp: conn_inv_def dict_get_set simp del: dict_get_None)
next
  case False
  with assms show ?thesis by (cases "dict_get (ct_clients t) loop"; cases created) (auto simp: async_redis_def simp del: dict_get_None)
qed

lemma bindE_obtain:
  assumes "bindE m f t = (r, t')"
  obtains (failed) err where "m t = (Inl err, t')" "r = Inl err"
    | (passed) x u where "m t = (Inr x, u)" "f x u = (r, t')"
  using assms by (auto simp: bindE_def split: prod.splits sum.splits)

lemma async_clock_inv:
  assumes "conn_inv t" "async_clock interval created loop t = (r, t')"
  shows "conn_inv t'" "r = Inr (clock, client) \<Longrightarrow> dict_get (ct_clocks t') loop = Some (clock, client)"
proof -
  have "conn_inv t' \<and> (r = Inr (clock, client) \<longrightarrow> dict_get (ct_clocks t') loop = Some (clock, client))"
  proof (cases "dict_get (ct_clocks t) loop")
    case (Some p)
    with assms show ?thesis by (auto simp: async_clock_def)
  next
    case None
    with assms(2) have run: "bindE (async_redis created loop) (\<lambda>client t'.
            (Inr (redis_clock_init interval True, client),
             t'\<lparr>ct_clocks := dict_set loop (redis_clock_init interval True, client) (ct_clocks t')\<rparr>)) t = (r, t')"
      by (simp add: async_clock_def del: dict_get_None)
    then show ?thesis
    proof (cases rule: bindE_obtain)
      case (failed err)
      then show ?thesis using async_redis_inv[OF assms(1)] by auto
    next
      case (passed x u)
      then show ?thesis using async_redis_inv[OF assms(1) passed(1), of x] by (auto simp: conn_inv_def split: if_splits)
    qed
  qed
  then show "conn_inv t'" "r = Inr (clock, client) \<Longrightarrow> dict_get (ct_clocks t') loop = Some (clock, client)" by auto
qed

lemma check_loop_inv:
  assumes "conn_inv t" "check_loop reply created loop t = (r, t')"
  shows "conn_inv t'"
proof (cases "loop \<in> ct_checked t")
  case True
  with assms show ?thesis by (simp add: check_loop_def)
next
  case False
  with assms(2) have "bindE (async_redis created loop) (\<lambda>_ t'.
          case ensure_function_compatibility reply False of
            (r, checked) \<Rightarrow> (r, if checked then t'\<lparr>ct_checked := insert loop (ct_checked t')\<rparr> else t')) t = (r, t')"
    by (simp add: check_loop_def)
  then show ?thesis
  proof (cases rule: bindE_obtain)
    case (failed err)
    then show ?thesis using async_redis_inv[OF assms(1)] by auto
  next
    case (passed x u)
    have "loop \<in> dkeys (ct_clients u)" using async_redis_inv[OF assms(1) passed(1), of x] by (simp add: dkeys_dom domI)
    then show ?thesis using passed(2) async_redis_inv[OF assms(1) passed(1), of x]
      by (auto simp: conn_inv_def split: prod.splits if_splits)
  qed
qed

lemma set_clock_inv:
  "conn_inv t \<Longrightarrow> dict_get (ct_clocks t) loop = Some (clock, client) \<Longrightarrow>
     conn_inv (t\<lparr>ct_clocks := dict_set loop (clock', client) (ct_clocks t)\<rparr>)"
  by (auto simp: conn_inv_def)

lemma except_Exception_state:
  assumes "except_Exception m (\<lambda>err. raise (f err)) t = (r, t')"
  shows "\<exists>q. m t = (q, t')"
  using assms by (cases "fst (m t)"; cases "m t") (auto simp: except_Exception_def tryE_def split: if_splits)

lemma facade_anow_run:
  assumes "facade_anow g created loop t = (r, t')"
  shows "\<exists>q. bindE (async_clock (cr_interval g) created loop) (\<lambda>(clock, client) t.
          case redis_anow (cr_monotonic g) (cr_calibration g) (cr_utc g) clock of
            (r, clock') \<Rightarrow> (r, t\<lparr>ct_clocks := dict_set loop (clock', client) (ct_clocks t)\<rparr>)) t = (q, t')"
  using except_Exception_state[OF assms[unfolded facade_anow_def]] .

lemma facade_anow_inv:
  assumes "conn_inv t" "facade_anow g created loop t = (r, t')"
  shows "conn_inv t'"
proof -
  obtain q where "bindE (async_clock (cr_interval g) created loop) (\<lambda>(clock, client) t.
          case redis_anow (cr_monotonic g) (cr_calibration g) (cr_utc g) clock of
            (r, clock') \<Rightarrow> (r, t\<lparr>ct_clocks := dict_set loop (clock', client) (ct_clocks t)\<rparr>)) t = (q, t')"
    using facade_anow_run[OF assms(2)] by blast
  then show ?thesis
  proof (cases rule: bindE_obtain)
    case (failed err)
    then show ?thesis using async_clock_inv(1)[OF assms(1)] by auto
  next
    case (passed x v)
    obtain clock client where x: "x = (clock, client)" by (cases x)
    have "conn_inv v" "dict_get (ct_clocks v) loop = Some (clock, client)"
      using async_clock_inv(1)[OF assms(1) passed(1)] async_clock_inv(2)[OF assms(1) passed(1), of clock client] x by auto
    then show ?thesis using passed(2) x set_clock_inv[of v loop clock client] by (auto split: prod.splits)
  qed
qed

lemma close_client_inv:
  assumes "conn_inv t" "loop \<notin> dkeys (ct_clocks t)" "loop \<notin> ct_checked t" "close_client closing loop t = (r, t')"
  shows "conn_inv t' \<and> loop \<notin> dkeys (ct_clients t')"
proof (cases "dict_get (ct_clients t) loop")
  case None
  with assms show ?thesis by (auto simp: close_client_def)
next
  case (Some client)
  let ?opened = "case closing of Inr _ \<Rightarrow> ct_open t - {client} | Inl _ \<Rightarrow> ct_open t"
  let ?t = "t\<lparr>ct_clients := dict_pop loop (ct_clients t), ct_open := ?opened\<rparr>"
  have "own_clients (\<lambda>l. if l = loop then None else dict_get (ct_clients t) l) ?opened (ct_next t)"
    using assms(1) Some by (intro own_clients_remove) (auto simp: conn_inv_def split: sum.splits)
  moreover have "dict_get (ct_clocks t) loop = None" using assms(2) by simp
  ultimately have "conn_inv ?t"
    using assms(1,3) by (auto simp: conn_inv_def dict_get_pop simp del: dict_get_None)
  then show ?thesis using assms(4) Some by (auto simp: close_client_def)
qed

lemma facade_now_inv:
  assumes "conn_inv t" "facade_now g created close (Some loop) bridge t = (r, t')"
  shows "conn_inv t'"
proof (cases "dict_get (ct_clocks t) loop")
  case None
  with assms show ?thesis by (simp add: facade_now_def del: dict_get_None)
next
  case (Some p)
  obtain clock client where p: "p = (clock, client)" by (cases p)
  show ?thesis using assms Some p set_clock_inv[of t loop clock client] by (auto simp: facade_now_def split: prod.splits)
qed

lemma forget_clock_inv:
  assumes "conn_inv t"
  shows "conn_inv (t\<lparr>ct_checked := ct_checked t - {loop}\<rparr>)"
    "conn_inv (t\<lparr>ct_checked := ct_checked t - {loop}, ct_clocks := dict_pop loop (ct_clocks t)\<rparr>)"
  using assms by (auto simp: conn_inv_def split: if_splits)

lemma provider_aclose_inv:
  assumes "conn_inv t" "provider_aclose clock_end with_pool plain loop t = (r, t')"
  shows "conn_inv t' \<and> loop \<notin> dkeys (ct_clocks t') \<and> loop \<notin> ct_checked t' \<and> (clock_end = Inr () \<longrightarrow> loop \<notin> dkeys (ct_clients t'))"
proof -
  have kept: "close_client q loop u = (r, t') \<Longrightarrow> ct_clocks t' = ct_clocks u \<and> ct_checked t' = ct_checked u" for q u
    by (auto simp: close_client_def split: option.splits)
  show ?thesis
  proof (cases "dict_get (ct_clocks t) loop")
    case None
    let ?t = "t\<lparr>ct_checked := ct_checked t - {loop}\<rparr>"
    have run: "close_client (aclose_client with_pool plain) loop ?t = (r, t')"
      using assms(2) None by (simp add: provider_aclose_def Let_def del: dict_get_None)
    have "loop \<notin> dkeys (ct_clocks ?t)" using None by simp
    from close_client_inv[OF forget_clock_inv(1)[OF assms(1)] this _ run] kept[OF run] None show ?thesis by simp
  next
    case (Some p)
    let ?t = "t\<lparr>ct_checked := ct_checked t - {loop}, ct_clocks := dict_pop loop (ct_clocks t)\<rparr>"
    have gone: "loop \<notin> dkeys (ct_clocks ?t)" by (simp flip: dict_get_None)
    show ?thesis
    proof (cases clock_end)
      case (Inl err)
      with assms Some forget_clock_inv(2)[OF assms(1), of loop] gone show ?thesis by (auto simp: provider_aclose_def Let_def bindE_def)
    next
      case (Inr u)
      then have run: "close_client (aclose_client with_pool plain) loop ?t = (r, t')"
        using assms(2) Some by (simp add: provider_aclose_def Let_def bindE_def)
      from close_client_inv[OF forget_clock_inv(2)[OF assms(1)] gone _ run] kept[OF run] gone show ?thesis by simp
    qed
  qed
qed

lemma conn_step_inv: "conn_step raising loop t t' \<Longrightarrow> conn_inv t \<Longrightarrow> conn_inv t'"
proof (induction rule: conn_step.induct)
  case (use_client t created)
  then show ?case using async_redis_inv[of t created loop] by (metis surjective_pairing)
next
  case (use_clock t interval created)
  then show ?case using async_clock_inv(1)[of t interval created loop] by (metis surjective_pairing)
next
  case (check t reply created)
  then show ?case using check_loop_inv[of t reply created loop] by (metis surjective_pairing)
next
  case (ask_time t g created)
  then show ?case using facade_anow_inv[of t g created loop] by (metis surjective_pairing)
next
  case (read_time t g created close bridge)
  then show ?case using facade_now_inv[of t g created close loop bridge] by (metis surjective_pairing)
next
  case (close clock_end with_pool plain t)
  then show ?case using provider_aclose_inv[of t clock_end with_pool plain loop] by (metis surjective_pairing)
qed

lemma conn_reachable_inv: "conn_reachable t \<Longrightarrow> conn_inv t"
proof (induction rule: conn_reachable.induct)
  case conn_start
  show ?case by (simp add: conn_inv_def own_clients_def tables_init_def)
qed (rule conn_step_inv)

text \<open>
  What a step does to the clients: nothing, or the loop gets a new client, or the loop's client
  leaves the table, closed unless closing it raised.
\<close>

definition conn_move :: "bool \<Rightarrow> nat \<Rightarrow> connection_tables \<Rightarrow> connection_tables \<Rightarrow> bool" where
  "conn_move raising loop t t' \<longleftrightarrow>
     (\<forall>l. l \<noteq> loop \<longrightarrow> dict_get (ct_clients t') l = dict_get (ct_clients t) l) \<and>
     (dict_get (ct_clients t') loop = dict_get (ct_clients t) loop \<and> ct_open t' = ct_open t \<and> ct_next t' = ct_next t \<or>
      dict_get (ct_clients t) loop = None \<and> dict_get (ct_clients t') loop = Some (ct_next t) \<and>
        ct_open t' = insert (ct_next t) (ct_open t) \<and> ct_next t' = Suc (ct_next t) \<or>
      (\<exists>c. dict_get (ct_clients t) loop = Some c \<and> dict_get (ct_clients t') loop = None \<and>
        (ct_open t' = ct_open t - {c} \<or> raising \<and> ct_open t' = ct_open t) \<and> ct_next t' = ct_next t))"

lemma conn_move_tables [simp]:
  "conn_move raising loop t (t'\<lparr>ct_clocks := x\<rparr>) = conn_move raising loop t t'"
  "conn_move raising loop t (t'\<lparr>ct_checked := y\<rparr>) = conn_move raising loop t t'"
  by (simp_all add: conn_move_def)

lemma conn_move_same [simp]: "conn_move raising loop t t"
  by (simp add: conn_move_def)

lemma async_redis_move: "async_redis created loop t = (r, t') \<Longrightarrow> conn_move raising loop t t'"
  by (cases "dict_get (ct_clients t) loop"; cases created)
    (auto simp: async_redis_def conn_move_def simp del: dict_get_None)

lemma async_clock_move:
  assumes "async_clock interval created loop t = (r, t')"
  shows "conn_move raising loop t t'"
  using assms by (auto simp: async_clock_def elim!: bindE_obtain intro: async_redis_move split: option.splits)

lemma facade_anow_move:
  assumes "facade_anow g created loop t = (r, t')"
  shows "conn_move raising loop t t'"
proof -
  obtain q where "bindE (async_clock (cr_interval g) created loop) (\<lambda>(clock, client) t.
          case redis_anow (cr_monotonic g) (cr_calibration g) (cr_utc g) clock of
            (r, clock') \<Rightarrow> (r, t\<lparr>ct_clocks := dict_set loop (clock', client) (ct_clocks t)\<rparr>)) t = (q, t')"
    using facade_anow_run[OF assms] by blast
  then show ?thesis
  proof (cases rule: bindE_obtain)
    case (failed err)
    then show ?thesis by (simp add: async_clock_move)
  next
    case (passed x u)
    then show ?thesis using async_clock_move[OF passed(1)] by (auto split: prod.splits)
  qed
qed

lemma close_client_move:
  assumes "close_client closing loop t = (r, t')"
  shows "conn_move (raising \<or> closing \<noteq> Inr ()) loop t t'"
proof (cases "dict_get (ct_clients t) loop")
  case None
  with assms show ?thesis by (simp add: close_client_def del: dict_get_None)
next
  case (Some c)
  then have t': "ct_clients t' = dict_pop loop (ct_clients t)" "ct_next t' = ct_next t"
      "ct_open t' = (case closing of Inr _ \<Rightarrow> ct_open t - {c} | Inl _ \<Rightarrow> ct_open t)"
    using assms by (auto simp: close_client_def)
  have "dict_get (ct_clients t') loop = None" unfolding t' by (simp add: dict_get_pop del: dict_get_None)
  then show ?thesis using Some t' unfolding conn_move_def by (cases closing) (auto simp: t' simp del: dict_get_None)
qed

lemma conn_move_from [simp]:
  "conn_move raising loop (t\<lparr>ct_clocks := x\<rparr>) t' = conn_move raising loop t t'"
  "conn_move raising loop (t\<lparr>ct_checked := y\<rparr>) t' = conn_move raising loop t t'"
  by (simp_all add: conn_move_def)

lemma provider_aclose_move:
  assumes "provider_aclose clock_end with_pool plain loop t = (r, t')"
  shows "conn_move (aclose_client with_pool plain \<noteq> Inr ()) loop t t'"
proof (cases "dict_get (ct_clocks t) loop")
  case None
  with assms close_client_move[of "aclose_client with_pool plain" loop "t\<lparr>ct_checked := ct_checked t - {loop}\<rparr>" r t' False]
  show ?thesis by (simp add: provider_aclose_def Let_def del: dict_get_None)
next
  case (Some p)
  with assms close_client_move[of "aclose_client with_pool plain" loop
      "t\<lparr>ct_checked := ct_checked t - {loop}, ct_clocks := dict_pop loop (ct_clocks t)\<rparr>" r t' False]
  show ?thesis by (cases clock_end) (auto simp: provider_aclose_def Let_def bindE_def)
qed

lemma conn_move_weaken: "conn_move raising loop t t' \<Longrightarrow> raising \<longrightarrow> raising' \<Longrightarrow> conn_move raising' loop t t'"
  unfolding conn_move_def by blast

lemma conn_step_move: "conn_step raising loop t t' \<Longrightarrow> conn_move raising loop t t'"
proof (induction rule: conn_step.induct)
  case (use_client t created)
  then show ?case using async_redis_move by (metis surjective_pairing)
next
  case (use_clock t interval created)
  then show ?case using async_clock_move by (metis surjective_pairing)
next
  case (check t reply created)
  obtain q u where "async_redis created loop t = (q, u)" by (metis surj_pair)
  with async_redis_move[OF this] show ?case
    by (cases q) (auto simp: check_loop_def bindE_def split: prod.splits)
next
  case (ask_time t g created)
  then show ?case using facade_anow_move by (metis surjective_pairing)
next
  case (read_time t g created close bridge)
  then show ?case by (auto simp: facade_now_def split: option.splits prod.splits)
next
  case (close clock_end with_pool plain t)
  then show ?case using provider_aclose_move[of clock_end with_pool plain loop t] conn_move_weaken by (metis surjective_pairing)
qed

text \<open>
  What a loop without a client does in any number of steps, seen from the others: their clients
  stay in the table and open, whatever the loop's client is it was opened by these steps, and
  with well-behaved closing the loop leaves at most this one open client behind.
\<close>

definition conn_moves :: "bool \<Rightarrow> nat \<Rightarrow> connection_tables \<Rightarrow> connection_tables \<Rightarrow> bool" where
  "conn_moves raising loop t u \<longleftrightarrow>
     (\<forall>l. l \<noteq> loop \<longrightarrow> dict_get (ct_clients u) l = dict_get (ct_clients t) l) \<and>
     ct_open t \<subseteq> ct_open u \<and> ct_next t \<le> ct_next u \<and>
     (\<forall>c. dict_get (ct_clients u) loop = Some c \<longrightarrow> ct_next t \<le> c) \<and>
     (\<not> raising \<longrightarrow> ct_open u = ct_open t \<union> set_option (dict_get (ct_clients u) loop))"

lemma conn_moves_step:
  assumes "conn_moves raising loop t u" "conn_move raising' loop u v" "conn_inv t" "raising' \<longrightarrow> raising"
  shows "conn_moves raising loop t v"
proof -
  have below: "c < ct_next t" if "c \<in> ct_open t" for c using assms(3) that by (simp add: conn_inv_def own_clients_def)
  have others: "dict_get (ct_clients v) l = dict_get (ct_clients t) l" if "l \<noteq> loop" for l
    using assms(1,2) that by (simp add: conn_moves_def conn_move_def)
  from assms(2) consider
      "dict_get (ct_clients v) loop = dict_get (ct_clients u) loop" "ct_open v = ct_open u" "ct_next v = ct_next u"
    | "dict_get (ct_clients u) loop = None" "dict_get (ct_clients v) loop = Some (ct_next u)"
      "ct_open v = insert (ct_next u) (ct_open u)" "ct_next v = Suc (ct_next u)"
    | c where "dict_get (ct_clients u) loop = Some c" "dict_get (ct_clients v) loop = None"
      "ct_open v = ct_open u - {c} \<or> raising \<and> ct_open v = ct_open u" "ct_next v = ct_next u"
    using assms(4) unfolding conn_move_def by (elim conjE disjE exE) blast+
  then show ?thesis
  proof cases
    case 1
    then show ?thesis using assms(1) others by (simp add: conn_moves_def)
  next
    case 2
    then show ?thesis using assms(1) others by (auto simp: conn_moves_def simp del: dict_get_None)
  next
    case (3 c)
    then have "c \<notin> ct_open t" using assms(1) below[of c] by (auto simp: conn_moves_def)
    with 3 show ?thesis using assms(1) others by (auto simp: conn_moves_def simp del: dict_get_None)
  qed
qed

lemma conn_moves_steps:
  assumes "(conn_step raising loop)\<^sup>*\<^sup>* t u" "conn_inv t" "loop \<notin> dkeys (ct_clients t)"
  shows "conn_moves raising loop t u \<and> conn_inv u"
  using assms(1)
proof (induction rule: rtranclp_induct)
  case base
  have "dict_get (ct_clients t) loop = None" using assms(3) by simp
  then show ?case using assms(2) by (simp add: conn_moves_def del: dict_get_None)
next
  case (step u v)
  then show ?case using conn_moves_step[OF _ conn_step_move assms(2), of raising loop u raising v] conn_step_inv by auto
qed

text \<open>Closing opens nothing, and a closing that goes well takes the loop's client with it.\<close>

lemma provider_aclose_open: "provider_aclose clock_end with_pool plain loop t = (r, t') \<Longrightarrow> ct_open t' \<subseteq> ct_open t"
  by (auto simp: provider_aclose_def Let_def close_client_def bindE_def split: option.splits sum.splits)

lemma closed_client:
  assumes "provider_aclose clock_end with_pool plain loop t = (Inr (), t')"
  shows "loop \<notin> dkeys (ct_clients t') \<and> ct_open t' = ct_open t - set_option (dict_get (ct_clients t) loop)"
proof (cases "dict_get (ct_clients t) loop")
  case None
  then show ?thesis using assms dict_get_None[of "ct_clients t" loop]
    by (auto simp: provider_aclose_def Let_def close_client_def bindE_def simp del: dict_get_None split: option.splits sum.splits)
next
  case (Some c)
  then show ?thesis using assms
    by (auto simp: provider_aclose_def Let_def close_client_def bindE_def split: option.splits sum.splits)
qed

text \<open>
  C23. Connections of a Redis provider belong to event loops: in every interleaving of loops that use and
  close them, no two loops share a client, a clock asks the server through the client of its own loop,
  only a loop with a client has passed the library check, and every client in the table is open. A
  synchronous call runs on a loop of its own and closes in the end. Whatever the operation did and
  whatever raised, the clients of the other loops stay in the table and open, and the call's loop
  keeps neither a clock nor a check. If its closing goes well the call has the operation's outcome,
  its loop has left the table, and the open connections are those from before (where the operation
  itself closed, that went well too). If closing the clock or the client raises, the call raises that
  error, and at most the one client of the call stays open.
\<close>

theorem synchronous_calls_leave_no_connection:
  assumes "conn_reachable t" "loop \<notin> dkeys (ct_clients t)"
    "\<And>u r u'. operation u = (r, u') \<Longrightarrow> (conn_step raising loop)\<^sup>*\<^sup>* u u'"
    "closing = fst (provider_aclose clock_end with_pool plain loop (snd (operation t)))"
    "run_and_close operation (provider_aclose clock_end with_pool plain loop) t = (r, t')"
  shows "conn_inv t' \<and> (\<forall>l. l \<noteq> loop \<longrightarrow> dict_get (ct_clients t') l = dict_get (ct_clients t) l) \<and> ct_open t \<subseteq> ct_open t' \<and>
    loop \<notin> dkeys (ct_clocks t') \<and> loop \<notin> ct_checked t' \<and>
    (closing = Inr () \<longrightarrow> r = fst (operation t) \<and> loop \<notin> dkeys (ct_clients t') \<and> (\<not> raising \<longrightarrow> ct_open t' = ct_open t)) \<and>
    (\<forall>err. closing = Inl err \<longrightarrow> r = Inl err \<and> (\<not> raising \<longrightarrow> (\<exists>c. ct_open t' \<subseteq> insert c (ct_open t))))"
proof -
  obtain q u where u: "operation t = (q, u)" by (metis surj_pair)
  have v: "provider_aclose clock_end with_pool plain loop u = (closing, t')"
    using assms(4,5) u by (auto simp: run_and_close_def split: sum.splits prod.splits)
  have r: "r = (case closing of Inl err \<Rightarrow> Inl err | Inr _ \<Rightarrow> q)"
    using assms(5) u v by (auto simp: run_and_close_def split: sum.splits)
  have invs: "conn_inv t" using conn_reachable_inv[OF assms(1)] .
  then have below: "c < ct_next t" if "c \<in> ct_open t" for c using that by (simp add: conn_inv_def own_clients_def)
  have mid: "conn_moves raising loop t u" "conn_inv u"
    using conn_moves_steps[OF assms(3)[OF u] invs assms(2)] by auto
  note closed = provider_aclose_inv[OF mid(2) v]
  note move = provider_aclose_move[OF v]
  have after: "conn_moves (raising \<or> aclose_client with_pool plain \<noteq> Inr ()) loop t t'"
    using mid(1) by (intro conn_moves_step[OF _ move invs]) (auto simp: conn_moves_def)
  have good: "loop \<notin> dkeys (ct_clients t') \<and> (\<not> raising \<longrightarrow> ct_open t' = ct_open t)" if "closing = Inr ()"
    using closed_client[OF v[unfolded that]] mid(1) below by (fastforce simp: conn_moves_def)
  have bad: "\<exists>c. ct_open t' \<subseteq> insert c (ct_open t)" if "\<not> raising"
  proof -
    have "ct_open t' \<subseteq> ct_open u" using provider_aclose_open[OF v] .
    moreover have "ct_open u = ct_open t \<union> set_option (dict_get (ct_clients u) loop)" using mid(1) that by (simp add: conn_moves_def)
    ultimately show ?thesis by (cases "dict_get (ct_clients u) loop") (auto simp del: dict_get_None)
  qed
  show ?thesis using closed after good bad r u unfolding conn_moves_def by auto
qed

theorem synchronous_calls_leave_no_connection_witness:
  "\<exists>r t'. run_and_close (async_redis (Inr ()) 7) (provider_aclose (Inr ()) (Inl TypeError) (Inr ()) 7) tables_init = (r, t') \<and>
     ct_open t' = {}"
proof -
  obtain r t' where run: "run_and_close (async_redis (Inr ()) 7) (provider_aclose (Inr ()) (Inl TypeError) (Inr ()) 7) tables_init = (r, t')"
    by (metis surj_pair)
  have ops: "(conn_step False 7)\<^sup>*\<^sup>* u u'" if "async_redis (Inr ()) 7 u = (q, u')" for u q u'
    using conn_step.use_client[of False 7 u "Inr ()"] that by auto
  have "fst (provider_aclose (Inr ()) (Inl TypeError) (Inr ()) 7 (snd (async_redis (Inr ()) 7 tables_init))) = Inr ()"
    by (simp add: provider_aclose_def Let_def close_client_def aclose_client_def async_redis_def tables_init_def)
  from synchronous_calls_leave_no_connection[OF conn_start _ ops this[symmetric] run] run show ?thesis
    by (simp add: tables_init_def)
qed

text \<open>Only a clock whose closing raises keeps the client of its loop open, in the table of a loop that may be gone.\<close>

lemma failed_clock_close_keeps_client:
  assumes "dict_get (ct_clocks t) loop = Some clock" "dict_get (ct_clients t) loop = Some client"
  shows "\<exists>t'. provider_aclose (Inl err) with_pool plain loop t = (Inl err, t') \<and> dict_get (ct_clients t') loop = Some client \<and>
    ct_open t' = ct_open t"
  using assms by (simp add: provider_aclose_def Let_def bindE_def)

section \<open>Lifecycle snapshots\<close>

text \<open>
  Publishing sends the document of an entry, and a receiver hands what it can read to its callback;
  other messages and unreadable ones are skipped. A message has a type and a stored text.
\<close>

definition rp_apublish :: "queue_entry \<Rightarrow> rvalue result" where
  "rp_apublish e = bindR (wire e) (\<lambda>d. Inr (VDoc d))"

fun rp_aobserve :: "(queue_entry \<Rightarrow> (unit, 's) prog) \<Rightarrow> (string \<times> rvalue) list \<Rightarrow> (unit, 's) prog" where
  "rp_aobserve on_snapshot [] s = (Inr (), s)"
| "rp_aobserve on_snapshot ((kind, payload) # messages) s =
     (if kind \<noteq> ''message'' then rp_aobserve on_snapshot messages s
      else
        (case loads_entry payload of
           Inl _ \<Rightarrow> rp_aobserve on_snapshot messages s
         | Inr e \<Rightarrow> bindE (on_snapshot e) (\<lambda>_. rp_aobserve on_snapshot messages) s))"

lemma rp_aobserve_readable:
  "rp_aobserve on_snapshot messages s =
     foreach on_snapshot (List.map_filter (\<lambda>(kind, payload). if kind = ''message'' then
        (case loads_entry payload of Inl _ \<Rightarrow> None | Inr e \<Rightarrow> Some e) else None) messages) s"
proof (induction messages arbitrary: s)
  case (Cons m messages)
  then show ?case by (cases m) (auto simp: List.map_filter_def bindE_def split: sum.splits prod.splits)
qed (simp add: List.map_filter_def)

text \<open>Published entries reach the callback as they are, in the order they were published.\<close>

lemma snapshots_arrive:
  assumes "\<forall>e \<in> set es. entry_valid e \<and> entry_wire_safe e" "map rp_apublish es = map Inr payloads"
  shows "rp_aobserve on_snapshot (map (Pair ''message'') payloads) s = foreach on_snapshot es s"
  using assms
proof (induction es arbitrary: payloads s)
  case (Cons e es)
  then obtain p ps where p: "payloads = p # ps" "rp_apublish e = Inr p" "map rp_apublish es = map Inr ps" by auto
  have "loads_entry p = Inr e"
    using entry_wire_roundtrip[of e] Cons.prems(1) p(2) by (auto simp: rp_apublish_def bindR_Inr_iff)
  with Cons.IH[OF _ p(3)] Cons.prems(1) p(1) show ?case by (auto simp: bindE_def split: sum.splits prod.splits)
qed simp

section \<open>Receivers\<close>

text \<open>
  A receiver has a client of its own, outside the tables, and a subscription over it; both have the
  number of the client. What the calls raise is given: creating and preparing the client, subscribing,
  closing the subscription and the client.
\<close>

record receiver_calls =
  rv_created :: "unit result"
  rv_prepared :: "unit result"
  rv_subscribed :: "unit result"
  rv_pubsub_close :: "unit result"
  rv_client_close :: "unit result"

record receiver =
  rv_running :: bool
  rv_pubsub :: "nat option"
  rv_client :: "nat option"
  rv_open_pubsubs :: "nat set"
  rv_open_clients :: "nat set"
  rv_next :: nat

definition closed_by :: "unit result \<Rightarrow> nat \<Rightarrow> nat set \<Rightarrow> nat set" where
  "closed_by closing x xs = (case closing of Inr _ \<Rightarrow> xs - {x} | Inl _ \<Rightarrow> xs)"

text \<open>
  \<^verbatim>\<open>_ensure_subscribed\<close>: a failed subscription closes what was opened for it, and what the closing
  raises is suppressed.
\<close>

definition ensure_subscribed :: "receiver_calls \<Rightarrow> (unit, receiver) prog" where
  "ensure_subscribed C w =
     (if rv_pubsub w \<noteq> None then (Inr (), w)
      else
        (case rv_created C of
           Inl err \<Rightarrow> (Inl err, w)
         | Inr _ \<Rightarrow>
             let client = rv_next w; opened = w\<lparr>rv_open_clients := insert client (rv_open_clients w), rv_next := Suc client\<rparr> in
             (case rv_prepared C of
                Inl err \<Rightarrow> (Inl err, opened)
              | Inr _ \<Rightarrow>
                  (case rv_subscribed C of
                     Inl err \<Rightarrow>
                       (Inl err, opened\<lparr>rv_open_pubsubs := closed_by (rv_pubsub_close C) client (insert client (rv_open_pubsubs opened)),
                          rv_open_clients := closed_by (rv_client_close C) client (rv_open_clients opened)\<rparr>)
                   | Inr _ \<Rightarrow>
                       (Inr (), opened\<lparr>rv_open_pubsubs := insert client (rv_open_pubsubs opened),
                          rv_client := Some client, rv_pubsub := Some client\<rparr>)))))"

text \<open>\<^verbatim>\<open>_aclose_pubsub\<close>: the client is closed also when closing the subscription raises.\<close>

definition aclose_pubsub :: "receiver_calls \<Rightarrow> (unit, receiver) prog" where
  "aclose_pubsub C w =
     (let forgotten = w\<lparr>rv_pubsub := None, rv_client := None\<rparr>;
          (r1, w1) = (case rv_pubsub w of
             None \<Rightarrow> (Inr (), forgotten)
           | Some p \<Rightarrow> (rv_pubsub_close C, forgotten\<lparr>rv_open_pubsubs := closed_by (rv_pubsub_close C) p (rv_open_pubsubs forgotten)\<rparr>)) in
      case rv_client w of
        None \<Rightarrow> (r1, w1)
      | Some c \<Rightarrow>
          (case rv_client_close C of Inl err \<Rightarrow> Inl err | Inr _ \<Rightarrow> r1,
           w1\<lparr>rv_open_clients := closed_by (rv_client_close C) c (rv_open_clients w1)\<rparr>))"

text \<open>\<^verbatim>\<open>run\<close>: the loop only ends with an exception, which \<open>ended\<close> is; the closing comes last.\<close>

definition receiver_run :: "receiver_calls \<Rightarrow> pyerror \<Rightarrow> (unit, receiver) prog" where
  "receiver_run C ended w =
     (case bindE (ensure_subscribed C) (\<lambda>_. raise ended) (w\<lparr>rv_running := True\<rparr>) of
        (r, w') \<Rightarrow>
          (case aclose_pubsub C (w'\<lparr>rv_running := False\<rparr>) of
             (Inl err, w'') \<Rightarrow> (Inl err, w'') | (Inr _, w'') \<Rightarrow> (r, w'')))"

text \<open>
  However a receiver ends, it is stopped and has forgotten its subscription, and every client it opened
  and prepared is closed, also when closing the subscription raised.
\<close>

lemma receiver_closes_its_client:
  assumes "rv_prepared C = Inr ()" "rv_client_close C = Inr ()" "rv_pubsub w = None" "rv_client w = None"
    "\<forall>c \<in> rv_open_clients w. c < rv_next w" "receiver_run C ended w = (r, w')"
  shows "rv_open_clients w' = rv_open_clients w \<and> rv_pubsub w' = None \<and> rv_client w' = None \<and> \<not> rv_running w' \<and> r \<noteq> Inr ()"
proof -
  have fresh: "rv_next w \<notin> rv_open_clients w" using assms(5) by blast
  show ?thesis
  proof (cases "rv_created C")
    case (Inl err)
    with assms have "r = Inl err" "w' = w\<lparr>rv_running := False, rv_pubsub := None, rv_client := None\<rparr>"
      by (auto simp: receiver_run_def ensure_subscribed_def aclose_pubsub_def bindE_def)
    then show ?thesis by simp
  next
    case (Inr u)
    show ?thesis
    proof (cases "rv_subscribed C")
      case (Inl err)
      with assms Inr fresh show ?thesis
        by (auto simp: receiver_run_def ensure_subscribed_def aclose_pubsub_def bindE_def closed_by_def Let_def)
    next
      case (Inr v)
      with assms \<open>rv_created C = Inr u\<close> fresh show ?thesis
        by (cases "rv_pubsub_close C") (auto simp: receiver_run_def ensure_subscribed_def aclose_pubsub_def bindE_def closed_by_def Let_def)
    qed
  qed
qed

end
