(* ===== verification/Function_Deployment.thy ===== *)
theory Function_Deployment
  imports Queue_Base Py_Text
begin

text \<open>
  Deploying the Redis function library: the bundled source and its metadata
  (\<^verbatim>\<open>backends/redis/functions.py\<close>), what the server reports about the installed one
  (\<^verbatim>\<open>management/redis_functions.py\<close>), and the commands that check and deploy it
  (\<^verbatim>\<open>redis_lua_lib.py\<close>, \<^verbatim>\<open>redis_lua_compat.py\<close>). Text is given by its UTF-8 bytes; replies of the
  server are values of \<open>reply\<close>. The commands of several deployers interleave, each command of
  the server being one step.
\<close>

section \<open>Replies\<close>

datatype reply = RNone | RBool bool | RInt int | RStr string | RBytes string | RList "reply list" | RMap "(reply \<times> reply) list"

text \<open>A command fails with \<^verbatim>\<open>CommandError\<close>, or with an exception it does not catch.\<close>

datatype command_error = CommandFailed | Uncaught pyerror

type_synonym 'a command = "command_error + 'a"

text \<open>\<^verbatim>\<open>except InvalidQueueBackendError\<close>: a configuration error becomes an error of the command.\<close>

definition as_command :: "'a result \<Rightarrow> 'a command" where
  "as_command r =
     (case r of Inl InvalidQueueBackendError \<Rightarrow> Inl CommandFailed | Inl err \<Rightarrow> Inl (Uncaught err) | Inr x \<Rightarrow> Inr x)"

lemma as_command_Inl [simp]: "as_command (Inl err) \<noteq> Inr x"
  by (cases err) (simp_all add: as_command_def)

section \<open>Metadata\<close>

abbreviation version_prefix :: string where
  "version_prefix \<equiv> ''-- django-queues-library-version: ''"

abbreviation api_prefix :: string where
  "api_prefix \<equiv> ''-- django-queues-api-version: ''"

record function_library =
  fl_source :: string
  fl_library_version :: string
  fl_api_version :: int

text \<open>
  The pattern of the bundled source: two successive lines, each ended by a newline, with a version
  of six and six digits and an api version of digits. \<open>rest\<close> is the text after a line start.
\<close>

definition version_ok :: "string \<Rightarrow> bool" where
  "version_ok v \<longleftrightarrow> length v = 13 \<and> v ! 6 = CHR ''_'' \<and> list_all is_digit (take 6 v) \<and> list_all is_digit (drop 7 v)"

definition match_metadata :: "string \<Rightarrow> (string \<times> int) option" where
  "match_metadata rest =
     (if \<not> startswith rest version_prefix then None
      else
        let after = drop (length version_prefix) rest; v = take 13 after; second = drop 14 after;
            digits = takeWhile is_digit (drop (length api_prefix) second)
        in if version_ok v \<and> take 1 (drop 13 after) = [CHR 0x0A] \<and> startswith second api_prefix \<and> digits \<noteq> [] \<and>
              take 1 (drop (length digits) (drop (length api_prefix) second)) = [CHR 0x0A]
           then map_option (\<lambda>n. (v, n)) (bytes_int digits)
           else None)"

fun search_metadata :: "bool \<Rightarrow> string \<Rightarrow> (string \<times> int) option" where
  "search_metadata line_start [] = None"
| "search_metadata line_start (c # s) =
     (case (if line_start then match_metadata (c # s) else None) of
        Some m \<Rightarrow> Some m
      | None \<Rightarrow> search_metadata (c = CHR 0x0A) s)"

definition load_function_library :: "string \<Rightarrow> function_library option" where
  "load_function_library source =
     (case search_metadata True source of
        Some (v, n) \<Rightarrow> Some \<lparr>fl_source = source, fl_library_version = v, fl_api_version = n\<rparr>
      | None \<Rightarrow> None)"

section \<open>What the server reports\<close>

definition read_library_info :: "reply \<Rightarrow> (string \<times> int) command" where
  "read_library_info result =
     (case result of
        RList [v, a] \<Rightarrow>
          (case (case v of RBytes b \<Rightarrow> if ascii b then Inr (RStr b) else Inl CommandFailed | _ \<Rightarrow> Inr v) of
             Inl err \<Rightarrow> Inl err
           | Inr (RStr version) \<Rightarrow> (case a of RInt n \<Rightarrow> Inr (version, n) | _ \<Rightarrow> Inl CommandFailed)
           | Inr _ \<Rightarrow> Inl CommandFailed)
      | _ \<Rightarrow> Inl CommandFailed)"

fun hashable :: "reply \<Rightarrow> bool" where
  "hashable (RList xs) = False"
| "hashable (RMap kvs) = False"
| "hashable _ = True"

fun pairs_of :: "reply list \<Rightarrow> (reply \<times> reply) list" where
  "pairs_of (k # v # rest) = (k, v) # pairs_of rest"
| "pairs_of _ = []"

definition mapping_from_redis :: "reply \<Rightarrow> (reply, reply) pydict option command" where
  "mapping_from_redis value =
     (case value of
        RMap kvs \<Rightarrow> Inr (Some kvs)
      | RList xs \<Rightarrow>
          if 2 \<le> length xs \<and> even (length xs) then
            (if list_all (hashable \<circ> fst) (pairs_of xs)
             then Inr (Some (fold (\<lambda>(k, v). dict_set k v) (pairs_of xs) [])) else Inl (Uncaught TypeError))
          else Inr None
      | _ \<Rightarrow> Inr None)"

definition library_code :: "(reply, reply) pydict \<Rightarrow> string option" where
  "library_code library =
     (case (case dict_get library (RStr ''library_code'') of Some c \<Rightarrow> Some c | None \<Rightarrow> dict_get library (RBytes ''library_code'')) of
        Some (RStr s) \<Rightarrow> Some s
      | Some (RBytes b) \<Rightarrow> Some b
      | _ \<Rightarrow> None)"

definition read_source_info :: "string \<Rightarrow> (string \<times> int) command" where
  "read_source_info source =
     (case (find (\<lambda>l. startswith l version_prefix) (splitlines source), find (\<lambda>l. startswith l api_prefix) (splitlines source)) of
        (Some version_line, Some api_line) \<Rightarrow>
          (let v = removeprefix version_line version_prefix in
           case bytes_int (removeprefix api_line api_prefix) of
             Some n \<Rightarrow> if \<not> ascii v \<or> v = [] then Inl CommandFailed else Inr (v, n)
           | None \<Rightarrow> Inl CommandFailed)
      | _ \<Rightarrow> Inl CommandFailed)"

definition read_installed_library_info :: "reply \<Rightarrow> (string \<times> int) command" where
  "read_installed_library_info libraries =
     (case libraries of
        RList [l] \<Rightarrow>
          (case mapping_from_redis l of
             Inl err \<Rightarrow> Inl err
           | Inr None \<Rightarrow> Inl CommandFailed
           | Inr (Some library) \<Rightarrow>
               (case library_code library of None \<Rightarrow> Inl CommandFailed | Some source \<Rightarrow> read_source_info source))
      | _ \<Rightarrow> Inl CommandFailed)"

section \<open>Checking and deciding\<close>

text \<open>What \<^verbatim>\<open>FUNCTION LIST\<close> answers for the library, and what is read from it.\<close>

definition function_list :: "string option \<Rightarrow> reply" where
  "function_list installed =
     (case installed of
        None \<Rightarrow> RList []
      | Some code \<Rightarrow> RList [RMap [(RBytes ''library_name'', RBytes ''django_queues''), (RBytes ''library_code'', RBytes code)]])"

definition installed_info :: "string option \<Rightarrow> (string \<times> int) option command" where
  "installed_info installed =
     (if function_list installed = RList [] then Inr None
      else (case read_installed_library_info (function_list installed) of Inl err \<Rightarrow> Inl err | Inr info \<Rightarrow> Inr (Some info)))"

datatype decision = Refuse | UpToDate | Load

definition deploy_decision :: "function_library \<Rightarrow> bool \<Rightarrow> (string \<times> int) option \<Rightarrow> decision" where
  "deploy_decision library rollback info =
     (case info of
        None \<Rightarrow> Load
      | Some (v, n) \<Rightarrow>
          if fl_api_version library < n \<and> \<not> rollback then Refuse
          else if v = fl_library_version library \<and> n = fl_api_version library then UpToDate
          else Load)"

definition check_installed :: "function_library \<Rightarrow> string option \<Rightarrow> unit command" where
  "check_installed library installed =
     (case installed_info installed of
        Inl err \<Rightarrow> Inl err
      | Inr None \<Rightarrow> Inl CommandFailed
      | Inr (Some (v, n)) \<Rightarrow> if v \<noteq> fl_library_version library \<or> n < fl_api_version library then Inl CommandFailed else Inr ())"

definition report_compatibility :: "int \<Rightarrow> reply \<Rightarrow> unit command" where
  "report_compatibility required result =
     (case read_library_info result of
        Inl err \<Rightarrow> Inl err
      | Inr (v, n) \<Rightarrow> if n < required then Inl CommandFailed else Inr ())"

section \<open>Deployers\<close>

text \<open>
  The server's deployment lock holds the token of a deployer, its library the installed source.
  A deployer that has the lock looks at the installed library, decides, loads its own library,
  and in any case releases the lock if it still holds its token. The reply to the command that
  sets the lock, or the command that releases it, may be lost: the deployer is gone and its lock
  stays. The lock expires after 30 seconds, whatever its deployer is doing; \<open>dp_expired\<close>
  remembers that this happened under a deployer at work.
\<close>

datatype deployer_phase = Leased | Decided decision | Finished

record deployment =
  dp_lock :: "nat option"
  dp_library :: "string option"
  dp_phase :: "nat \<rightharpoonup> deployer_phase"
  dp_expired :: bool

definition acquire_lease :: "nat \<Rightarrow> deployment \<Rightarrow> deployment" where
  "acquire_lease d s =
     (if dp_lock s = None then s\<lparr>dp_lock := Some d, dp_phase := (dp_phase s)(d \<mapsto> Leased)\<rparr> else s)"

definition acquire_lost :: "nat \<Rightarrow> deployment \<Rightarrow> deployment" where
  "acquire_lost d s = (if dp_lock s = None then s\<lparr>dp_lock := Some d\<rparr> else s)"

definition inspect_installed :: "function_library \<Rightarrow> bool \<Rightarrow> nat \<Rightarrow> deployment \<Rightarrow> deployment" where
  "inspect_installed library rollback d s =
     (case installed_info (dp_library s) of
        Inl err \<Rightarrow> s\<lparr>dp_phase := (dp_phase s)(d \<mapsto> Decided Refuse)\<rparr>
      | Inr info \<Rightarrow> s\<lparr>dp_phase := (dp_phase s)(d \<mapsto> Decided (deploy_decision library rollback info))\<rparr>)"

definition function_load :: "function_library \<Rightarrow> nat \<Rightarrow> deployment \<Rightarrow> deployment" where
  "function_load library d s = s\<lparr>dp_library := Some (fl_source library), dp_phase := (dp_phase s)(d \<mapsto> Finished)\<rparr>"

definition release_lease :: "nat \<Rightarrow> deployment \<Rightarrow> deployment" where
  "release_lease d s =
     s\<lparr>dp_lock := (if dp_lock s = Some d then None else dp_lock s), dp_phase := (dp_phase s)(d := None)\<rparr>"

definition release_lost :: "nat \<Rightarrow> deployment \<Rightarrow> deployment" where
  "release_lost d s = s\<lparr>dp_phase := (dp_phase s)(d := None)\<rparr>"

definition expire_lease :: "deployment \<Rightarrow> deployment" where
  "expire_lease s =
     (case dp_lock s of
        None \<Rightarrow> s
      | Some d \<Rightarrow> s\<lparr>dp_lock := None, dp_expired := (dp_expired s \<or> dp_phase s d \<noteq> None)\<rparr>)"

text \<open>
  The next command of some deployer. A load that raises ends the deployment like a decision
  against it: the lock is released and the library stays, or, if only the reply was lost, the
  library is loaded, which is \<open>s_load\<close> followed by a release.
\<close>

inductive deploy_step :: "(nat \<Rightarrow> function_library) \<Rightarrow> (nat \<Rightarrow> bool) \<Rightarrow> deployment \<Rightarrow> deployment \<Rightarrow> bool" for libs rollback where
  s_acquire: "dp_phase s d = None \<Longrightarrow> deploy_step libs rollback s (acquire_lease d s)"
| s_acquire_lost: "dp_phase s d = None \<Longrightarrow> deploy_step libs rollback s (acquire_lost d s)"
| s_inspect: "dp_phase s d = Some Leased \<Longrightarrow> deploy_step libs rollback s (inspect_installed (libs d) (rollback d) d s)"
| s_load: "dp_phase s d = Some (Decided Load) \<Longrightarrow> deploy_step libs rollback s (function_load (libs d) d s)"
| s_release: "dp_phase s d \<noteq> None \<Longrightarrow> deploy_step libs rollback s (release_lease d s)"
| s_release_lost: "dp_phase s d \<noteq> None \<Longrightarrow> deploy_step libs rollback s (release_lost d s)"
| s_expire: "dp_lock s \<noteq> None \<Longrightarrow> deploy_step libs rollback s (expire_lease s)"

inductive deploy_reachable :: "(nat \<Rightarrow> function_library) \<Rightarrow> (nat \<Rightarrow> bool) \<Rightarrow> deployment \<Rightarrow> bool" for libs rollback where
  d_start: "deploy_reachable libs rollback \<lparr>dp_lock = None, dp_library = installed, dp_phase = Map.empty, dp_expired = False\<rparr>"
| d_next: "deploy_reachable libs rollback s \<Longrightarrow> deploy_step libs rollback s s' \<Longrightarrow> deploy_reachable libs rollback s'"

definition deploy_inv :: "(nat \<Rightarrow> function_library) \<Rightarrow> (nat \<Rightarrow> bool) \<Rightarrow> deployment \<Rightarrow> bool" where
  "deploy_inv libs rollback s \<longleftrightarrow>
     (\<not> dp_expired s \<longrightarrow>
       (\<forall>d. dp_phase s d \<noteq> None \<longrightarrow> dp_lock s = Some d) \<and>
       (\<forall>d. dp_phase s d = Some (Decided Load) \<longrightarrow>
         (\<exists>info. installed_info (dp_library s) = Inr info \<and> deploy_decision (libs d) (rollback d) info = Load)))"

lemma deploy_exclusive:
  assumes "deploy_inv libs rollback s" "\<not> dp_expired s" "dp_phase s d \<noteq> None" "dp_phase s d' \<noteq> None"
  shows "d' = d"
proof -
  have "dp_lock s = Some d" "dp_lock s = Some d'" using assms unfolding deploy_inv_def by blast+
  then show ?thesis by simp
qed

lemma deploy_step_inv: "deploy_step libs rollback s s' \<Longrightarrow> deploy_inv libs rollback s \<Longrightarrow> deploy_inv libs rollback s'"
proof (induction rule: deploy_step.induct)
  case (s_inspect s d)
  then show ?case
    by (auto simp: deploy_inv_def inspect_installed_def split: sum.splits if_splits)
next
  case (s_load s d)
  then have "d' = d" if "dp_phase s d' \<noteq> None" "\<not> dp_expired s" for d'
    using deploy_exclusive[OF s_load.prems that(2) _ that(1)] s_load by simp
  with s_load show ?case by (auto simp: deploy_inv_def function_load_def split: if_splits)
next
  case (s_release s d)
  then have "d' = d" if "dp_phase s d' \<noteq> None" "\<not> dp_expired s" for d'
    using deploy_exclusive[OF s_release.prems that(2) _ that(1)] by simp
  with s_release show ?case by (fastforce simp: deploy_inv_def release_lease_def)
next
  case (s_release_lost s d)
  then have "d' = d" if "dp_phase s d' \<noteq> None" "\<not> dp_expired s" for d'
    using deploy_exclusive[OF s_release_lost.prems that(2) _ that(1)] by simp
  with s_release_lost show ?case by (fastforce simp: deploy_inv_def release_lost_def)
qed (auto simp: deploy_inv_def acquire_lease_def acquire_lost_def expire_lease_def split: if_splits option.splits)

lemma deploy_reachable_inv: "deploy_reachable libs rollback s \<Longrightarrow> deploy_inv libs rollback s"
proof (induction rule: deploy_reachable.induct)
  case (d_start installed)
  show ?case by (simp add: deploy_inv_def)
next
  case (d_next s s')
  then show ?case using deploy_step_inv by blast
qed

text \<open>Only loading changes the installed library.\<close>

lemma deploy_step_library:
  "deploy_step libs rollback s s' \<Longrightarrow>
     dp_library s' = dp_library s \<or> (\<exists>d. dp_phase s d = Some (Decided Load) \<and> s' = function_load (libs d) d s)"
  by (induction rule: deploy_step.induct)
    (auto simp: acquire_lease_def acquire_lost_def inspect_installed_def release_lease_def release_lost_def expire_lease_def
      split: sum.splits option.splits)

section \<open>The bundled library\<close>

text \<open>The head of the bundled source.\<close>

definition bundled_head :: string where
  "bundled_head = ''#!lua name=django_queues'' @ [CHR 0x0A] @ version_prefix @ ''260827_204500'' @ [CHR 0x0A] @ api_prefix @ ''1'' @ [CHR 0x0A]"

lemma bundled_lines:
  "splitlines (bundled_head @ rest) =
     ''#!lua name=django_queues'' # (version_prefix @ ''260827_204500'') # (api_prefix @ ''1'') # splitlines rest"
  by (simp add: splitlines_def bundled_head_def)

lemma bundled_info: "read_source_info (bundled_head @ rest) = Inr (''260827_204500'', 1)"
  unfolding read_source_info_def bundled_lines
  by (simp add: startswith_def removeprefix_def bytes_int_def strip_def is_blank_def is_digit_def ascii_def)

lemma bundled_library:
  "load_function_library (bundled_head @ rest) =
     Some \<lparr>fl_source = bundled_head @ rest, fl_library_version = ''260827_204500'', fl_api_version = 1\<rparr>"
  by (simp add: load_function_library_def bundled_head_def match_metadata_def startswith_def version_ok_def is_digit_def
      bytes_int_def strip_def is_blank_def Let_def)

lemma bundled_installed: "installed_info (Some (bundled_head @ rest)) = Inr (Some (''260827_204500'', 1))"
  by (simp add: installed_info_def function_list_def read_installed_library_info_def mapping_from_redis_def library_code_def bundled_info)

text \<open>A deployment of the bundled library is complete: checking finds it current, and deploying it again loads nothing.\<close>

lemma deployed_library_is_current:
  assumes "load_function_library (bundled_head @ rest) = Some library"
  shows "check_installed library (dp_library (function_load library d s)) = Inr () \<and>
    dp_phase (inspect_installed library rollback d' (function_load library d s)) d' = Some (Decided UpToDate)"
  using assms bundled_library[of rest]
  by (auto simp: check_installed_def function_load_def inspect_installed_def bundled_installed deploy_decision_def)

section \<open>The guarantee of deployments\<close>

text \<open>
  A deployer's library is what the loader made of its source, and its metadata are the first such
  lines of the source, which is where the version of an installed source is read from. The bundled
  library is of this kind.
\<close>

definition library_of_source :: "function_library \<Rightarrow> bool" where
  "library_of_source library \<longleftrightarrow>
     load_function_library (fl_source library) = Some library \<and>
     read_source_info (fl_source library) = Inr (fl_library_version library, fl_api_version library)"

lemma bundled_library_of_source: "load_function_library (bundled_head @ rest) = Some library \<Longrightarrow> library_of_source library"
  using bundled_library[of rest] bundled_info[of rest] by (auto simp: library_of_source_def)

lemma installed_library:
  "library_of_source library \<Longrightarrow>
     installed_info (Some (fl_source library)) = Inr (Some (fl_library_version library, fl_api_version library))"
  by (simp add: library_of_source_def installed_info_def function_list_def read_installed_library_info_def
      mapping_from_redis_def library_code_def)

text \<open>
  C38. As long as no deployer at work outlives its lease, deployments exclude each other, and
  whichever versions the deployers bundle and however their commands interleave, also with lost
  replies: once a library with a readable version is installed, every command of a deployer leaves
  a library with a readable version installed, and its api version is not lower than before unless
  the command is the load of a deployer with the rollback option. A load installs the deployer's
  library: its version and api version are the ones read from the server afterwards.
\<close>

theorem deployments_never_downgrade:
  assumes "deploy_reachable libs rollback s" "\<not> dp_expired s" "\<And>d. library_of_source (libs d)"
  shows "(\<forall>d d'. dp_phase s d \<noteq> None \<longrightarrow> dp_phase s d' \<noteq> None \<longrightarrow> d' = d) \<and>
    (\<forall>d. installed_info (dp_library (function_load (libs d) d s)) =
       Inr (Some (fl_library_version (libs d), fl_api_version (libs d)))) \<and>
    (\<forall>s' v n. deploy_step libs rollback s s' \<longrightarrow> installed_info (dp_library s) = Inr (Some (v, n)) \<longrightarrow>
       (\<exists>v' n'. installed_info (dp_library s') = Inr (Some (v', n')) \<and>
          (n \<le> n' \<or> (\<exists>d. rollback d \<and> dp_phase s d = Some (Decided Load) \<and> s' = function_load (libs d) d s))))"
proof -
  have inv: "deploy_inv libs rollback s" by (rule deploy_reachable_inv[OF assms(1)])
  have load: "installed_info (dp_library (function_load (libs d) d s)) =
      Inr (Some (fl_library_version (libs d), fl_api_version (libs d)))" for d
    using installed_library[OF assms(3)] by (simp add: function_load_def)
  have up: "n \<le> fl_api_version (libs d)"
    if "dp_phase s d = Some (Decided Load)" "installed_info (dp_library s) = Inr (Some (v, n))" "\<not> rollback d" for d v n
    using inv assms(2) that unfolding deploy_inv_def by (fastforce simp: deploy_decision_def split: if_splits)
  have "\<exists>v' n'. installed_info (dp_library s') = Inr (Some (v', n')) \<and>
      (n \<le> n' \<or> (\<exists>d. rollback d \<and> dp_phase s d = Some (Decided Load) \<and> s' = function_load (libs d) d s))"
    if step: "deploy_step libs rollback s s'" and info: "installed_info (dp_library s) = Inr (Some (v, n))" for s' v n
    using deploy_step_library[OF step]
  proof
    assume "dp_library s' = dp_library s"
    then show ?thesis using info by simp
  next
    assume "\<exists>d. dp_phase s d = Some (Decided Load) \<and> s' = function_load (libs d) d s"
    then obtain d where d: "dp_phase s d = Some (Decided Load)" "s' = function_load (libs d) d s" by blast
    show ?thesis using load[of d] up[OF d(1) info] d by auto
  qed
  with load deploy_exclusive[OF inv assms(2)] show ?thesis by blast
qed

text \<open>A later library than the bundled one, being deployed over it.\<close>

definition sample_library :: function_library where
  "sample_library = \<lparr>fl_source = version_prefix @ ''260901_000000'' @ [CHR 0x0A] @ api_prefix @ ''2'' @ [CHR 0x0A],
     fl_library_version = ''260901_000000'', fl_api_version = 2\<rparr>"

lemma sample_library_of_source: "library_of_source sample_library"
  by (simp add: library_of_source_def sample_library_def load_function_library_def match_metadata_def startswith_def version_ok_def
      is_digit_def bytes_int_def strip_def is_blank_def Let_def read_source_info_def splitlines_def removeprefix_def ascii_def)

definition sample_deployment :: deployment where
  "sample_deployment = inspect_installed sample_library False 4 (acquire_lease 4
     \<lparr>dp_lock = None, dp_library = Some bundled_head, dp_phase = Map.empty, dp_expired = False\<rparr>)"

theorem deployments_never_downgrade_witness:
  "deploy_reachable (\<lambda>_. sample_library) (\<lambda>_. False) sample_deployment \<and>
   installed_info (dp_library sample_deployment) = Inr (Some (''260827_204500'', 1)) \<and>
   deploy_step (\<lambda>_. sample_library) (\<lambda>_. False) sample_deployment (function_load sample_library 4 sample_deployment) \<and>
   installed_info (dp_library (function_load sample_library 4 sample_deployment)) = Inr (Some (''260901_000000'', 2))"
proof -
  let ?s0 = "\<lparr>dp_lock = None, dp_library = Some bundled_head, dp_phase = Map.empty, dp_expired = False\<rparr>"
  have "deploy_reachable (\<lambda>_. sample_library) (\<lambda>_. False) (acquire_lease 4 ?s0)"
    by (rule d_next[OF d_start]) (rule s_acquire, simp)
  moreover have "deploy_step (\<lambda>_. sample_library) (\<lambda>_. False) (acquire_lease 4 ?s0) sample_deployment"
    using s_inspect[of "acquire_lease 4 ?s0" 4 "\<lambda>_. sample_library" "\<lambda>_. False"] by (simp add: sample_deployment_def acquire_lease_def)
  ultimately have reach: "deploy_reachable (\<lambda>_. sample_library) (\<lambda>_. False) sample_deployment" by (rule d_next)
  have st: "\<not> dp_expired sample_deployment" "dp_phase sample_deployment 4 = Some (Decided Load)"
      "installed_info (dp_library sample_deployment) = Inr (Some (''260827_204500'', 1))"
    using bundled_installed[of "[]"]
    by (simp_all add: sample_deployment_def inspect_installed_def acquire_lease_def deploy_decision_def sample_library_def)
  have "deploy_step (\<lambda>_. sample_library) (\<lambda>_. False) sample_deployment (function_load sample_library 4 sample_deployment)"
    using s_load[OF st(2), of "\<lambda>_. sample_library"] by simp
  moreover have "installed_info (dp_library (function_load sample_library 4 sample_deployment)) = Inr (Some (''260901_000000'', 2))"
    using deployments_never_downgrade[OF reach st(1) sample_library_of_source] by (simp add: sample_library_def)
  ultimately show ?thesis using reach st(3) by blast
qed

end
