(* ===== verification/Redis_Targets.thy ===== *)
theory Redis_Targets
  imports Redis_Transport Function_Deployment
begin

text \<open>
  The Redis targets of the management commands: merging the TLS arguments of aliases that share a
  location and recognising TLS failures (\<^verbatim>\<open>backends/redis/transport.py\<close>), and grouping the configured
  aliases into targets (\<^verbatim>\<open>management/redis_functions.py\<close>). The options of an alias are Python values, an
  imported class or a callable being an object known by its name; importing by dotted path is a
  parameter that gives the two attributes the code reads from a backend class.
\<close>

section \<open>TLS failures\<close>

text \<open>
  Exceptions live in a store and are known by their position in it; \<open>ex_cause\<close> and \<open>ex_context\<close> are
  the links \<^verbatim>\<open>__cause__\<close> and \<^verbatim>\<open>__context__\<close>, which may form a cycle. The flags are the class tests
  the module makes.
\<close>

record exc =
  ex_type_name :: string
  ex_message :: string
  ex_auth_or_loading :: bool
  ex_ssl_error :: bool
  ex_timeout :: bool
  ex_is_redis_connection_error :: bool
  ex_connection_error :: bool
  ex_redis_error :: bool
  ex_cause :: "nat option"
  ex_context :: "nat option"

definition is_connect_timeout :: "exc \<Rightarrow> bool" where
  "is_connect_timeout e \<longleftrightarrow> ex_timeout e \<and> contains ''connecting'' (lower (ex_message e))"

text \<open>What one pass of each loop decides: the answer, or nothing, and the chain is followed.\<close>

definition tls_test :: "exc \<Rightarrow> bool option" where
  "tls_test e =
     (if ex_auth_or_loading e then Some False
      else if ex_ssl_error e then Some True
      else if contains ''SSL'' (ex_type_name e) \<or> contains ''Certificate'' (ex_type_name e) then Some True
      else let message = lower (ex_message e) in
        if contains ''ssl'' message \<or> contains ''certificate verify failed'' message then Some True else None)"

definition reachability_test :: "exc \<Rightarrow> bool option" where
  "reachability_test e =
     (if ex_auth_or_loading e then Some False
      else if is_connect_timeout e then Some True
      else if ex_is_redis_connection_error e then Some True
      else if ex_connection_error e \<and> \<not> ex_redis_error e then Some True
      else None)"

definition next_exc :: "exc \<Rightarrow> nat option" where
  "next_exc e = (case ex_cause e of Some i \<Rightarrow> Some i | None \<Rightarrow> ex_context e)"

function walk_chain :: "(exc \<Rightarrow> bool option) \<Rightarrow> exc list \<Rightarrow> nat set \<Rightarrow> nat option \<Rightarrow> bool" where
  "walk_chain test h seen None = False"
| "walk_chain test h seen (Some i) =
     (if i \<in> seen \<or> length h \<le> i then False
      else case test (h ! i) of Some answer \<Rightarrow> answer | None \<Rightarrow> walk_chain test h (insert i seen) (next_exc (h ! i)))"
  by pat_completeness auto
termination
proof (relation "measure (\<lambda>(test, h, seen, i). card ({..<length h} - seen))")
  fix test :: "exc \<Rightarrow> bool option" and h :: "exc list" and seen i
  assume "\<not> (i \<in> seen \<or> length h \<le> i)"
  then have "i \<in> {..<length h} - seen" by simp
  from card_Diff1_less[OF _ this] have "card ({..<length h} - insert i seen) < card ({..<length h} - seen)"
    unfolding Diff_insert[of "{..<length h}" i seen] by blast
  then show "((test, h, insert i seen, next_exc (h ! i)), (test, h, seen, Some i)) \<in> measure (\<lambda>(test, h, seen, i). card ({..<length h} - seen))"
    by simp
qed simp

definition is_tls_failure :: "exc list \<Rightarrow> nat \<Rightarrow> bool" where
  "is_tls_failure h i = walk_chain tls_test h {} (Some i)"

definition is_tls_reachability_failure :: "exc list \<Rightarrow> nat \<Rightarrow> bool" where
  "is_tls_reachability_failure h i = walk_chain reachability_test h {} (Some i)"

text \<open>\<^verbatim>\<open>redis_tls_failure\<close>: whether an error is returned, which names the redacted URL.\<close>

definition redis_tls_failure :: "(string \<Rightarrow> bool) \<Rightarrow> exc list \<Rightarrow> nat \<Rightarrow> string \<Rightarrow> string option result" where
  "redis_tls_failure netloc_ok h i url =
     bindR (urlsplit netloc_ok url) (\<lambda>parsed.
       let rediss = (lower (sr_scheme parsed) = ''rediss'') in
       if \<not> (rediss \<and> is_tls_failure h i) \<and> \<not> (rediss \<and> is_tls_reachability_failure h i) then Inr None
       else bindR (redact_redis_url netloc_ok url) (\<lambda>redacted. Inr (Some redacted)))"

section \<open>Merging TLS arguments\<close>

definition tls_option_set :: "pyval \<Rightarrow> bool" where
  "tls_option_set value \<longleftrightarrow> value \<noteq> PNone \<and> \<not> py_eq value (PStr [])"

fun py_hashable :: "pyval \<Rightarrow> bool" where
  "py_hashable (PList xs) = False"
| "py_hashable (PDict kvs) = False"
| "py_hashable (PTuple xs) = (\<forall>x \<in> set xs. py_hashable x)"
| "py_hashable _ = True"

text \<open>The members of \<^verbatim>\<open>ssl.VerifyMode\<close> are integers.\<close>

definition cert_reqs_rank :: "pyval \<Rightarrow> nat option result" where
  "cert_reqs_rank value =
     (if value = PNone then Inr None
      else case as_text value of
        Some s \<Rightarrow> Inr (map_of [(''none'', 0), (''optional'', 1), (''required'', 2)] (lower s))
      | None \<Rightarrow>
          if \<not> py_hashable value then Inl TypeError
          else Inr (find (\<lambda>r. py_eq value (PNum (PyInt (int r)))) [0, 1, 2]))"

definition stricter_cert_reqs :: "pyval \<Rightarrow> pyval \<Rightarrow> pyval result" where
  "stricter_cert_reqs current incoming =
     bindR (cert_reqs_rank current) (\<lambda>current_rank.
     bindR (cert_reqs_rank incoming) (\<lambda>incoming_rank.
       case incoming_rank of
         None \<Rightarrow> Inr current
       | Some i \<Rightarrow> (case current_rank of None \<Rightarrow> Inr incoming | Some c \<Rightarrow> if c < i then Inr incoming else Inr current)))"

definition merge_check_hostname :: "(string, pyval) pydict \<Rightarrow> (string, pyval) pydict \<Rightarrow> (string, pyval) pydict" where
  "merge_check_hostname incoming merged =
     (if dict_get incoming ''ssl_check_hostname'' = Some (PBool True) then dict_set ''ssl_check_hostname'' (PBool True) merged
      else if ''ssl_check_hostname'' \<notin> dkeys merged \<and> ''ssl_check_hostname'' \<in> dkeys incoming
      then dict_set ''ssl_check_hostname'' (option_or_none incoming ''ssl_check_hostname'') merged
      else merged)"

fun merge_keys :: "string list \<Rightarrow> (string, pyval) pydict \<Rightarrow> (string, pyval) pydict \<Rightarrow> (string, pyval) pydict result" where
  "merge_keys [] incoming merged = Inr merged"
| "merge_keys (key # rest) incoming merged =
     (case dict_get incoming key of
        None \<Rightarrow> merge_keys rest incoming merged
      | Some incoming_value \<Rightarrow>
          if \<not> tls_option_set incoming_value then merge_keys rest incoming merged
          else if \<not> tls_option_set (option_or_none merged key) then merge_keys rest incoming (dict_set key incoming_value merged)
          else if \<not> py_eq (option_or_none merged key) incoming_value then Inl InvalidQueueBackendError
          else merge_keys rest incoming merged)"

definition other_keys :: "string list" where
  "other_keys = filter (\<lambda>k. k \<notin> {''ssl'', ''ssl_check_hostname'', ''ssl_cert_reqs''}) tls_option_keys"

definition stricter_tls_client_kwargs ::
    "(string, pyval) pydict \<Rightarrow> (string, pyval) pydict \<Rightarrow> (string, pyval) pydict result" where
  "stricter_tls_client_kwargs current incoming =
     (let merged = merge_check_hostname incoming current in
      bindR (stricter_cert_reqs (option_or_none merged ''ssl_cert_reqs'') (option_or_none incoming ''ssl_cert_reqs'')) (\<lambda>reqs.
        merge_keys other_keys incoming (if reqs \<noteq> PNone then dict_set ''ssl_cert_reqs'' reqs merged else merged)))"

section \<open>Targets\<close>

record RedisFunctionTarget =
  ft_url :: string
  ft_topology :: string
  ft_aliases :: "string list"
  ft_address_remap :: "pyval option"
  ft_client_kwargs :: "(string, pyval) pydict"

record backend_class =
  bc_provider_kind :: pyval
  bc_topology :: pyval

record target_env =
  te_import :: "string \<Rightarrow> backend_class option"
  te_callable :: "pyval \<Rightarrow> bool"
  te_netloc_ok :: "string \<Rightarrow> bool"
  te_parse_url :: "string \<Rightarrow> (string, pyval) pydict option"

type_synonym target_key = "string \<times> string"

record grouping =
  gp_grouped :: "(target_key, string list) pydict"
  gp_remaps :: "(target_key, pyval option) pydict"
  gp_kwargs :: "(target_key, (string, pyval) pydict) pydict"
  gp_order :: "target_key list"

definition client_kwargs :: "target_env \<Rightarrow> string \<Rightarrow> (string, pyval) pydict \<Rightarrow> (string, pyval) pydict command" where
  "client_kwargs E url options = as_command (redis_client_kwargs (te_netloc_ok E) (te_parse_url E) url options)"

text \<open>The target of an alias: none for a queue of another provider.\<close>

definition target_topology :: "backend_class \<Rightarrow> string" where
  "target_topology backend =
     (case as_text (bc_topology backend) of
        Some topology \<Rightarrow> if topology \<in> {''standalone'', ''cluster''} then topology else ''standalone''
      | None \<Rightarrow> ''standalone'')"

definition alias_target :: "target_env \<Rightarrow> (string, pyval) pydict \<Rightarrow> target_key option command" where
  "alias_target E options =
     (case as_text (option_or_none options ''BACKEND'') of
        None \<Rightarrow> Inl CommandFailed
      | Some backend_path \<Rightarrow>
          (case te_import E backend_path of
             None \<Rightarrow> Inl CommandFailed
           | Some backend \<Rightarrow>
               if \<not> py_eq (bc_provider_kind backend) (PStr ''redis'') then Inr None
               else (case as_text (option_or_none options ''LOCATION'') of
                   None \<Rightarrow> Inl CommandFailed
                 | Some location \<Rightarrow>
                     if location = [] then Inl CommandFailed else Inr (Some (target_topology backend, location)))))"

definition merged_kwargs ::
    "grouping \<Rightarrow> target_key \<Rightarrow> (string, pyval) pydict \<Rightarrow> (string, pyval) pydict command" where
  "merged_kwargs g key kwargs =
     (case dict_get (gp_kwargs g) key of
        Some current \<Rightarrow> as_command (stricter_tls_client_kwargs current kwargs)
      | None \<Rightarrow> Inl (Uncaught KeyError))"

definition add_alias :: "target_env \<Rightarrow> string \<times> (string, pyval) pydict \<Rightarrow> grouping \<Rightarrow> grouping command" where
  "add_alias E setting g =
     (case setting of (name, options) \<Rightarrow>
      case alias_target E options of
        Inl err \<Rightarrow> Inl err
      | Inr None \<Rightarrow> Inr g
      | Inr (Some key) \<Rightarrow>
          (let remap_value = option_or_none options ''address_remap'';
               remap = (if te_callable E remap_value then Some remap_value else None) in
           case client_kwargs E (snd key) options of
             Inl err \<Rightarrow> Inl err
           | Inr kwargs \<Rightarrow>
               if key \<notin> dkeys (gp_grouped g) then
                 Inr \<lparr>gp_grouped = dict_set key [name] (gp_grouped g), gp_remaps = dict_set key remap (gp_remaps g),
                   gp_kwargs = dict_set key kwargs (gp_kwargs g), gp_order = gp_order g @ [key]\<rparr>
               else (case merged_kwargs g key kwargs of
                   Inl err \<Rightarrow> Inl err
                 | Inr merged \<Rightarrow>
                     Inr (g\<lparr>gp_kwargs := dict_set key merged (gp_kwargs g),
                       gp_grouped := dict_set key ((case dict_get (gp_grouped g) key of Some names \<Rightarrow> names | None \<Rightarrow> []) @ [name]) (gp_grouped g),
                       gp_remaps := (if dict_get (gp_remaps g) key = Some None then dict_set key remap (gp_remaps g) else gp_remaps g)\<rparr>))))"

fun group_aliases :: "target_env \<Rightarrow> (string \<times> (string, pyval) pydict) list \<Rightarrow> grouping \<Rightarrow> grouping command" where
  "group_aliases E [] g = Inr g"
| "group_aliases E (setting # rest) g = (case add_alias E setting g of Inl err \<Rightarrow> Inl err | Inr g' \<Rightarrow> group_aliases E rest g')"

definition target_of :: "grouping \<Rightarrow> target_key \<Rightarrow> RedisFunctionTarget" where
  "target_of g key =
     \<lparr>ft_url = snd key, ft_topology = fst key,
      ft_aliases = (case dict_get (gp_grouped g) key of Some names \<Rightarrow> names | None \<Rightarrow> []),
      ft_address_remap = (case dict_get (gp_remaps g) key of Some remap \<Rightarrow> remap | None \<Rightarrow> None),
      ft_client_kwargs = (case dict_get (gp_kwargs g) key of Some kwargs \<Rightarrow> kwargs | None \<Rightarrow> [])\<rparr>"

definition override_target :: "target_env \<Rightarrow> string \<Rightarrow> string \<Rightarrow> RedisFunctionTarget list command" where
  "override_target E topology url =
     (case client_kwargs E url [] of
        Inl err \<Rightarrow> Inl err
      | Inr kwargs \<Rightarrow>
          Inr [\<lparr>ft_url = url, ft_topology = topology, ft_aliases = [], ft_address_remap = None, ft_client_kwargs = kwargs\<rparr>])"

definition resolve_redis_targets ::
    "target_env \<Rightarrow> (string, (string, pyval) pydict) pydict \<Rightarrow> string option \<Rightarrow> string option \<Rightarrow> RedisFunctionTarget list command" where
  "resolve_redis_targets E queue_settings redis_url redis_cluster_url =
     (case (redis_url, redis_cluster_url) of
        (Some _, Some _) \<Rightarrow> Inl CommandFailed
      | (Some url, None) \<Rightarrow> override_target E ''standalone'' url
      | (None, Some url) \<Rightarrow> override_target E ''cluster'' url
      | (None, None) \<Rightarrow>
          (case group_aliases E queue_settings \<lparr>gp_grouped = [], gp_remaps = [], gp_kwargs = [], gp_order = []\<rparr> of
             Inl err \<Rightarrow> Inl err
           | Inr g \<Rightarrow> Inr (map (target_of g) (gp_order g))))"

definition resolve_redis_urls ::
    "target_env \<Rightarrow> (string, (string, pyval) pydict) pydict \<Rightarrow> string option \<Rightarrow> string option \<Rightarrow> string list command" where
  "resolve_redis_urls E queue_settings redis_url redis_cluster_url =
     (case resolve_redis_targets E queue_settings redis_url redis_cluster_url of
        Inl err \<Rightarrow> Inl err
      | Inr targets \<Rightarrow> Inr (map ft_url targets))"

definition cluster_from_url_kwargs :: "RedisFunctionTarget \<Rightarrow> (string, pyval) pydict" where
  "cluster_from_url_kwargs target =
     (case ft_address_remap target of
        Some remap \<Rightarrow> dict_set ''address_remap'' remap (ft_client_kwargs target)
      | None \<Rightarrow> ft_client_kwargs target)"

text \<open>Distinct seeds that discovered the same nodes: the warnings, each the list of its redacted URLs.\<close>

definition warn_duplicate_cluster_seeds :: "(string \<Rightarrow> bool) \<Rightarrow> (string \<times> string set) list \<Rightarrow> string result list list" where
  "warn_duplicate_cluster_seeds netloc_ok cluster_identities =
     (let seen = fold (\<lambda>(url, node_ids) seen.
            if node_ids = {} then seen
            else dict_set node_ids ((case dict_get seen node_ids of Some urls \<Rightarrow> urls | None \<Rightarrow> []) @ [url]) seen) cluster_identities []
      in map (\<lambda>(_, urls). map (redact_redis_url netloc_ok) urls) (filter (\<lambda>(_, urls). 1 < length urls) seen))"

definition raise_redis_command_error :: "(string \<Rightarrow> bool) \<Rightarrow> exc list \<Rightarrow> nat \<Rightarrow> string \<Rightarrow> 'a command" where
  "raise_redis_command_error netloc_ok h i url =
     (case redis_tls_failure netloc_ok h i url of Inl err \<Rightarrow> Inl (Uncaught err) | Inr _ \<Rightarrow> Inl CommandFailed)"

section \<open>Primaries of a cluster\<close>

text \<open>
  The arguments of the client of one primary are copied from those of the cluster client; a class is
  an object known by its name. A node has an identity, a name that may be missing, and an address.
\<close>

definition primary_client_omit :: "string list" where
  "primary_client_omit = [''host'', ''port'', ''path'', ''redis_connect_func'', ''connection_class'', ''connection_pool'']"

definition primary_client_keep :: "string list" where
  "primary_client_keep = [''username'', ''password'', ''db'', ''ssl'', ''encoding'', ''encoding_errors'', ''decode_responses'', ''socket_timeout'',
     ''socket_connect_timeout'', ''socket_keepalive'', ''socket_keepalive_options'', ''socket_type'', ''retry'', ''retry_on_timeout'',
     ''retry_on_error'', ''health_check_interval'', ''client_name'', ''lib_name'', ''lib_version'', ''credential_provider'', ''protocol'']"

definition primary_client_kwargs :: "(string, pyval) pydict option \<Rightarrow> (string, pyval) pydict" where
  "primary_client_kwargs stored =
     (case stored of
        None \<Rightarrow> []
      | Some d \<Rightarrow>
          (let kwargs = filter (\<lambda>(key, value). key \<notin> set primary_client_omit \<and>
                 (key \<in> set primary_client_keep \<or> startswith key ''ssl_'')) d;
               ssl_class = (case option_or_none d ''connection_class'' of PObj name \<Rightarrow> contains ''SSL'' name | _ \<Rightarrow> False)
           in if truthy (option_or_none kwargs ''ssl'') \<or> ssl_class then dict_set ''ssl'' (PBool True) kwargs else kwargs))"

record cluster_node =
  cn_identity :: nat
  cn_name :: "string option"
  cn_host :: string
  cn_port :: int

definition node_name :: "cluster_node \<Rightarrow> string" where
  "node_name n = (case cn_name n of Some (c # s) \<Rightarrow> c # s | _ \<Rightarrow> cn_host n @ '':'' @ int_str (cn_port n))"

definition same_node :: "cluster_node \<Rightarrow> cluster_node \<Rightarrow> bool" where
  "same_node owner n \<longleftrightarrow> cn_identity owner = cn_identity n \<or> node_name owner = node_name n"

abbreviation default_lock_key :: string where
  "default_lock_key \<equiv> ''django_queues:function-deploy-lock''"

definition lock_key_for_slot :: "(string \<Rightarrow> int) \<Rightarrow> int \<Rightarrow> string command" where
  "lock_key_for_slot key_slot slot =
     (case find (\<lambda>index. key_slot (''{'' @ nat_digits index @ ''}'') = slot) [0..<1000000] of
        Some index \<Rightarrow> Inr (''{'' @ nat_digits index @ ''}:function-deploy-lock'')
      | None \<Rightarrow> Inl CommandFailed)"

definition deployment_lock_key :: "(string \<Rightarrow> int) \<Rightarrow> (int, cluster_node list) pydict \<Rightarrow> cluster_node \<Rightarrow> string command" where
  "deployment_lock_key key_slot slots_cache n =
     (case find (\<lambda>(candidate, owners). case owners of [] \<Rightarrow> False | owner # _ \<Rightarrow> same_node owner n) slots_cache of
        None \<Rightarrow> Inr default_lock_key
      | Some (slot, _) \<Rightarrow> lock_key_for_slot key_slot slot)"

text \<open>
  The deployment lock of a primary lies in a slot the primary owns: \<open>tagged\<close> is what Redis Cluster
  documents of hash tags, that the part in the first braces alone decides the slot.
\<close>

lemma lock_key_on_primary:
  assumes tagged: "\<And>tag rest. tag \<noteq> [] \<Longrightarrow> CHR ''}'' \<notin> set tag \<Longrightarrow> key_slot (''{'' @ tag @ ''}'' @ rest) = key_slot (''{'' @ tag @ ''}'')"
    and key: "deployment_lock_key key_slot slots_cache n = Inr k"
    and owned: "\<exists>slot owner owners. (slot, owner # owners) \<in> set slots_cache \<and> same_node owner n"
  shows "\<exists>owner owners. (key_slot k, owner # owners) \<in> set slots_cache \<and> same_node owner n"
proof -
  let ?P = "\<lambda>(candidate :: int, owners). case owners of [] \<Rightarrow> False | owner # _ \<Rightarrow> same_node owner n"
  obtain slot os where f: "find ?P slots_cache = Some (slot, os)"
  proof (cases "find ?P slots_cache")
    case None
    then have "\<not> ?P x" if "x \<in> set slots_cache" for x using that by (auto simp: find_None_iff)
    with owned show ?thesis by force
  qed auto
  then obtain owner owners where o: "os = owner # owners" "same_node owner n" "(slot, os) \<in> set slots_cache"
    unfolding find_Some_iff by (metis (no_types, lifting) list.case_eq_if list.collapse nth_mem case_prodD old.prod.case)
  have "lock_key_for_slot key_slot slot = Inr k" using key f by (simp add: deployment_lock_key_def)
  then obtain index where k: "k = ''{'' @ nat_digits index @ ''}'' @ '':function-deploy-lock''" "key_slot (''{'' @ nat_digits index @ ''}'') = slot"
    by (auto simp: lock_key_for_slot_def find_Some_iff split: option.splits)
  have "nat_digits index \<noteq> []" by (subst nat_digits.simps) simp
  moreover have "CHR ''}'' \<notin> set (nat_digits index)" using nat_digits_digits[of "CHR ''}''" index] by (auto simp: is_digit_def)
  ultimately have "key_slot k = slot" using tagged[of "nat_digits index" "'':function-deploy-lock''"] k by simp
  with o show ?thesis by blast
qed

text \<open>TLS reaches the primaries: the client of a primary uses TLS whenever the seed's does, with its certificate options.\<close>

lemma dict_get_filter: "dict_get (filter (\<lambda>(k, v). P k) d) k = (if P k then dict_get d k else None)"
  by (induction d) (auto simp del: dict_get_None)

lemma primaries_keep_tls:
  assumes "truthy (option_or_none d ''ssl'')" "startswith key ''ssl_''" "dict_get d key = Some v"
  shows "dict_get (primary_client_kwargs (Some d)) ''ssl'' = Some (PBool True) \<and> dict_get (primary_client_kwargs (Some d)) key = Some v"
proof -
  let ?keep = "\<lambda>k. k \<notin> set primary_client_omit \<and> (k \<in> set primary_client_keep \<or> startswith k ''ssl_'')"
  have "?keep ''ssl''" by (simp add: primary_client_omit_def primary_client_keep_def)
  moreover have "?keep key" "key \<noteq> ''ssl''" using assms(2) by (auto simp: primary_client_omit_def startswith_def)
  ultimately show ?thesis
    using assms by (simp add: primary_client_kwargs_def dict_get_filter[of ?keep] option_or_none_def Let_def)
qed

section \<open>Chains of exceptions\<close>

text \<open>The reference: the \<open>n\<close>-th exception of the chain that starts at \<open>i\<close>.\<close>

fun chain_at :: "exc list \<Rightarrow> nat \<Rightarrow> nat \<Rightarrow> nat option" where
  "chain_at h i 0 = (if i < length h then Some i else None)"
| "chain_at h i (Suc n) = (if i < length h then (case next_exc (h ! i) of None \<Rightarrow> None | Some j \<Rightarrow> chain_at h j n) else None)"

definition decided_at :: "(exc \<Rightarrow> bool option) \<Rightarrow> exc list \<Rightarrow> nat \<Rightarrow> nat \<Rightarrow> bool" where
  "decided_at test h i n \<longleftrightarrow>
     (\<exists>j. chain_at h i n = Some j \<and> test (h ! j) = Some True) \<and>
     (\<forall>m < n. \<exists>j. chain_at h i m = Some j \<and> test (h ! j) = None)"

lemma chain_in_closed:
  assumes "\<forall>k \<in> seen. next_exc (h ! k) = None \<or> (\<exists>j \<in> seen. next_exc (h ! k) = Some j)" "i \<in> seen" "chain_at h i n = Some j"
  shows "j \<in> seen"
  using assms(2,3) by (induction n arbitrary: i) (use assms(1) in \<open>fastforce split: option.splits if_splits\<close>)+

lemma decided_at_0: "decided_at test h i 0 \<longleftrightarrow> i < length h \<and> test (h ! i) = Some True"
  by (auto simp: decided_at_def)

lemma decided_at_Suc:
  "decided_at test h i (Suc n) \<longleftrightarrow> i < length h \<and> test (h ! i) = None \<and> (\<exists>j. next_exc (h ! i) = Some j \<and> decided_at test h j n)"
  unfolding decided_at_def All_less_Suc2 by (auto split: option.splits if_splits)

lemma ex_nat_0_Suc: "(\<exists>n. P n) \<longleftrightarrow> P 0 \<or> (\<exists>n. P (Suc n))"
  by (metis not0_implies_Suc)

lemma walk_chain_decides:
  assumes "\<forall>k \<in> seen. test (h ! k) = None \<and> (next_exc (h ! k) = cur \<or> (\<exists>j \<in> seen. next_exc (h ! k) = Some j))"
  shows "walk_chain test h seen cur \<longleftrightarrow> (\<exists>i n. cur = Some i \<and> decided_at test h i n)"
  using assms
proof (induction test h seen cur rule: walk_chain.induct)
  case (2 test h seen i)
  show ?case
  proof (cases "i \<in> seen")
    case True
    then have "\<forall>k \<in> seen. next_exc (h ! k) = None \<or> (\<exists>j \<in> seen. next_exc (h ! k) = Some j)" using 2(2) by metis
    then have "test (h ! j) = None" if "chain_at h i n = Some j" for j n
      using chain_in_closed[OF _ True that] 2(2) by blast
    then show ?thesis using True by (auto simp: decided_at_def)
  next
    case new: False
    show ?thesis
    proof (cases "i < length h \<and> test (h ! i) = None")
      case True
      then have "walk_chain test h (insert i seen) (next_exc (h ! i)) \<longleftrightarrow> (\<exists>j n. next_exc (h ! i) = Some j \<and> decided_at test h j n)"
        using 2(1)[OF _ _] new 2(2) by fastforce
      with True new show ?thesis by (subst ex_nat_0_Suc) (auto simp: decided_at_0 decided_at_Suc)
    next
      case False
      with new show ?thesis by (subst ex_nat_0_Suc) (auto simp: decided_at_0 decided_at_Suc split: option.splits)
    qed
  qed
qed simp

section \<open>Shared targets are as strict as each alias\<close>

text \<open>
  What a merge keeps of the arguments it starts from, and what arguments promise to an alias: the
  hostname is checked if the alias asks for it, the certificate requirement is at least its own,
  and every other TLS option it sets has its value.
\<close>

definition rank_of :: "(string, pyval) pydict \<Rightarrow> nat option" where
  "rank_of kwargs = (case cert_reqs_rank (option_or_none kwargs ''ssl_cert_reqs'') of Inr r \<Rightarrow> r | Inl _ \<Rightarrow> None)"

definition tls_keeps :: "(string, pyval) pydict \<Rightarrow> (string, pyval) pydict \<Rightarrow> bool" where
  "tls_keeps m m' \<longleftrightarrow>
     (dict_get m ''ssl_check_hostname'' = Some (PBool True) \<longrightarrow> dict_get m' ''ssl_check_hostname'' = Some (PBool True)) \<and>
     (\<forall>r. rank_of m = Some r \<longrightarrow> (\<exists>r'. rank_of m' = Some r' \<and> r \<le> r')) \<and>
     (\<forall>k \<in> set other_keys. tls_option_set (option_or_none m k) \<longrightarrow> dict_get m' k = dict_get m k)"

definition tls_honours :: "(string, pyval) pydict \<Rightarrow> (string, pyval) pydict \<Rightarrow> bool" where
  "tls_honours m mine \<longleftrightarrow>
     (dict_get mine ''ssl_check_hostname'' = Some (PBool True) \<longrightarrow> dict_get m ''ssl_check_hostname'' = Some (PBool True)) \<and>
     (\<forall>r. rank_of mine = Some r \<longrightarrow> (\<exists>r'. rank_of m = Some r' \<and> r \<le> r')) \<and>
     (\<forall>k \<in> set other_keys. \<forall>v. dict_get mine k = Some v \<and> tls_option_set v \<longrightarrow>
        (\<exists>v'. dict_get m k = Some v' \<and> tls_option_set v' \<and> (v' = v \<or> py_eq v' v)))"

lemma tls_honours_refl: "tls_honours m m"
  by (auto simp: tls_honours_def)

lemma tls_honours_kept:
  assumes "tls_honours m mine" "tls_keeps m m'"
  shows "tls_honours m' mine"
  unfolding tls_honours_def
proof (intro conjI allI impI ballI)
  show "dict_get mine ''ssl_check_hostname'' = Some (PBool True) \<Longrightarrow> dict_get m' ''ssl_check_hostname'' = Some (PBool True)"
    using assms by (simp add: tls_honours_def tls_keeps_def)
  show "\<exists>r'. rank_of m' = Some r' \<and> r \<le> r'" if "rank_of mine = Some r" for r
    using assms that unfolding tls_honours_def tls_keeps_def by (meson order_trans)
  show "\<exists>v'. dict_get m' k = Some v' \<and> tls_option_set v' \<and> (v' = v \<or> py_eq v' v)"
    if kv: "k \<in> set other_keys" "dict_get mine k = Some v \<and> tls_option_set v" for k v
  proof -
    from assms(1) kv obtain v' where v': "dict_get m k = Some v'" "tls_option_set v'" "v' = v \<or> py_eq v' v"
      unfolding tls_honours_def by blast
    moreover have "dict_get m' k = dict_get m k"
      using assms(2) kv(1) v' by (simp add: tls_keeps_def option_or_none_def)
    ultimately show ?thesis by auto
  qed
qed

lemma other_keys_not: "''ssl_check_hostname'' \<notin> set other_keys" "''ssl_cert_reqs'' \<notin> set other_keys" "distinct other_keys"
  by (simp_all add: other_keys_def tls_option_keys_def)

lemma not_set_none: "\<not> tls_option_set PNone"
  by (simp add: tls_option_set_def)

lemma option_or_none_set [simp]: "option_or_none (dict_set k v d) k' = (if k' = k then v else option_or_none d k')"
  by (simp add: option_or_none_def)

lemma merge_keys_kept:
  assumes "merge_keys ks incoming m = Inr m'"
  shows "k \<notin> set ks \<Longrightarrow> dict_get m' k = dict_get m k" "tls_option_set (option_or_none m k) \<Longrightarrow> dict_get m' k = dict_get m k"
  using assms
  by (induction ks incoming m rule: merge_keys.induct) (auto split: option.splits if_splits)

lemma merge_keys_honours:
  assumes "merge_keys ks incoming m = Inr m'" "k \<in> set ks" "dict_get incoming k = Some v" "tls_option_set v"
  shows "\<exists>v'. dict_get m' k = Some v' \<and> tls_option_set v' \<and> (v' = v \<or> py_eq v' v)"
  using assms
proof (induction ks incoming m rule: merge_keys.induct)
  case (2 key rest incoming m)
  show ?case
  proof (cases "k = key")
    case True
    show ?thesis
    proof (cases "tls_option_set (option_or_none m key)")
      case set: True
      with 2(5-8) True have "merge_keys rest incoming m = Inr m'" "py_eq (option_or_none m key) v" by (auto split: if_splits)
      with merge_keys_kept(2)[OF this(1), of key] set True show ?thesis
        by (auto simp: option_or_none_def not_set_none split: option.splits)
    next
      case False
      with 2(5-8) True have "merge_keys rest incoming (dict_set key v m) = Inr m'" by (auto split: if_splits)
      from merge_keys_kept(2)[OF this, of key] True 2(8) show ?thesis by (simp add: option_or_none_def)
    qed
  next
    case False
    with 2 show ?thesis by (auto split: option.splits if_splits)
  qed
qed simp

lemma stricter_cert_reqs_rank:
  assumes "stricter_cert_reqs current incoming = Inr v"
  obtains rc ri rv where "cert_reqs_rank current = Inr rc" "cert_reqs_rank incoming = Inr ri" "cert_reqs_rank v = Inr rv"
    "\<And>r. rc = Some r \<or> ri = Some r \<Longrightarrow> \<exists>r'. rv = Some r' \<and> r \<le> r'" "v = PNone \<longrightarrow> current = PNone"
proof -
  obtain rc ri where r: "cert_reqs_rank current = Inr rc" "cert_reqs_rank incoming = Inr ri"
    using assms by (auto simp: stricter_cert_reqs_def bindR_Inr_iff)
  have none: "cert_reqs_rank PNone = Inr None" by (simp add: cert_reqs_rank_def)
  show thesis
  proof (cases "v = incoming \<and> (\<exists>i. ri = Some i \<and> (\<forall>c. rc = Some c \<longrightarrow> c < i))")
    case True
    then show thesis using r none by (intro that[OF r(1) r(2), of ri]) auto
  next
    case False
    with assms r have "v = current" "\<forall>i. ri = Some i \<longrightarrow> (\<exists>c. rc = Some c \<and> i \<le> c)"
      by (auto simp: stricter_cert_reqs_def split: option.splits if_splits)
    then show thesis using r by (intro that[OF r(1) r(2), of rc]) auto
  qed
qed

lemma stricter_keeps:
  assumes "stricter_tls_client_kwargs c i = Inr m'"
  shows "tls_keeps c m' \<and> tls_honours m' i"
proof -
  let ?m1 = "merge_check_hostname i c"
  obtain reqs where reqs: "stricter_cert_reqs (option_or_none ?m1 ''ssl_cert_reqs'') (option_or_none i ''ssl_cert_reqs'') = Inr reqs"
    and merge: "merge_keys other_keys i (if reqs \<noteq> PNone then dict_set ''ssl_cert_reqs'' reqs ?m1 else ?m1) = Inr m'" (is "merge_keys _ _ ?m2 = _")
    using assms by (auto simp: stricter_tls_client_kwargs_def Let_def bindR_Inr_iff)
  note kept = merge_keys_kept[OF merge]
  have m1: "k \<noteq> ''ssl_check_hostname'' \<Longrightarrow> dict_get ?m1 k = dict_get c k" for k
    by (simp add: merge_check_hostname_def)
  have host: "dict_get m' ''ssl_check_hostname'' = dict_get ?m1 ''ssl_check_hostname''" using kept(1) other_keys_not by simp
  have hosts: "dict_get c ''ssl_check_hostname'' = Some (PBool True) \<or> dict_get i ''ssl_check_hostname'' = Some (PBool True) \<Longrightarrow>
      dict_get ?m1 ''ssl_check_hostname'' = Some (PBool True)"
    by (auto simp: merge_check_hostname_def dest: dict_get_dkeys)
  obtain rc ri rv where rank: "cert_reqs_rank (option_or_none c ''ssl_cert_reqs'') = Inr rc" "cert_reqs_rank (option_or_none i ''ssl_cert_reqs'') = Inr ri"
    "cert_reqs_rank reqs = Inr rv" "\<And>r. rc = Some r \<or> ri = Some r \<Longrightarrow> \<exists>r'. rv = Some r' \<and> r \<le> r'"
    "reqs = PNone \<longrightarrow> option_or_none c ''ssl_cert_reqs'' = PNone"
    using stricter_cert_reqs_rank[OF reqs] m1 by (auto simp: option_or_none_def)
  have "option_or_none m' ''ssl_cert_reqs'' = reqs"
    using kept(1)[OF other_keys_not(2)] rank(5) m1 by (auto simp: option_or_none_def)
  then have ranks: "rank_of m' = rv" "rank_of c = rc" "rank_of i = ri" using rank by (simp_all add: rank_of_def)
  have others: "dict_get m' k = dict_get c k" if "k \<in> set other_keys" "tls_option_set (option_or_none c k)" for k
  proof -
    have "k \<noteq> ''ssl_check_hostname''" "k \<noteq> ''ssl_cert_reqs''" using that(1) other_keys_not by auto
    then have "dict_get ?m2 k = dict_get c k" using m1 by simp
    then show ?thesis using that(2) kept(2)[of k] by (simp add: option_or_none_def)
  qed
  show ?thesis
    using host hosts rank(4) ranks others merge_keys_honours[OF merge]
    unfolding tls_keeps_def tls_honours_def by simp
qed

text \<open>The aliases of a target, in the order of the settings.\<close>

definition aliases_of :: "target_env \<Rightarrow> (string \<times> (string, pyval) pydict) list \<Rightarrow> target_key \<Rightarrow> string list" where
  "aliases_of E settings key = map fst (filter (\<lambda>(name, options). alias_target E options = Inr (Some key)) settings)"

definition served :: "target_env \<Rightarrow> (target_key, (string, pyval) pydict) pydict \<Rightarrow> (string, pyval) pydict \<Rightarrow> bool" where
  "served E kwargs options \<longleftrightarrow>
     (\<forall>key. alias_target E options = Inr (Some key) \<longrightarrow>
       (\<exists>m mine. dict_get kwargs key = Some m \<and> client_kwargs E (snd key) options = Inr mine \<and> tls_honours m mine))"

definition grouping_inv :: "target_env \<Rightarrow> (string \<times> (string, pyval) pydict) list \<Rightarrow> grouping \<Rightarrow> bool" where
  "grouping_inv E settings g \<longleftrightarrow>
     distinct (gp_order g) \<and> set (gp_order g) = dkeys (gp_grouped g) \<and> dkeys (gp_kwargs g) = dkeys (gp_grouped g) \<and>
     (\<forall>key. (case dict_get (gp_grouped g) key of Some names \<Rightarrow> names | None \<Rightarrow> []) = aliases_of E settings key) \<and>
     (\<forall>key. key \<in> dkeys (gp_grouped g) \<longleftrightarrow> aliases_of E settings key \<noteq> []) \<and>
     (\<forall>setting \<in> set settings. served E (gp_kwargs g) (snd setting))"

lemma served_kept:
  assumes "served E kwargs options" "\<And>k m. dict_get kwargs k = Some m \<Longrightarrow> \<exists>m'. dict_get kwargs' k = Some m' \<and> (m' = m \<or> tls_keeps m m')"
  shows "served E kwargs' options"
  unfolding served_def
proof (intro allI impI)
  fix key
  assume "alias_target E options = Inr (Some key)"
  with assms(1) obtain m mine where m: "dict_get kwargs key = Some m" "client_kwargs E (snd key) options = Inr mine" "tls_honours m mine"
    unfolding served_def by blast
  with assms(2)[OF m(1)] show "\<exists>m mine. dict_get kwargs' key = Some m \<and> client_kwargs E (snd key) options = Inr mine \<and> tls_honours m mine"
    using tls_honours_kept by blast
qed

lemma add_alias_step:
  assumes "add_alias E (name, options) g = Inr g'" "alias_target E options = Inr (Some key)" "dkeys (gp_kwargs g) = dkeys (gp_grouped g)"
  shows "\<exists>m mine. client_kwargs E (snd key) options = Inr mine \<and> tls_honours m mine \<and>
    (\<forall>c. dict_get (gp_kwargs g) key = Some c \<longrightarrow> tls_keeps c m) \<and> gp_kwargs g' = dict_set key m (gp_kwargs g) \<and>
    gp_grouped g' = dict_set key ((case dict_get (gp_grouped g) key of Some names \<Rightarrow> names | None \<Rightarrow> []) @ [name]) (gp_grouped g) \<and>
    gp_order g' = (if key \<in> dkeys (gp_grouped g) then gp_order g else gp_order g @ [key])"
proof -
  obtain mine where mine: "client_kwargs E (snd key) options = Inr mine"
    using assms(1,2) by (auto simp: add_alias_def Let_def split: sum.splits)
  show ?thesis
  proof (cases "key \<in> dkeys (gp_grouped g)")
    case False
    with assms mine show ?thesis
      by (intro exI[of _ mine]) (auto simp: add_alias_def Let_def tls_honours_refl dest: dict_get_dkeys)
  next
    case True
    then obtain c where c: "dict_get (gp_kwargs g) key = Some c" using assms(3) by (auto elim: dict_get_keysE)
    with assms mine True obtain m where "stricter_tls_client_kwargs c mine = Inr m" "gp_kwargs g' = dict_set key m (gp_kwargs g)"
      by (auto simp: add_alias_def merged_kwargs_def as_command_def Let_def split: sum.splits pyerror.splits)
    note m = this
    have "gp_grouped g' = dict_set key ((case dict_get (gp_grouped g) key of Some names \<Rightarrow> names | None \<Rightarrow> []) @ [name]) (gp_grouped g)"
      "gp_order g' = gp_order g"
      using assms mine True c m(1) by (auto simp: add_alias_def merged_kwargs_def as_command_def Let_def)
    then show ?thesis
      using mine True c m stricter_keeps[OF m(1)] by (metis option.inject)
  qed
qed

lemma add_alias_inv:
  assumes inv: "grouping_inv E settings g" and step: "add_alias E (name, options) g = Inr g'"
  shows "grouping_inv E (settings @ [(name, options)]) g'"
proof (cases "alias_target E options")
  case (Inr t)
  show ?thesis
  proof (cases t)
    case None
    with assms Inr show ?thesis by (auto simp: add_alias_def grouping_inv_def aliases_of_def served_def)
  next
    case (Some key)
    have dom: "dkeys (gp_kwargs g) = dkeys (gp_grouped g)" using inv by (simp add: grouping_inv_def)
    obtain m mine where st: "client_kwargs E (snd key) options = Inr mine" "tls_honours m mine"
      "\<And>c. dict_get (gp_kwargs g) key = Some c \<Longrightarrow> tls_keeps c m" "gp_kwargs g' = dict_set key m (gp_kwargs g)"
      "gp_grouped g' = dict_set key ((case dict_get (gp_grouped g) key of Some names \<Rightarrow> names | None \<Rightarrow> []) @ [name]) (gp_grouped g)"
      "gp_order g' = (if key \<in> dkeys (gp_grouped g) then gp_order g else gp_order g @ [key])"
      using add_alias_step[OF step _ dom, of key] Inr Some by blast
    have al: "aliases_of E (settings @ [(name, options)]) k = aliases_of E settings k @ (if k = key then [name] else [])" for k
      using Inr Some by (simp add: aliases_of_def)
    have old: "served E (gp_kwargs g') (snd setting)" if "setting \<in> set settings" for setting
    proof (rule served_kept)
      show "served E (gp_kwargs g) (snd setting)" using inv that unfolding grouping_inv_def by blast
      show "\<exists>m'. dict_get (gp_kwargs g') k = Some m' \<and> (m' = c \<or> tls_keeps c m')" if "dict_get (gp_kwargs g) k = Some c" for k c
        using that st(3) by (cases "k = key") (simp_all add: st(4))
    qed
    have new: "served E (gp_kwargs g') options" using st(1,2,4) Inr Some by (simp add: served_def)
    have names: "(case dict_get (gp_grouped g') k of Some names \<Rightarrow> names | None \<Rightarrow> []) = aliases_of E (settings @ [(name, options)]) k" for k
    proof -
      have "(case dict_get (gp_grouped g) k of Some names \<Rightarrow> names | None \<Rightarrow> []) = aliases_of E settings k" for k
        using inv unfolding grouping_inv_def by blast
      from this[of k] this[of key] show ?thesis by (simp add: al st(5))
    qed
    have ord: "distinct (gp_order g)" "set (gp_order g) = dkeys (gp_grouped g)" "\<And>k. k \<in> dkeys (gp_grouped g) \<longleftrightarrow> aliases_of E settings k \<noteq> []"
      using inv unfolding grouping_inv_def by blast+
    have "distinct (gp_order g')" "set (gp_order g') = dkeys (gp_grouped g')" using ord(1,2) by (auto simp: st(5,6))
    moreover have "dkeys (gp_kwargs g') = dkeys (gp_grouped g')" using dom by (simp add: st(4,5))
    moreover have "k \<in> dkeys (gp_grouped g') \<longleftrightarrow> aliases_of E (settings @ [(name, options)]) k \<noteq> []" for k
      using ord(3)[of k] by (simp add: st(5) al)
    ultimately show ?thesis using old new names by (simp add: grouping_inv_def)
  qed
qed (use assms in \<open>simp add: add_alias_def\<close>)

lemma group_aliases_inv:
  "grouping_inv E done g \<Longrightarrow> group_aliases E settings g = Inr g' \<Longrightarrow> grouping_inv E (done @ settings) g'"
proof (induction settings arbitrary: "done" g)
  case (Cons setting rest)
  then obtain h where "add_alias E setting g = Inr h" "group_aliases E rest h = Inr g'" by (auto split: sum.splits)
  with Cons.IH[of "done @ [setting]" h] add_alias_inv[of E "done" g "fst setting" "snd setting" h] Cons.prems(1) show ?case by simp
qed simp

section \<open>The guarantees of targets\<close>

lemma target_of_key [simp]: "(ft_topology (target_of g key), ft_url (target_of g key)) = key"
  by (simp add: target_of_def)

text \<open>
  C36. The targets are the distinct pairs of topology and location of the Redis aliases. Each has
  exactly its aliases, in the order of the settings, and each of these gets what it asks for: the
  arguments of the target check the hostname if the alias asks for it, demand at least its
  certificate requirement, and agree with every other TLS option it sets.
\<close>

theorem shared_target_serves_each_alias:
  assumes "resolve_redis_targets E settings None None = Inr targets"
  shows "distinct (map (\<lambda>t. (ft_topology t, ft_url t)) targets) \<and>
    (\<forall>t \<in> set targets. ft_aliases t = aliases_of E settings (ft_topology t, ft_url t) \<and> ft_aliases t \<noteq> []) \<and>
    (\<forall>setting \<in> set settings. \<forall>key. alias_target E (snd setting) = Inr (Some key) \<longrightarrow>
      (\<exists>t \<in> set targets. \<exists>mine. (ft_topology t, ft_url t) = key \<and> fst setting \<in> set (ft_aliases t) \<and>
         client_kwargs E (snd key) (snd setting) = Inr mine \<and> tls_honours (ft_client_kwargs t) mine))"
proof -
  obtain g where "group_aliases E settings \<lparr>gp_grouped = [], gp_remaps = [], gp_kwargs = [], gp_order = []\<rparr> = Inr g"
    and targets: "targets = map (target_of g) (gp_order g)"
    using assms by (auto simp: resolve_redis_targets_def split: sum.splits)
  from group_aliases_inv[OF _ this(1), of "[]"] have inv: "grouping_inv E settings g"
    by (simp add: grouping_inv_def aliases_of_def)
  have ord: "distinct (gp_order g)" "set (gp_order g) = dkeys (gp_grouped g)"
    and names: "\<And>key. ft_aliases (target_of g key) = aliases_of E settings key"
    and members: "\<And>key. key \<in> dkeys (gp_grouped g) \<longleftrightarrow> aliases_of E settings key \<noteq> []"
    and served: "\<And>setting. setting \<in> set settings \<Longrightarrow> served E (gp_kwargs g) (snd setting)"
    using inv unfolding grouping_inv_def target_of_def by auto
  have "\<exists>t \<in> set targets. \<exists>mine. (ft_topology t, ft_url t) = key \<and> fst setting \<in> set (ft_aliases t) \<and>
      client_kwargs E (snd key) (snd setting) = Inr mine \<and> tls_honours (ft_client_kwargs t) mine"
    if st: "setting \<in> set settings" "alias_target E (snd setting) = Inr (Some key)" for setting key
  proof -
    obtain m mine where m: "dict_get (gp_kwargs g) key = Some m" "client_kwargs E (snd key) (snd setting) = Inr mine" "tls_honours m mine"
      using served[OF st(1)] st(2) unfolding served_def by blast
    have "fst setting \<in> set (aliases_of E settings key)" using st by (force simp: aliases_of_def)
    with members[of key] names[of key] ord(2) m show ?thesis
      unfolding targets by (intro bexI[of _ "target_of g key"] exI[of _ mine]) (auto simp: target_of_def)
  qed
  moreover have "\<forall>t \<in> set targets. ft_aliases t = aliases_of E settings (ft_topology t, ft_url t) \<and> ft_aliases t \<noteq> []"
    using ord(2) names members by (auto simp: targets)
  moreover have "distinct (map (\<lambda>t. (ft_topology t, ft_url t)) targets)" using ord(1) by (simp add: targets comp_def)
  ultimately show ?thesis by blast
qed

text \<open>
  C40. The search for a TLS failure always ends, also on a cyclic chain, and answers yes exactly if
  some exception of the chain of causes is one and every exception before it neither is one nor
  reports a refused login or a loading server. The search for an unreachable endpoint is the same.
\<close>

theorem tls_failures_found_in_chain:
  "(is_tls_failure h i \<longleftrightarrow> (\<exists>n. decided_at tls_test h i n)) \<and>
   (is_tls_reachability_failure h i \<longleftrightarrow> (\<exists>n. decided_at reachability_test h i n))"
  unfolding is_tls_failure_def is_tls_reachability_failure_def
  using walk_chain_decides[of "{}" _ h "Some i"] by (simp del: walk_chain.simps)

section \<open>Two aliases of one cluster\<close>

definition sample_target_env :: target_env where
  "sample_target_env =
     \<lparr>te_import = (\<lambda>path. Some \<lparr>bc_provider_kind = PStr ''redis'', bc_topology = PStr ''cluster''\<rparr>), te_callable = (\<lambda>_. False),
      te_netloc_ok = (\<lambda>_. True), te_parse_url = (\<lambda>_. Some [])\<rparr>"

abbreviation seed_url :: string where
  "seed_url \<equiv> ''rediss://seed.example:6379/0''"

abbreviation cluster_alias :: "(string, pyval) pydict \<Rightarrow> (string, pyval) pydict" where
  "cluster_alias tls \<equiv> [(''BACKEND'', PStr ''queues.ClusterQueue''), (''LOCATION'', PStr seed_url)] @ tls"

lemma seed_url_scheme: "\<exists>p. urlsplit (\<lambda>_. True) seed_url = Inr p \<and> lower (sr_scheme p) = ''rediss''"
  by (simp add: urlsplit_def url_clean_def split_scheme_def partition_at_def scheme_ok_def scheme_char_def is_alpha_def is_digit_def
      split_netloc_def netloc_char_def Let_def ascii_lower_def)

lemma dict_update_nil: "distinct (keys d) \<Longrightarrow> dict_update [] d = d"
  using fold_dict_set_distinct[of "[]" d] by (simp add: dict_update_def case_prod_beta')

lemma sample_target: "alias_target sample_target_env (cluster_alias tls) = Inr (Some (''cluster'', seed_url))"
  by (simp add: alias_target_def option_or_none_def sample_target_env_def target_topology_def)

lemma sample_kwargs:
  assumes "tls_keys_of (cluster_alias tls) = tls" "''ssl'' \<notin> dkeys tls" "distinct (keys tls)"
  shows "client_kwargs sample_target_env seed_url (cluster_alias tls) = Inr tls"
proof -
  obtain p where p: "urlsplit (\<lambda>_. True) seed_url = Inr p" "lower (sr_scheme p) = ''rediss''" using seed_url_scheme by blast
  have "dict_get tls ''ssl'' = None" using assms(2) dict_get_None by metis
  then have "option_or_none tls ''ssl'' = PNone" by (simp only: option_or_none_def option.case)
  moreover have "dict_pop ''ssl'' tls = tls" using assms(2) by (simp add: delete_idem dkeys_def)
  moreover have "url_tls_keys (te_parse_url sample_target_env) seed_url = []"
    by (simp add: url_tls_keys_def sample_target_env_def tls_keys_of_def)
  moreover have "te_netloc_ok sample_target_env = (\<lambda>_. True)" by (simp add: sample_target_env_def)
  ultimately show ?thesis
    using assms p dict_update_nil[of tls]
    by (simp only: client_kwargs_def redis_client_kwargs_def as_command_def bindR_simps Let_def) (simp add: ssl_explicitly_disabled_def)
qed

definition first_tls :: "(string, pyval) pydict" where
  "first_tls = [(''ssl_cert_reqs'', PStr ''none''), (''ssl_check_hostname'', PBool False)]"

definition second_tls :: "(string, pyval) pydict" where
  "second_tls = [(''ssl_ca_certs'', PStr ''/tls/ca.pem''), (''ssl_cert_reqs'', PStr ''required''), (''ssl_check_hostname'', PBool True)]"

lemma sample_tls:
  "client_kwargs sample_target_env seed_url (cluster_alias first_tls) = Inr first_tls"
  "client_kwargs sample_target_env seed_url (cluster_alias second_tls) = Inr second_tls"
  "client_kwargs sample_target_env seed_url (cluster_alias []) = Inr []"
  by (rule sample_kwargs; simp add: first_tls_def second_tls_def tls_keys_of_def tls_option_keys_def dkeys_def)+

definition two_aliases :: "(string, pyval) pydict \<Rightarrow> (string, pyval) pydict \<Rightarrow> (string, (string, pyval) pydict) pydict" where
  "two_aliases tls tls' = [(''first'', cluster_alias tls), (''second'', cluster_alias tls')]"

lemma two_aliases_target:
  assumes "client_kwargs sample_target_env seed_url (cluster_alias tls) = Inr tls"
    "client_kwargs sample_target_env seed_url (cluster_alias tls') = Inr tls'" "stricter_tls_client_kwargs tls tls' = Inr m"
  shows "\<exists>remap. resolve_redis_targets sample_target_env (two_aliases tls tls') None None =
    Inr [\<lparr>ft_url = seed_url, ft_topology = ''cluster'', ft_aliases = [''first'', ''second''], ft_address_remap = remap, ft_client_kwargs = m\<rparr>]"
  using assms sample_target[of tls] sample_target[of tls']
  by (simp add: resolve_redis_targets_def two_aliases_def add_alias_def merged_kwargs_def as_command_def target_of_def dkeys_def Let_def)

definition merged_tls :: "(string, pyval) pydict" where
  "merged_tls = [(''ssl_cert_reqs'', PStr ''required''), (''ssl_check_hostname'', PBool True), (''ssl_ca_certs'', PStr ''/tls/ca.pem'')]"

lemma sample_merge: "stricter_tls_client_kwargs first_tls second_tls = Inr merged_tls"
  by (simp add: stricter_tls_client_kwargs_def merge_check_hostname_def stricter_cert_reqs_def cert_reqs_rank_def option_or_none_def
      first_tls_def second_tls_def merged_tls_def other_keys_def tls_option_keys_def tls_option_set_def ascii_lower_def Let_def)

theorem shared_target_serves_each_alias_witness:
  "(\<exists>t. resolve_redis_targets sample_target_env (two_aliases first_tls second_tls) None None = Inr [t] \<and> ft_client_kwargs t = merged_tls) \<and>
   tls_honours merged_tls first_tls"
proof -
  obtain t where t: "resolve_redis_targets sample_target_env (two_aliases first_tls second_tls) None None = Inr [t]" "ft_client_kwargs t = merged_tls"
    using two_aliases_target[OF sample_tls(1,2) sample_merge] by force
  have "(''first'', cluster_alias first_tls) \<in> set (two_aliases first_tls second_tls)" by (simp add: two_aliases_def)
  from shared_target_serves_each_alias[OF t(1), THEN conjunct2, THEN conjunct2, rule_format, OF this] sample_target[of first_tls]
  have "\<exists>mine. client_kwargs sample_target_env seed_url (cluster_alias first_tls) = Inr mine \<and> tls_honours (ft_client_kwargs t) mine"
    by simp
  with t sample_tls(1) show ?thesis by simp
qed

text \<open>
  An alias that leaves verification at its documented default, certificates required, shares its
  target with one that switches verification off: the merged arguments switch it off for both.
\<close>

lemma default_verification_lost:
  "stricter_tls_client_kwargs [] first_tls = Inr [(''ssl_check_hostname'', PBool False), (''ssl_cert_reqs'', PStr ''none'')] \<and>
   stricter_tls_client_kwargs first_tls [] = Inr first_tls"
  by (simp add: stricter_tls_client_kwargs_def merge_check_hostname_def stricter_cert_reqs_def cert_reqs_rank_def option_or_none_def
      first_tls_def other_keys_def tls_option_keys_def ascii_lower_def dkeys_def Let_def)

lemma default_verification_lost_target:
  "\<exists>t. resolve_redis_targets sample_target_env (two_aliases [] first_tls) None None = Inr [t] \<and>
     ft_aliases t = [''first'', ''second''] \<and> dict_get (ft_client_kwargs t) ''ssl_cert_reqs'' = Some (PStr ''none'')"
  using two_aliases_target[OF sample_tls(3,1)] default_verification_lost by (fastforce simp: first_tls_def)

end
