(* ===== verification/Deploy_Commands.thy ===== *)
theory Deploy_Commands
  imports Redis_Targets
begin

text \<open>
  The commands \<^verbatim>\<open>redis_lua_lib\<close> and \<^verbatim>\<open>redis_lua_compat\<close> over all their targets. Servers are known by
  name, and the state of the world is what each of them holds: its deployment locks and its installed
  function library. Opening a client, discovering a cluster and the faults of single calls are the
  environment; a fault is an exception in the store of \<^verbatim>\<open>transport.py\<close>'s model. Output is left out.
\<close>

section \<open>Servers and clients\<close>

record server_node =
  sn_locks :: "(string, string) pydict"
  sn_library :: "string option"

type_synonym world = "string \<Rightarrow> server_node"

text \<open>
  The exception a call raises, if it does: one per call the commands make. A call that raises may
  have been carried out by the server all the same, its reply being lost; for the calls that change
  the server this is told by the flag beside the exception.
\<close>

record call_faults =
  cf_set :: "(nat \<times> bool) option"
  cf_list :: "nat option"
  cf_load :: "(nat \<times> bool) option"
  cf_eval :: "(nat \<times> bool) option"

text \<open>
  The node ids a cluster reports: the first words of the lines of a text, or the keys of a mapping and
  the names inside it, as far as they have forty hexadecimal digits. Line ends and blanks are those of ASCII; \<open>utf8\<close> decodes
  bytes.
\<close>

definition line_end :: "char \<Rightarrow> bool" where
  "line_end c \<longleftrightarrow> (10 :: nat) \<le> of_char c \<and> of_char c \<le> (13 :: nat) \<or> (28 :: nat) \<le> of_char c \<and> of_char c \<le> (30 :: nat)"

fun text_lines :: "string \<Rightarrow> string \<Rightarrow> string list" where
  "text_lines acc [] = (if acc = [] then [] else [rev acc])"
| "text_lines acc (c # s) = (if line_end c then rev acc # text_lines [] s else text_lines (c # acc) s)"

definition first_word :: "string \<Rightarrow> string" where
  "first_word line = takeWhile (\<lambda>c. \<not> is_space c) (dropWhile is_space line)"

definition is_node_id :: "string \<Rightarrow> bool" where
  "is_node_id s \<longleftrightarrow> length s = 40 \<and> list_all (\<lambda>c. hex_digit c \<noteq> None) s"

definition node_candidates :: "reply \<times> reply \<Rightarrow> reply list" where
  "node_candidates kv =
     fst kv # (case snd kv of
         RMap detail \<Rightarrow> map (\<lambda>field. case dict_get detail field of Some v \<Rightarrow> v | None \<Rightarrow> RNone)
           [RStr ''node_id'', RStr ''id'', RStr ''name'', RBytes ''node_id'', RBytes ''id'', RBytes ''name'']
       | _ \<Rightarrow> [])"

definition candidate_text :: "reply \<Rightarrow> string option" where
  "candidate_text v = (case v of RStr s \<Rightarrow> Some s | RBytes b \<Rightarrow> if ascii b then Some b else None | _ \<Rightarrow> None)"

definition text_node_ids :: "string \<Rightarrow> string set" where
  "text_node_ids s = lower ` set (filter is_node_id (map first_word (text_lines [] s)))"

definition parse_cluster_node_ids :: "(string \<Rightarrow> string option) \<Rightarrow> reply \<Rightarrow> string set" where
  "parse_cluster_node_ids utf8 nodes =
     (case nodes of
        RStr s \<Rightarrow> text_node_ids s
      | RBytes b \<Rightarrow> (case utf8 b of None \<Rightarrow> {} | Some s \<Rightarrow> text_node_ids s)
      | RMap kvs \<Rightarrow> lower ` set (filter is_node_id (List.map_filter candidate_text (concat (map node_candidates kvs))))
      | _ \<Rightarrow> {})"

text \<open>
  A discovered cluster: the owners of the slots, the primaries with the server each is reached at
  (after the address remapping), and the reply to \<^verbatim>\<open>CLUSTER NODES\<close>, unless asking failed.
\<close>

record cluster_view =
  cv_slots_cache :: "(int, cluster_node list) pydict"
  cv_primaries :: "(cluster_node \<times> string) list"
  cv_nodes :: "reply option"

record deploy_env =
  dv_netloc_ok :: "string \<Rightarrow> bool"
  dv_store :: "exc list"
  dv_open :: "string \<Rightarrow> (string, pyval) pydict \<Rightarrow> nat + string"
  dv_open_cluster :: "string \<Rightarrow> (string, pyval) pydict \<Rightarrow> nat + cluster_view"
  dv_faults :: "string \<Rightarrow> call_faults"
  dv_token :: string
  dv_key_slot :: "string \<Rightarrow> int"
  dv_info :: "string \<Rightarrow> server_node \<Rightarrow> nat + reply"
  dv_utf8 :: "string \<Rightarrow> string option"

text \<open>What a call to a client ends with: an exception of the client, or the result of the command.\<close>

type_synonym 'a client_result = "nat + 'a command"

definition as_redis_error :: "deploy_env \<Rightarrow> string \<Rightarrow> 'a client_result \<Rightarrow> 'a command" where
  "as_redis_error D url r =
     (case r of Inl exc \<Rightarrow> raise_redis_command_error (dv_netloc_ok D) (dv_store D) exc url | Inr c \<Rightarrow> c)"

section \<open>One client\<close>

text \<open>The lease: taken if the lock is free, and given back with the token whatever happens under it.\<close>

definition release_lock :: "string \<Rightarrow> string \<Rightarrow> server_node \<Rightarrow> server_node" where
  "release_lock lock_key token n =
     (if dict_get (sn_locks n) lock_key = Some token then n\<lparr>sn_locks := dict_pop lock_key (sn_locks n)\<rparr> else n)"

definition deployment_lease ::
    "call_faults \<Rightarrow> string \<Rightarrow> string \<Rightarrow> (server_node \<Rightarrow> unit client_result \<times> server_node) \<Rightarrow>
     server_node \<Rightarrow> unit client_result \<times> server_node" where
  "deployment_lease faults lock_key token body n =
     (case cf_set faults of
        Some (exc, carried_out) \<Rightarrow>
          (Inl exc, if carried_out \<and> lock_key \<notin> dkeys (sn_locks n) then n\<lparr>sn_locks := dict_set lock_key token (sn_locks n)\<rparr> else n)
      | None \<Rightarrow>
          if lock_key \<in> dkeys (sn_locks n) then (Inr (Inl CommandFailed), n)
          else
            (case body (n\<lparr>sn_locks := dict_set lock_key token (sn_locks n)\<rparr>) of
               (r, n') \<Rightarrow>
                 (case cf_eval faults of
                    Some (exc, carried_out) \<Rightarrow> (Inl exc, if carried_out then release_lock lock_key token n' else n')
                  | None \<Rightarrow> (r, release_lock lock_key token n'))))"

definition deploy_installed :: "call_faults \<Rightarrow> function_library \<Rightarrow> bool \<Rightarrow> server_node \<Rightarrow> unit client_result \<times> server_node" where
  "deploy_installed faults library rollback n =
     (case cf_list faults of
        Some exc \<Rightarrow> (Inl exc, n)
      | None \<Rightarrow>
          (case installed_info (sn_library n) of
             Inl err \<Rightarrow> (Inr (Inl err), n)
           | Inr info \<Rightarrow>
               (case deploy_decision library rollback info of
                  Refuse \<Rightarrow> (Inr (Inl CommandFailed), n)
                | UpToDate \<Rightarrow> (Inr (Inr ()), n)
                | Load \<Rightarrow>
                    (case cf_load faults of
                       Some (exc, carried_out) \<Rightarrow> (Inl exc, if carried_out then n\<lparr>sn_library := Some (fl_source library)\<rparr> else n)
                     | None \<Rightarrow> (Inr (Inr ()), n\<lparr>sn_library := Some (fl_source library)\<rparr>)))))"

definition process_client ::
    "deploy_env \<Rightarrow> function_library \<Rightarrow> bool \<Rightarrow> bool \<Rightarrow> string command \<Rightarrow> string \<Rightarrow> world \<Rightarrow> unit client_result \<times> world" where
  "process_client D library deploy rollback lock_key server w =
     (let faults = dv_faults D server in
      case lock_key of
        Inl err \<Rightarrow> (Inr (Inl err), w)
      | Inr key \<Rightarrow>
          if deploy then
            (case deployment_lease faults key (dv_token D) (deploy_installed faults library rollback) (w server) of
               (r, n) \<Rightarrow> (r, w(server := n)))
          else
            (case cf_list faults of
               Some exc \<Rightarrow> (Inl exc, w)
             | None \<Rightarrow> (Inr (check_installed library (sn_library (w server))), w)))"

section \<open>The targets\<close>

definition open_standalone :: "deploy_env \<Rightarrow> RedisFunctionTarget \<Rightarrow> string command" where
  "open_standalone D target =
     (case redis_from_url_location (dv_netloc_ok D) (ft_url target) of
        Inl ValueError \<Rightarrow> raise_redis_command_error (dv_netloc_ok D) (dv_store D) (length (dv_store D)) (ft_url target)
      | Inl err \<Rightarrow> Inl (Uncaught err)
      | Inr location \<Rightarrow>
          (case dv_open D location (ft_client_kwargs target) of
             Inl exc \<Rightarrow> raise_redis_command_error (dv_netloc_ok D) (dv_store D) exc (ft_url target)
           | Inr server \<Rightarrow> Inr server))"

definition open_cluster :: "deploy_env \<Rightarrow> RedisFunctionTarget \<Rightarrow> cluster_view command" where
  "open_cluster D target =
     (case redis_from_url_location (dv_netloc_ok D) (ft_url target) of
        Inl ValueError \<Rightarrow> raise_redis_command_error (dv_netloc_ok D) (dv_store D) (length (dv_store D)) (ft_url target)
      | Inl err \<Rightarrow> Inl (Uncaught err)
      | Inr location \<Rightarrow>
          (case dv_open_cluster D location (cluster_from_url_kwargs target) of
             Inl exc \<Rightarrow> raise_redis_command_error (dv_netloc_ok D) (dv_store D) exc (ft_url target)
           | Inr view \<Rightarrow> Inr view))"

text \<open>
  Both commands visit their servers in this way: \<open>visit lock_key server\<close> is what is done with the
  client of one server, with the deployment lock key the server is given.
\<close>

fun visit_primaries ::
    "deploy_env \<Rightarrow> string \<Rightarrow> (string command \<Rightarrow> string \<Rightarrow> world \<Rightarrow> unit client_result \<times> world) \<Rightarrow> cluster_view \<Rightarrow>
     (cluster_node \<times> string) list \<Rightarrow> world \<Rightarrow> unit command \<times> world" where
  "visit_primaries D url visit view [] w = (Inr (), w)"
| "visit_primaries D url visit view ((n, server) # rest) w =
     (case visit (deployment_lock_key (dv_key_slot D) (cv_slots_cache view) n) server w of
        (r, w') \<Rightarrow>
          (case as_redis_error D url r of
             Inl err \<Rightarrow> (Inl err, w')
           | Inr _ \<Rightarrow> visit_primaries D url visit view rest w'))"

definition visit_target ::
    "deploy_env \<Rightarrow> (string command \<Rightarrow> string \<Rightarrow> world \<Rightarrow> unit client_result \<times> world) \<Rightarrow> RedisFunctionTarget \<Rightarrow>
     world \<Rightarrow> unit command \<times> world" where
  "visit_target D visit target w =
     (if ft_topology target = ''cluster'' then
        (case open_cluster D target of
           Inl err \<Rightarrow> (Inl err, w)
         | Inr view \<Rightarrow>
             (case visit_primaries D (ft_url target) visit view (cv_primaries view) w of
                (Inl err, w') \<Rightarrow> (Inl err, w')
              | (Inr _, w') \<Rightarrow> (if cv_primaries view = [] then Inl CommandFailed else Inr (), w')))
      else if ft_topology target = ''standalone'' then
        (case open_standalone D target of
           Inl err \<Rightarrow> (Inl err, w)
         | Inr server \<Rightarrow> (case visit (Inr default_lock_key) server w of (r, w') \<Rightarrow> (as_redis_error D (ft_url target) r, w')))
      else (Inl CommandFailed, w))"

fun visit_targets ::
    "deploy_env \<Rightarrow> (string command \<Rightarrow> string \<Rightarrow> world \<Rightarrow> unit client_result \<times> world) \<Rightarrow> RedisFunctionTarget list \<Rightarrow>
     world \<Rightarrow> unit command \<times> world" where
  "visit_targets D visit [] w = (Inr (), w)"
| "visit_targets D visit (target # rest) w =
     (case visit_target D visit target w of
        (Inl err, w') \<Rightarrow> (Inl err, w')
      | (Inr _, w') \<Rightarrow> visit_targets D visit rest w')"

text \<open>The warnings about seeds of one cluster; redacting a URL for a warning may raise.\<close>

definition cluster_identities :: "deploy_env \<Rightarrow> RedisFunctionTarget list \<Rightarrow> (string \<times> string set) list" where
  "cluster_identities D targets =
     concat (map (\<lambda>target. case open_cluster D target of
         Inr view \<Rightarrow> (case cv_nodes view of Some nodes \<Rightarrow> [(ft_url target, parse_cluster_node_ids (dv_utf8 D) nodes)] | None \<Rightarrow> [])
       | Inl _ \<Rightarrow> []) (filter (\<lambda>target. ft_topology target = ''cluster'') targets))"

definition finish_targets :: "deploy_env \<Rightarrow> RedisFunctionTarget list \<Rightarrow> unit command" where
  "finish_targets D targets =
     (case find (\<lambda>r. case r of Inl _ \<Rightarrow> True | Inr _ \<Rightarrow> False)
         (concat (warn_duplicate_cluster_seeds (dv_netloc_ok D) (cluster_identities D targets))) of
        Some (Inl err) \<Rightarrow> Inl (Uncaught err)
      | _ \<Rightarrow> Inr ())"

definition visit_all_targets ::
    "deploy_env \<Rightarrow> (string command \<Rightarrow> string \<Rightarrow> world \<Rightarrow> unit client_result \<times> world) \<Rightarrow> RedisFunctionTarget list \<Rightarrow>
     world \<Rightarrow> unit command \<times> world" where
  "visit_all_targets D visit targets w =
     (if targets = [] then (Inl CommandFailed, w)
      else (case visit_targets D visit targets w of
          (Inl err, w') \<Rightarrow> (Inl err, w')
        | (Inr _, w') \<Rightarrow> (finish_targets D targets, w')))"

section \<open>The commands\<close>

definition handle_lib ::
    "deploy_env \<Rightarrow> target_env \<Rightarrow> function_library option \<Rightarrow> bool \<Rightarrow> bool \<Rightarrow> (string, (string, pyval) pydict) pydict \<Rightarrow>
     string option \<Rightarrow> string option \<Rightarrow> world \<Rightarrow> unit command \<times> world" where
  "handle_lib D E bundled deploy rollback settings redis_url redis_cluster_url w =
     (if rollback \<and> \<not> deploy then (Inl CommandFailed, w)
      else
        let queue_settings = (if redis_url \<noteq> None \<or> redis_cluster_url \<noteq> None then [] else settings) in
        case resolve_redis_targets E queue_settings redis_url redis_cluster_url of
          Inl err \<Rightarrow> (Inl err, w)
        | Inr targets \<Rightarrow>
            (case bundled of
               None \<Rightarrow> (Inl (if targets = [] then CommandFailed else Uncaught RuntimeError), w)
             | Some library \<Rightarrow> visit_all_targets D (process_client D library deploy rollback) targets w))"

definition compat_client :: "deploy_env \<Rightarrow> int \<Rightarrow> string command \<Rightarrow> string \<Rightarrow> world \<Rightarrow> unit client_result \<times> world" where
  "compat_client D required _ server w =
     (case dv_info D server (w server) of
        Inl exc \<Rightarrow> (Inl exc, w)
      | Inr result \<Rightarrow> (Inr (report_compatibility required result), w))"

definition handle_compat ::
    "deploy_env \<Rightarrow> target_env \<Rightarrow> int \<Rightarrow> (string, (string, pyval) pydict) pydict \<Rightarrow> string option \<Rightarrow> string option \<Rightarrow>
     world \<Rightarrow> unit command \<times> world" where
  "handle_compat D E required settings redis_url redis_cluster_url w =
     (let queue_settings = (if redis_url \<noteq> None \<or> redis_cluster_url \<noteq> None then [] else settings) in
      case resolve_redis_targets E queue_settings redis_url redis_cluster_url of
        Inl err \<Rightarrow> (Inl err, w)
      | Inr targets \<Rightarrow> visit_all_targets D (compat_client D required) targets w)"

section \<open>What a visit of every server achieves\<close>

text \<open>The servers a target stands for: every one is visited when the command succeeds.\<close>

definition servers_of :: "deploy_env \<Rightarrow> RedisFunctionTarget \<Rightarrow> string list" where
  "servers_of D target =
     (if ft_topology target = ''cluster'' then
        (case open_cluster D target of Inr view \<Rightarrow> map snd (cv_primaries view) | Inl _ \<Rightarrow> [])
      else (case open_standalone D target of Inr server \<Rightarrow> [server] | Inl _ \<Rightarrow> []))"

lemma as_redis_error_Inr: "as_redis_error D url r = Inr x \<longleftrightarrow> r = Inr (Inr x)"
  by (auto simp: as_redis_error_def raise_redis_command_error_def split: sum.splits)

text \<open>
  What the commands rely on of a visit: no visit, successful or not, spoils a server that is good;
  and, for the second locale, on success it leaves its server good.
\<close>

locale server_step =
  fixes visit :: "string command \<Rightarrow> string \<Rightarrow> world \<Rightarrow> unit client_result \<times> world"
    and good :: "string \<Rightarrow> server_node \<Rightarrow> bool"
  assumes stays_good: "visit k x w = (r, w') \<Longrightarrow> good y (w y) \<Longrightarrow> good y (w' y)"
begin

lemma primaries_stay_good:
  "visit_primaries D url visit view ps w = (r, w') \<Longrightarrow> good y (w y) \<Longrightarrow> good y (w' y)"
proof (induction ps arbitrary: w)
  case (Cons p ps)
  obtain n x where p: "p = (n, x)" by (cases p)
  obtain q u where v: "visit (deployment_lock_key (dv_key_slot D) (cv_slots_cache view) n) x w = (q, u)" by (metis surj_pair)
  have "good y (u y)" using stays_good[OF v Cons.prems(2)] .
  then show ?case using Cons.prems(1) Cons.IH[of u] v p by (auto split: sum.splits)
qed simp

lemma target_stays_good:
  assumes "visit_target D visit target w = (r, w')" "good y (w y)"
  shows "good y (w' y)"
proof -
  have "visit_primaries D (ft_url target) visit view (cv_primaries view) w = (q, u) \<Longrightarrow> good y (u y)" for view q u
    using primaries_stay_good assms(2) by blast
  moreover have "visit k x w = (q, u) \<Longrightarrow> good y (u y)" for k x q u using stays_good assms(2) by blast
  ultimately show ?thesis
    using assms by (auto simp: visit_target_def split: sum.splits prod.splits if_splits)
qed

lemma targets_stay_good: "visit_targets D visit targets w = (r, w') \<Longrightarrow> good y (w y) \<Longrightarrow> good y (w' y)"
proof (induction targets arbitrary: w)
  case (Cons target targets)
  obtain q u where v: "visit_target D visit target w = (q, u)" by (metis surj_pair)
  with Cons target_stays_good[OF v Cons.prems(2)] show ?case by (auto split: sum.splits)
qed simp

lemma all_targets_stay_good: "visit_all_targets D visit targets w = (r, w') \<Longrightarrow> good y (w y) \<Longrightarrow> good y (w' y)"
  using targets_stay_good by (auto simp: visit_all_targets_def split: if_splits sum.splits prod.splits)

end

locale server_visit = server_step +
  assumes visited: "visit k x w = (Inr (Inr ()), w') \<Longrightarrow> good x (w' x)"
begin

lemma primaries_good:
  "visit_primaries D url visit view ps w = (Inr (), w') \<Longrightarrow> y \<in> snd ` set ps \<Longrightarrow> good y (w' y)"
proof (induction ps arbitrary: w)
  case (Cons p ps)
  obtain n x where p: "p = (n, x)" by (cases p)
  let ?k = "deployment_lock_key (dv_key_slot D) (cv_slots_cache view) n"
  obtain q u where v: "visit ?k x w = (q, u)" by (metis surj_pair)
  have run: "as_redis_error D url q = Inr ()" "visit_primaries D url visit view ps u = (Inr (), w')"
    using Cons.prems(1) v p by (auto split: sum.splits)
  then have "good x (u x)" using visited[of ?k x w u] v by (simp add: as_redis_error_Inr)
  then show ?case using Cons.prems(2) Cons.IH[OF run(2)] primaries_stay_good[OF run(2)] p by auto
qed simp

lemma target_good:
  assumes "visit_target D visit target w = (Inr (), w')"
  shows "servers_of D target \<noteq> [] \<and> (\<forall>y \<in> set (servers_of D target). good y (w' y))"
proof (cases "ft_topology target = ''cluster''")
  case True
  then obtain view where "open_cluster D target = Inr view" "visit_primaries D (ft_url target) visit view (cv_primaries view) w = (Inr (), w')"
    "cv_primaries view \<noteq> []"
    using assms by (auto simp: visit_target_def split: sum.splits prod.splits if_splits)
  then show ?thesis using True primaries_good by (auto simp: servers_of_def)
next
  case False
  then obtain x where x: "open_standalone D target = Inr x" "visit (Inr default_lock_key) x w = (Inr (Inr ()), w')"
    using assms by (auto simp: visit_target_def as_redis_error_Inr split: sum.splits prod.splits if_splits)
  then show ?thesis using False visited[OF x(2)] by (simp add: servers_of_def)
qed

lemma targets_good:
  "visit_targets D visit targets w = (Inr (), w') \<Longrightarrow> target \<in> set targets \<Longrightarrow>
     servers_of D target \<noteq> [] \<and> (\<forall>y \<in> set (servers_of D target). good y (w' y))"
proof (induction targets arbitrary: w)
  case (Cons t targets)
  then obtain u where u: "visit_target D visit t w = (Inr (), u)" "visit_targets D visit targets u = (Inr (), w')"
    by (auto split: sum.splits prod.splits)
  show ?case using Cons.prems(2) Cons.IH[OF u(2)] target_good[OF u(1)] targets_stay_good[OF u(2)] by auto
qed simp

lemma all_targets_good:
  assumes "visit_all_targets D visit targets w = (Inr (), w')"
  shows "targets \<noteq> [] \<and> (\<forall>target \<in> set targets. servers_of D target \<noteq> [] \<and> (\<forall>y \<in> set (servers_of D target). good y (w' y)))"
  using assms targets_good by (auto simp: visit_all_targets_def split: if_splits sum.splits prod.splits)

end

section \<open>Visits of the commands\<close>

text \<open>A library whose source says of itself what the record says of it, as a loaded one does.\<close>

definition sound_library :: "function_library \<Rightarrow> bool" where
  "sound_library library \<longleftrightarrow>
     installed_info (Some (fl_source library)) = Inr (Some (fl_library_version library, fl_api_version library))"

definition carries :: "function_library \<Rightarrow> string \<Rightarrow> server_node \<Rightarrow> bool" where
  "carries library x n \<longleftrightarrow>
     (sound_library library \<longrightarrow> installed_info (sn_library n) = Inr (Some (fl_library_version library, fl_api_version library)))"

lemma deploy_installed_cases:
  assumes "deploy_installed faults library rollback n = (r, n')"
  shows "sn_locks n' = sn_locks n" "carries library x n \<Longrightarrow> carries library x n'" "r = Inr (Inr ()) \<Longrightarrow> carries library x n'"
  using assms
  by (auto simp: deploy_installed_def carries_def sound_library_def deploy_decision_def split: option.splits sum.splits decision.splits if_splits)

lemma carries_locks [simp]: "carries library x (n\<lparr>sn_locks := l\<rparr>) = carries library x n"
  by (simp add: carries_def)

lemma release_lock_carries [simp]: "carries library x (release_lock k t n) = carries library x n"
  by (simp add: release_lock_def)

lemma lease_carries:
  assumes "deployment_lease faults key token (deploy_installed faults library rollback) n = (r, n')"
  shows "carries library x n \<Longrightarrow> carries library x n'" "r = Inr (Inr ()) \<Longrightarrow> carries library x n'"
proof -
  let ?m = "n\<lparr>sn_locks := dict_set key token (sn_locks n)\<rparr>"
  obtain q u where b: "deploy_installed faults library rollback ?m = (q, u)" by (metis surj_pair)
  note body = deploy_installed_cases[OF b]
  show "carries library x n'" if "carries library x n"
    using assms b that body(2)[of x] by (auto simp: deployment_lease_def split: option.splits if_splits)
  show "carries library x n'" if "r = Inr (Inr ())"
    using assms b that body(3)[of x] by (auto simp: deployment_lease_def split: option.splits if_splits)
qed

interpretation deploying: server_visit "process_client D library True rollback" "carries library" for D library rollback
proof
  fix k x w r w' y
  assume "process_client D library True rollback k x w = (r, w')" "carries library y (w y)"
  then show "carries library y (w' y)"
    by (auto simp: process_client_def Let_def dest: lease_carries(1) split: sum.splits prod.splits)
next
  fix k x w w'
  assume "process_client D library True rollback k x w = (Inr (Inr ()), w')"
  then show "carries library x (w' x)"
    by (auto simp: process_client_def Let_def dest: lease_carries(2) split: sum.splits prod.splits)
qed

interpretation verifying: server_visit "process_client D library False rollback" "\<lambda>x n. check_installed library (sn_library n) = Inr ()"
  for D library rollback
  by unfold_locales (auto simp: process_client_def Let_def split: sum.splits option.splits)

interpretation compatible: server_visit "compat_client D required"
  "\<lambda>x n. \<exists>reply. dv_info D x n = Inr reply \<and> report_compatibility required reply = Inr ()" for D required
  by unfold_locales (auto simp: compat_client_def split: sum.splits)

text \<open>
  The lock of a deployment is given back, however the deployment ended, unless the lock was set
  and the reply to that was lost, or the command that releases it did not get to the server.
\<close>

definition lock_stranded :: "call_faults \<Rightarrow> bool" where
  "lock_stranded faults \<longleftrightarrow> (\<exists>exc. cf_set faults = Some (exc, True)) \<or> (\<exists>exc. cf_eval faults = Some (exc, False))"

definition locks_as :: "(string \<Rightarrow> call_faults) \<Rightarrow> world \<Rightarrow> string \<Rightarrow> server_node \<Rightarrow> bool" where
  "locks_as faults w0 x n \<longleftrightarrow> (\<not> lock_stranded (faults x) \<longrightarrow> sn_locks n = sn_locks (w0 x))"

lemma lease_locks:
  assumes "deployment_lease faults key token (deploy_installed faults library rollback) n = (r, n')" "\<not> lock_stranded faults"
  shows "sn_locks n' = sn_locks n"
proof -
  let ?m = "n\<lparr>sn_locks := dict_set key token (sn_locks n)\<rparr>"
  obtain q u where b: "deploy_installed faults library rollback ?m = (q, u)" by (metis surj_pair)
  have "dict_pop key (dict_set key token (sn_locks n)) = sn_locks n" if "key \<notin> dkeys (sn_locks n)"
    using that by (simp add: delete_update_same delete_idem dkeys_def)
  with assms b deploy_installed_cases(1)[OF b] show ?thesis
    by (auto simp: deployment_lease_def release_lock_def lock_stranded_def split: option.splits if_splits)
qed

interpretation unlocking: server_step "process_client D library deploy rollback" "locks_as (dv_faults D) w0" for D library deploy rollback w0
proof
  fix k x w r w' y
  assume "process_client D library deploy rollback k x w = (r, w')" "locks_as (dv_faults D) w0 y (w y)"
  then show "locks_as (dv_faults D) w0 y (w' y)"
    by (auto simp: process_client_def Let_def locks_as_def dest: lease_locks split: sum.splits prod.splits option.splits if_splits)
qed

section \<open>The guarantees of the commands\<close>

text \<open>
  C37. When the deployment command succeeds, every server of every target it resolved from the settings
  or from an override, each primary of a cluster included, carries the bundled library, whatever the
  servers carried before and however targets share servers. Whether it succeeds or not, it leaves no
  deployment lock behind, unless a server set the lock and its reply was lost, or the command
  that releases the lock failed to reach it.
\<close>

theorem deployment_reaches_every_server:
  assumes "handle_lib D E (Some library) True rollback settings redis_url redis_cluster_url w = (r, w')"
  shows "(r = Inr () \<and> sound_library library \<longrightarrow>
      (\<exists>targets. resolve_redis_targets E (if redis_url \<noteq> None \<or> redis_cluster_url \<noteq> None then [] else settings) redis_url redis_cluster_url
           = Inr targets \<and> targets \<noteq> [] \<and>
         (\<forall>target \<in> set targets. servers_of D target \<noteq> [] \<and>
           (\<forall>x \<in> set (servers_of D target).
              installed_info (sn_library (w' x)) = Inr (Some (fl_library_version library, fl_api_version library)))))) \<and>
    (\<forall>x. \<not> lock_stranded (dv_faults D x) \<longrightarrow> sn_locks (w' x) = sn_locks (w x))"
proof (cases "resolve_redis_targets E (if redis_url \<noteq> None \<or> redis_cluster_url \<noteq> None then [] else settings) redis_url redis_cluster_url")
  case (Inl err)
  with assms show ?thesis by (auto simp: handle_lib_def)
next
  case (Inr targets)
  then have run: "visit_all_targets D (process_client D library True rollback) targets w = (r, w')"
    using assms by (simp add: handle_lib_def)
  have "locks_as (dv_faults D) w x (w' x)" for x
    using unlocking.all_targets_stay_good[OF run, of w x] by (simp add: locks_as_def)
  moreover have "targets \<noteq> [] \<and> (\<forall>target \<in> set targets. servers_of D target \<noteq> [] \<and> (\<forall>x \<in> set (servers_of D target). carries library x (w' x)))"
    if "r = Inr ()" using deploying.all_targets_good run that by simp
  ultimately show ?thesis using Inr by (auto simp: locks_as_def carries_def)
qed

text \<open>A successful check without deployment, and a successful compatibility check, speak for every server too.\<close>

lemma check_speaks_for_every_server:
  assumes "handle_lib D E (Some library) False False settings redis_url redis_cluster_url w = (Inr (), w')"
  shows "\<exists>targets. resolve_redis_targets E (if redis_url \<noteq> None \<or> redis_cluster_url \<noteq> None then [] else settings) redis_url redis_cluster_url
      = Inr targets \<and> targets \<noteq> [] \<and>
    (\<forall>target \<in> set targets. servers_of D target \<noteq> [] \<and>
      (\<forall>x \<in> set (servers_of D target). check_installed library (sn_library (w' x)) = Inr ()))"
  using assms verifying.all_targets_good[where w = w and w' = w']
  by (auto simp: handle_lib_def Let_def split: sum.splits)

lemma compatibility_speaks_for_every_server:
  assumes "handle_compat D E required settings redis_url redis_cluster_url w = (Inr (), w')"
  shows "\<exists>targets. resolve_redis_targets E (if redis_url \<noteq> None \<or> redis_cluster_url \<noteq> None then [] else settings) redis_url redis_cluster_url
      = Inr targets \<and> targets \<noteq> [] \<and>
    (\<forall>target \<in> set targets. servers_of D target \<noteq> [] \<and>
      (\<forall>x \<in> set (servers_of D target). \<exists>reply. dv_info D x (w' x) = Inr reply \<and> report_compatibility required reply = Inr ()))"
  using assms compatible.all_targets_good[where w = w and w' = w']
  by (auto simp: handle_compat_def Let_def split: sum.splits)

text \<open>Every id is forty lower-case hexadecimal digits, so seeds of one cluster are recognised whatever case they report.\<close>

lemma hex_digit_ascii: "hex_digit c \<noteq> None \<Longrightarrow> of_char c < (128 :: nat)"
  by (auto simp: hex_digit_def Let_def split: if_splits)

lemma lower_node_id: "is_node_id s \<Longrightarrow> length (lower s) = 40"
  using lower_ascii[of s] hex_digit_ascii by (auto simp: is_node_id_def list_all_iff)

lemma node_ids_length: "x \<in> parse_cluster_node_ids utf8 nodes \<Longrightarrow> length x = 40"
  by (auto simp: parse_cluster_node_ids_def text_node_ids_def lower_node_id split: reply.splits option.splits)

section \<open>A cluster of two primaries\<close>

definition sample_view :: cluster_view where
  "sample_view =
     \<lparr>cv_slots_cache = [],
      cv_primaries = [(\<lparr>cn_identity = 1, cn_name = None, cn_host = ''a'', cn_port = 6379\<rparr>, ''a''),
        (\<lparr>cn_identity = 2, cn_name = None, cn_host = ''b'', cn_port = 6379\<rparr>, ''b'')],
      cv_nodes = None\<rparr>"

definition sample_deploy_env :: deploy_env where
  "sample_deploy_env =
     \<lparr>dv_netloc_ok = (\<lambda>_. True), dv_store = [], dv_open = (\<lambda>_ _. Inr ''a''), dv_open_cluster = (\<lambda>_ _. Inr sample_view),
      dv_faults = (\<lambda>_. \<lparr>cf_set = None, cf_list = None, cf_load = None, cf_eval = None\<rparr>), dv_token = ''token'', dv_key_slot = (\<lambda>_. 0),
      dv_info = (\<lambda>_ _. Inr RNone), dv_utf8 = Some\<rparr>"

definition sample_bundle :: function_library where
  "sample_bundle = \<lparr>fl_source = bundled_head, fl_library_version = ''260827_204500'', fl_api_version = 1\<rparr>"

definition sample_servers :: world where
  "sample_servers = (\<lambda>_. \<lparr>sn_locks = [], sn_library = None\<rparr>)"

lemma sample_bundle_sound: "sound_library sample_bundle"
  using bundled_installed[of "[]"] by (simp add: sound_library_def sample_bundle_def)

lemma seed_location: "redis_from_url_location (\<lambda>_. True) seed_url = Inr seed_url"
  by (simp add: redis_from_url_location_def urlsplit_def url_clean_def split_scheme_def partition_at_def scheme_ok_def scheme_char_def
      is_alpha_def is_digit_def split_netloc_def netloc_char_def Let_def ascii_lower_def)

lemma sample_process:
  "process_client sample_deploy_env sample_bundle True False (Inr default_lock_key) x w = (Inr (Inr ()), w(x := \<lparr>sn_locks = [], sn_library = Some bundled_head\<rparr>))"
  if "w x = \<lparr>sn_locks = [], sn_library = None\<rparr>"
  using that by (simp add: process_client_def sample_deploy_env_def deployment_lease_def deploy_installed_def installed_info_def function_list_def
      deploy_decision_def release_lock_def sample_bundle_def Let_def)

lemma sample_opened: "ft_url target = seed_url \<Longrightarrow> open_cluster sample_deploy_env target = Inr sample_view"
  using seed_location by (simp add: open_cluster_def sample_deploy_env_def)

lemma sample_run:
  "\<exists>w'. handle_lib sample_deploy_env sample_target_env (Some sample_bundle) True False (two_aliases first_tls second_tls) None None sample_servers = (Inr (), w')"
proof -
  obtain remap where t: "resolve_redis_targets sample_target_env (two_aliases first_tls second_tls) None None =
    Inr [\<lparr>ft_url = seed_url, ft_topology = ''cluster'', ft_aliases = [''first'', ''second''], ft_address_remap = remap, ft_client_kwargs = merged_tls\<rparr>]"
    (is "_ = Inr [?t]") using two_aliases_target[OF sample_tls(1,2) sample_merge] by blast
  have key: "deployment_lock_key k [] n = Inr default_lock_key" for k n by (simp add: deployment_lock_key_def)
  have "cluster_identities sample_deploy_env [?t] = []" by (simp add: cluster_identities_def sample_opened) (simp add: sample_view_def)
  then have fin: "finish_targets sample_deploy_env [?t] = Inr ()" by (simp add: finish_targets_def warn_duplicate_cluster_seeds_def)
  have "\<exists>w'. visit_target sample_deploy_env (process_client sample_deploy_env sample_bundle True False) ?t sample_servers = (Inr (), w')"
    by (simp add: visit_target_def sample_opened) (simp add: sample_view_def key sample_process sample_servers_def as_redis_error_def)
  with fin t show ?thesis by (auto simp: handle_lib_def visit_all_targets_def)
qed

theorem deployment_reaches_every_server_witness:
  "\<exists>w'. handle_lib sample_deploy_env sample_target_env (Some sample_bundle) True False (two_aliases first_tls second_tls) None None sample_servers = (Inr (), w') \<and>
     sn_locks (w' ''a'') = [] \<and> installed_info (sn_library (w' ''b'')) = Inr (Some (''260827_204500'', 1))"
proof -
  obtain w' where run: "handle_lib sample_deploy_env sample_target_env (Some sample_bundle) True False (two_aliases first_tls second_tls) None None sample_servers = (Inr (), w')"
    using sample_run by blast
  obtain t where t: "resolve_redis_targets sample_target_env (two_aliases first_tls second_tls) None None = Inr [t]" "ft_url t = seed_url" "ft_topology t = ''cluster''"
    using two_aliases_target[OF sample_tls(1,2) sample_merge] by force
  have "set (servers_of sample_deploy_env t) = {''a'', ''b''}" by (simp add: servers_of_def t(2,3) sample_opened) (simp add: sample_view_def)
  with deployment_reaches_every_server[OF run] sample_bundle_sound t(1) run show ?thesis
    by (auto simp: sample_servers_def sample_deploy_env_def sample_bundle_def lock_stranded_def)
qed

end
