(* ===== verification/Run_Queues.thy ===== *)
theory Run_Queues
  imports Queue_Registry Function_Deployment
begin

text \<open>
  The \<^verbatim>\<open>runqueues\<close> command: from the settings to the workers it starts, and the supervision of the
  running workers. A handler is known by its name and by what the command asks of it. The loop of
  the supervision is woken by what \<^verbatim>\<open>asyncio.wait\<close> reports: a shutdown request, an outside
  cancellation, or the workers that have ended. Queues are known by their identity.
\<close>

section \<open>Creating the workers\<close>

record handler_object =
  ho_name :: string
  ho_callable :: bool
  ho_async :: bool

record WorkerActivation =
  wa_alias :: string
  wa_queue :: configured_queue
  wa_handler :: handler_object

record command_env =
  ce_import :: "string \<Rightarrow> cfg_value option"
  ce_backend :: "string \<Rightarrow> queue_class option"
  ce_construct :: "cfg_value \<Rightarrow> (string, cfg_value) pydict \<Rightarrow> unit result"
  ce_handler :: "string \<Rightarrow> handler_object option"

definition load_handler :: "command_env \<Rightarrow> cfg_value \<Rightarrow> handler_object command" where
  "load_handler E handler_path =
     (case handler_path of
        CfgVal (PStr path) \<Rightarrow>
          if path = [] then Inl CommandFailed
          else (case ce_handler E path of
              None \<Rightarrow> Inl CommandFailed
            | Some h \<Rightarrow> if \<not> ho_callable h \<or> \<not> ho_async h then Inl CommandFailed else Inr h)
      | _ \<Rightarrow> Inl CommandFailed)"

fun activate_each ::
    "command_env \<Rightarrow> (string \<times> (string, cfg_value) pydict) list \<Rightarrow> (string, configured_queue) pydict \<Rightarrow>
     WorkerActivation list command \<times> (string, configured_queue) pydict" where
  "activate_each E [] table = (Inr [], table)"
| "activate_each E ((name, options) # rest) table =
     (case dict_get options ''HANDLER'' of
        None \<Rightarrow> activate_each E rest table
      | Some handler_path \<Rightarrow>
          (case create_connection (ce_import E) (ce_backend E) (ce_construct E) name options table of
             (Inl err, table') \<Rightarrow> (as_command (Inl err), table')
           | (Inr q, table') \<Rightarrow>
               (case load_handler E handler_path of
                  Inl err \<Rightarrow> (Inl err, table')
                | Inr h \<Rightarrow>
                    (case activate_each E rest table' of
                       (Inl err, table'') \<Rightarrow> (Inl err, table'')
                     | (Inr activations, table'') \<Rightarrow>
                         (Inr (\<lparr>wa_alias = name, wa_queue = q, wa_handler = h\<rparr> # activations), table'')))))"

fun resolve_each :: "command_env \<Rightarrow> WorkerActivation list \<Rightarrow> unit command" where
  "resolve_each E [] = Inr ()"
| "resolve_each E (a # rest) =
     (case resolve_worker (ce_import E) (required_worker_base (qc_kind (cq_class (wa_queue a)))) (wa_queue a) of
        Inl err \<Rightarrow> as_command (Inl err)
      | Inr _ \<Rightarrow> resolve_each E rest)"

definition create_workers ::
    "command_env \<Rightarrow> (string, (string, cfg_value) pydict) pydict result \<Rightarrow> (string, configured_queue) pydict \<Rightarrow>
     WorkerActivation list command \<times> (string, configured_queue) pydict" where
  "create_workers E settings table =
     (case settings of
        Inl err \<Rightarrow> (as_command (Inl err), table)
      | Inr items \<Rightarrow>
          (case activate_each E items table of
             (Inl err, table') \<Rightarrow> (Inl err, table')
           | (Inr activations, table') \<Rightarrow>
               (case resolve_each E activations of Inl err \<Rightarrow> (Inl err, table') | Inr _ \<Rightarrow> (Inr activations, table'))))"

section \<open>Supervising the workers\<close>

datatype task_end = TaskReturned | TaskRaised pyerror | TaskCancelled

fun task_error :: "task_end \<Rightarrow> pyerror" where
  "task_error TaskCancelled = CancelledError"
| "task_error (TaskRaised err) = err"
| "task_error TaskReturned = RuntimeError"

record supervision =
  sv_tasks :: "(nat, string) pydict"
  sv_logged :: "string list"

datatype wake = ShutdownRequested | CommandCancelled | Completed "nat \<Rightarrow> task_end option"

datatype supervision_end = StillWaiting | LoopEnded | ShutDown | Interrupted | WorkerFailed pyerror

definition done_in_order :: "(nat \<Rightarrow> task_end option) \<Rightarrow> supervision \<Rightarrow> (nat \<times> string \<times> task_end) list" where
  "done_in_order ended s = concat (map (\<lambda>(t, name). case ended t of Some e \<Rightarrow> [(t, name, e)] | None \<Rightarrow> []) (sv_tasks s))"

fun pop_done :: "(nat \<times> string \<times> task_end) list \<Rightarrow> supervision \<Rightarrow> pyerror option \<times> supervision" where
  "pop_done [] s = (None, s)"
| "pop_done ((t, name, e) # rest) s =
     (let s' = s\<lparr>sv_tasks := dict_pop t (sv_tasks s)\<rparr> in
      if sv_tasks s' = [] then (Some (task_error e), s')
      else pop_done rest (s'\<lparr>sv_logged := sv_logged s' @ [name]\<rparr>))"

fun supervise_workers :: "wake list \<Rightarrow> supervision \<Rightarrow> supervision_end \<times> supervision" where
  "supervise_workers [] s = (if sv_tasks s = [] then LoopEnded else StillWaiting, s)"
| "supervise_workers (w # ws) s =
     (if sv_tasks s = [] then (LoopEnded, s)
      else case w of
        ShutdownRequested \<Rightarrow> (ShutDown, s)
      | CommandCancelled \<Rightarrow> (Interrupted, s)
      | Completed ended \<Rightarrow>
          (case pop_done (done_in_order ended s) s of
             (Some err, s') \<Rightarrow> (WorkerFailed err, s')
           | (None, s') \<Rightarrow> supervise_workers ws s'))"

text \<open>The \<^verbatim>\<open>finally\<close> block: the tasks it cancels and awaits, and the queues it closes.\<close>

definition wind_down :: "supervision \<Rightarrow> nat list \<Rightarrow> nat list \<times> nat list" where
  "wind_down s queues = (keys (sv_tasks s), remdups queues)"

definition run_configured_workers :: "WorkerActivation list \<Rightarrow> wake list \<Rightarrow> supervision_end \<times> supervision" where
  "run_configured_workers activations ws =
     supervise_workers ws \<lparr>sv_tasks = enumerate 0 (map wa_alias activations), sv_logged = []\<rparr>"

section \<open>What is started\<close>

text \<open>The command starts one worker for each alias with a handler, in the order of the settings, or none at all.\<close>

lemma load_handler_ok: "load_handler E v = Inr h \<Longrightarrow> ho_callable h \<and> ho_async h"
  by (auto simp: load_handler_def split: cfg_value.splits pyval.splits option.splits if_splits)

lemma activate_each_aliases:
  "activate_each E items table = (Inr activations, table') \<Longrightarrow>
     map wa_alias activations = map fst (filter (\<lambda>(name, options). ''HANDLER'' \<in> dkeys options) items) \<and>
     (\<forall>a \<in> set activations. ho_callable (wa_handler a) \<and> ho_async (wa_handler a))"
proof (induction E items table arbitrary: activations table' rule: activate_each.induct)
  case (2 E name options rest table)
  show ?case
  proof (cases "dict_get options ''HANDLER''")
    case None
    with 2(1)[OF None] 2(3) show ?thesis by simp
  next
    case (Some path)
    then have has: "''HANDLER'' \<in> dkeys options" by (rule dict_get_dkeys)
    obtain q t1 h t2 as where st: "create_connection (ce_import E) (ce_backend E) (ce_construct E) name options table = (Inr q, t1)"
      "load_handler E path = Inr h" "activate_each E rest t1 = (Inr as, t2)" "activations = \<lparr>wa_alias = name, wa_queue = q, wa_handler = h\<rparr> # as"
      using 2(3) Some by (auto split: prod.splits sum.splits)
    from 2(2)[OF Some st(1)[symmetric] refl st(2) st(3)] load_handler_ok[OF st(2)] has st(4) show ?thesis by simp
  qed
qed simp

lemma resolve_each_fits:
  "resolve_each E activations = Inr () \<Longrightarrow> a \<in> set activations \<Longrightarrow>
     \<exists>k. resolve_worker (ce_import E) (required_worker_base (qc_kind (cq_class (wa_queue a)))) (wa_queue a) = Inr k"
  by (induction E activations rule: resolve_each.induct) (auto split: sum.splits)

section \<open>How the supervision ends\<close>

lemma length_dict_pop: "distinct (keys d) \<Longrightarrow> t \<in> dkeys d \<Longrightarrow> Suc (length (dict_pop t d)) = length d"
  by (induction d) (auto simp: dkeys_def delete_idem)

definition accounted :: "supervision \<Rightarrow> nat" where
  "accounted s = length (sv_tasks s) + length (sv_logged s)"

lemma pop_done_spec:
  assumes "distinct (keys (sv_tasks s))" "distinct (map fst ds)" "fst ` set ds \<subseteq> dkeys (sv_tasks s)" "sv_tasks s \<noteq> []"
    "pop_done ds s = (r, s')"
  shows "distinct (keys (sv_tasks s')) \<and> dkeys (sv_tasks s) - fst ` set ds \<subseteq> dkeys (sv_tasks s') \<and> dkeys (sv_tasks s') \<subseteq> dkeys (sv_tasks s) \<and>
    (r = None \<longleftrightarrow> sv_tasks s' \<noteq> []) \<and> accounted s = accounted s' + (if r = None then 0 else 1)"
  using assms
proof (induction ds s arbitrary: r s' rule: pop_done.induct)
  case (2 t name e rest s)
  let ?u = "s\<lparr>sv_tasks := dict_pop t (sv_tasks s)\<rparr>"
  have len: "Suc (length (sv_tasks ?u)) = length (sv_tasks s)" using 2(2,4) length_dict_pop[of "sv_tasks s" t] by simp
  have dist: "distinct (keys (sv_tasks ?u))" using 2(2) by simp
  show ?case
  proof (cases "sv_tasks ?u = []")
    case True
    then have "dkeys (sv_tasks s) \<subseteq> {t}" using dkeys_simps(3)[of t "sv_tasks s"] by auto
    with True 2(6) len show ?thesis by (auto simp: accounted_def Let_def)
  next
    case False
    then have "pop_done rest (?u\<lparr>sv_logged := sv_logged s @ [name]\<rparr>) = (r, s')" using 2(6) by (simp add: Let_def)
    moreover have "fst ` set rest \<subseteq> dkeys (sv_tasks ?u)" "distinct (map fst rest)" using 2(3,4) by auto
    ultimately have IH: "distinct (keys (sv_tasks s'))" "dkeys (sv_tasks ?u) - fst ` set rest \<subseteq> dkeys (sv_tasks s')"
      "dkeys (sv_tasks s') \<subseteq> dkeys (sv_tasks ?u)" "r = None \<longleftrightarrow> sv_tasks s' \<noteq> []"
      "accounted (?u\<lparr>sv_logged := sv_logged s @ [name]\<rparr>) = accounted s' + (if r = None then 0 else 1)"
      using 2(1)[OF refl False, of r s'] dist False by auto
    moreover have "accounted (?u\<lparr>sv_logged := sv_logged s @ [name]\<rparr>) = accounted s" using len by (simp add: accounted_def)
    ultimately show ?thesis by auto
  qed
qed simp

lemma done_ids:
  "map fst (concat (map (\<lambda>(t, name). case ended t of Some e \<Rightarrow> [(t, name, e)] | None \<Rightarrow> []) d)) = filter (\<lambda>t. ended t \<noteq> None) (keys d)"
  by (induction d) (auto split: option.splits)

lemma done_in_order_ids:
  assumes "distinct (keys (sv_tasks s))"
  shows "distinct (map fst (done_in_order ended s))" "fst ` set (done_in_order ended s) = {t \<in> dkeys (sv_tasks s). ended t \<noteq> None}"
proof -
  have "map fst (done_in_order ended s) = filter (\<lambda>t. ended t \<noteq> None) (keys (sv_tasks s))"
    unfolding done_in_order_def by (rule done_ids)
  then show "distinct (map fst (done_in_order ended s))" "fst ` set (done_in_order ended s) = {t \<in> dkeys (sv_tasks s). ended t \<noteq> None}"
    using assms by (auto simp flip: set_map simp: dkeys_def)
qed

text \<open>
  A worker that has not ended stays supervised while others fail. The command ends by itself only
  when the last worker has ended, with that worker's error; every worker that ended before is
  logged, so that none ends unreported, and a shutdown leaves exactly the running ones to cancel.
\<close>

definition never_ends :: "nat \<Rightarrow> wake list \<Rightarrow> bool" where
  "never_ends t ws \<longleftrightarrow> (\<forall>ended. Completed ended \<in> set ws \<longrightarrow> ended t = None)"

lemma supervision_accounts_for_every_worker:
  assumes "distinct (keys (sv_tasks s))" "supervise_workers ws s = (en, s')" "sv_tasks s \<noteq> []"
  shows "(\<forall>t \<in> dkeys (sv_tasks s). never_ends t ws \<longrightarrow> t \<in> dkeys (sv_tasks s')) \<and>
    (sv_tasks s' = [] \<longleftrightarrow> (\<exists>err. en = WorkerFailed err)) \<and>
    accounted s = accounted s' + (if sv_tasks s' = [] then 1 else 0) \<and> fst (wind_down s' queues) = keys (sv_tasks s')"
  using assms
proof (induction ws s arbitrary: s' rule: supervise_workers.induct)
  case (2 w ws s)
  show ?case
  proof (cases w)
    case (Completed ended)
    obtain r u where u: "pop_done (done_in_order ended s) s = (r, u)" by (metis surj_pair)
    note ids = done_in_order_ids[OF 2(2), of ended]
    have sub: "fst ` set (done_in_order ended s) \<subseteq> dkeys (sv_tasks s)" using ids(2) by blast
    note spec = pop_done_spec[OF 2(2) ids(1) sub 2(4) u]
    have stay: "t \<in> dkeys (sv_tasks u)" if "t \<in> dkeys (sv_tasks s)" "never_ends t (w # ws)" for t
    proof -
      have "ended t = None" using that(2) Completed by (simp add: never_ends_def)
      then have "t \<notin> fst ` set (done_in_order ended s)" unfolding ids(2) by simp
      with that(1) spec show ?thesis by blast
    qed
    show ?thesis
    proof (cases r)
      case None
      then have "supervise_workers ws u = (en, s')" using 2(3,4) Completed u by simp
      with 2(1)[OF 2(4) Completed u[symmetric], of s'] None spec
      have IH: "(\<forall>t \<in> dkeys (sv_tasks u). never_ends t ws \<longrightarrow> t \<in> dkeys (sv_tasks s'))"
        "(sv_tasks s' = [] \<longleftrightarrow> (\<exists>err. en = WorkerFailed err))" "accounted u = accounted s' + (if sv_tasks s' = [] then 1 else 0)"
        by auto
      have "never_ends t ws" if "never_ends t (w # ws)" for t using that by (simp add: never_ends_def)
      with IH stay spec None show ?thesis by (simp add: wind_down_def)
    next
      case (Some err)
      with 2(3,4) Completed u have "en = WorkerFailed err" "s' = u" by auto
      with spec Some stay show ?thesis by (auto simp: wind_down_def)
    qed
  qed (use 2 in \<open>auto simp: wind_down_def\<close>)
qed (auto simp: wind_down_def)

end
