(* ===== verification/Spec2Isabelle.thy ===== *)
theory Spec2Isabelle
  imports Memory_Events Memory_Worker Redis_Worker Queue_Startup Event_Worker Raw_Queues Redis_Clients Deploy_Commands Run_Queues
begin

text \<open>
  A verification library of django-queues: persistent work queues, transient events and
  notifications for Django, on an in-process provider or on Redis (\<^verbatim>\<open>src/django_queue\<close>).

  \<^bold>\<open>The program.\<close> An application configures queues by alias. A queue object validates what is
  enqueued, turns it into an entry and stores it through its provider, which keeps either Python
  containers or keys of a Redis server that a Lua function library manipulates atomically. A
  worker takes entries, runs a handler with an execution budget and records the outcome; on Redis
  it claims entries with a lease that it renews, and abandoned claims are recovered. Event workers
  ask listeners whether an event is consumed, notification workers tell every listener. Observers
  of a queue are told every change of an entry. A background runtime runs one task per alias.

  \<^bold>\<open>The theories\<close>, in the order they build on each other:

  \<^item> \<open>DQ_Prelude\<close>: exceptions (\<^verbatim>\<open>backends/exceptions.py\<close>) as one datatype; programs, which return
    a result or an exception and a state in both cases (so what a failing operation has already
    done is visible); Python dictionaries as association lists in insertion order.
  \<^item> \<open>Py_Numbers\<close>, \<open>Py_Values\<close>: IEEE doubles as rationals with rounding to nearest even, Python's
    integers, \<^verbatim>\<open>round\<close>, and the values of the program, with JSON safety and JSON normalisation.
  \<^item> \<open>Queue_Clock\<close> (\<^verbatim>\<open>clock.py\<close>), \<open>Queue_Entries\<close> (\<^verbatim>\<open>entries.py\<close>): instants and their arithmetic,
    the Redis-calibrated clock as a state machine; entries, their lifecycle relation, checks and
    wire form with the round trip.
  \<^item> \<open>Memory_Provider\<close>, \<open>Memory_Events\<close> (\<^verbatim>\<open>backends/memory/provider.py\<close>): the provider record and
    its operations; conservation, exclusive claims and exact lifetimes of events in every
    reachable state, enqueues under way and failed ones included.
  \<^item> \<open>Queue_Base\<close> (\<^verbatim>\<open>backends/base.py\<close>), \<open>Memory_Queue\<close>: the persistent queue over any provider,
    with locales for what a provider promises (\<open>async_provider\<close>), interpreted for
    the in-process queue, stack and priority queue; nothing is lost, lifecycle, service order.
  \<^item> \<open>Py_Heap\<close>, \<open>Memory_Priority\<close>: \<^verbatim>\<open>heapq\<close> over comparisons that may raise, with its order in the locale
    \<open>heap_order\<close>; the heap of waiting entries serves as the sorted list of \<open>Memory_Provider\<close>, and the heap
    of raw values with priorities.
  \<^item> \<open>Raw_Queues\<close> (\<^verbatim>\<open>backends/redis/provider.py\<close>, \<^verbatim>\<open>redisqueuejson.py\<close>, \<^verbatim>\<open>redispqueuejson.py\<close>): values without
    entries on Redis, plain and as JSON, with and without priorities; the contract of raw values as
    locale \<open>raw_queue\<close>, met by the in-process provider, the Redis queue and the JSON queue.
  \<^item> \<open>Redis_Server\<close>, \<open>Redis_Library\<close>, \<open>Redis_Provider\<close> (\<^verbatim>\<open>aliases.py\<close>, \<^verbatim>\<open>backends/redis\<close>): the
    commands of a Redis server as a record with the documented laws as locale \<open>redis_server\<close>,
    every function of the Lua library, and the provider that calls them.
  \<^item> \<open>Redis_Clients\<close> (\<^verbatim>\<open>backends/redis/provider.py\<close>, \<^verbatim>\<open>backends/base.py\<close>): construction of providers and
    queues, standalone and cluster; the clients, clocks and library checks of every event loop, the
    synchronous bridge, snapshots over Pub/Sub, and the receivers with what they open and close.
  \<^item> \<open>Redis_Protocol\<close>, \<open>Redis_Priority\<close>: all interleavings of the scripts of one queue, their
    invariant, the refinement to an abstract machine of leases and the recovery of abandoned
    claims; priority scores packed into doubles refine a list of waiting entries.
  \<^item> \<open>Queue_Worker\<close> (\<^verbatim>\<open>worker.py\<close>), \<open>Memory_Worker\<close>, \<open>Redis_Worker\<close>: the worker over an interface
    of the operations it calls (locales \<open>queue_worker\<close> and \<open>served_queue\<close>), interpreted for both
    backends; recorded outcomes, bookkeeping, lost claims, timely renewal.
  \<^item> \<open>Queue_Registry\<close> (\<^verbatim>\<open>__init__.py\<close>): settings, option resolution, building and sharing queues.
  \<^item> \<open>Queue_Observers\<close>, \<open>Observer_Activation\<close> (\<^verbatim>\<open>observers.py\<close>): observers of one alias in every
    interleaving of registering, publishing and dispatching threads; decorated observers, their
    activation and unsubscribing.
  \<^item> \<open>Queue_Runtime\<close> (\<^verbatim>\<open>queue_runtime.py\<close>): tasks per alias in every interleaving, shutdown,
    restarts with growing pauses.
  \<^item> \<open>Queue_Startup\<close> (\<^verbatim>\<open>apps.py\<close>, \<^verbatim>\<open>__init__.py\<close>): from the settings to a running process over the locale
    \<open>connection_handler\<close> of Django's lookups; every alias that needs a task is scheduled once.
  \<^item> \<open>Event_Worker\<close> (\<^verbatim>\<open>listeners.py\<close>, \<^verbatim>\<open>event_worker.py\<close>, \<^verbatim>\<open>notification_worker.py\<close>, the transient
    queues of \<^verbatim>\<open>backends/base.py\<close>): dispatch to listeners over the locale \<open>event_delivery\<close>,
    interpreted for both backends.
  \<^item> \<open>Function_Deployment\<close> (\<^verbatim>\<open>backends/redis/functions.py\<close>, \<^verbatim>\<open>management\<close>): metadata of the
    function library, its check and its deployment under a lease.
  \<^item> \<open>Py_Text\<close>, \<open>Redis_Transport\<close>, \<open>Redis_Targets\<close> (\<^verbatim>\<open>backends/redis/transport.py\<close>,
    \<^verbatim>\<open>management/redis_functions.py\<close>): text, URLs with the round trip of splitting and joining and of
    encoding queries, client arguments, redaction; TLS failures in chains of exceptions, merging of
    TLS options, the targets of the settings, lock keys and arguments of cluster primaries.
  \<^item> \<open>Deploy_Commands\<close> (\<^verbatim>\<open>management/commands/redis_lua_lib.py\<close>, \<^verbatim>\<open>redis_lua_compat.py\<close>): both commands
    over every target, over the locales \<open>server_step\<close> and \<open>server_visit\<close> of what is done with one
    client, interpreted for deploying, checking, asking for compatibility and giving back the lock.
  \<^item> \<open>Run_Queues\<close> (\<^verbatim>\<open>management/commands/runqueues.py\<close>): the workers the command starts and
    their supervision, in which no worker ends unreported.

  \<^bold>\<open>Concurrency.\<close> What the code does under one lock, in one coroutine without suspension, or in one
  Lua function is one step. Reachability predicates are inductive over these steps, with the
  unlocked remainder of an operation kept in the state where it matters: an enqueue of an event is two
  steps with the ids in between kept (\<open>Memory_Events\<close>), publishing and activating an observer hand
  their unlocked halves on (\<open>Queue_Observers\<close>), a deployment is one step per command, with replies
  that are lost (\<open>Function_Deployment\<close>). Coarser than the code are a turn of an observer's dispatcher,
  which is one step with all its callbacks, and a run of the generic worker, which reads its clock
  once and is cancelled only while it waits for a handler or between its passes. Clock readings are
  taken in the order of the steps and do not run backwards.

  \<^bold>\<open>Bounds.\<close> No model uses fuel. Loops are structural or carry a termination proof; a claim loop
  runs at most once per pending id, as in the code; polling a Redis priority queue without a bound on
  the retries may wait for ever and is partial, with its return proved for every bound. Lifetimes of events
  are at most \<open>2 ^ 29\<close> seconds unless their store raises. Instants are exact below \<open>2 ^ 33\<close> seconds,
  where a double of seconds determines its microseconds; remaining lifetimes below \<open>2 ^ 50\<close>
  microseconds; packed priority scores within the magnitude the provider admits.

  \<^bold>\<open>Parameters.\<close> The Redis server (laws in \<open>redis_server\<close> for the keys of entries, satisfied by
  \<open>map_redis\<close>, and in \<open>raw_server\<close> for the key of raw values, satisfied by \<open>map_raw_redis\<close>), the server's
  JSON codec (\<open>keeps_status\<close>, and \<open>encodes_plain\<close>: documents with finite numbers that nest at most 1000
  deep can be encoded; satisfied by \<open>exact_cjson\<close>, which rejects the others), the text codec of a queue and the
  text form of JSON, \<^verbatim>\<open>import_string\<close> and queue constructors of the registry, redis-py's reading of a
  URL, its hash slots and what opening and closing a client does, the servers and clusters a command
  reaches with the faults of their calls, readings of clocks, fresh identifiers, handlers, listeners
  and callbacks. Each is an argument, and witnesses instantiate it.

  \<^bold>\<open>Not modelled.\<close> Sockets (network I/O of a third-party client; what its calls raise and the messages
  delivered are arguments); signals, and disposing of all queues (glue around modelled
  parts); stopping an observer's dispatcher and discarding the observers of an alias (test teardown);
  \<^verbatim>\<open>aclear_records\<close>, which deletes what a scan of the server finds for the demonstration; the methods
  that only run another one synchronously, whose bridge is modelled once; logging and the text of
  messages; the demonstration applications.
\<close>

section \<open>Times and records across the components\<close>

text \<open>
  C35. A Redis-calibrated clock, however it was used before and whatever the server answers,
  never reports an instant more than three minutes away from the local clock.
\<close>

theorem redis_clock_drift_bounded:
  assumes "clock_reachable c" "clock_ok utc" "redis_anow m (read_calibration l r m') utc c = (Inr t, c')"
  shows "\<bar>total_microseconds t - total_microseconds utc\<bar> \<le> 180 * MICROSECONDS_PER_SECOND"
proof (cases "rc_offset c")
  case None
  then obtain cal where "read_calibration l r m' = Inr cal" "clock_add utc (PyFloat (Fin (fst cal))) = Inr t"
    using assms(3) by (auto simp: redis_anow_def split: sum.splits)
  then show ?thesis using drift_micros[OF read_calibration_bound] assms(2) by blast
next
  case (Some off)
  then have "\<bar>off\<bar> \<le> 180" "clock_add utc (PyFloat (Fin off)) = Inr t"
    using clock_reachable_inv[OF assms(1)] assms(3) by (auto simp: clock_inv_def redis_anow_def)
  then show ?thesis using drift_micros assms(2) by blast
qed

theorem redis_clock_drift_bounded_witness:
  "\<exists>t c'. redis_anow 0 (read_calibration (ClockTime 1001 0) (Some (PNum (PyInt 1060), PNum (PyInt 0))) 0) (ClockTime 1001 0)
       (redis_clock_init 60 True) = (Inr t, c') \<and>
     \<bar>total_microseconds t - total_microseconds (ClockTime 1001 0)\<bar> \<le> 180 * MICROSECONDS_PER_SECOND"
proof -
  let ?cal = "read_calibration (ClockTime 1001 0) (Some (PNum (PyInt 1060), PNum (PyInt 0))) 0"
  have "from_timeval (PNum (PyInt 1060)) (PNum (PyInt 0)) = Inr (ClockTime 1060 0)"
    by (simp add: from_timeval_def clock_post_init_def)
  then have cal: "?cal = Inr (59, 0)" by (simp add: read_calibration_def sample_claim(4))
  have "\<exists>t. clock_add (ClockTime 1001 0) (PyFloat (Fin (fl (of_int 59000000 / 1000000)))) = Inr t"
    by (subst clock_add_micros) (simp_all add: clock_ok_def total_microseconds_def)
  then obtain t where "clock_add (ClockTime 1001 0) (PyFloat (Fin 59)) = Inr t" using fl_of_int[of 59] by auto
  then have run: "redis_anow 0 ?cal (ClockTime 1001 0) (redis_clock_init 60 True) =
      (Inr t, set_calibration (59, 0) (redis_clock_init 60 True))"
    by (simp add: redis_anow_def redis_clock_init_def cal)
  have ok: "clock_ok (ClockTime 1001 0)" by (simp add: clock_ok_def)
  from redis_clock_drift_bounded[OF clock_reachable.reach_init ok run] run show ?thesis by blast
qed

text \<open>
  C33. Storing a valid entry on Redis (one that is not terminated, which the provider refuses) and
  looking it up gives the entry back, field by field,
  instants to the microsecond, whatever the server held before; payload, result and error come
  back as JSON normalises them (a tuple as a list, a key as a string), and unchanged if they are
  JSON documents. The entry's instants lie before the year 2242 (\<open>2 ^ 33\<close> seconds), and no
  dictionary in it has a float as a key.
\<close>

theorem redis_store_find_roundtrip:
  assumes "redis_server (rx_server X)" "entry_valid e" "entry_wire_times e" "qe_status e \<noteq> TERMINATED"
  shows "(\<exists>s'. rp_astore X e s = (Inr (), s') \<and> rp_afind X (qe_id e) s' = (Inr (json_normalised e), s')) \<and>
    (json_doc (qe_payload e) \<and> json_doc (qe_result e) \<and> json_doc (qe_error e) \<longrightarrow> json_normalised e = e)"
proof -
  obtain d where "wire e = Inr d" "from_dict d = Inr (json_normalised e)"
    using entry_wire_normalises[OF assms(2,3)] by (auto simp: bindR_Inr_iff)
  then show ?thesis using assms(1,4) json_normalised_doc[of e]
    by (simp add: rp_astore_def rp_afind_def bindE_lift redis_server.get_set)
qed

theorem redis_store_find_roundtrip_witness:
  "\<exists>s'. rp_astore sample_redis (sample_job\<lparr>qe_payload := PTuple [PNone, PBool True]\<rparr>) db_empty = (Inr (), s') \<and>
     rp_afind sample_redis (sample_id 1) s' = (Inr (sample_job\<lparr>qe_payload := PList [PNone, PBool True]\<rparr>), s')"
proof -
  let ?e = "sample_job\<lparr>qe_payload := PTuple [PNone, PBool True]\<rparr>"
  have "entry_wire_times ?e" by (simp add: entry_wire_times_def clock_ok_def sample_entry_def)
  moreover have "entry_valid ?e" using sample_entry_valid[of 60 "ClockTime 1000 0"] by (simp add: entry_valid_def)
  ultimately show ?thesis
    using redis_store_find_roundtrip[of sample_redis ?e db_empty] map_server.redis_server_axioms
    by (simp add: sample_entry_def json_normalised_def)
qed

end
